(* ===== verification/ESB_Prelude.thy ===== *)
theory ESB_Prelude
  imports Main "HOL-Library.Char_ord" "HOL-Library.List_Lexorder"
begin

text \<open>
  Shared vocabulary of the development: the ways C and C++ code of the repository can fail as
  values of a sum type, fixed-width integers as wrapped numbers, raw memory blocks with checked
  reads and writes, the allocator as a parameter, C strings, decimal printing, and the two
  associative containers of the C++ standard library.  The lemmas are declared into the
  collections \<open>width_simps\<close> (arithmetic that does not wrap), \<open>mem_simps\<close> (blocks) and
  \<open>res_simps\<close> (the result type), which the component theories hand to \<open>simp\<close> and \<open>auto\<close>.
\<close>

named_theorems width_simps \<open>fixed-width operations on values that are in range\<close>
named_theorems mem_simps \<open>checked reads and writes that succeed\<close>
named_theorems res_simps \<open>elimination of the result type\<close>

section \<open>Failure as a value\<close>

text \<open>
  \<open>OutOfMemory\<close> is a NULL result of an allocation that the code reports to its caller, or the C++
  exception \<^verbatim>\<open>std::bad_alloc\<close>.
  \<open>OutOfBounds\<close> is a read or write outside an object, \<open>NullDeref\<close> the use of a NULL pointer,
  \<open>AssertFailed\<close> a failed \<^verbatim>\<open>assert\<close>, \<open>OutOfRange\<close> the C++ exception of \<^verbatim>\<open>at()\<close>, \<open>UseAfterFree\<close> the use
  of an object after its release, and \<open>Uninitialised\<close> the use of a variable without a value.
\<close>

datatype c_error = OutOfMemory | OutOfBounds | NullDeref | AssertFailed | OutOfRange | UseAfterFree | Uninitialised

type_synonym 'a res = "c_error + 'a"

definition bind_res :: "'a res \<Rightarrow> ('a \<Rightarrow> 'b res) \<Rightarrow> 'b res" where
  "bind_res m f = (case m of Inl e \<Rightarrow> Inl e | Inr x \<Rightarrow> f x)"

definition check_res :: "bool \<Rightarrow> c_error \<Rightarrow> 'a res \<Rightarrow> 'a res" where
  "check_res b e m = (if b then m else Inl e)"

fun fold_res :: "('a \<Rightarrow> 's \<Rightarrow> 's res) \<Rightarrow> 'a list \<Rightarrow> 's \<Rightarrow> 's res" where
  "fold_res f [] s = Inr s"
| "fold_res f (x # xs) s = bind_res (f x s) (fold_res f xs)"

lemma bind_res_simps [simp, res_simps]:
  "bind_res (Inr x) f = f x"
  "bind_res (Inl e) f = Inl e"
  by (simp_all add: bind_res_def)

lemma bind_res_cong [fundef_cong]:
  "m = m' \<Longrightarrow> (\<And>x. m' = Inr x \<Longrightarrow> f x = g x) \<Longrightarrow> bind_res m f = bind_res m' g"
  by (cases m') (auto simp: bind_res_def)

lemma bind_res_Inr [res_simps]: "bind_res m f = Inr y \<longleftrightarrow> (\<exists>x. m = Inr x \<and> f x = Inr y)"
  by (cases m) auto

lemma bind_res_Inl: "bind_res m f = Inl e \<longleftrightarrow> m = Inl e \<or> (\<exists>x. m = Inr x \<and> f x = Inl e)"
  by (cases m) auto

lemma check_res_simps [simp, res_simps]:
  "check_res True e m = m"
  "check_res False e m = Inl e"
  by (simp_all add: check_res_def)

lemma check_res_Inr [res_simps]: "check_res b e m = Inr y \<longleftrightarrow> b \<and> m = Inr y"
  by (simp add: check_res_def)

lemma fold_res_append: "fold_res f (xs @ ys) s = bind_res (fold_res f xs s) (fold_res f ys)"
  by (induction xs arbitrary: s) (auto simp: bind_res_def split: sum.splits)

text \<open>An invariant that every successful step keeps is kept by the whole fold.\<close>

lemma fold_res_invariant:
  assumes "fold_res f xs s = Inr s'" and "I s"
    and "\<And>x s s'. x \<in> set xs \<Longrightarrow> f x s = Inr s' \<Longrightarrow> I s \<Longrightarrow> I s'"
  shows "I s'"
  using assms
proof (induction xs arbitrary: s)
  case Nil
  then show ?case by simp
next
  case (Cons x xs)
  from Cons.prems(1) obtain t where t: "f x s = Inr t" "fold_res f xs t = Inr s'"
    by (auto simp: bind_res_Inr)
  from Cons.prems(2,3) t(1) have "I t" by auto
  with Cons.IH [OF t(2)] Cons.prems(3) show ?case by auto
qed

text \<open>
  \<open>on_success P r\<close>: if \<open>r\<close> is a value, \<open>P\<close> holds of it.  The rules walk down a handler whose
  intermediate results do not matter for \<open>P\<close>.
\<close>

definition on_success :: "('a \<Rightarrow> bool) \<Rightarrow> 'a res \<Rightarrow> bool" where
  "on_success P r \<longleftrightarrow> (\<forall>x. r = Inr x \<longrightarrow> P x)"

lemma on_successD: "r = Inr x \<Longrightarrow> on_success P r \<Longrightarrow> P x"
  by (simp add: on_success_def)

lemma on_success_Inr: "P x \<Longrightarrow> on_success P (Inr x)"
  by (simp add: on_success_def)

lemma on_success_bind: "(\<And>x. on_success P (f x)) \<Longrightarrow> on_success P (bind_res m f)"
  by (auto simp: on_success_def bind_res_Inr)

lemma on_success_check: "on_success P m \<Longrightarrow> on_success P (check_res b e m)"
  by (auto simp: on_success_def check_res_Inr)

lemma on_success_if: "on_success P m \<Longrightarrow> on_success P n \<Longrightarrow> on_success P (if b then m else n)"
  by simp

lemma on_success_option:
  "on_success P m \<Longrightarrow> (\<And>x. on_success P (f x)) \<Longrightarrow> on_success P (case v of None \<Rightarrow> m | Some x \<Rightarrow> f x)"
  by (cases v) simp_all

lemma on_success_pair: "(\<And>x y. on_success P (f x y)) \<Longrightarrow> on_success P (case v of (x, y) \<Rightarrow> f x y)"
  by (cases v) simp

lemmas on_success_intros = on_success_Inr on_success_bind on_success_check on_success_if
  on_success_option on_success_pair

section \<open>Fixed-width integers\<close>

text \<open>
  The code is modelled on the LP64 data model: \<^verbatim>\<open>int\<close> has 32 bits, \<^verbatim>\<open>long\<close>, \<^verbatim>\<open>long long\<close>
  and \<^verbatim>\<open>size_t\<close> 64.  Signed values are \<open>int\<close>, unsigned ones \<open>nat\<close>; each conversion the code
  makes is written with one of these functions.  Signed overflow wraps, as it does under
  the two's complement code the compilers emit.
\<close>

definition i32 :: "int \<Rightarrow> int" where
  "i32 x = (x + 2147483648) mod 4294967296 - 2147483648"

definition i64 :: "int \<Rightarrow> int" where
  "i64 x = (x + 9223372036854775808) mod 18446744073709551616 - 9223372036854775808"

definition u32 :: "int \<Rightarrow> nat" where
  "u32 x = nat (x mod 4294967296)"

definition u64 :: "int \<Rightarrow> nat" where
  "u64 x = nat (x mod 18446744073709551616)"

definition INT_MAX :: int where
  "INT_MAX = 2147483647"

lemma i32_id [width_simps]: "- 2147483648 \<le> x \<Longrightarrow> x \<le> 2147483647 \<Longrightarrow> i32 x = x"
  by (simp add: i32_def)

lemma i64_id [width_simps]:
  "- 9223372036854775808 \<le> x \<Longrightarrow> x \<le> 9223372036854775807 \<Longrightarrow> i64 x = x"
  by (simp add: i64_def)

lemma u32_id [width_simps]: "0 \<le> x \<Longrightarrow> x < 4294967296 \<Longrightarrow> u32 x = nat x"
  by (simp add: u32_def)

lemma u64_id [width_simps]: "0 \<le> x \<Longrightarrow> x < 18446744073709551616 \<Longrightarrow> u64 x = nat x"
  by (simp add: u64_def)

lemma u64_int [width_simps]: "n < 18446744073709551616 \<Longrightarrow> u64 (int n) = n"
  by (simp add: u64_def)

lemma i32_range: "- 2147483648 \<le> i32 x \<and> i32 x \<le> 2147483647"
  by (simp add: i32_def)

lemma u32_bound: "u32 x < 4294967296"
  by (simp add: u32_def nat_less_iff)

lemma u64_bound: "u64 x < 18446744073709551616"
  by (simp add: u64_def nat_less_iff)

section \<open>Memory blocks\<close>

abbreviation NUL :: char where "NUL \<equiv> CHR 0x00"
abbreviation TAB :: char where "TAB \<equiv> CHR 0x09"
abbreviation LF :: char where "LF \<equiv> CHR 0x0A"
abbreviation CR :: char where "CR \<equiv> CHR 0x0D"

text \<open>
  A block is the list of the bytes of one object.  \<open>peek\<close> and \<open>poke\<close> are \<^verbatim>\<open>memcpy\<close> out of
  and into a block: they fail when they touch a byte outside it.
\<close>

definition peek :: "char list \<Rightarrow> nat \<Rightarrow> nat \<Rightarrow> char list res" where
  "peek blk off n = (if off + n \<le> length blk then Inr (take n (drop off blk)) else Inl OutOfBounds)"

definition poke :: "char list \<Rightarrow> nat \<Rightarrow> char list \<Rightarrow> char list res" where
  "poke blk off bs =
     (if off + length bs \<le> length blk
      then Inr (take off blk @ bs @ drop (off + length bs) blk) else Inl OutOfBounds)"

definition byte_at :: "char list \<Rightarrow> nat \<Rightarrow> char res" where
  "byte_at blk i = (if i < length blk then Inr (blk ! i) else Inl OutOfBounds)"

lemma peek_ok [mem_simps]: "off + n \<le> length blk \<Longrightarrow> peek blk off n = Inr (take n (drop off blk))"
  by (simp add: peek_def)

lemma poke_ok [mem_simps]:
  "off + length bs \<le> length blk \<Longrightarrow>
   poke blk off bs = Inr (take off blk @ bs @ drop (off + length bs) blk)"
  by (simp add: poke_def)

lemma poke_total: "off + length bs \<le> length blk \<Longrightarrow> \<exists>b. poke blk off bs = Inr b \<and> length b = length blk"
  by (auto simp: poke_def)

lemma byte_at_ok [mem_simps]: "i < length blk \<Longrightarrow> byte_at blk i = Inr (blk ! i)"
  by (simp add: byte_at_def)

text \<open>
  The allocator is a parameter: \<open>mem_ok\<close> says which request sizes it serves, \<open>mem_junk\<close> what
  an uninitialised byte at an offset reads as, and \<open>mem_slack\<close> how many bytes the block happens
  to have behind the requested ones; the C standard promises none, so a write there is a
  fault of the program, which goes unnoticed as long as the block has such bytes.
\<close>

record cmem =
  mem_ok :: "nat \<Rightarrow> bool"
  mem_junk :: "nat \<Rightarrow> char"
  mem_slack :: "nat \<Rightarrow> nat"

definition malloc :: "cmem \<Rightarrow> nat \<Rightarrow> char list option" where
  "malloc m n = (if mem_ok m n then Some (map (mem_junk m) [0..<n]) else None)"

definition realloc :: "cmem \<Rightarrow> char list \<Rightarrow> nat \<Rightarrow> char list option" where
  "realloc m old n =
     (if mem_ok m n then Some (take n old @ map (mem_junk m) [length old..<n]) else None)"

lemma malloc_Some: "malloc m n = Some blk \<Longrightarrow> length blk = n \<and> mem_ok m n"
  by (auto simp: malloc_def split: if_splits)

lemma malloc_ok [mem_simps]: "mem_ok m n \<Longrightarrow> malloc m n = Some (map (mem_junk m) [0..<n])"
  by (simp add: malloc_def)

lemma realloc_ok [mem_simps]:
  "mem_ok m n \<Longrightarrow> realloc m old n = Some (take n old @ map (mem_junk m) [length old..<n])"
  by (simp add: realloc_def)

text \<open>
  \<open>yields m r P\<close>: the computation \<open>r\<close> under the allocator \<open>m\<close> returns a value with \<open>P\<close>, or
  reports that memory is exhausted and the allocator did refuse a request.  It excludes every
  other failure, so it is total correctness and memory safety in one; the rules below compose
  it along \<open>bind_res\<close>.
\<close>

definition yields :: "cmem \<Rightarrow> 'a res \<Rightarrow> ('a \<Rightarrow> bool) \<Rightarrow> bool" where
  "yields m r P \<longleftrightarrow> (case r of Inr x \<Rightarrow> P x | Inl e \<Rightarrow> e = OutOfMemory \<and> (\<exists>n. \<not> mem_ok m n))"

lemma yields_Inr [simp]: "yields m (Inr x) P \<longleftrightarrow> P x"
  by (simp add: yields_def)

lemma yields_bind: "yields m r P \<Longrightarrow> (\<And>x. P x \<Longrightarrow> yields m (f x) Q) \<Longrightarrow> yields m (bind_res r f) Q"
  by (cases r) (auto simp: yields_def)

lemma yields_mono: "yields m r P \<Longrightarrow> (\<And>x. P x \<Longrightarrow> Q x) \<Longrightarrow> yields m r Q"
  by (cases r) (auto simp: yields_def)

lemma yields_malloc:
  "(\<And>blk. length blk = n \<Longrightarrow> yields m (f blk) Q) \<Longrightarrow>
   yields m (case malloc m n of None \<Rightarrow> Inl OutOfMemory | Some blk \<Rightarrow> f blk) Q"
  by (auto simp: malloc_def yields_def)

lemma yields_realloc:
  "(\<And>junk. length junk = n - length old \<Longrightarrow> yields m (f (take n old @ junk)) Q) \<Longrightarrow>
   yields m (case realloc m old n of None \<Rightarrow> Inl OutOfMemory | Some blk \<Rightarrow> f blk) Q"
  by (auto simp: realloc_def yields_def)

lemma yields_poke:
  "off + length bs \<le> length blk \<Longrightarrow>
   yields m (poke blk off bs) (\<lambda>b. b = take off blk @ bs @ drop (off + length bs) blk)"
  by (simp add: poke_def)

lemma yields_peek:
  "off + n \<le> length blk \<Longrightarrow> yields m (peek blk off n) (\<lambda>b. b = take n (drop off blk))"
  by (simp add: peek_def)

lemma yields_succeeds:
  "yields m r P \<Longrightarrow> (\<And>n. mem_ok m n) \<Longrightarrow> \<exists>x. r = Inr x \<and> P x"
  by (cases r) (auto simp: yields_def)

lemma yields_InrD: "yields m r P \<Longrightarrow> r = Inr x \<Longrightarrow> P x"
  by simp

section \<open>C strings and decimal numbers\<close>

text \<open>The bytes of a block up to its first NUL: what \<^verbatim>\<open>strlen\<close>, \<^verbatim>\<open>strcmp\<close> and \<^verbatim>\<open>%s\<close> see.\<close>

definition c_str :: "char list \<Rightarrow> string" where
  "c_str s = takeWhile (\<lambda>c. c \<noteq> NUL) s"

definition no_nul :: "char list \<Rightarrow> bool" where
  "no_nul s \<longleftrightarrow> NUL \<notin> set s"

lemma c_str_id [simp]: "no_nul s \<Longrightarrow> c_str s = s"
  by (auto simp: c_str_def no_nul_def takeWhile_eq_all_conv)

lemma c_str_append_NUL [simp]: "c_str (s @ NUL # t) = c_str s"
  by (induction s) (auto simp: c_str_def)

lemma no_nul_c_str [simp]: "no_nul (c_str s)"
  using set_takeWhileD by (fastforce simp: c_str_def no_nul_def)

lemma c_str_idem [simp]: "c_str (c_str s) = c_str s"
  by simp

lemma c_str_take: "NUL \<in> set (take j s) \<Longrightarrow> c_str (take j s) = c_str s"
  unfolding c_str_def by (subst (2) append_take_drop_id [of j s, symmetric]) (simp only: takeWhile_append1)

lemma length_c_str: "length (c_str s) \<le> length s"
  by (simp add: c_str_def length_takeWhile_le)

text \<open>\<^verbatim>\<open>strlen\<close> runs off a block that holds no NUL.\<close>

definition c_strlen :: "char list \<Rightarrow> nat res" where
  "c_strlen blk = (if NUL \<in> set blk then Inr (length (c_str blk)) else Inl OutOfBounds)"

lemma c_strlen_append_NUL [simp]: "c_strlen (s @ NUL # t) = Inr (length (c_str s))"
  by (simp add: c_strlen_def)

definition digit :: "nat \<Rightarrow> char" where
  "digit d = char_of (48 + d)"

fun dec_nat :: "nat \<Rightarrow> string" where
  "dec_nat n = (if n < 10 then [digit n] else dec_nat (n div 10) @ [digit (n mod 10)])"

declare dec_nat.simps [simp del]

text \<open>The output of \<^verbatim>\<open>%d\<close> and \<^verbatim>\<open>%i\<close>.\<close>

definition dec_int :: "int \<Rightarrow> string" where
  "dec_int i = (if i < 0 then CHR ''-'' # dec_nat (nat (- i)) else dec_nat (nat i))"

definition is_digit :: "char \<Rightarrow> bool" where
  "is_digit c \<longleftrightarrow> 48 \<le> (of_char c :: nat) \<and> (of_char c :: nat) \<le> 57"

lemma of_char_digit [simp]: "d < 10 \<Longrightarrow> (of_char (digit d) :: nat) = 48 + d"
  by (simp add: digit_def of_char_of)

lemma is_digit_digit [simp]: "d < 10 \<Longrightarrow> is_digit (digit d)"
  by (simp add: is_digit_def)

lemma dec_nat_eval:
  "n < 10 \<Longrightarrow> dec_nat n = [digit n]"
  "10 \<le> n \<Longrightarrow> dec_nat n = dec_nat (n div 10) @ [digit (n mod 10)]"
  by (subst dec_nat.simps, simp)+

lemma dec_nat_nonempty [simp]: "dec_nat n \<noteq> []"
  by (subst dec_nat.simps) simp

lemma dec_nat_digits: "\<forall>c \<in> set (dec_nat n). is_digit c"
proof (induction n rule: dec_nat.induct)
  case (1 n)
  then show ?case by (subst dec_nat.simps) auto
qed

lemma is_digit_not_special:
  "is_digit c \<Longrightarrow> c \<noteq> CR \<and> c \<noteq> LF \<and> c \<noteq> NUL \<and> c \<noteq> CHR ''-'' \<and> c \<noteq> CHR ''+''"
  by (auto simp: is_digit_def)

lemma dec_nat_hd: "is_digit (hd (dec_nat n))"
  using dec_nat_digits [of n] by (meson dec_nat_nonempty hd_in_set)

section \<open>The associative containers\<close>

text \<open>
  \<^verbatim>\<open>std::unordered_map\<close> is an association list with distinct keys: the list is the order in
  which the container is iterated.  A new key is put at the end; the standard leaves the order
  open, so results are stated over \<open>map_of\<close> and over sets.  \<open>um_insert\<close> is \<^verbatim>\<open>insert\<close>,
  which keeps an existing binding; \<open>um_put\<close> is assignment through \<^verbatim>\<open>operator[]\<close>;
  \<open>um_touch\<close> is a read through \<^verbatim>\<open>operator[]\<close>, which creates a missing binding.
\<close>

type_synonym ('k, 'v) umap = "('k \<times> 'v) list"

definition um_keys :: "('k, 'v) umap \<Rightarrow> 'k list" where
  "um_keys m = map fst m"

definition um_wf :: "('k, 'v) umap \<Rightarrow> bool" where
  "um_wf m \<longleftrightarrow> distinct (um_keys m)"

definition um_insert :: "'k \<Rightarrow> 'v \<Rightarrow> ('k, 'v) umap \<Rightarrow> ('k, 'v) umap" where
  "um_insert k v m = (case map_of m k of None \<Rightarrow> m @ [(k, v)] | Some _ \<Rightarrow> m)"

fun um_put :: "'k \<Rightarrow> 'v \<Rightarrow> ('k, 'v) umap \<Rightarrow> ('k, 'v) umap" where
  "um_put k v [] = [(k, v)]"
| "um_put k v ((k', v') # m) = (if k = k' then (k, v) # m else (k', v') # um_put k v m)"

definition um_touch :: "'k \<Rightarrow> 'v \<Rightarrow> ('k, 'v) umap \<Rightarrow> ('k, 'v) umap" where
  "um_touch k dflt m = um_insert k dflt m"

definition um_get :: "'v \<Rightarrow> ('k, 'v) umap \<Rightarrow> 'k \<Rightarrow> 'v" where
  "um_get dflt m k = (case map_of m k of None \<Rightarrow> dflt | Some v \<Rightarrow> v)"

definition um_erase :: "'k \<Rightarrow> ('k, 'v) umap \<Rightarrow> ('k, 'v) umap" where
  "um_erase k m = filter (\<lambda>p. fst p \<noteq> k) m"

lemma map_of_um_insert [simp]:
  "map_of (um_insert k v m) = (\<lambda>x. if x = k \<and> map_of m k = None then Some v else map_of m x)"
  by (auto simp: um_insert_def map_add_def fun_eq_iff split: option.splits)

lemma map_of_um_put [simp]: "map_of (um_put k v m) = (map_of m)(k \<mapsto> v)"
  by (induction m) (auto simp: fun_eq_iff)

lemma map_of_um_erase [simp]: "map_of (um_erase k m) = (map_of m)(k := None)"
  by (induction m) (auto simp: um_erase_def fun_eq_iff)

lemma set_um_keys: "set (um_keys m) = dom (map_of m)"
  by (simp add: um_keys_def dom_map_of_conv_image_fst)

lemma um_wf_Nil [simp]: "um_wf []"
  by (simp add: um_wf_def um_keys_def)

lemma um_wf_insert [simp]: "um_wf m \<Longrightarrow> um_wf (um_insert k v m)"
  by (auto simp: um_wf_def um_keys_def um_insert_def map_of_eq_None_iff split: option.splits)

lemma um_keys_put: "um_keys (um_put k v m) = (if k \<in> set (um_keys m) then um_keys m else um_keys m @ [k])"
  by (induction k v m rule: um_put.induct) (simp_all add: um_keys_def)

lemma um_wf_put [simp]: "um_wf m \<Longrightarrow> um_wf (um_put k v m)"
  by (auto simp: um_wf_def um_keys_put)

lemma um_wf_erase [simp]: "um_wf m \<Longrightarrow> um_wf (um_erase k m)"
  by (induction m) (auto simp: um_wf_def um_keys_def um_erase_def)

text \<open>\<^verbatim>\<open>std::map\<close>: the list is sorted by key.\<close>

fun sm_put :: "'k::linorder \<Rightarrow> 'v \<Rightarrow> ('k \<times> 'v) list \<Rightarrow> ('k \<times> 'v) list" where
  "sm_put k v [] = [(k, v)]"
| "sm_put k v ((k', v') # m) =
     (if k < k' then (k, v) # (k', v') # m
      else if k = k' then (k, v) # m
      else (k', v') # sm_put k v m)"

lemma map_of_sm_put [simp]: "map_of (sm_put k v m) = (map_of m)(k \<mapsto> v)"
  by (induction m) (auto simp: fun_eq_iff)

lemma sm_keys_put: "fst ` set (sm_put k v m) = insert k (fst ` set m)"
  by (induction k v m rule: sm_put.induct) (simp_all add: insert_commute)

lemma sm_put_sorted: "sorted_wrt (<) (map fst m) \<Longrightarrow> sorted_wrt (<) (map fst (sm_put k v m))"
proof (induction k v m rule: sm_put.induct)
  case (2 k v k' v' m)
  have "set (map fst (sm_put k v m)) = insert k (set (map fst m))"
    by (simp add: sm_keys_put)
  with 2 show ?case
    by (auto simp del: set_map)
qed simp

section \<open>Invariants of step relations\<close>

text \<open>
  The contract of every component with state: its start states satisfy the invariant and each
  of its steps keeps it.  The client gets the invariant in every state that is reached.
\<close>

locale invariant_system =
  fixes start :: "'s \<Rightarrow> bool" and step :: "'s \<Rightarrow> 's \<Rightarrow> bool" and inv :: "'s \<Rightarrow> bool"
  assumes start_inv: "start s \<Longrightarrow> inv s"
    and step_inv: "step s t \<Longrightarrow> inv s \<Longrightarrow> inv t"
begin

lemma steps_inv: "step\<^sup>*\<^sup>* s t \<Longrightarrow> inv s \<Longrightarrow> inv t"
  by (induction rule: rtranclp_induct) (auto intro: step_inv)

lemma reached_inv: "start s \<Longrightarrow> step\<^sup>*\<^sup>* s t \<Longrightarrow> inv t"
  by (blast intro: steps_inv start_inv)

end

end
