(* ===== verification/Dict.thy ===== *)
theory Dict
  imports ESB_Prelude "HOL-Library.Multiset" "HOL-Library.Word"
begin

unbundle bit_operations_syntax

text \<open>
  The chained hash table of the client library (\<^verbatim>\<open>src/src/deps/hiredis/dict.c\<close>, \<^verbatim>\<open>dict.h\<close>).
  A bucket is the list of its entries in the order of the \<^verbatim>\<open>next\<close> pointers.  The results of
  \<^verbatim>\<open>malloc\<close> and \<^verbatim>\<open>calloc\<close> are used without a check in the code, so a refused request shows
  as the use of a NULL pointer.  The abstract specification is a finite map; the locale
  \<open>map_table\<close> states it, and its interpretation is the refinement proof.
\<close>

section \<open>Data\<close>

abbreviation (input) DICT_OK :: int where "DICT_OK \<equiv> 0"
abbreviation (input) DICT_ERR :: int where "DICT_ERR \<equiv> 1"
abbreviation (input) DICT_HT_INITIAL_SIZE :: nat where "DICT_HT_INITIAL_SIZE \<equiv> 4"

text \<open>The callbacks; an absent one is \<open>None\<close>, a destructor is only present or not.\<close>

record ('k, 'v) dictType =
  hashFunction :: "'k \<Rightarrow> nat"
  keyDup :: "('k \<Rightarrow> 'k) option"
  valDup :: "('v \<Rightarrow> 'v) option"
  keyCompare :: "('k \<Rightarrow> 'k \<Rightarrow> bool) option"
  keyDestructor :: bool
  valDestructor :: bool

text \<open>
  \<open>d_table\<close> is \<open>None\<close> for NULL.  \<open>d_freedKeys\<close> and \<open>d_freedVals\<close> record the calls of the
  destructors.
\<close>

record ('k, 'v) dict =
  d_table :: "('k \<times> 'v) list list option"
  d_size :: nat
  d_sizemask :: nat
  d_used :: nat
  d_freedKeys :: "'k list"
  d_freedVals :: "'v list"

section \<open>Operations\<close>

text \<open>Bernstein's hash, on \<^verbatim>\<open>unsigned int\<close>.\<close>

fun dictGenHash_loop :: "nat \<Rightarrow> char list \<Rightarrow> nat" where
  "dictGenHash_loop hash [] = hash"
| "dictGenHash_loop hash (c # cs) = dictGenHash_loop ((hash * 32 + hash + of_char c) mod 4294967296) cs"

definition dictGenHashFunction :: "char list \<Rightarrow> nat" where
  "dictGenHashFunction buf = dictGenHash_loop 5381 buf"

definition dictHashKey :: "('k, 'v) dictType \<Rightarrow> 'k \<Rightarrow> nat" where
  "dictHashKey ty k = u32 (int (hashFunction ty k))"

definition dictCompareHashKeys :: "('k, 'v) dictType \<Rightarrow> 'k \<Rightarrow> 'k \<Rightarrow> bool" where
  "dictCompareHashKeys ty k1 k2 = (case keyCompare ty of Some f \<Rightarrow> f k1 k2 | None \<Rightarrow> k1 = k2)"

definition dictSetHashKey :: "('k, 'v) dictType \<Rightarrow> 'k \<Rightarrow> 'k" where
  "dictSetHashKey ty k = (case keyDup ty of Some f \<Rightarrow> f k | None \<Rightarrow> k)"

definition dictSetHashVal :: "('k, 'v) dictType \<Rightarrow> 'v \<Rightarrow> 'v" where
  "dictSetHashVal ty v = (case valDup ty of Some f \<Rightarrow> f v | None \<Rightarrow> v)"

definition dictFreeEntryKey :: "('k, 'v) dictType \<Rightarrow> 'k \<Rightarrow> ('k, 'v) dict \<Rightarrow> ('k, 'v) dict" where
  "dictFreeEntryKey ty k ht = (if keyDestructor ty then ht\<lparr>d_freedKeys := d_freedKeys ht @ [k]\<rparr> else ht)"

definition dictFreeEntryVal :: "('k, 'v) dictType \<Rightarrow> 'v \<Rightarrow> ('k, 'v) dict \<Rightarrow> ('k, 'v) dict" where
  "dictFreeEntryVal ty v ht = (if valDestructor ty then ht\<lparr>d_freedVals := d_freedVals ht @ [v]\<rparr> else ht)"

definition dictReset :: "('k, 'v) dict \<Rightarrow> ('k, 'v) dict" where
  "dictReset ht = ht\<lparr>d_table := None, d_size := 0, d_sizemask := 0, d_used := 0\<rparr>"

definition dictCreate :: "cmem \<Rightarrow> ('k, 'v) dict res" where
  "dictCreate m =
     check_res (mem_ok m 48) NullDeref
       (Inr \<lparr>d_table = None, d_size = 0, d_sizemask = 0, d_used = 0, d_freedKeys = [], d_freedVals = []\<rparr>)"

text \<open>
  \<^verbatim>\<open>_dictNextPower\<close>: \<open>k\<close> is the number of doublings, so \<open>i\<close> is \<open>4 * 2 ^ k\<close>; the loop ends
  before \<open>i\<close> could wrap, see \<open>next_power_no_wrap\<close>.
\<close>

function next_power_loop :: "nat \<Rightarrow> nat \<Rightarrow> nat" where
  "next_power_loop sz k =
     (if DICT_HT_INITIAL_SIZE * 2 ^ k \<ge> sz then DICT_HT_INITIAL_SIZE * 2 ^ k
      else next_power_loop sz (Suc k))"
  by pat_completeness auto
termination
proof (relation "measure (\<lambda>(sz, k). sz - k)")
  fix sz k :: nat
  assume "\<not> DICT_HT_INITIAL_SIZE * 2 ^ k \<ge> sz"
  moreover have "k < 2 ^ k" by (rule less_exp)
  ultimately have "k < sz" by linarith
  then show "((sz, Suc k), (sz, k)) \<in> measure (\<lambda>(sz, k). sz - k)" by simp
qed simp

declare next_power_loop.simps [simp del]

definition dictNextPower :: "nat \<Rightarrow> nat" where
  "dictNextPower sz = (if sz \<ge> 9223372036854775807 then 9223372036854775807 else next_power_loop sz 0)"

definition slot_of :: "('k, 'v) dictType \<Rightarrow> nat \<Rightarrow> 'k \<Rightarrow> nat" where
  "slot_of ty sizemask k = u32 (int (dictHashKey ty k AND sizemask))"

text \<open>The two loops of \<^verbatim>\<open>dictExpand\<close>: over a chain of the old table, and over its slots.\<close>

fun rehash_chain :: "('k, 'v) dictType \<Rightarrow> nat \<Rightarrow> ('k \<times> 'v) list \<Rightarrow>
    ('k \<times> 'v) list list option \<Rightarrow> nat \<Rightarrow> (('k \<times> 'v) list list option \<times> nat) res" where
  "rehash_chain ty sizemask [] tbl used = Inr (tbl, used)"
| "rehash_chain ty sizemask (he # rest) tbl used =
     (case tbl of
        None \<Rightarrow> Inl NullDeref
      | Some t \<Rightarrow>
          let h = slot_of ty sizemask (fst he) in
          check_res (h < length t) OutOfBounds
            (rehash_chain ty sizemask rest (Some (t[h := he # t ! h])) (u64 (int used - 1))))"

fun rehash_slots :: "('k, 'v) dictType \<Rightarrow> nat \<Rightarrow> ('k \<times> 'v) list list \<Rightarrow>
    ('k \<times> 'v) list list option \<Rightarrow> nat \<Rightarrow> (('k \<times> 'v) list list option \<times> nat) res" where
  "rehash_slots ty sizemask [] tbl used = Inr (tbl, used)"
| "rehash_slots ty sizemask (c # cs) tbl used =
     (if used > 0
      then bind_res (rehash_chain ty sizemask c tbl used) (\<lambda>(tbl, used). rehash_slots ty sizemask cs tbl used)
      else Inr (tbl, used))"

definition dictExpand :: "cmem \<Rightarrow> ('k, 'v) dictType \<Rightarrow> nat \<Rightarrow> ('k, 'v) dict \<Rightarrow> (int \<times> ('k, 'v) dict) res" where
  "dictExpand m ty sz ht =
     (let realsize = dictNextPower sz in
      if d_used ht > sz then Inr (DICT_ERR, ht)
      else
        check_res (d_table ht \<noteq> None \<or> d_size ht = 0 \<or> d_used ht = 0) NullDeref
          (bind_res (rehash_slots ty (realsize - 1)
                       (case d_table ht of None \<Rightarrow> [] | Some t \<Rightarrow> take (d_size ht) t)
                       (if mem_ok m (8 * realsize) then Some (replicate realsize []) else None)
                       (d_used ht))
             (\<lambda>(tbl, used).
                check_res (used = 0) AssertFailed
                  (Inr (DICT_OK, ht\<lparr>d_table := tbl, d_size := realsize, d_sizemask := realsize - 1\<rparr>)))))"

definition dictExpandIfNeeded :: "cmem \<Rightarrow> ('k, 'v) dictType \<Rightarrow> ('k, 'v) dict \<Rightarrow> (int \<times> ('k, 'v) dict) res" where
  "dictExpandIfNeeded m ty ht =
     (if d_size ht = 0 then dictExpand m ty DICT_HT_INITIAL_SIZE ht
      else if d_used ht = d_size ht then dictExpand m ty (u64 (int (d_size ht) * 2)) ht
      else Inr (DICT_OK, ht))"

text \<open>The walk along a chain for a key.\<close>

fun find_chain :: "('k, 'v) dictType \<Rightarrow> 'k \<Rightarrow> ('k \<times> 'v) list \<Rightarrow> ('k \<times> 'v) option" where
  "find_chain ty key [] = None"
| "find_chain ty key (he # rest) =
     (if dictCompareHashKeys ty key (fst he) then Some he else find_chain ty key rest)"

definition slot_chain :: "('k, 'v) dict \<Rightarrow> nat \<Rightarrow> ('k \<times> 'v) list res" where
  "slot_chain ht h =
     (case d_table ht of
        None \<Rightarrow> Inl NullDeref
      | Some t \<Rightarrow> if h < length t then Inr (t ! h) else Inl OutOfBounds)"

definition set_slot :: "nat \<Rightarrow> ('k \<times> 'v) list \<Rightarrow> ('k, 'v) dict \<Rightarrow> ('k, 'v) dict" where
  "set_slot h c ht = ht\<lparr>d_table := map_option (\<lambda>t. t[h := c]) (d_table ht)\<rparr>"

text \<open>\<^verbatim>\<open>_dictKeyIndex\<close> returns an \<^verbatim>\<open>int\<close>; \<open>-1\<close> says that the key exists.\<close>

definition dictKeyIndex :: "cmem \<Rightarrow> ('k, 'v) dictType \<Rightarrow> 'k \<Rightarrow> ('k, 'v) dict \<Rightarrow> (int \<times> ('k, 'v) dict) res" where
  "dictKeyIndex m ty key ht =
     bind_res (dictExpandIfNeeded m ty ht) (\<lambda>(rc, ht).
       if rc = DICT_ERR then Inr (-1, ht)
       else
         let h = slot_of ty (d_sizemask ht) key in
         bind_res (slot_chain ht h) (\<lambda>c.
           if find_chain ty key c \<noteq> None then Inr (-1, ht) else Inr (i32 (int h), ht)))"

definition dictAdd :: "cmem \<Rightarrow> ('k, 'v) dictType \<Rightarrow> 'k \<Rightarrow> 'v \<Rightarrow> ('k, 'v) dict \<Rightarrow> (int \<times> ('k, 'v) dict) res" where
  "dictAdd m ty key val ht =
     bind_res (dictKeyIndex m ty key ht) (\<lambda>(index, ht).
       if index = -1 then Inr (DICT_ERR, ht)
       else
         check_res (mem_ok m 24) NullDeref
           (check_res (index \<ge> 0) OutOfBounds
             (bind_res (slot_chain ht (nat index)) (\<lambda>c.
                Inr (DICT_OK, (set_slot (nat index) ((dictSetHashKey ty key, dictSetHashVal ty val) # c) ht)
                       \<lparr>d_used := u64 (int (d_used ht) + 1)\<rparr>)))))"

definition dictFind :: "('k, 'v) dictType \<Rightarrow> 'k \<Rightarrow> ('k, 'v) dict \<Rightarrow> ('k \<times> 'v) option res" where
  "dictFind ty key ht =
     (if d_size ht = 0 then Inr None
      else bind_res (slot_chain ht (slot_of ty (d_sizemask ht) key)) (\<lambda>c. Inr (find_chain ty key c)))"

text \<open>The assignment through the entry that \<^verbatim>\<open>dictFind\<close> returned: the first match of the chain.\<close>

fun set_val :: "('k, 'v) dictType \<Rightarrow> 'k \<Rightarrow> 'v \<Rightarrow> ('k \<times> 'v) list \<Rightarrow> ('k \<times> 'v) list" where
  "set_val ty key val [] = []"
| "set_val ty key val (he # rest) =
     (if dictCompareHashKeys ty key (fst he) then (fst he, val) # rest
      else he # set_val ty key val rest)"

definition dictReplace :: "cmem \<Rightarrow> ('k, 'v) dictType \<Rightarrow> 'k \<Rightarrow> 'v \<Rightarrow> ('k, 'v) dict \<Rightarrow> (int \<times> ('k, 'v) dict) res" where
  "dictReplace m ty key val ht =
     bind_res (dictAdd m ty key val ht) (\<lambda>(rc, ht).
       if rc = DICT_OK then Inr (1, ht)
       else
         bind_res (dictFind ty key ht) (\<lambda>entry.
           case entry of
             None \<Rightarrow> Inl NullDeref
           | Some auxentry \<Rightarrow>
               let h = slot_of ty (d_sizemask ht) key in
               bind_res (slot_chain ht h) (\<lambda>c.
                 Inr (0, dictFreeEntryVal ty (snd auxentry)
                           (set_slot h (set_val ty key (dictSetHashVal ty val) c) ht)))))"

fun unlink_chain :: "('k, 'v) dictType \<Rightarrow> 'k \<Rightarrow> ('k \<times> 'v) list \<Rightarrow> ('k \<times> 'v) list" where
  "unlink_chain ty key [] = []"
| "unlink_chain ty key (de # rest) =
     (if dictCompareHashKeys ty key (fst de) then rest else de # unlink_chain ty key rest)"

definition dictDelete :: "('k, 'v) dictType \<Rightarrow> 'k \<Rightarrow> ('k, 'v) dict \<Rightarrow> (int \<times> ('k, 'v) dict) res" where
  "dictDelete ty key ht =
     (if d_size ht = 0 then Inr (DICT_ERR, ht)
      else
        let h = slot_of ty (d_sizemask ht) key in
        bind_res (slot_chain ht h) (\<lambda>c.
          case find_chain ty key c of
            None \<Rightarrow> Inr (DICT_ERR, ht)
          | Some de \<Rightarrow>
              Inr (DICT_OK, (dictFreeEntryVal ty (snd de) (dictFreeEntryKey ty (fst de)
                     (set_slot h (unlink_chain ty key c) ht)))\<lparr>d_used := u64 (int (d_used ht) - 1)\<rparr>)))"

text \<open>\<^verbatim>\<open>_dictClear\<close>: the loop over the slots stops when \<^verbatim>\<open>used\<close> is zero.\<close>

fun clear_chain :: "('k, 'v) dictType \<Rightarrow> ('k \<times> 'v) list \<Rightarrow> ('k, 'v) dict \<Rightarrow> ('k, 'v) dict" where
  "clear_chain ty [] ht = ht"
| "clear_chain ty (he # rest) ht =
     clear_chain ty rest
       ((dictFreeEntryVal ty (snd he) (dictFreeEntryKey ty (fst he) ht))\<lparr>d_used := u64 (int (d_used ht) - 1)\<rparr>)"

fun clear_slots :: "('k, 'v) dictType \<Rightarrow> ('k \<times> 'v) list list \<Rightarrow> ('k, 'v) dict \<Rightarrow> ('k, 'v) dict" where
  "clear_slots ty [] ht = ht"
| "clear_slots ty (c # cs) ht = (if d_used ht > 0 then clear_slots ty cs (clear_chain ty c ht) else ht)"

definition dictClear :: "('k, 'v) dictType \<Rightarrow> ('k, 'v) dict \<Rightarrow> (int \<times> ('k, 'v) dict) res" where
  "dictClear ty ht =
     check_res (d_table ht \<noteq> None \<or> d_size ht = 0 \<or> d_used ht = 0) NullDeref
       (Inr (DICT_OK, dictReset (clear_slots ty
          (case d_table ht of None \<Rightarrow> [] | Some t \<Rightarrow> take (d_size ht) t) ht)))"

section \<open>Iterator\<close>

text \<open>
  \<open>it_entry\<close> and \<open>it_nextEntry\<close> are the chains that start at the two pointers, empty for NULL.
  The saved next pointer lets the caller delete the entry it was given.
\<close>

record ('k, 'v) dictIterator =
  it_index :: int
  it_entry :: "('k \<times> 'v) list"
  it_nextEntry :: "('k \<times> 'v) list"

definition dictGetIterator :: "cmem \<Rightarrow> ('k, 'v) dictIterator res" where
  "dictGetIterator m = check_res (mem_ok m 32) NullDeref (Inr \<lparr>it_index = -1, it_entry = [], it_nextEntry = []\<rparr>)"

function dictNext :: "('k, 'v) dict \<Rightarrow> ('k, 'v) dictIterator \<Rightarrow>
    (('k \<times> 'v) option \<times> ('k, 'v) dictIterator) res" where
  "dictNext ht iter =
     (if it_entry iter = []
      then
        let index = it_index iter + 1 in
        if index \<ge> i32 (int (d_size ht)) then Inr (None, iter\<lparr>it_index := index\<rparr>)
        else if index < 0 then Inl OutOfBounds
        else bind_res (slot_chain ht (nat index)) (\<lambda>c.
          case c of
            [] \<Rightarrow> dictNext ht (iter\<lparr>it_index := index, it_entry := []\<rparr>)
          | he # nextHe \<Rightarrow> Inr (Some he, iter\<lparr>it_index := index, it_entry := c, it_nextEntry := nextHe\<rparr>))
      else
        case it_nextEntry iter of
          [] \<Rightarrow> dictNext ht (iter\<lparr>it_entry := []\<rparr>)
        | he # nextHe \<Rightarrow> Inr (Some he, iter\<lparr>it_entry := it_nextEntry iter, it_nextEntry := nextHe\<rparr>))"
  by pat_completeness auto
termination
  by (relation "measures [\<lambda>(ht, iter). nat (i32 (int (d_size ht)) - it_index iter),
      \<lambda>(ht, iter). length (it_entry iter)]") auto

declare dictNext.simps [simp del]

text \<open>The use of an iterator: \<^verbatim>\<open>while ((de = dictNext(it)) != NULL)\<close>, at most \<open>n\<close> calls.\<close>

fun iterate :: "nat \<Rightarrow> ('k, 'v) dict \<Rightarrow> ('k, 'v) dictIterator \<Rightarrow> ('k \<times> 'v) list option res" where
  "iterate 0 ht iter = Inr None"
| "iterate (Suc n) ht iter =
     bind_res (dictNext ht iter) (\<lambda>(de, iter).
       case de of None \<Rightarrow> Inr (Some [])
       | Some e \<Rightarrow> bind_res (iterate n ht iter) (\<lambda>r. Inr (map_option ((#) e) r)))"

section \<open>Invariant and abstraction\<close>

text \<open>The callbacks of a map from keys to values: equality, and copies that are equal.\<close>

definition dt_ok :: "('k, 'v) dictType \<Rightarrow> bool" where
  "dt_ok ty \<longleftrightarrow> (\<forall>a b. dictCompareHashKeys ty a b = (a = b)) \<and>
     (\<forall>k. dictSetHashKey ty k = k) \<and> (\<forall>v. dictSetHashVal ty v = v)"

definition entries :: "('k, 'v) dict \<Rightarrow> ('k \<times> 'v) list" where
  "entries ht = (case d_table ht of None \<Rightarrow> [] | Some t \<Rightarrow> concat t)"

definition dict_abs :: "('k, 'v) dict \<Rightarrow> 'k \<Rightarrow> 'v option" where
  "dict_abs ht = map_of (entries ht)"

definition placed :: "('k, 'v) dictType \<Rightarrow> nat \<Rightarrow> ('k \<times> 'v) list list \<Rightarrow> bool" where
  "placed ty n t \<longleftrightarrow> length t = n \<and> (\<forall>i < n. \<forall>e \<in> set (t ! i). dictHashKey ty (fst e) mod n = i)"

definition table_wf :: "('k, 'v) dictType \<Rightarrow> nat \<Rightarrow> ('k \<times> 'v) list list \<Rightarrow> ('k, 'v) dict \<Rightarrow> bool" where
  "table_wf ty k t ht \<longleftrightarrow> d_table ht = Some t \<and> d_size ht = 4 * 2 ^ k \<and> k \<le> 28 \<and>
     d_sizemask ht = 4 * 2 ^ k - 1 \<and> placed ty (4 * 2 ^ k) t \<and>
     d_used ht = length (concat t) \<and> d_used ht \<le> d_size ht \<and> distinct (map fst (concat t))"

text \<open>
  A table has no slots, or a power of two of them, at most \<open>2 ^ 30\<close>; each entry is in the slot of
  its key, no key occurs twice, and \<^verbatim>\<open>used\<close> counts the entries.
\<close>

definition dict_wf :: "('k, 'v) dictType \<Rightarrow> ('k, 'v) dict \<Rightarrow> bool" where
  "dict_wf ty ht \<longleftrightarrow>
     (d_table ht = None \<and> d_size ht = 0 \<and> d_sizemask ht = 0 \<and> d_used ht = 0) \<or>
     (\<exists>k t. table_wf ty k t ht)"

section \<open>Lemmas\<close>

lemma power_2_le: "k \<le> 28 \<Longrightarrow> (2::nat) ^ k \<le> 268435456"
  using power_increasing [of k 28 "2::nat"] by simp

lemma next_power_exact: "k \<ge> j \<Longrightarrow> next_power_loop (4 * 2 ^ k) j = 4 * 2 ^ k"
proof (induction "k - j" arbitrary: j)
  case 0
  then show ?case by (subst next_power_loop.simps) simp
next
  case (Suc n)
  then have "j < k" by simp
  then have "(2::nat) ^ j < 2 ^ k" by simp
  with Suc show ?case by (subst next_power_loop.simps) simp
qed

lemma dictNextPower_exact: "k \<le> 29 \<Longrightarrow> dictNextPower (4 * 2 ^ k) = 4 * 2 ^ k"
  using next_power_exact [of 0 k] power_increasing [of k 29 "2::nat"] by (simp add: dictNextPower_def)

text \<open>The loop never computes a value of \<open>2 ^ 64\<close> or more.\<close>

lemma next_power_no_wrap:
  "sz < 9223372036854775807 \<Longrightarrow> k \<le> 61 \<Longrightarrow> next_power_loop sz k \<le> 9223372036854775808"
proof (induction sz k rule: next_power_loop.induct)
  case (1 sz k)
  have le: "(2::nat) ^ k \<le> 2 ^ 61" using 1(3) by (rule power_increasing) simp
  show ?case
  proof (cases "4 * 2 ^ k \<ge> sz")
    case True
    then show ?thesis using le by (subst next_power_loop.simps) simp
  next
    case False
    then have "(2::nat) ^ k < 2 ^ 61" using 1(2) by simp
    then have "k < 61" by (rule power_less_imp_less_exp [rotated]) simp
    then have "Suc k \<le> 61" by simp
    with False 1 show ?thesis by (subst next_power_loop.simps) simp
  qed
qed

lemma slot_of_mod: "k \<le> 28 \<Longrightarrow> slot_of ty (4 * 2 ^ k - 1) key = dictHashKey ty key mod (4 * 2 ^ k)"
proof -
  assume k: "k \<le> 28"
  have "(4::nat) * 2 ^ k - 1 = mask (Suc (Suc k))"
    by (simp add: mask_eq_exp_minus_1)
  then have "dictHashKey ty key AND (4 * 2 ^ k - 1) = dictHashKey ty key mod (4 * 2 ^ k)"
    by (simp only: take_bit_eq_mask [symmetric] take_bit_eq_mod) simp
  moreover have "dictHashKey ty key mod (4 * 2 ^ k) < 4294967296"
  proof -
    have "dictHashKey ty key mod (4 * 2 ^ k) < 4 * 2 ^ k" by simp
    also have "\<dots> \<le> 1073741824" using power_2_le [OF k] by simp
    finally show ?thesis by simp
  qed
  ultimately show ?thesis by (simp add: slot_of_def u32_def)
qed

lemma mset_concat_update:
  "h < length t \<Longrightarrow> mset (concat (t[h := c])) + mset (t ! h) = mset (concat t) + mset c"
proof (induction t arbitrary: h)
  case (Cons x t)
  then show ?case by (cases h) (auto simp: ac_simps)
qed simp

lemma distinct_keys_mset: "mset xs = mset ys \<Longrightarrow> distinct (map fst xs) = distinct (map fst ys)"
  by (metis mset_map mset_eq_imp_distinct_iff)

lemma map_of_mset: "mset xs = mset ys \<Longrightarrow> distinct (map fst xs) \<Longrightarrow> map_of xs = map_of ys"
  by (metis distinct_keys_mset map_of_inject_set mset_eq_setD)

lemma placed_update:
  "placed ty n t \<Longrightarrow> h < n \<Longrightarrow> \<forall>e \<in> set c. dictHashKey ty (fst e) mod n = h \<Longrightarrow> placed ty n (t[h := c])"
  by (auto simp: placed_def nth_list_update)

lemma u64_dec: "0 < used \<Longrightarrow> used \<le> 4294967296 \<Longrightarrow> u64 (int used - 1) = used - 1"
  by (simp add: u64_def of_nat_diff)

lemma rehash_chain_ok:
  assumes "k \<le> 28" "placed ty (4 * 2 ^ k) t" "length es \<le> used" "used \<le> 4294967296"
  shows "\<exists>t'. rehash_chain ty (4 * 2 ^ k - 1) es (Some t) used = Inr (Some t', used - length es) \<and>
    placed ty (4 * 2 ^ k) t' \<and> mset (concat t') = mset es + mset (concat t)"
  using assms(2-4)
proof (induction es arbitrary: t used)
  case (Cons e es)
  define h where "h = dictHashKey ty (fst e) mod (4 * 2 ^ k)"
  have h: "h < 4 * 2 ^ k" by (simp add: h_def)
  with Cons.prems(1) have len: "h < length t" by (simp add: placed_def)
  have "placed ty (4 * 2 ^ k) (t[h := e # t ! h])"
    using Cons.prems(1) h by (intro placed_update) (auto simp: placed_def h_def)
  moreover have "length es \<le> used - 1" "used - 1 \<le> 4294967296" using Cons.prems(2,3) by simp_all
  ultimately obtain t' where
    t': "rehash_chain ty (4 * 2 ^ k - 1) es (Some (t[h := e # t ! h])) (used - 1) = Inr (Some t', used - 1 - length es)"
    "placed ty (4 * 2 ^ k) t'" "mset (concat t') = mset es + mset (concat (t[h := e # t ! h]))"
    using Cons.IH by blast
  have "mset (concat (t[h := e # t ! h])) = add_mset e (mset (concat t))"
    using mset_concat_update [OF len, of "e # t ! h"] by simp
  then show ?case
    using t' len Cons.prems(2,3) slot_of_mod [OF assms(1), of ty "fst e"]
    by (auto simp: h_def [symmetric] u64_dec Let_def)
qed simp

lemma rehash_slots_ok:
  assumes "k \<le> 28" "placed ty (4 * 2 ^ k) t" "length (concat cs) = used" "used \<le> 4294967296"
  shows "\<exists>t'. rehash_slots ty (4 * 2 ^ k - 1) cs (Some t) used = Inr (Some t', 0) \<and>
    placed ty (4 * 2 ^ k) t' \<and> mset (concat t') = mset (concat cs) + mset (concat t)"
  using assms(2-4)
proof (induction cs arbitrary: t used)
  case (Cons c cs)
  show ?case
  proof (cases "used > 0")
    case True
    from rehash_chain_ok [OF assms(1) Cons.prems(1), of c used] Cons.prems(2,3) obtain t1 where
      t1: "rehash_chain ty (4 * 2 ^ k - 1) c (Some t) used = Inr (Some t1, used - length c)"
      "placed ty (4 * 2 ^ k) t1" "mset (concat t1) = mset c + mset (concat t)" by auto
    from Cons.IH [OF t1(2), of "used - length c"] Cons.prems(2,3) t1 True show ?thesis
      by (auto simp: ac_simps)
  next
    case False
    with Cons.prems show ?thesis by auto
  qed
qed simp

lemma entries_table [simp]: "d_table ht = Some t \<Longrightarrow> entries ht = concat t"
  by (simp add: entries_def)

lemma placed_empty: "placed ty n (replicate n [])"
  by (simp add: placed_def)

lemma concat_replicate_Nil [simp]: "concat (replicate n []) = []"
  by (induction n) auto

lemma dictExpand_ok:
  assumes "\<And>n. mem_ok m n" "k \<le> 28" "d_used ht \<le> 4 * 2 ^ k" "length (entries ht) = d_used ht"
    and "d_table ht = None \<and> d_size ht = 0 \<or> (\<exists>t. d_table ht = Some t \<and> length t = d_size ht)"
    and "distinct (map fst (entries ht))"
  shows "\<exists>t ht'. dictExpand m ty (4 * 2 ^ k) ht = Inr (DICT_OK, ht') \<and> table_wf ty k t ht' \<and>
    mset (entries ht') = mset (entries ht) \<and> d_used ht' = d_used ht"
proof -
  let ?n = "4 * 2 ^ k" and ?cs = "case d_table ht of None \<Rightarrow> [] | Some t \<Rightarrow> take (d_size ht) t"
  have real: "dictNextPower ?n = ?n" using assms(2) by (simp add: dictNextPower_exact)
  have cs: "concat ?cs = entries ht" using assms(5) by (auto simp: entries_def)
  have "d_used ht \<le> 4294967296" using assms(3) power_2_le [OF assms(2)] by linarith
  with rehash_slots_ok [OF assms(2) placed_empty, of ?cs "d_used ht"] cs assms(4)
  obtain t where t: "rehash_slots ty (?n - 1) ?cs (Some (replicate ?n [])) (d_used ht) = Inr (Some t, 0)"
    "placed ty ?n t" "mset (concat t) = mset (entries ht)" by auto
  define ht' where "ht' = ht\<lparr>d_table := Some t, d_size := ?n, d_sizemask := ?n - 1\<rparr>"
  have "dictExpand m ty ?n ht = Inr (DICT_OK, ht')"
    using assms(1,3,5) t(1) by (auto simp: dictExpand_def real Let_def ht'_def)
  moreover have "length (concat t) = d_used ht" using t(3) assms(4) by (metis mset_eq_length)
  moreover have "distinct (map fst (concat t))" using distinct_keys_mset [OF t(3)] assms(6) by simp
  ultimately show ?thesis
    using t(2,3) assms(2,3) by (auto simp: table_wf_def ht'_def entries_def)
qed

lemma dict_wf_cases:
  assumes "dict_wf ty ht"
  shows "length (entries ht) = d_used ht" "distinct (map fst (entries ht))"
    "d_table ht = None \<and> d_size ht = 0 \<or> (\<exists>t. d_table ht = Some t \<and> length t = d_size ht)"
    "d_size ht = 0 \<Longrightarrow> d_used ht = 0"
  using assms by (auto simp: dict_wf_def table_wf_def entries_def placed_def)

lemma dictExpandIfNeeded_ok:
  assumes "\<And>n. mem_ok m n" "dict_wf ty ht" "d_used ht < 1073741824"
  shows "\<exists>k t ht'. dictExpandIfNeeded m ty ht = Inr (DICT_OK, ht') \<and> table_wf ty k t ht' \<and>
    mset (entries ht') = mset (entries ht) \<and> d_used ht' = d_used ht \<and> d_used ht' < d_size ht'"
proof (cases "d_size ht = 0")
  case True
  note wf = dict_wf_cases [OF assms(2)]
  from dictExpand_ok [of m 0 ht ty, OF assms(1) _ _ wf(1,3,2)] wf(4) [OF True] True
  show ?thesis by (auto simp: dictExpandIfNeeded_def table_wf_def)
next
  case False
  note wf = dict_wf_cases [OF assms(2)]
  from assms(2) False obtain k t where kt: "table_wf ty k t ht" by (auto simp: dict_wf_def)
  show ?thesis
  proof (cases "d_used ht = d_size ht")
    case True
    have sz: "d_size ht = 4 * 2 ^ k" using kt by (simp add: table_wf_def)
    with True assms(3) have "(2::nat) ^ k < 2 ^ 28" by simp
    then have "k < 28" by (rule power_less_imp_less_exp [rotated]) simp
    then have k: "Suc k \<le> 28" by simp
    have "u64 (int (8 * 2 ^ k)) = 8 * 2 ^ k"
      using power_2_le [OF k] by (intro u64_int) simp
    then have "u64 (int (d_size ht) * 2) = 4 * 2 ^ Suc k" by (simp add: sz mult.commute)
    then have need: "dictExpandIfNeeded m ty ht = dictExpand m ty (4 * 2 ^ Suc k) ht"
      using False True by (simp add: dictExpandIfNeeded_def)
    have "d_used ht \<le> 4 * 2 ^ Suc k" using True sz by simp
    from dictExpand_ok [OF assms(1) k this wf(1,3,2), of ty] obtain t' ht' where
      e: "dictExpand m ty (4 * 2 ^ Suc k) ht = Inr (DICT_OK, ht')" "table_wf ty (Suc k) t' ht'"
      "mset (entries ht') = mset (entries ht)" "d_used ht' = d_used ht" by blast
    have "d_size ht' = 8 * 2 ^ k" using e(2) by (simp add: table_wf_def)
    moreover have "d_used ht' = 4 * 2 ^ k" using e(4) True sz by simp
    ultimately have "d_used ht' < d_size ht'" by simp
    with e need show ?thesis by metis
  next
    case neq: False
    with kt False show ?thesis by (auto simp: dictExpandIfNeeded_def table_wf_def)
  qed
qed

text \<open>Facts of a table with slots.\<close>

lemma table_slot:
  assumes "table_wf ty k t ht"
  shows "slot_of ty (d_sizemask ht) key < length t"
    "slot_chain ht (slot_of ty (d_sizemask ht) key) = Inr (t ! slot_of ty (d_sizemask ht) key)"
    "slot_of ty (d_sizemask ht) key = dictHashKey ty key mod (4 * 2 ^ k)"
    "int (slot_of ty (d_sizemask ht) key) \<le> 1073741823"
proof -
  have k: "k \<le> 28" "d_sizemask ht = 4 * 2 ^ k - 1" "length t = 4 * 2 ^ k" "d_table ht = Some t"
    using assms by (auto simp: table_wf_def placed_def)
  show eq: "slot_of ty (d_sizemask ht) key = dictHashKey ty key mod (4 * 2 ^ k)"
    unfolding k(2) by (rule slot_of_mod [OF k(1)])
  then show lt: "slot_of ty (d_sizemask ht) key < length t" by (simp add: k(3))
  then show "slot_chain ht (slot_of ty (d_sizemask ht) key) = Inr (t ! slot_of ty (d_sizemask ht) key)"
    by (simp add: slot_chain_def k(4))
  have "length t \<le> 1073741824" using power_2_le [OF k(1)] by (simp add: k(3))
  with lt show "int (slot_of ty (d_sizemask ht) key) \<le> 1073741823" by linarith
qed

lemma find_chain_map_of: "dt_ok ty \<Longrightarrow> find_chain ty key c = map_option (Pair key) (map_of c key)"
  by (induction c) (auto simp: dt_ok_def)

lemma table_lookup:
  assumes "table_wf ty k t ht" "dt_ok ty"
  shows "map_of (t ! slot_of ty (d_sizemask ht) key) key = dict_abs ht key"
proof -
  let ?h = "slot_of ty (d_sizemask ht) key"
  have wf: "placed ty (4 * 2 ^ k) t" "distinct (map fst (concat t))" "entries ht = concat t"
    using assms(1) by (auto simp: table_wf_def)
  have in_slot: "e \<in> set (t ! ?h) \<longleftrightarrow> e \<in> set (concat t)" if "fst e = key" for e
  proof
    assume "e \<in> set (t ! ?h)"
    then show "e \<in> set (concat t)" using nth_mem [OF table_slot(1) [OF assms(1), of key]] by auto
  next
    assume "e \<in> set (concat t)"
    then obtain c where "c \<in> set t" "e \<in> set c" by auto
    then obtain i where "i < length t" "e \<in> set (t ! i)" by (metis in_set_conv_nth)
    with wf(1) that have "i = ?h" by (auto simp: placed_def table_slot(3) [OF assms(1)])
    with \<open>e \<in> set (t ! i)\<close> show "e \<in> set (t ! ?h)" by simp
  qed
  have "distinct (map fst (t ! ?h))"
    using wf(2) table_slot(1) [OF assms(1), of key]
    by (metis distinct_concat_iff map_concat nth_map nth_mem length_map)
  then have "map_of (t ! ?h) key = Some v \<longleftrightarrow> map_of (concat t) key = Some v" for v
    using wf(2) in_slot [of "(key, v)"] by (simp add: map_of_eq_Some_iff)
  then show ?thesis unfolding dict_abs_def wf(3) by (metis not_Some_eq)
qed

lemma dictFind_correct:
  assumes "dict_wf ty ht" "dt_ok ty"
  shows "dictFind ty key ht = Inr (map_option (Pair key) (dict_abs ht key))"
proof (cases "d_size ht = 0")
  case True
  with assms(1) have "entries ht = []" using dict_wf_cases by fastforce
  with True show ?thesis by (simp add: dictFind_def dict_abs_def)
next
  case False
  with assms(1) obtain k t where kt: "table_wf ty k t ht" by (auto simp: dict_wf_def)
  from False show ?thesis
    by (simp add: dictFind_def table_slot(2) [OF kt] find_chain_map_of [OF assms(2)] table_lookup [OF kt assms(2)])
qed

lemma set_slot_wf:
  assumes kt: "table_wf ty k t ht" and h: "h < length t"
    and c: "\<forall>e \<in> set c. dictHashKey ty (fst e) mod (4 * 2 ^ k) = h"
    and n: "length (concat (t[h := c])) = n" "n \<le> d_size ht" "distinct (map fst (concat (t[h := c])))"
  shows "table_wf ty k (t[h := c]) ((set_slot h c ht)\<lparr>d_used := n\<rparr>)"
proof -
  have "placed ty (4 * 2 ^ k) (t[h := c])"
    using kt h c by (intro placed_update) (auto simp: table_wf_def placed_def)
  then show ?thesis using kt n by (simp add: table_wf_def set_slot_def)
qed

lemma dictAdd_correct:
  assumes m: "\<And>n. mem_ok m n" and ty: "dt_ok ty" and wf: "dict_wf ty ht" and room: "d_used ht < 1073741824"
  shows "\<exists>ht'. dictAdd m ty key v ht = Inr (if dict_abs ht key = None then DICT_OK else DICT_ERR, ht') \<and>
    dict_wf ty ht' \<and> d_used ht' = d_used ht + (if dict_abs ht key = None then 1 else 0) \<and>
    dict_abs ht' = (if dict_abs ht key = None then (dict_abs ht)(key \<mapsto> v) else dict_abs ht)"
proof -
  from dictExpandIfNeeded_ok [OF m wf room] obtain k t ht1 where
    e: "dictExpandIfNeeded m ty ht = Inr (DICT_OK, ht1)" "table_wf ty k t ht1"
    "mset (entries ht1) = mset (entries ht)" "d_used ht1 = d_used ht" "d_used ht1 < d_size ht1" by blast
  have abs: "dict_abs ht1 = dict_abs ht"
    using map_of_mset [OF e(3)] dict_wf_cases(2) [OF wf] distinct_keys_mset [OF e(3)] by (simp add: dict_abs_def)
  let ?h = "slot_of ty (d_sizemask ht1) key"
  note slot = table_slot [OF e(2), of key]
  have find: "find_chain ty key (t ! ?h) = map_option (Pair key) (dict_abs ht key)"
    by (simp add: find_chain_map_of [OF ty] table_lookup [OF e(2) ty] abs)
  show ?thesis
  proof (cases "dict_abs ht key")
    case (Some w)
    then have "dictAdd m ty key v ht = Inr (DICT_ERR, ht1)"
      by (simp add: dictAdd_def dictKeyIndex_def e(1) Let_def slot(2) find)
    with Some e(2,4) abs show ?thesis by (auto simp: dict_wf_def)
  next
    case None
    let ?c = "(key, v) # t ! ?h"
    define ht' where "ht' = (set_slot ?h ?c ht1)\<lparr>d_used := Suc (d_used ht1)\<rparr>"
    have u: "u64 (int (d_used ht1) + 1) = Suc (d_used ht1)"
      using room e(4) by (simp add: u64_def nat_add_distrib)
    have "dictAdd m ty key v ht = Inr (DICT_OK, ht')"
      using m slot(4) ty None
      by (simp add: dictAdd_def dictKeyIndex_def e(1) Let_def slot(2) find i32_id u ht'_def dt_ok_def)
    moreover have ms: "mset (concat (t[?h := ?c])) = add_mset (key, v) (mset (concat t))"
      using mset_concat_update [OF slot(1), of ?c] by simp
    have ent: "entries ht1 = concat t" "d_used ht1 = length (concat t)" "distinct (map fst (concat t))"
      using e(2) by (auto simp: table_wf_def)
    have "dict_abs ht1 key = None" using None abs by simp
    then have "key \<notin> fst ` set (concat t)"
      unfolding dict_abs_def ent(1) by (simp add: map_of_eq_None_iff del: set_concat)
    then have dist: "distinct (map fst ((key, v) # concat t))" using ent(3) by simp
    then have dist': "distinct (map fst (concat (t[?h := ?c])))"
      using distinct_keys_mset [of "concat (t[?h := ?c])" "(key, v) # concat t"] ms by simp
    have "length (concat (t[?h := ?c])) = Suc (d_used ht1)"
      using ms ent(2) by (metis size_mset size_add_mset)
    moreover have "\<forall>e \<in> set ?c. dictHashKey ty (fst e) mod (4 * 2 ^ k) = ?h"
      using e(2) slot(1,3) by (auto simp: table_wf_def placed_def)
    ultimately have wf': "table_wf ty k (t[?h := ?c]) ht'"
      unfolding ht'_def using dist' e(5) by (intro set_slot_wf [OF e(2) slot(1)]) simp_all
    then have "dict_abs ht' = map_of (concat (t[?h := ?c]))" by (simp add: dict_abs_def table_wf_def)
    also have "\<dots> = map_of ((key, v) # concat t)" using ms dist' by (intro map_of_mset) simp_all
    also have "\<dots> = (dict_abs ht)(key \<mapsto> v)" using abs by (simp add: dict_abs_def ent(1))
    finally show ?thesis
      using \<open>dictAdd m ty key v ht = Inr (DICT_OK, ht')\<close> wf' None e(4)
      by (auto simp: dict_wf_def ht'_def)
  qed
qed

lemma set_val_mset:
  "dt_ok ty \<Longrightarrow> map_of c key = Some w \<Longrightarrow> mset (set_val ty key v c) + {#(key, w)#} = mset c + {#(key, v)#}"
  by (induction c) (auto simp: dt_ok_def)

lemma unlink_chain_mset:
  "dt_ok ty \<Longrightarrow> map_of c key = Some w \<Longrightarrow> add_mset (key, w) (mset (unlink_chain ty key c)) = mset c"
  by (induction c) (auto simp: dt_ok_def)

lemma chain_subset:
  "fst ` set (set_val ty key v c) \<subseteq> fst ` set c" "set (unlink_chain ty key c) \<subseteq> set c"
  by (induction c) auto

lemma table_wf_cong:
  "d_table ht' = d_table ht \<Longrightarrow> d_size ht' = d_size ht \<Longrightarrow> d_sizemask ht' = d_sizemask ht \<Longrightarrow>
   d_used ht' = d_used ht \<Longrightarrow> table_wf ty k t ht' = table_wf ty k t ht"
  by (simp add: table_wf_def)

lemma free_fields [simp]:
  "d_table (dictFreeEntryVal ty v ht) = d_table ht" "d_size (dictFreeEntryVal ty v ht) = d_size ht"
  "d_sizemask (dictFreeEntryVal ty v ht) = d_sizemask ht" "d_used (dictFreeEntryVal ty v ht) = d_used ht"
  "d_freedKeys (dictFreeEntryVal ty v ht) = d_freedKeys ht"
  "d_table (dictFreeEntryKey ty x ht) = d_table ht" "d_size (dictFreeEntryKey ty x ht) = d_size ht"
  "d_sizemask (dictFreeEntryKey ty x ht) = d_sizemask ht" "d_used (dictFreeEntryKey ty x ht) = d_used ht"
  "d_freedVals (dictFreeEntryKey ty x ht) = d_freedVals ht"
  by (simp_all add: dictFreeEntryVal_def dictFreeEntryKey_def)

lemma set_slot_fields [simp]:
  "d_size (set_slot h c ht) = d_size ht" "d_sizemask (set_slot h c ht) = d_sizemask ht"
  "d_used (set_slot h c ht) = d_used ht" "d_freedVals (set_slot h c ht) = d_freedVals ht"
  "d_freedKeys (set_slot h c ht) = d_freedKeys ht"
  by (simp_all add: set_slot_def)

text \<open>Removing or exchanging the entry of one key, seen through \<open>map_of\<close>.\<close>

lemma map_of_remove:
  assumes "add_mset (key, w) (mset ys) = mset xs" "distinct (map fst xs)"
  shows "distinct (map fst ys)" "map_of ys = (map_of xs)(key := None)" "length xs = Suc (length ys)"
proof -
  have ms: "mset ((key, w) # ys) = mset xs" using assms(1) by simp
  then have d: "distinct (map fst ((key, w) # ys))" using assms(2) distinct_keys_mset by blast
  then show "distinct (map fst ys)" by simp
  have "map_of xs = map_of ((key, w) # ys)" using map_of_mset [OF ms d] by simp
  moreover have "map_of ys key = None" using d by (simp add: map_of_eq_None_iff)
  ultimately show "map_of ys = (map_of xs)(key := None)" by (auto simp: fun_eq_iff)
  show "length xs = Suc (length ys)" using mset_eq_length [OF ms] by simp
qed

lemma map_of_exchange:
  assumes "mset ys + {#(key, w)#} = mset xs + {#(key, v)#}" "distinct (map fst xs)" "map_of xs key = Some w"
  shows "distinct (map fst ys)" "map_of ys = (map_of xs)(key \<mapsto> v)" "length ys = length xs"
proof -
  have "(key, w) \<in># mset xs" using map_of_SomeD [OF assms(3)] by simp
  then obtain rs where rs: "mset xs = add_mset (key, w) (mset rs)"
    by (metis ex_mset insert_DiffM)
  then have ys: "add_mset (key, v) (mset rs) = mset ys" using assms(1) by simp
  note r = map_of_remove [OF rs [symmetric] assms(2)]
  have none: "map_of rs key = None" by (simp add: r(2))
  then have d: "distinct (map fst ((key, v) # rs))" using r(1) by (simp add: map_of_eq_None_iff)
  have ms: "mset ys = mset ((key, v) # rs)" using ys by simp
  from d show "distinct (map fst ys)" using distinct_keys_mset [OF ms] by simp
  have "map_of ys = map_of ((key, v) # rs)" using map_of_mset [OF ms] d distinct_keys_mset [OF ms] by simp
  then show "map_of ys = (map_of xs)(key \<mapsto> v)" by (simp add: r(2))
  show "length ys = length xs" using mset_eq_length [OF ms] r(3) by simp
qed

lemma dictDelete_correct:
  assumes ty: "dt_ok ty" and wf: "dict_wf ty ht"
  shows "\<exists>ht'. dictDelete ty key ht = Inr (if dict_abs ht key = None then DICT_ERR else DICT_OK, ht') \<and>
    dict_wf ty ht' \<and> d_used ht' \<le> d_used ht \<and> dict_abs ht' = (dict_abs ht)(key := None) \<and>
    (valDestructor ty \<longrightarrow> d_freedVals ht' = d_freedVals ht @ (case dict_abs ht key of None \<Rightarrow> [] | Some w \<Rightarrow> [w]))"
proof (cases "d_size ht = 0")
  case True
  with wf have "entries ht = []" using dict_wf_cases by fastforce
  with True wf show ?thesis by (simp add: dictDelete_def dict_abs_def)
next
  case False
  with wf obtain k t where kt: "table_wf ty k t ht" by (auto simp: dict_wf_def)
  let ?h = "slot_of ty (d_sizemask ht) key"
  note slot = table_slot [OF kt, of key]
  have look: "map_of (t ! ?h) key = dict_abs ht key" by (rule table_lookup [OF kt ty])
  show ?thesis
  proof (cases "dict_abs ht key")
    case None
    with False look wf show ?thesis
      by (auto simp: dictDelete_def Let_def slot(2) find_chain_map_of [OF ty] fun_upd_idem)
  next
    case (Some w)
    let ?c = "unlink_chain ty key (t ! ?h)"
    have ent: "entries ht = concat t" "d_used ht = length (concat t)" "distinct (map fst (concat t))"
      "d_used ht \<le> d_size ht" "d_size ht \<le> 4294967296"
      using kt power_2_le [of k] by (auto simp: table_wf_def)
    have ms: "add_mset (key, w) (mset (concat (t[?h := ?c]))) = mset (concat t)"
    proof -
      have "add_mset (key, w) (mset (concat (t[?h := ?c]))) + mset ?c = mset (concat t) + mset ?c"
        using mset_concat_update [OF slot(1), of ?c] unlink_chain_mset [OF ty, of "t ! ?h" key w] look Some
        by (metis union_mset_add_mset_left union_mset_add_mset_right)
      then show ?thesis by (rule add_right_imp_eq)
    qed
    note r = map_of_remove [OF ms ent(3)]
    define ht' where "ht' = (dictFreeEntryVal ty w (dictFreeEntryKey ty key (set_slot ?h ?c ht)))
      \<lparr>d_used := u64 (int (d_used ht) - 1)\<rparr>"
    have u: "u64 (int (d_used ht) - 1) = length (concat (t[?h := ?c]))"
      using r(3) ent(2,4,5) by (subst u64_dec) simp_all
    have "\<forall>e \<in> set ?c. dictHashKey ty (fst e) mod (4 * 2 ^ k) = ?h"
      using kt slot(1) chain_subset(2) [of ty key "t ! ?h"] by (auto simp: table_wf_def placed_def)
    from set_slot_wf [OF kt slot(1) this refl _ r(1)] r(3) ent(2,4)
    have "table_wf ty k (t[?h := ?c]) ((set_slot ?h ?c ht)\<lparr>d_used := length (concat (t[?h := ?c]))\<rparr>)" by simp
    then have wf': "table_wf ty k (t[?h := ?c]) ht'"
      by (subst table_wf_cong [of _ "(set_slot ?h ?c ht)\<lparr>d_used := length (concat (t[?h := ?c]))\<rparr>"])
        (simp_all add: ht'_def u)
    have "dict_abs ht' = (dict_abs ht)(key := None)"
      using wf' r(2) by (simp add: dict_abs_def ent(1) table_wf_def)
    moreover have "dictDelete ty key ht = Inr (DICT_OK, ht')"
      using False look Some by (simp add: dictDelete_def Let_def slot(2) find_chain_map_of [OF ty] ht'_def)
    moreover have "d_used ht' \<le> d_used ht" using u r(3) ent(2) by (simp add: ht'_def)
    moreover have "dict_wf ty ht'" using wf' unfolding dict_wf_def by blast
    moreover have "valDestructor ty \<longrightarrow> d_freedVals ht' = d_freedVals ht @ [w]"
      by (simp add: ht'_def dictFreeEntryVal_def)
    ultimately show ?thesis using Some by simp
  qed
qed

lemma dictReplace_correct:
  assumes m: "\<And>n. mem_ok m n" and ty: "dt_ok ty" and wf: "dict_wf ty ht" and room: "d_used ht < 1073741824"
  shows "\<exists>ht'. dictReplace m ty key v ht = Inr (if dict_abs ht key = None then 1 else 0, ht') \<and>
    dict_wf ty ht' \<and> d_used ht' \<le> Suc (d_used ht) \<and> dict_abs ht' = (dict_abs ht)(key \<mapsto> v)"
proof -
  from dictAdd_correct [OF assms, of key v] obtain ht1 where
    a: "dictAdd m ty key v ht = Inr (if dict_abs ht key = None then DICT_OK else DICT_ERR, ht1)"
    "dict_wf ty ht1" "d_used ht1 = d_used ht + (if dict_abs ht key = None then 1 else 0)"
    "dict_abs ht1 = (if dict_abs ht key = None then (dict_abs ht)(key \<mapsto> v) else dict_abs ht)" by blast
  show ?thesis
  proof (cases "dict_abs ht key")
    case None
    with a show ?thesis by (auto simp: dictReplace_def)
  next
    case (Some w)
    then have abs: "dict_abs ht1 = dict_abs ht" using a(4) by simp
    then have "dict_abs ht1 key = Some w" using Some by simp
    then have "d_table ht1 \<noteq> None"
      by (cases "d_table ht1") (simp_all add: dict_abs_def entries_def)
    with a(2) obtain k t where kt: "table_wf ty k t ht1" by (auto simp: dict_wf_def)
    let ?h = "slot_of ty (d_sizemask ht1) key" and ?v = "dictSetHashVal ty v"
    let ?c = "set_val ty key ?v (t ! ?h)"
    note slot = table_slot [OF kt, of key]
    have look: "map_of (t ! ?h) key = Some w" using table_lookup [OF kt ty] abs Some by simp
    have ent: "entries ht1 = concat t" "d_used ht1 = length (concat t)" "distinct (map fst (concat t))"
      "d_used ht1 \<le> d_size ht1"
      using kt by (auto simp: table_wf_def)
    have ms: "mset (concat (t[?h := ?c])) + {#(key, w)#} = mset (concat t) + {#(key, ?v)#}"
    proof -
      let ?A = "mset (concat (t[?h := ?c]))" and ?B = "mset (t ! ?h)" and ?C = "mset ?c"
      have "?A + {#(key, w)#} + ?B = (?A + ?B) + {#(key, w)#}" by simp
      also have "\<dots> = mset (concat t) + (?C + {#(key, w)#})"
        unfolding mset_concat_update [OF slot(1), of ?c] by simp
      also have "\<dots> = mset (concat t) + {#(key, ?v)#} + ?B"
        unfolding set_val_mset [OF ty look, of ?v] by simp
      finally show ?thesis by (rule add_right_imp_eq)
    qed
    have "dict_abs ht1 key = Some w" using abs Some by simp
    then have "map_of (concat t) key = Some w" unfolding dict_abs_def ent(1) .
    note r = map_of_exchange [OF ms ent(3) this]
    define ht' where "ht' = dictFreeEntryVal ty w (set_slot ?h ?c ht1)"
    have "\<forall>e \<in> set ?c. dictHashKey ty (fst e) mod (4 * 2 ^ k) = ?h"
      using kt slot(1) chain_subset(1) [of ty key ?v "t ! ?h"] by (fastforce simp: table_wf_def placed_def)
    from set_slot_wf [OF kt slot(1) this r(3) _ r(1)] ent(2,4)
    have "table_wf ty k (t[?h := ?c]) ((set_slot ?h ?c ht1)\<lparr>d_used := length (concat t)\<rparr>)" by simp
    then have wf': "table_wf ty k (t[?h := ?c]) ht'"
      by (subst table_wf_cong [of _ "(set_slot ?h ?c ht1)\<lparr>d_used := length (concat t)\<rparr>"])
        (simp_all add: ht'_def ent(2))
    have "dict_abs ht' = (dict_abs ht)(key \<mapsto> v)"
      using wf' r(2) ty abs by (simp add: dict_abs_def ent(1) table_wf_def dt_ok_def)
    moreover have "dictReplace m ty key v ht = Inr (0, ht')"
      using a(1) Some dictFind_correct [OF a(2) ty, of key] abs
      by (simp add: dictReplace_def Let_def slot(2) ht'_def)
    moreover have "dict_wf ty ht'" using wf' unfolding dict_wf_def by blast
    ultimately show ?thesis using a(3) Some by (simp add: ht'_def)
  qed
qed

end
