(* ===== verification/Dict_Map.thy ===== *)
theory Dict_Map
  imports Dict
begin

text \<open>
  The hash table as a finite map: the contract of a table with the operations add, replace and
  delete as a locale, its client, and the interpretation on \<^verbatim>\<open>dict.c\<close>; the iterator and the
  destruction of a table.
\<close>

section \<open>The contract\<close>

datatype ('k, 'v) table_op = OpAdd 'k 'v | OpReplace 'k 'v | OpDelete 'k

text \<open>What the operations do to a finite map, with the codes that they return.\<close>

fun spec_op :: "('k, 'v) table_op \<Rightarrow> ('k \<Rightarrow> 'v option) \<Rightarrow> int \<times> ('k \<Rightarrow> 'v option)" where
  "spec_op (OpAdd k v) f = (if f k = None then (0, f(k \<mapsto> v)) else (1, f))"
| "spec_op (OpReplace k v) f = (if f k = None then 1 else 0, f(k \<mapsto> v))"
| "spec_op (OpDelete k) f = (if f k = None then 1 else 0, f(k := None))"

fun spec_run :: "('k, 'v) table_op list \<Rightarrow> ('k \<Rightarrow> 'v option) \<Rightarrow> int list \<times> ('k \<Rightarrow> 'v option)" where
  "spec_run [] f = ([], f)"
| "spec_run (x # xs) f =
     (let (c, f1) = spec_op x f; (cs, f2) = spec_run xs f1 in (c # cs, f2))"

fun table_run :: "(('k, 'v) table_op \<Rightarrow> 'd \<Rightarrow> (int \<times> 'd) res) \<Rightarrow> ('k, 'v) table_op list \<Rightarrow> 'd \<Rightarrow> (int list \<times> 'd) res" where
  "table_run step [] d = Inr ([], d)"
| "table_run step (x # xs) d =
     bind_res (step x d) (\<lambda>(c, d). bind_res (table_run step xs d) (\<lambda>(cs, d). Inr (c # cs, d)))"

locale map_table =
  fixes wf :: "'d \<Rightarrow> bool" and abs :: "'d \<Rightarrow> 'k \<Rightarrow> 'v option" and used :: "'d \<Rightarrow> nat" and limit :: nat
    and step :: "('k, 'v) table_op \<Rightarrow> 'd \<Rightarrow> (int \<times> 'd) res"
    and find :: "'k \<Rightarrow> 'd \<Rightarrow> ('k \<times> 'v) option res"
  assumes find_law: "wf d \<Longrightarrow> find k d = Inr (map_option (Pair k) (abs d k))"
    and step_law: "wf d \<Longrightarrow> used d < limit \<Longrightarrow>
      \<exists>d'. step x d = Inr (fst (spec_op x (abs d)), d') \<and> wf d' \<and> used d' \<le> Suc (used d) \<and>
        abs d' = snd (spec_op x (abs d))"
begin

lemma run_refines:
  "wf d \<Longrightarrow> used d + length xs \<le> limit \<Longrightarrow>
   \<exists>d'. table_run step xs d = Inr (fst (spec_run xs (abs d)), d') \<and> wf d' \<and>
     abs d' = snd (spec_run xs (abs d))"
proof (induction xs arbitrary: d)
  case (Cons x xs)
  then obtain d1 where d1: "step x d = Inr (fst (spec_op x (abs d)), d1)" "wf d1" "used d1 \<le> Suc (used d)"
    "abs d1 = snd (spec_op x (abs d))"
    using step_law [of d x] by auto
  with Cons.IH [of d1] Cons.prems(2) obtain d' where
    "table_run step xs d1 = Inr (fst (spec_run xs (abs d1)), d')" "wf d'" "abs d' = snd (spec_run xs (abs d1))"
    by auto
  with d1 show ?case by (auto simp: case_prod_unfold Let_def)
qed simp

lemma run_then_find:
  assumes "wf d" "used d + length xs \<le> limit"
  shows "\<exists>cs d'. table_run step xs d = Inr (cs, d') \<and> cs = fst (spec_run xs (abs d)) \<and>
    find k d' = Inr (map_option (Pair k) (snd (spec_run xs (abs d)) k))"
  using run_refines [OF assms] find_law by metis

end

section \<open>The interpretation\<close>

text \<open>The operations of \<^verbatim>\<open>dict.c\<close> under one name.\<close>

fun dict_op :: "cmem \<Rightarrow> ('k, 'v) dictType \<Rightarrow> ('k, 'v) table_op \<Rightarrow> ('k, 'v) dict \<Rightarrow> (int \<times> ('k, 'v) dict) res" where
  "dict_op m ty (OpAdd k v) ht = dictAdd m ty k v ht"
| "dict_op m ty (OpReplace k v) ht = dictReplace m ty k v ht"
| "dict_op m ty (OpDelete k) ht = dictDelete ty k ht"

text \<open>An allocator that serves every request, and callbacks that compare by equality.\<close>

definition rich_mem :: cmem where
  "rich_mem = \<lparr>mem_ok = (\<lambda>_. True), mem_junk = (\<lambda>_. NUL), mem_slack = (\<lambda>_. 0)\<rparr>"

definition plain_type :: "('k \<Rightarrow> nat) \<Rightarrow> bool \<Rightarrow> bool \<Rightarrow> ('k, 'v) dictType" where
  "plain_type hash kd vd =
     \<lparr>hashFunction = hash, keyDup = None, valDup = None, keyCompare = None,
      keyDestructor = kd, valDestructor = vd\<rparr>"

lemma plain_type_ok [simp]: "dt_ok (plain_type hash kd vd)"
  by (simp add: dt_ok_def plain_type_def dictCompareHashKeys_def dictSetHashKey_def dictSetHashVal_def)

lemma rich_mem_ok [simp]: "mem_ok rich_mem n"
  by (simp add: rich_mem_def)

lemma dict_op_correct:
  assumes "\<And>n. mem_ok m n" "dt_ok ty" "dict_wf ty ht" "d_used ht < 1073741824"
  shows "\<exists>ht'. dict_op m ty x ht = Inr (fst (spec_op x (dict_abs ht)), ht') \<and> dict_wf ty ht' \<and>
    d_used ht' \<le> Suc (d_used ht) \<and> dict_abs ht' = snd (spec_op x (dict_abs ht))"
proof (cases x)
  case (OpAdd k v)
  then show ?thesis using dictAdd_correct [OF assms, of k v] by (cases "dict_abs ht k") auto
next
  case (OpReplace k v)
  then show ?thesis using dictReplace_correct [OF assms, of k v] by auto
next
  case (OpDelete k)
  then show ?thesis using dictDelete_correct [OF assms(2,3), of k] by (fastforce intro: le_SucI)
qed

interpretation dict_table: map_table "dict_wf (plain_type hash kd vd)" dict_abs d_used 1073741824
  "dict_op rich_mem (plain_type hash kd vd)" "dictFind (plain_type hash kd vd)"
  by unfold_locales (simp_all add: dictFind_correct dict_op_correct)

section \<open>Iteration and destruction\<close>

definition remaining :: "('k \<times> 'v) list list \<Rightarrow> ('k, 'v) dictIterator \<Rightarrow> ('k \<times> 'v) list" where
  "remaining t iter =
     (if it_entry iter = [] then [] else it_nextEntry iter) @ concat (drop (nat (it_index iter + 1)) t)"

lemma dictNext_remaining:
  assumes "table_wf ty k t ht" "it_index iter \<ge> -1"
  shows "case remaining t iter of
      [] \<Rightarrow> \<exists>iter'. dictNext ht iter = Inr (None, iter')
    | e # rest \<Rightarrow> \<exists>iter'. dictNext ht iter = Inr (Some e, iter') \<and> it_index iter' \<ge> -1 \<and> remaining t iter' = rest"
  using assms
proof (induction ht iter rule: dictNext.induct)
  case (1 ht iter)
  have t': "d_table ht = Some t" "d_size ht = length t" "length t \<le> 1073741824"
    using 1(3) power_2_le [of k] by (auto simp: table_wf_def placed_def)
  then have t: "d_table ht = Some t" "d_size ht = length t" "i32 (int (d_size ht)) = int (length t)"
    by (simp_all add: i32_id)
  let ?i = "it_index iter + 1"
  show ?case
  proof (cases "it_entry iter = []")
    case entry: True
    show ?thesis
    proof (cases "?i \<ge> int (length t)")
      case True
      then have "remaining t iter = []" by (simp add: remaining_def entry nat_le_iff)
      with True entry show ?thesis by (subst dictNext.simps) (simp add: Let_def t(3))
    next
      case False
      then have i: "nat ?i < length t" "?i \<ge> 0" using 1(4) by linarith+
      have chain: "slot_chain ht (nat ?i) = Inr (t ! nat ?i)" using i by (simp add: slot_chain_def t(1))
      have drop: "drop (nat ?i) t = t ! nat ?i # drop (nat (?i + 1)) t"
      proof -
        have "nat (?i + 1) = Suc (nat ?i)" using i(2) by linarith
        then show ?thesis using Cons_nth_drop_Suc [OF i(1)] by simp
      qed
      show ?thesis
      proof (cases "t ! nat ?i")
        case Nil
        let ?iter = "iter\<lparr>it_index := ?i, it_entry := []\<rparr>"
        have "remaining t ?iter = remaining t iter" by (simp add: remaining_def entry drop Nil)
        moreover have "dictNext ht iter = dictNext ht ?iter"
          using entry False i chain Nil by (subst dictNext.simps) (simp add: Let_def t(3))
        moreover have "case remaining t ?iter of
            [] \<Rightarrow> \<exists>iter'. dictNext ht ?iter = Inr (None, iter')
          | e # rest \<Rightarrow> \<exists>iter'. dictNext ht ?iter = Inr (Some e, iter') \<and> it_index iter' \<ge> -1 \<and> remaining t iter' = rest"
          using 1(1) [OF entry refl _ _ chain Nil] False i 1(3) by (simp add: t(3))
        ultimately show ?thesis by (cases "remaining t iter") simp_all
      next
        case (Cons he rest)
        then show ?thesis
          using entry False i chain by (subst dictNext.simps) (simp add: Let_def t(3) remaining_def drop)
      qed
    qed
  next
    case entry: False
    show ?thesis
    proof (cases "it_nextEntry iter")
      case Nil
      let ?iter = "iter\<lparr>it_entry := []\<rparr>"
      have "remaining t ?iter = remaining t iter" by (simp add: remaining_def Nil)
      moreover have "dictNext ht iter = dictNext ht ?iter"
        using entry Nil by (subst dictNext.simps) simp
      ultimately show ?thesis
        using 1(2) [OF entry Nil 1(3)] 1(4) by (cases "remaining t iter") simp_all
    next
      case (Cons he rest)
      then show ?thesis using entry 1(4) by (subst dictNext.simps) (simp add: remaining_def)
    qed
  qed
qed

lemma iterate_remaining:
  assumes "table_wf ty k t ht"
  shows "it_index iter \<ge> -1 \<Longrightarrow> length (remaining t iter) < n \<Longrightarrow> iterate n ht iter = Inr (Some (remaining t iter))"
proof (induction n arbitrary: iter)
  case (Suc n)
  show ?case
  proof (cases "remaining t iter")
    case Nil
    with dictNext_remaining [OF assms Suc.prems(1)] show ?thesis by auto
  next
    case (Cons e rest)
    with dictNext_remaining [OF assms Suc.prems(1)] obtain iter' where
      "dictNext ht iter = Inr (Some e, iter')" "it_index iter' \<ge> -1" "remaining t iter' = rest" by auto
    with Suc.IH [of iter'] Suc.prems(2) Cons show ?thesis by simp
  qed
qed simp

lemma clear_chain_log:
  assumes "keyDestructor ty" "valDestructor ty" "length c \<le> d_used ht" "d_used ht \<le> 4294967296"
  shows "d_freedKeys (clear_chain ty c ht) = d_freedKeys ht @ map fst c \<and>
    d_freedVals (clear_chain ty c ht) = d_freedVals ht @ map snd c \<and>
    d_used (clear_chain ty c ht) = d_used ht - length c"
  using assms(3,4)
proof (induction c arbitrary: ht)
  case (Cons e c)
  then show ?case
    using assms(1,2) by (simp add: dictFreeEntryKey_def dictFreeEntryVal_def u64_dec)
qed simp

lemma clear_slots_log:
  assumes "keyDestructor ty" "valDestructor ty" "length (concat cs) = d_used ht" "d_used ht \<le> 4294967296"
  shows "d_freedKeys (clear_slots ty cs ht) = d_freedKeys ht @ map fst (concat cs) \<and>
    d_freedVals (clear_slots ty cs ht) = d_freedVals ht @ map snd (concat cs)"
  using assms(3,4)
proof (induction cs arbitrary: ht)
  case (Cons c cs)
  show ?case
  proof (cases "d_used ht > 0")
    case True
    with clear_chain_log [OF assms(1,2), of c ht] Cons show ?thesis by simp
  next
    case False
    with Cons.prems show ?thesis by simp
  qed
qed simp

lemma dictGenHash_loop_poly:
  "h < 4294967296 \<Longrightarrow> dictGenHash_loop h cs =
     (h * 33 ^ length cs + horner_sum of_char 33 (rev cs)) mod 4294967296"
proof (induction cs arbitrary: h)
  case (Cons c cs)
  let ?M = "4294967296 :: nat"
  have absorb: "((x mod ?M) * a + b) mod ?M = (x * a + b) mod ?M" for x a b :: nat
    by (metis mod_add_left_eq mod_mult_left_eq)
  have "dictGenHash_loop h (c # cs) =
      (((h * 32 + h + of_char c) mod ?M) * 33 ^ length cs + horner_sum of_char 33 (rev cs)) mod ?M"
    using Cons.IH by simp
  also have "\<dots> = ((h * 32 + h + of_char c) * 33 ^ length cs + horner_sum of_char 33 (rev cs)) mod ?M"
    by (rule absorb)
  finally show ?case by (simp add: horner_sum_append algebra_simps)
qed simp

section \<open>Properties\<close>

lemma empty_dict_wf: "dictCreate m = Inr ht \<Longrightarrow> dict_wf ty ht \<and> dict_abs ht = Map.empty \<and> d_used ht = 0"
  by (auto simp: dictCreate_def check_res_Inr dict_wf_def dict_abs_def entries_def)

text \<open>
  C23: The hash table implements a finite map.  From an empty table every sequence of at most
  \<open>2 ^ 30\<close> calls of \<^verbatim>\<open>dictAdd\<close>, \<^verbatim>\<open>dictReplace\<close> and \<^verbatim>\<open>dictDelete\<close> succeeds, returns the codes of
  the finite map, and a following \<^verbatim>\<open>dictFind\<close> finds exactly the binding of the finite map,
  whatever the hash function and however often the table was expanded.
\<close>

theorem dict_refines_map:
  assumes "dictCreate rich_mem = Inr ht" "length xs \<le> 1073741824"
  shows "\<exists>cs ht'. table_run (dict_op rich_mem (plain_type hash kd vd)) xs ht = Inr (cs, ht') \<and>
    cs = fst (spec_run xs Map.empty) \<and>
    dictFind (plain_type hash kd vd) k ht' = Inr (map_option (Pair k) (snd (spec_run xs Map.empty) k))"
  using dict_table.run_then_find [of hash kd vd ht xs k] empty_dict_wf [OF assms(1)] assms(2) by auto

theorem dict_refines_map_witness:
  "\<exists>cs ht'. table_run (dict_op rich_mem (plain_type dictGenHashFunction True True))
      [OpAdd ''a'' (1::int), OpAdd ''a'' 2, OpReplace ''a'' 3, OpAdd ''b'' 4, OpDelete ''b'']
      \<lparr>d_table = None, d_size = 0, d_sizemask = 0, d_used = 0, d_freedKeys = [], d_freedVals = []\<rparr> = Inr (cs, ht') \<and>
    cs = [0, 1, 0, 0, 0] \<and>
    dictFind (plain_type dictGenHashFunction True True) ''a'' ht' = Inr (Some (''a'', 3))"
  using dict_refines_map [of "\<lparr>d_table = None, d_size = 0, d_sizemask = 0, d_used = 0, d_freedKeys = [], d_freedVals = []\<rparr>"
      "[OpAdd ''a'' (1::int), OpAdd ''a'' 2, OpReplace ''a'' 3, OpAdd ''b'' 4, OpDelete ''b'']"
      dictGenHashFunction True True "''a''"]
  by (simp add: dictCreate_def)

text \<open>
  A lookup after any single operation on a well-formed table, for every allocator that serves
  the requests and all callbacks that behave as equality and copying: a key that was added or
  replaced is found with its value, a deleted key is not found, every other key is found as
  before, and the table stays well-formed.
\<close>

lemma dict_lookup_after_update:
  assumes "\<And>n. mem_ok m n" "dt_ok ty" "dict_wf ty ht" "d_used ht < 1073741824"
  shows "\<exists>c ht'. dict_op m ty x ht = Inr (c, ht') \<and> dict_wf ty ht' \<and>
    dictFind ty k ht' = Inr (map_option (Pair k)
      (case x of
         OpAdd k' v \<Rightarrow> if k = k' \<and> dict_abs ht k = None then Some v else dict_abs ht k
       | OpReplace k' v \<Rightarrow> if k = k' then Some v else dict_abs ht k
       | OpDelete k' \<Rightarrow> if k = k' then None else dict_abs ht k))"
proof -
  from dict_op_correct [OF assms, of x] obtain ht' where ht':
    "dict_op m ty x ht = Inr (fst (spec_op x (dict_abs ht)), ht')" "dict_wf ty ht'"
    "dict_abs ht' = snd (spec_op x (dict_abs ht))" by blast
  then show ?thesis using dictFind_correct [OF ht'(2) assms(2), of k] by (cases x) auto
qed

lemma iterate_entries:
  assumes "dict_wf ty ht" "dictGetIterator m = Inr iter" "d_used ht < n"
  shows "iterate n ht iter = Inr (Some (entries ht))" "distinct (map fst (entries ht))" "length (entries ht) = d_used ht"
proof -
  have it: "it_index iter = -1" "it_entry iter = []" using assms(2) by (auto simp: dictGetIterator_def check_res_Inr)
  have "iterate n ht iter = Inr (Some (entries ht)) \<and> distinct (map fst (entries ht)) \<and> length (entries ht) = d_used ht"
  proof (cases "d_size ht = 0")
    case True
    then have "dictNext ht iter = Inr (None, iter\<lparr>it_index := 0\<rparr>)"
      by (subst dictNext.simps) (simp add: it i32_def)
    moreover obtain n' where "n = Suc n'" using assms(3) by (cases n) auto
    ultimately show ?thesis
      using dict_wf_cases [OF assms(1)] True by auto
  next
    case False
    with assms(1) obtain k t where kt: "table_wf ty k t ht" by (auto simp: dict_wf_def)
    have "remaining t iter = concat t" by (simp add: remaining_def it)
    moreover have "entries ht = concat t" "d_used ht = length (concat t)" "distinct (map fst (concat t))"
      using kt by (auto simp: table_wf_def)
    ultimately show ?thesis
      using iterate_remaining [OF kt, of iter n] assms(3) it by simp
  qed
  then show "iterate n ht iter = Inr (Some (entries ht))" "distinct (map fst (entries ht))" "length (entries ht) = d_used ht"
    by simp_all
qed

lemma clear_ok:
  assumes "dict_wf ty ht" "keyDestructor ty" "valDestructor ty"
  shows "\<exists>ht'. dictClear ty ht = Inr (DICT_OK, ht') \<and> dict_wf ty ht' \<and> dict_abs ht' = Map.empty \<and>
    d_freedKeys ht' = d_freedKeys ht @ map fst (entries ht) \<and>
    d_freedVals ht' = d_freedVals ht @ map snd (entries ht)"
proof -
  let ?cs = "case d_table ht of None \<Rightarrow> [] | Some t \<Rightarrow> take (d_size ht) t"
  note wf = dict_wf_cases [OF assms(1)]
  have cs: "concat ?cs = entries ht" using wf(3) by (auto simp: entries_def)
  have "d_used ht \<le> 4294967296"
    using assms(1) power_2_le by (fastforce simp: dict_wf_def table_wf_def)
  from clear_slots_log [OF assms(2,3) _ this, of ?cs] cs wf(1)
  have "d_freedKeys (clear_slots ty ?cs ht) = d_freedKeys ht @ map fst (entries ht)"
    "d_freedVals (clear_slots ty ?cs ht) = d_freedVals ht @ map snd (entries ht)" by simp_all
  moreover have "d_table ht \<noteq> None \<or> d_size ht = 0 \<or> d_used ht = 0" using wf(3) by auto
  ultimately show ?thesis
    by (simp add: dictClear_def dictReset_def dict_wf_def dict_abs_def entries_def)
qed

lemma all_below_4: "(\<forall>i < 4 :: nat. P i) \<longleftrightarrow> P 0 \<and> P 1 \<and> P 2 \<and> P 3"
  by (auto simp: numeral_eq_Suc less_Suc_eq)

text \<open>
  Bernstein's hash is the polynomial in 33 over the bytes, with the start value 5381 as leading
  coefficient, modulo \<open>2 ^ 32\<close>: the wrap-around after each byte is the wrap-around of the whole.
\<close>

lemma dict_hash_polynomial:
  "dictGenHashFunction buf = (5381 * 33 ^ length buf + horner_sum of_char 33 (rev buf)) mod 2 ^ 32"
  by (simp add: dictGenHashFunction_def dictGenHash_loop_poly)

text \<open>
  The results of the allocations are used without a check: adding to a new table when
  \<^verbatim>\<open>calloc\<close> refuses the four slots dereferences NULL.
\<close>

lemma dict_add_unchecked_allocation:
  assumes "\<not> mem_ok m 32"
  shows "dictAdd m ty k v \<lparr>d_table = None, d_size = 0, d_sizemask = 0, d_used = 0,
    d_freedKeys = [], d_freedVals = []\<rparr> = Inl NullDeref"
proof -
  have "dictNextPower 4 = 4" using dictNextPower_exact [of 0] by simp
  then show ?thesis
    using assms by (simp add: dictAdd_def dictKeyIndex_def dictExpandIfNeeded_def dictExpand_def
        Let_def slot_chain_def)
qed

end
