(* ===== verification/Command.thy ===== *)
theory Command
  imports ESB_Prelude
begin

text \<open>
  The message of the bus, \<^verbatim>\<open>src/src/command.proto\<close> with the accessors that protoc generated in
  \<^verbatim>\<open>command.pb.h\<close> and \<^verbatim>\<open>command.pb.cc\<close>.  A field with a has-bit is an \<open>option\<close>; a getter
  of an unset field returns the default of the generated constructor.  The setters are record
  updates with \<open>Some\<close>.  The unknown fields, which the generated code keeps, are a list of tags
  with the bytes of their values.
\<close>

section \<open>Data\<close>

datatype Cmd =
    ERROR | RESPONSE | ERROR_RESPONSE | NODE_HELLO | PROXY_HELLO | PING | PONG
  | INVOKE | REGISTER_INVOKE | REGISTER_INVOKE_OK
  | REGISTRY_EXCHANGE_REQUEST | REGISTRY_EXCHANGE_RESPONSE | PUBLISH | SUBSCRIBE

datatype RegistryEntryType = INVOKE_METHOD

record RegistryEntry =
  re_type :: "RegistryEntryType option"
  re_identifier :: "string option"
  re_method_guid :: "string option"
  re_proxy_guid :: "string option"
  re_unknown :: "(nat \<times> char list) list"

record Command =
  c_cmd :: "Cmd option"
  c_source_proxy_guid :: "string option"
  c_payload :: "string option"
  c_target_proxy_guid :: "string option"
  c_identifier :: "string option"
  c_guid_from :: "string option"
  c_guid_to :: "string option"
  c_recursion :: "int option"
  c_start_time :: "nat option"
  c_timeout_ms :: "int option"
  c_reg_entry :: "RegistryEntry list"
  c_unknown :: "(nat \<times> char list) list"

text \<open>\<^verbatim>\<open>Command::SharedCtor\<close>: no has-bit is set.\<close>

definition Command_new :: Command where
  "Command_new =
     \<lparr>c_cmd = None, c_source_proxy_guid = None, c_payload = None, c_target_proxy_guid = None,
      c_identifier = None, c_guid_from = None, c_guid_to = None, c_recursion = None,
      c_start_time = None, c_timeout_ms = None, c_reg_entry = [], c_unknown = []\<rparr>"

definition RegistryEntry_new :: RegistryEntry where
  "RegistryEntry_new =
     \<lparr>re_type = None, re_identifier = None, re_method_guid = None, re_proxy_guid = None, re_unknown = []\<rparr>"

section \<open>Getters\<close>

definition str_field :: "string option \<Rightarrow> string" where
  "str_field f = (case f of None \<Rightarrow> [] | Some s \<Rightarrow> s)"

definition cmd_of :: "Command \<Rightarrow> Cmd" where
  "cmd_of c = (case c_cmd c of None \<Rightarrow> ERROR | Some k \<Rightarrow> k)"

definition source_proxy_guid :: "Command \<Rightarrow> string" where
  "source_proxy_guid c = str_field (c_source_proxy_guid c)"

definition payload :: "Command \<Rightarrow> string" where
  "payload c = str_field (c_payload c)"

definition cmd_identifier :: "Command \<Rightarrow> string" where
  "cmd_identifier c = str_field (c_identifier c)"

definition guid_from :: "Command \<Rightarrow> string" where
  "guid_from c = str_field (c_guid_from c)"

definition guid_to :: "Command \<Rightarrow> string" where
  "guid_to c = str_field (c_guid_to c)"

definition recursion :: "Command \<Rightarrow> int" where
  "recursion c = (case c_recursion c of None \<Rightarrow> 0 | Some i \<Rightarrow> i)"

definition entry_type :: "RegistryEntry \<Rightarrow> RegistryEntryType" where
  "entry_type r = (case re_type r of None \<Rightarrow> INVOKE_METHOD | Some t \<Rightarrow> t)"

definition entry_identifier :: "RegistryEntry \<Rightarrow> string" where
  "entry_identifier r = str_field (re_identifier r)"

definition entry_method_guid :: "RegistryEntry \<Rightarrow> string" where
  "entry_method_guid r = str_field (re_method_guid r)"

definition entry_proxy_guid :: "RegistryEntry \<Rightarrow> string" where
  "entry_proxy_guid r = str_field (re_proxy_guid r)"

text \<open>\<^verbatim>\<open>IsInitialized\<close>: the required fields are set, also in every registry entry.\<close>

definition RegistryEntry_IsInitialized :: "RegistryEntry \<Rightarrow> bool" where
  "RegistryEntry_IsInitialized r \<longleftrightarrow>
     re_type r \<noteq> None \<and> re_identifier r \<noteq> None \<and> re_method_guid r \<noteq> None \<and> re_proxy_guid r \<noteq> None"

definition IsInitialized :: "Command \<Rightarrow> bool" where
  "IsInitialized c \<longleftrightarrow>
     c_cmd c \<noteq> None \<and> c_source_proxy_guid c \<noteq> None \<and> c_payload c \<noteq> None \<and>
     list_all RegistryEntry_IsInitialized (c_reg_entry c)"

text \<open>The number of a command on the wire, which the error texts print with \<^verbatim>\<open>%i\<close>.\<close>

fun cmd_number :: "Cmd \<Rightarrow> int" where
  "cmd_number ERROR = 1"
| "cmd_number RESPONSE = 2"
| "cmd_number ERROR_RESPONSE = 3"
| "cmd_number NODE_HELLO = 4"
| "cmd_number PROXY_HELLO = 5"
| "cmd_number PING = 6"
| "cmd_number PONG = 7"
| "cmd_number INVOKE = 8"
| "cmd_number REGISTER_INVOKE = 9"
| "cmd_number REGISTER_INVOKE_OK = 10"
| "cmd_number REGISTRY_EXCHANGE_REQUEST = 11"
| "cmd_number REGISTRY_EXCHANGE_RESPONSE = 12"
| "cmd_number PUBLISH = 13"
| "cmd_number SUBSCRIBE = 14"

lemma str_field_simps [simp]: "str_field (Some s) = s" "str_field None = []"
  by (simp_all add: str_field_def)

lemmas getter_defs = source_proxy_guid_def payload_def cmd_identifier_def guid_from_def guid_to_def
  recursion_def cmd_of_def entry_type_def entry_identifier_def entry_method_guid_def
  entry_proxy_guid_def

end
