(* ===== verification/Command_Wire.thy ===== *)
theory Command_Wire
  imports Command
begin

text \<open>
  The generated code that writes messages and reads them back (\<^verbatim>\<open>src/src/command.pb.cc\<close>).  It calls the
  runtime of protocol buffers for tags and single values; this runtime is not part of the repository
  and is a record of functions, an argument of the definitions.  The parser is a loop over tags with
  jumps: after a field it asks whether the tag of the next field follows, and if so goes on with
  that field at once.
\<close>

section \<open>The runtime\<close>

text \<open>
  The functions on input take the bytes that are left.  \<open>wr_ReadTag\<close> returns the tag, 0 at the end of the
  message, and the bytes after it; the rest is empty exactly when a message ends properly.  \<open>wr_ExpectTag\<close>
  gives the bytes after the tag if it saw the tag.  Reading a string also returns what the string
  holds afterwards, success or not.  \<open>wr_Delimited\<close> is the part of \<^verbatim>\<open>ReadMessageNoVirtual\<close> that reads the
  length and cuts off the bytes of the inner message.  \<open>wr_SkipField\<close> gives the bytes of the value.
\<close>

record wire_runtime =
  wr_ReadTag :: "char list \<Rightarrow> nat \<times> char list"
  wr_ExpectTag :: "nat \<Rightarrow> char list \<Rightarrow> char list option"
  wr_ExpectAtEnd :: "char list \<Rightarrow> bool"
  wr_ReadEnum :: "char list \<Rightarrow> (int \<times> char list) option"
  wr_ReadInt32 :: "char list \<Rightarrow> (int \<times> char list) option"
  wr_ReadUInt32 :: "char list \<Rightarrow> (nat \<times> char list) option"
  wr_ReadString :: "char list \<Rightarrow> string \<Rightarrow> bool \<times> string \<times> char list"
  wr_ReadBytes :: "char list \<Rightarrow> string \<Rightarrow> bool \<times> string \<times> char list"
  wr_Delimited :: "char list \<Rightarrow> (char list \<times> char list) option"
  wr_SkipField :: "nat \<Rightarrow> char list \<Rightarrow> (char list \<times> char list) option"
  wr_VarintField :: "int \<Rightarrow> char list"
  wr_WriteTag :: "nat \<Rightarrow> char list"
  wr_WriteEnum :: "nat \<Rightarrow> int \<Rightarrow> char list"
  wr_WriteInt32 :: "nat \<Rightarrow> int \<Rightarrow> char list"
  wr_WriteUInt32 :: "nat \<Rightarrow> nat \<Rightarrow> char list"
  wr_WriteString :: "nat \<Rightarrow> string \<Rightarrow> char list"
  wr_WriteBytes :: "nat \<Rightarrow> string \<Rightarrow> char list"
  wr_WriteMessage :: "nat \<Rightarrow> char list \<Rightarrow> char list"
  wr_EnumSize :: "int \<Rightarrow> nat"
  wr_Int32Size :: "int \<Rightarrow> nat"
  wr_UInt32Size :: "nat \<Rightarrow> nat"
  wr_StringSize :: "string \<Rightarrow> nat"
  wr_BytesSize :: "string \<Rightarrow> nat"
  wr_MessageSize :: "nat \<Rightarrow> nat"

text \<open>\<^verbatim>\<open>GetTagFieldNumber\<close> and \<^verbatim>\<open>GetTagWireType\<close>, with the numbers of the wire types.\<close>

definition tag_field :: "nat \<Rightarrow> nat" where
  "tag_field tag = tag div 8"

definition tag_type :: "nat \<Rightarrow> nat" where
  "tag_type tag = tag mod 8"

abbreviation (input) WIRETYPE_VARINT :: nat where "WIRETYPE_VARINT \<equiv> 0"
abbreviation (input) WIRETYPE_LENGTH_DELIMITED :: nat where "WIRETYPE_LENGTH_DELIMITED \<equiv> 2"
abbreviation (input) WIRETYPE_END_GROUP :: nat where "WIRETYPE_END_GROUP \<equiv> 4"

section \<open>Enumerations\<close>

definition all_cmds :: "Cmd list" where
  "all_cmds = [ERROR, RESPONSE, ERROR_RESPONSE, NODE_HELLO, PROXY_HELLO, PING, PONG, INVOKE, REGISTER_INVOKE, REGISTER_INVOKE_OK,
     REGISTRY_EXCHANGE_REQUEST, REGISTRY_EXCHANGE_RESPONSE, PUBLISH, SUBSCRIBE]"

definition Command_Cmd_IsValid :: "int \<Rightarrow> bool" where
  "Command_Cmd_IsValid v \<longleftrightarrow> 1 \<le> v \<and> v \<le> 14"

definition Command_RegistryEntryType_IsValid :: "int \<Rightarrow> bool" where
  "Command_RegistryEntryType_IsValid v \<longleftrightarrow> v = 1"

text \<open>The casts of valid values.\<close>

definition number_cmd :: "int \<Rightarrow> Cmd" where
  "number_cmd v = all_cmds ! nat (v - 1)"

definition number_type :: "int \<Rightarrow> RegistryEntryType" where
  "number_type v = INVOKE_METHOD"

fun type_number :: "RegistryEntryType \<Rightarrow> int" where
  "type_number INVOKE_METHOD = 1"

section \<open>Clearing, merging and copying\<close>

definition merge_field :: "'a option \<Rightarrow> 'a option \<Rightarrow> 'a option" where
  "merge_field from to = (case from of None \<Rightarrow> to | Some v \<Rightarrow> Some v)"

definition RegistryEntry_Clear :: "RegistryEntry \<Rightarrow> RegistryEntry" where
  "RegistryEntry_Clear e = RegistryEntry_new"

definition RegistryEntry_MergeFrom :: "RegistryEntry \<Rightarrow> RegistryEntry \<Rightarrow> RegistryEntry" where
  "RegistryEntry_MergeFrom from e = e\<lparr>re_type := merge_field (re_type from) (re_type e),
     re_identifier := merge_field (re_identifier from) (re_identifier e),
     re_method_guid := merge_field (re_method_guid from) (re_method_guid e),
     re_proxy_guid := merge_field (re_proxy_guid from) (re_proxy_guid e),
     re_unknown := re_unknown e @ re_unknown from\<rparr>"

definition RegistryEntry_CopyFrom :: "RegistryEntry \<Rightarrow> RegistryEntry \<Rightarrow> RegistryEntry" where
  "RegistryEntry_CopyFrom from e = RegistryEntry_MergeFrom from (RegistryEntry_Clear e)"

definition Command_Clear :: "Command \<Rightarrow> Command" where
  "Command_Clear c = Command_new"

text \<open>A repeated field is merged by copies of its elements at the end.\<close>

definition Command_MergeFrom :: "Command \<Rightarrow> Command \<Rightarrow> Command" where
  "Command_MergeFrom from c = c\<lparr>
     c_reg_entry := c_reg_entry c @ map (\<lambda>e. RegistryEntry_MergeFrom e RegistryEntry_new) (c_reg_entry from),
     c_cmd := merge_field (c_cmd from) (c_cmd c),
     c_source_proxy_guid := merge_field (c_source_proxy_guid from) (c_source_proxy_guid c),
     c_payload := merge_field (c_payload from) (c_payload c),
     c_target_proxy_guid := merge_field (c_target_proxy_guid from) (c_target_proxy_guid c),
     c_identifier := merge_field (c_identifier from) (c_identifier c),
     c_guid_from := merge_field (c_guid_from from) (c_guid_from c),
     c_guid_to := merge_field (c_guid_to from) (c_guid_to c),
     c_recursion := merge_field (c_recursion from) (c_recursion c),
     c_start_time := merge_field (c_start_time from) (c_start_time c),
     c_timeout_ms := merge_field (c_timeout_ms from) (c_timeout_ms c),
     c_unknown := c_unknown c @ c_unknown from\<rparr>"

definition Command_CopyFrom :: "Command \<Rightarrow> Command \<Rightarrow> Command" where
  "Command_CopyFrom from c = Command_MergeFrom from (Command_Clear c)"

definition Command_Swap :: "Command \<Rightarrow> Command \<Rightarrow> Command \<times> Command" where
  "Command_Swap c other = (other, c)"

section \<open>Writing\<close>

definition write_opt :: "('a \<Rightarrow> char list) \<Rightarrow> 'a option \<Rightarrow> char list" where
  "write_opt w f = (case f of None \<Rightarrow> [] | Some v \<Rightarrow> w v)"

text \<open>\<^verbatim>\<open>SerializeUnknownFields\<close>: every unknown field with its tag.\<close>

definition write_unknown :: "wire_runtime \<Rightarrow> (nat \<times> char list) list \<Rightarrow> char list" where
  "write_unknown rt us = concat (map (\<lambda>(tag, v). wr_WriteTag rt tag @ v) us)"

definition RegistryEntry_Serialize :: "wire_runtime \<Rightarrow> RegistryEntry \<Rightarrow> char list" where
  "RegistryEntry_Serialize rt e =
     write_opt (\<lambda>t. wr_WriteEnum rt 1 (type_number t)) (re_type e) @
     write_opt (wr_WriteString rt 2) (re_identifier e) @
     write_opt (wr_WriteString rt 3) (re_method_guid e) @
     write_opt (wr_WriteString rt 4) (re_proxy_guid e) @
     write_unknown rt (re_unknown e)"

definition Command_Serialize :: "wire_runtime \<Rightarrow> Command \<Rightarrow> char list" where
  "Command_Serialize rt c =
     write_opt (\<lambda>k. wr_WriteEnum rt 1 (cmd_number k)) (c_cmd c) @
     write_opt (wr_WriteString rt 2) (c_source_proxy_guid c) @
     write_opt (wr_WriteBytes rt 3) (c_payload c) @
     write_opt (wr_WriteString rt 4) (c_target_proxy_guid c) @
     write_opt (wr_WriteString rt 5) (c_identifier c) @
     write_opt (wr_WriteString rt 6) (c_guid_from c) @
     write_opt (wr_WriteString rt 7) (c_guid_to c) @
     write_opt (wr_WriteInt32 rt 8) (c_recursion c) @
     write_opt (wr_WriteUInt32 rt 9) (c_start_time c) @
     write_opt (wr_WriteInt32 rt 10) (c_timeout_ms c) @
     concat (map (\<lambda>e. wr_WriteMessage rt 11 (RegistryEntry_Serialize rt e)) (c_reg_entry c)) @
     write_unknown rt (c_unknown c)"

section \<open>Sizes\<close>

text \<open>The size of an optional field with its tag, and \<^verbatim>\<open>ComputeUnknownFieldsSize\<close>.\<close>

definition size_opt :: "('a \<Rightarrow> nat) \<Rightarrow> 'a option \<Rightarrow> int" where
  "size_opt w f = (case f of None \<Rightarrow> 0 | Some v \<Rightarrow> 1 + int (w v))"

definition unknown_size :: "wire_runtime \<Rightarrow> (nat \<times> char list) list \<Rightarrow> int" where
  "unknown_size rt us = int (length (write_unknown rt us))"

text \<open>The sums are \<^verbatim>\<open>int\<close>s; wrapping at the end is the same as wrapping in each step.\<close>

definition RegistryEntry_ByteSize :: "wire_runtime \<Rightarrow> RegistryEntry \<Rightarrow> int" where
  "RegistryEntry_ByteSize rt e = i32 (
     size_opt (\<lambda>t. wr_EnumSize rt (type_number t)) (re_type e) + size_opt (wr_StringSize rt) (re_identifier e) +
     size_opt (wr_StringSize rt) (re_method_guid e) + size_opt (wr_StringSize rt) (re_proxy_guid e) + unknown_size rt (re_unknown e))"

definition Command_ByteSize :: "wire_runtime \<Rightarrow> Command \<Rightarrow> int" where
  "Command_ByteSize rt c = i32 (
     size_opt (\<lambda>k. wr_EnumSize rt (cmd_number k)) (c_cmd c) + size_opt (wr_StringSize rt) (c_source_proxy_guid c) +
     size_opt (wr_BytesSize rt) (c_payload c) + size_opt (wr_StringSize rt) (c_target_proxy_guid c) +
     size_opt (wr_StringSize rt) (c_identifier c) + size_opt (wr_StringSize rt) (c_guid_from c) +
     size_opt (wr_StringSize rt) (c_guid_to c) + size_opt (wr_Int32Size rt) (c_recursion c) +
     size_opt (wr_UInt32Size rt) (c_start_time c) + size_opt (wr_Int32Size rt) (c_timeout_ms c) +
     int (length (c_reg_entry c)) +
     sum_list (map (\<lambda>e. int (wr_MessageSize rt (u64 (RegistryEntry_ByteSize rt e)))) (c_reg_entry c)) +
     unknown_size rt (c_unknown c))"

section \<open>Reading\<close>

text \<open>The result of the parser: whether it succeeded, the message, and the bytes that are left.\<close>

type_synonym 'm parsed = "bool \<times> 'm \<times> char list"

definition read_string ::
    "(char list \<Rightarrow> string \<Rightarrow> bool \<times> string \<times> char list) \<Rightarrow> string option \<Rightarrow> (string \<Rightarrow> 'm) \<Rightarrow> char list \<Rightarrow> 'm parsed" where
  "read_string rd old put input = (case rd input (str_field old) of (ok, s, input) \<Rightarrow> (ok, put s, input))"

definition read_value ::
    "(char list \<Rightarrow> ('v \<times> char list) option) \<Rightarrow> ('v \<Rightarrow> 'm) \<Rightarrow> 'm \<Rightarrow> char list \<Rightarrow> 'm parsed" where
  "read_value rd put m input = (case rd input of None \<Rightarrow> (False, m, input) | Some (v, input) \<Rightarrow> (True, put v, input))"

text \<open>Reading the value of field \<open>n\<close>, at the label \<^verbatim>\<open>parse_...\<close> of the field.\<close>

definition RegistryEntry_field :: "wire_runtime \<Rightarrow> nat \<Rightarrow> char list \<Rightarrow> RegistryEntry \<Rightarrow> RegistryEntry parsed" where
  "RegistryEntry_field rt n input e =
     (if n = 1 then read_value (wr_ReadEnum rt)
        (\<lambda>v. if Command_RegistryEntryType_IsValid v then e\<lparr>re_type := Some (number_type v)\<rparr>
             else e\<lparr>re_unknown := re_unknown e @ [(8, wr_VarintField rt v)]\<rparr>) e input
      else if n = 2 then read_string (wr_ReadString rt) (re_identifier e) (\<lambda>s. e\<lparr>re_identifier := Some s\<rparr>) input
      else if n = 3 then read_string (wr_ReadString rt) (re_method_guid e) (\<lambda>s. e\<lparr>re_method_guid := Some s\<rparr>) input
      else read_string (wr_ReadString rt) (re_proxy_guid e) (\<lambda>s. e\<lparr>re_proxy_guid := Some s\<rparr>) input)"

text \<open>The tags of the fields; the cases of the switch check the number and the wire type.\<close>

definition RegistryEntry_tags :: "nat list" where
  "RegistryEntry_tags = [8, 18, 26, 34]"

definition Command_tags :: "nat list" where
  "Command_tags = [8, 18, 26, 34, 42, 50, 58, 64, 72, 80, 90]"

text \<open>
  The loop; \<open>Some n\<close> is the jump to field \<open>n\<close>.  The first argument is fuel, and \<open>None\<close> as result says that it
  was used up.
\<close>

fun RegistryEntry_loop ::
    "wire_runtime \<Rightarrow> nat \<Rightarrow> nat option \<Rightarrow> char list \<Rightarrow> RegistryEntry \<Rightarrow> RegistryEntry parsed option" where
  "RegistryEntry_loop rt 0 at input e = None"
| "RegistryEntry_loop rt (Suc k) (Some n) input e =
     (case RegistryEntry_field rt n input e of
        (False, e, input) \<Rightarrow> Some (False, e, input)
      | (True, e, input) \<Rightarrow>
          if n < 4
          then (case wr_ExpectTag rt (RegistryEntry_tags ! n) input of
                  Some input' \<Rightarrow> RegistryEntry_loop rt k (Some (n + 1)) input' e
                | None \<Rightarrow> RegistryEntry_loop rt k None input e)
          else if wr_ExpectAtEnd rt input then Some (True, e, input)
          else RegistryEntry_loop rt k None input e)"
| "RegistryEntry_loop rt (Suc k) None input e =
     (case wr_ReadTag rt input of (tag, input) \<Rightarrow>
        if tag = 0 then Some (True, e, input)
        else if tag \<in> set RegistryEntry_tags then RegistryEntry_loop rt k (Some (tag_field tag)) input e
        else if tag_type tag = WIRETYPE_END_GROUP then Some (True, e, input)
        else (case wr_SkipField rt tag input of
                None \<Rightarrow> Some (False, e, input)
              | Some (v, input) \<Rightarrow> RegistryEntry_loop rt k None input (e\<lparr>re_unknown := re_unknown e @ [(tag, v)]\<rparr>)))"

definition RegistryEntry_MergePartial :: "wire_runtime \<Rightarrow> char list \<Rightarrow> RegistryEntry \<Rightarrow> RegistryEntry parsed option" where
  "RegistryEntry_MergePartial rt input e = RegistryEntry_loop rt (2 * length input + 1) None input e"

text \<open>
  \<^verbatim>\<open>ReadMessageNoVirtual\<close> on a new entry at the end of the list, which stays there when reading fails.  The inner
  message has to end where its bytes end.
\<close>

definition read_entry :: "wire_runtime \<Rightarrow> char list \<Rightarrow> Command \<Rightarrow> Command parsed option" where
  "read_entry rt input c =
     (case wr_Delimited rt input of
        None \<Rightarrow> Some (False, c\<lparr>c_reg_entry := c_reg_entry c @ [RegistryEntry_new]\<rparr>, input)
      | Some (inner, rest) \<Rightarrow>
          map_option (\<lambda>(ok, e, left). (ok \<and> left = [], c\<lparr>c_reg_entry := c_reg_entry c @ [e]\<rparr>, rest))
            (RegistryEntry_MergePartial rt inner RegistryEntry_new))"

definition Command_field :: "wire_runtime \<Rightarrow> nat \<Rightarrow> char list \<Rightarrow> Command \<Rightarrow> Command parsed option" where
  "Command_field rt n input c =
     (if n = 1 then Some (read_value (wr_ReadEnum rt)
        (\<lambda>v. if Command_Cmd_IsValid v then c\<lparr>c_cmd := Some (number_cmd v)\<rparr>
             else c\<lparr>c_unknown := c_unknown c @ [(8, wr_VarintField rt v)]\<rparr>) c input)
      else if n = 2 then Some (read_string (wr_ReadString rt) (c_source_proxy_guid c) (\<lambda>s. c\<lparr>c_source_proxy_guid := Some s\<rparr>) input)
      else if n = 3 then Some (read_string (wr_ReadBytes rt) (c_payload c) (\<lambda>s. c\<lparr>c_payload := Some s\<rparr>) input)
      else if n = 4 then Some (read_string (wr_ReadString rt) (c_target_proxy_guid c) (\<lambda>s. c\<lparr>c_target_proxy_guid := Some s\<rparr>) input)
      else if n = 5 then Some (read_string (wr_ReadString rt) (c_identifier c) (\<lambda>s. c\<lparr>c_identifier := Some s\<rparr>) input)
      else if n = 6 then Some (read_string (wr_ReadString rt) (c_guid_from c) (\<lambda>s. c\<lparr>c_guid_from := Some s\<rparr>) input)
      else if n = 7 then Some (read_string (wr_ReadString rt) (c_guid_to c) (\<lambda>s. c\<lparr>c_guid_to := Some s\<rparr>) input)
      else if n = 8 then Some (read_value (wr_ReadInt32 rt) (\<lambda>v. c\<lparr>c_recursion := Some v\<rparr>) c input)
      else if n = 9 then Some (read_value (wr_ReadUInt32 rt) (\<lambda>v. c\<lparr>c_start_time := Some v\<rparr>) c input)
      else if n = 10 then Some (read_value (wr_ReadInt32 rt) (\<lambda>v. c\<lparr>c_timeout_ms := Some v\<rparr>) c input)
      else read_entry rt input c)"

fun Command_loop :: "wire_runtime \<Rightarrow> nat \<Rightarrow> nat option \<Rightarrow> char list \<Rightarrow> Command \<Rightarrow> Command parsed option" where
  "Command_loop rt 0 at input c = None"
| "Command_loop rt (Suc k) (Some n) input c =
     (case Command_field rt n input c of
        None \<Rightarrow> None
      | Some (False, c, input) \<Rightarrow> Some (False, c, input)
      | Some (True, c, input) \<Rightarrow>
          (case wr_ExpectTag rt (Command_tags ! (if n < 11 then n else 10)) input of
             Some input' \<Rightarrow> Command_loop rt k (Some (if n < 11 then n + 1 else 11)) input' c
           | None \<Rightarrow>
               if n = 11 \<and> wr_ExpectAtEnd rt input then Some (True, c, input)
               else Command_loop rt k None input c))"
| "Command_loop rt (Suc k) None input c =
     (case wr_ReadTag rt input of (tag, input) \<Rightarrow>
        if tag = 0 then Some (True, c, input)
        else if tag \<in> set Command_tags then Command_loop rt k (Some (tag_field tag)) input c
        else if tag_type tag = WIRETYPE_END_GROUP then Some (True, c, input)
        else (case wr_SkipField rt tag input of
                None \<Rightarrow> Some (False, c, input)
              | Some (v, input) \<Rightarrow> Command_loop rt k None input (c\<lparr>c_unknown := c_unknown c @ [(tag, v)]\<rparr>)))"

definition Command_MergePartial :: "wire_runtime \<Rightarrow> char list \<Rightarrow> Command \<Rightarrow> Command parsed option" where
  "Command_MergePartial rt input c = Command_loop rt (2 * length input + 1) None input c"

end
