(* ===== verification/Wire_Parser.thy ===== *)
theory Wire_Parser
  imports Command_Wire
begin

text \<open>
  What the generated parsers need of the runtime, and what the loop of such a parser does, once for both
  messages.  The tags that the loop expects only save time: whenever the runtime sees an expected
  tag, reading the tag would have led to the same field.
\<close>

section \<open>The promises of the runtime\<close>

definition reads :: "(char list \<Rightarrow> ('v \<times> char list) option) \<Rightarrow> char list \<Rightarrow> 'v \<Rightarrow> bool" where
  "reads rd b v \<longleftrightarrow> (\<forall>rest. rd (b @ rest) = Some (v, rest))"

definition reads_text :: "(char list \<Rightarrow> string \<Rightarrow> bool \<times> string \<times> char list) \<Rightarrow> char list \<Rightarrow> string \<Rightarrow> bool" where
  "reads_text rd b s \<longleftrightarrow> (\<forall>old rest. rd (b @ rest) old = (True, s, rest))"

text \<open>
  Tags: a tag that was written is read back, a tag is seen only where it was written, and small tags
  take one byte.
\<close>

definition tag_laws :: "wire_runtime \<Rightarrow> bool" where
  "tag_laws rt \<longleftrightarrow> wr_ReadTag rt [] = (0, []) \<and>
     (\<forall>tag rest. 0 < tag \<longrightarrow> tag < 2 ^ 32 \<longrightarrow> wr_ReadTag rt (wr_WriteTag rt tag @ rest) = (tag, rest)) \<and>
     (\<forall>tag input rest. wr_ExpectTag rt tag input = Some rest \<longrightarrow> input = wr_WriteTag rt tag @ rest) \<and>
     (\<forall>input. wr_ExpectAtEnd rt input \<longrightarrow> input = []) \<and>
     (\<forall>tag. 0 < tag \<longrightarrow> tag < 128 \<longrightarrow> length (wr_WriteTag rt tag) = 1)"

text \<open>Values: written with their tag and in the size that was computed, they are read back.\<close>

definition value_laws :: "wire_runtime \<Rightarrow> bool" where
  "value_laws rt \<longleftrightarrow> (\<forall>n. 0 < n \<longrightarrow> n < 16 \<longrightarrow>
     (\<forall>v. - 2147483648 \<le> v \<longrightarrow> v \<le> 2147483647 \<longrightarrow>
        (\<exists>b. wr_WriteEnum rt n v = wr_WriteTag rt (8 * n) @ b \<and> reads (wr_ReadEnum rt) b v \<and> length b = wr_EnumSize rt v)) \<and>
     (\<forall>v. - 2147483648 \<le> v \<longrightarrow> v \<le> 2147483647 \<longrightarrow>
        (\<exists>b. wr_WriteInt32 rt n v = wr_WriteTag rt (8 * n) @ b \<and> reads (wr_ReadInt32 rt) b v \<and> length b = wr_Int32Size rt v)) \<and>
     (\<forall>v. v < 4294967296 \<longrightarrow>
        (\<exists>b. wr_WriteUInt32 rt n v = wr_WriteTag rt (8 * n) @ b \<and> reads (wr_ReadUInt32 rt) b v \<and> length b = wr_UInt32Size rt v)) \<and>
     (\<forall>s. length s \<le> 2147483647 \<longrightarrow>
        (\<exists>b. wr_WriteString rt n s = wr_WriteTag rt (8 * n + 2) @ b \<and> reads_text (wr_ReadString rt) b s \<and> length b = wr_StringSize rt s)) \<and>
     (\<forall>s. length s \<le> 2147483647 \<longrightarrow>
        (\<exists>b. wr_WriteBytes rt n s = wr_WriteTag rt (8 * n + 2) @ b \<and> reads_text (wr_ReadBytes rt) b s \<and> length b = wr_BytesSize rt s)) \<and>
     (\<forall>s. length s \<le> 2147483647 \<longrightarrow>
        (\<exists>b. wr_WriteMessage rt n s = wr_WriteTag rt (8 * n + 2) @ b \<and> reads (wr_Delimited rt) b s \<and> length b = wr_MessageSize rt (length s))))"

text \<open>Reading goes forward in the input.\<close>

definition forward_laws :: "wire_runtime \<Rightarrow> bool" where
  "forward_laws rt \<longleftrightarrow>
     (\<forall>input. fst (wr_ReadTag rt input) \<noteq> 0 \<longrightarrow> length (snd (wr_ReadTag rt input)) < length input) \<and>
     (\<forall>tag. 0 < length (wr_WriteTag rt tag)) \<and>
     (\<forall>input v rest. wr_ReadEnum rt input = Some (v, rest) \<longrightarrow> length rest \<le> length input) \<and>
     (\<forall>input v rest. wr_ReadInt32 rt input = Some (v, rest) \<longrightarrow> length rest \<le> length input) \<and>
     (\<forall>input v rest. wr_ReadUInt32 rt input = Some (v, rest) \<longrightarrow> length rest \<le> length input) \<and>
     (\<forall>input old. length (snd (snd (wr_ReadString rt input old))) \<le> length input) \<and>
     (\<forall>input old. length (snd (snd (wr_ReadBytes rt input old))) \<le> length input) \<and>
     (\<forall>input b rest. wr_Delimited rt input = Some (b, rest) \<longrightarrow> length rest \<le> length input) \<and>
     (\<forall>tag input b rest. wr_SkipField rt tag input = Some (b, rest) \<longrightarrow> length rest \<le> length input)"

definition runtime_laws :: "wire_runtime \<Rightarrow> bool" where
  "runtime_laws rt \<longleftrightarrow> tag_laws rt \<and> value_laws rt \<and> forward_laws rt"

text \<open>An unknown field that the runtime can skip.\<close>

definition skippable :: "wire_runtime \<Rightarrow> nat list \<Rightarrow> nat \<times> char list \<Rightarrow> bool" where
  "skippable rt tags = (\<lambda>(tag, v). 0 < tag \<and> tag < 2 ^ 32 \<and> tag \<notin> set tags \<and> tag_type tag \<noteq> WIRETYPE_END_GROUP \<and>
     (\<forall>rest. wr_SkipField rt tag (v @ rest) = Some (v, rest)))"

text \<open>The functions of the parser that store what was read.\<close>

lemma stores_text:
  assumes "reads_text rd b s"
  shows "read_string rd old put (b @ rest) = (True, put s, rest)"
  using assms by (simp add: read_string_def reads_text_def)

lemma stores_value:
  assumes "reads rd b v"
  shows "read_value rd put m (b @ rest) = (True, put v, rest)"
  using assms by (simp add: read_value_def reads_def)

lemma tag_fields: "tag_field (8 * n + 2) = n" "tag_field (8 * n) = n"
  unfolding tag_field_def by presburger+

section \<open>The loop of a generated parser\<close>

text \<open>
  \<open>next_field n\<close> is the tag that is expected after field \<open>n\<close> and the field it leads to; \<open>last_field n\<close> says
  that the message may end there; \<open>keep\<close> adds an unknown field.
\<close>

locale generated_parser =
  fixes rt :: wire_runtime
    and parse :: "nat \<Rightarrow> nat option \<Rightarrow> char list \<Rightarrow> 'm \<Rightarrow> 'm parsed option"
    and field :: "nat \<Rightarrow> char list \<Rightarrow> 'm \<Rightarrow> 'm parsed option"
    and tags :: "nat list"
    and next_field :: "nat \<Rightarrow> (nat \<times> nat) option"
    and last_field :: "nat \<Rightarrow> bool"
    and keep :: "nat \<Rightarrow> char list \<Rightarrow> 'm \<Rightarrow> 'm"
  assumes no_fuel: "parse 0 at input m = None"
    and at_field: "parse (Suc k) (Some n) input m =
      (case field n input m of
         None \<Rightarrow> None
       | Some (False, m, input) \<Rightarrow> Some (False, m, input)
       | Some (True, m, input) \<Rightarrow>
           (case (case next_field n of None \<Rightarrow> None | Some (tag, n') \<Rightarrow> map_option (Pair n') (wr_ExpectTag rt tag input)) of
              Some (n', input') \<Rightarrow> parse k (Some n') input' m
            | None \<Rightarrow> if last_field n \<and> wr_ExpectAtEnd rt input then Some (True, m, input) else parse k None input m))"
    and at_tag: "parse (Suc k) None input m =
      (case wr_ReadTag rt input of (tag, input) \<Rightarrow>
         if tag = 0 then Some (True, m, input)
         else if tag \<in> set tags then parse k (Some (tag_field tag)) input m
         else if tag_type tag = WIRETYPE_END_GROUP then Some (True, m, input)
         else (case wr_SkipField rt tag input of
                 None \<Rightarrow> Some (False, m, input)
               | Some (v, input) \<Rightarrow> parse k None input (keep tag v m)))"
    and next_tag: "next_field n = Some (tag, n') \<Longrightarrow> tag \<in> set tags \<and> tag_field tag = n'"
    and tags_small: "tag \<in> set tags \<Longrightarrow> 0 < tag \<and> tag < 2 ^ 32"
begin

definition yields :: "nat option \<Rightarrow> char list \<Rightarrow> 'm \<Rightarrow> 'm parsed \<Rightarrow> bool" where
  "yields at input m r \<longleftrightarrow> (\<exists>k. parse k at input m = Some r)"

lemma more_fuel: "parse k at input m = Some r \<Longrightarrow> parse (Suc k) at input m = Some r"
proof (induction k arbitrary: at input m)
  case (Suc k)
  then show ?case
  proof (cases at)
    case None
    then show ?thesis using Suc.prems [unfolded None at_tag] unfolding None
      by (subst at_tag) (auto intro: Suc.IH split: prod.splits if_splits option.splits)
  next
    case (Some n)
    then show ?thesis using Suc.prems [unfolded Some at_field] unfolding Some
      by (subst at_field) (auto intro: Suc.IH split: option.splits prod.splits bool.splits if_splits)
  qed
qed (simp add: no_fuel)

lemma more_fuel_le: "k \<le> k' \<Longrightarrow> parse k at input m = Some r \<Longrightarrow> parse k' at input m = Some r"
  by (induction rule: dec_induct) (auto intro: more_fuel)

lemma yields_unique: "yields at input m r \<Longrightarrow> yields at input m r' \<Longrightarrow> r = r'"
proof -
  assume "yields at input m r" "yields at input m r'"
  then obtain k k' where "parse k at input m = Some r" "parse k' at input m = Some r'" by (auto simp: yields_def)
  then show ?thesis using more_fuel_le [of k "max k k'" at input m r] more_fuel_le [of k' "max k k'" at input m r'] by simp
qed

lemma yields_end: "tag_laws rt \<Longrightarrow> yields None [] m (True, m, [])"
  unfolding yields_def by (rule exI [of _ 1]) (simp add: at_tag tag_laws_def)

lemma yields_tag:
  assumes "tag_laws rt" "tag \<in> set tags" "yields (Some (tag_field tag)) input m r"
  shows "yields None (wr_WriteTag rt tag @ input) m r"
proof -
  from assms(3) obtain k where k: "parse k (Some (tag_field tag)) input m = Some r" by (auto simp: yields_def)
  have "wr_ReadTag rt (wr_WriteTag rt tag @ input) = (tag, input)" using assms(1) tags_small [OF assms(2)] by (simp add: tag_laws_def)
  then show ?thesis using k assms(2) tags_small [OF assms(2)] unfolding yields_def by (intro exI [of _ "Suc k"]) (simp add: at_tag)
qed

lemma yields_tag_D:
  assumes "tag_laws rt" "tag \<in> set tags" "yields None (wr_WriteTag rt tag @ input) m r"
  shows "yields (Some (tag_field tag)) input m r"
proof -
  from assms(3) obtain k where k: "parse k None (wr_WriteTag rt tag @ input) m = Some r" by (auto simp: yields_def)
  then obtain k' where "k = Suc k'" by (cases k) (simp_all add: no_fuel)
  moreover have "wr_ReadTag rt (wr_WriteTag rt tag @ input) = (tag, input)" using assms(1) tags_small [OF assms(2)] by (simp add: tag_laws_def)
  ultimately show ?thesis using k assms(2) tags_small [OF assms(2)] unfolding yields_def by (auto simp: at_tag)
qed

text \<open>After a field the loop does what it would do without expecting a tag.\<close>

lemma yields_field:
  assumes "tag_laws rt" "field n input m = Some (True, m', input')" "yields None input' m' r"
  shows "yields (Some n) input m r"
proof (cases "case next_field n of None \<Rightarrow> None | Some (tag, n') \<Rightarrow> map_option (Pair n') (wr_ExpectTag rt tag input')")
  case None
  from assms(3) obtain k where k: "parse k None input' m' = Some r" by (auto simp: yields_def)
  have "r = (True, m', input')" if "wr_ExpectAtEnd rt input'"
    using that yields_unique [OF assms(3)] yields_end [OF assms(1), of m'] assms(1) by (auto simp: tag_laws_def)
  then show ?thesis using None assms(2) k unfolding yields_def by (intro exI [of _ "Suc k"]) (auto simp: at_field)
next
  case (Some p)
  then obtain tag n' rest where t: "next_field n = Some (tag, n')" "wr_ExpectTag rt tag input' = Some rest" "p = (n', rest)"
    by (auto split: option.splits)
  have "input' = wr_WriteTag rt tag @ rest" using t(2) assms(1) by (simp add: tag_laws_def)
  then have "yields (Some n') rest m' r" using yields_tag_D [OF assms(1), of tag rest m' r] next_tag [OF t(1)] assms(3) by simp
  then obtain k where "parse k (Some n') rest m' = Some r" by (auto simp: yields_def)
  then show ?thesis using t assms(2) unfolding yields_def by (intro exI [of _ "Suc k"]) (simp add: at_field)
qed

lemma field_step:
  assumes "tag_laws rt" "tag \<in> set tags" "field (tag_field tag) (b @ rest) m = Some (True, m', rest)" "yields None rest m' r"
  shows "yields None (wr_WriteTag rt tag @ b @ rest) m r"
  by (rule yields_tag [OF assms(1,2) yields_field [OF assms(1,3,4)]])

lemma opt_step:
  assumes "tag_laws rt" "tag \<in> set tags"
    and "\<And>v. f = Some v \<Longrightarrow> \<exists>b. w v = wr_WriteTag rt tag @ b \<and> (\<forall>rest. field (tag_field tag) (b @ rest) m = Some (True, m', rest))"
    and "f = None \<Longrightarrow> m' = m" "yields None rest m' r"
  shows "yields None (write_opt w f @ rest) m r"
proof (cases f)
  case None
  then show ?thesis using assms(4,5) by (simp add: write_opt_def)
next
  case (Some v)
  with assms(3) obtain b where b: "w v = wr_WriteTag rt tag @ b" "\<And>rest. field (tag_field tag) (b @ rest) m = Some (True, m', rest)" by blast
  from field_step [OF assms(1,2) b(2) assms(5)] show ?thesis using Some b(1) by (simp add: write_opt_def)
qed

lemma text_step:
  assumes "tag_laws rt" "8 * n + 2 \<in> set tags" "\<And>input. field n input m = Some (read_string rd old put input)"
    and "\<And>v. f = Some v \<Longrightarrow> \<exists>b. w v = wr_WriteTag rt (8 * n + 2) @ b \<and> reads_text rd b v \<and> Q b v"
    and "yields None rest m' r" "m' = (case f of None \<Rightarrow> m | Some v \<Rightarrow> put v)"
  shows "yields None (write_opt w f @ rest) m r"
proof (rule opt_step [OF assms(1,2) _ _ assms(5)])
  fix v assume v: "f = Some v"
  with assms(4) obtain b where "w v = wr_WriteTag rt (8 * n + 2) @ b" "reads_text rd b v" by blast
  then show "\<exists>b. w v = wr_WriteTag rt (8 * n + 2) @ b \<and> (\<forall>rest. field (tag_field (8 * n + 2)) (b @ rest) m = Some (True, m', rest))"
    using v assms(3,6) unfolding tag_fields by (intro exI [of _ b]) (simp add: stores_text)
qed (simp add: assms(6))

lemma value_step:
  assumes "tag_laws rt" "8 * n \<in> set tags" "\<And>input. field n input m = Some (read_value rd put m input)"
    and "\<And>v. f = Some v \<Longrightarrow> \<exists>b. w v = wr_WriteTag rt (8 * n) @ b \<and> reads rd b (num v) \<and> Q b v"
    and "yields None rest m' r" "m' = (case f of None \<Rightarrow> m | Some v \<Rightarrow> put (num v))"
  shows "yields None (write_opt w f @ rest) m r"
proof (rule opt_step [OF assms(1,2) _ _ assms(5)])
  fix v assume v: "f = Some v"
  with assms(4) obtain b where "w v = wr_WriteTag rt (8 * n) @ b" "reads rd b (num v)" by blast
  then show "\<exists>b. w v = wr_WriteTag rt (8 * n) @ b \<and> (\<forall>rest. field (tag_field (8 * n)) (b @ rest) m = Some (True, m', rest))"
    using v assms(3,6) unfolding tag_fields by (intro exI [of _ b]) (simp add: stores_value)
qed (simp add: assms(6))

lemma unknown_steps:
  assumes "tag_laws rt" "list_all (skippable rt tags) us"
  shows "yields None (write_unknown rt us) m (True, fold (\<lambda>(tag, v). keep tag v) us m, [])"
  using assms(2)
proof (induction us arbitrary: m)
  case Nil
  then show ?case using yields_end [OF assms(1)] by (simp add: write_unknown_def)
next
  case (Cons u us)
  obtain tag v where u: "u = (tag, v)" by (cases u)
  then have s: "0 < tag" "tag < 2 ^ 32" "tag \<notin> set tags" "tag_type tag \<noteq> WIRETYPE_END_GROUP"
    "\<And>rest. wr_SkipField rt tag (v @ rest) = Some (v, rest)" using Cons.prems by (auto simp: skippable_def)
  obtain k where k: "parse k None (write_unknown rt us) (keep tag v m) = Some (True, fold (\<lambda>(tag, v). keep tag v) us (keep tag v m), [])"
    using Cons by (auto simp: yields_def)
  have "wr_ReadTag rt (wr_WriteTag rt tag @ x) = (tag, x)" for x using assms(1) s(1,2) by (simp add: tag_laws_def)
  then show ?case using k s u unfolding yields_def by (intro exI [of _ "Suc k"]) (simp add: at_tag write_unknown_def)
qed

text \<open>On any input the fuel is enough.\<close>

lemma enough_fuel:
  assumes "tag_laws rt" "forward_laws rt" "\<And>n input m. \<exists>ok m' rest. field n input m = Some (ok, m', rest) \<and> length rest \<le> length input"
  shows "2 * length input + (case at of None \<Rightarrow> 1 | Some _ \<Rightarrow> 2) \<le> k \<Longrightarrow> \<exists>r. parse k at input m = Some r"
proof (induction k arbitrary: at input m)
  case 0
  then show ?case by (simp split: option.splits)
next
  case (Suc k)
  show ?case
  proof (cases at)
    case None
    obtain tag rest where t: "wr_ReadTag rt input = (tag, rest)" by (cases "wr_ReadTag rt input")
    then have len: "tag \<noteq> 0 \<Longrightarrow> length rest < length input"
      using assms(2) [unfolded forward_laws_def, THEN conjunct1, rule_format, of input] by simp
    have skip: "wr_SkipField rt tag rest = Some (v, rest') \<Longrightarrow> length rest' \<le> length rest" for v rest'
      using assms(2) by (auto simp: forward_laws_def)
    have "tag \<noteq> 0 \<Longrightarrow> \<exists>r. parse k (Some (tag_field tag)) rest m = Some r" using Suc.IH [where at = "Some (tag_field tag)" and input = rest] Suc.prems len None by simp
    moreover have "tag \<noteq> 0 \<Longrightarrow> wr_SkipField rt tag rest = Some (v, rest') \<Longrightarrow> \<exists>r. parse k None rest' (keep tag v m) = Some r" for v rest'
      using Suc.IH [where at = None and input = rest'] Suc.prems len skip [of v rest'] None by simp
    ultimately show ?thesis using None t by (auto simp: at_tag split: option.split)
  next
    case (Some n)
    from assms(3) [of n input m] obtain ok m' rest where f: "field n input m = Some (ok, m', rest)" "length rest \<le> length input" by blast
    have "\<exists>r. parse k None rest m' = Some r" using Suc.IH [where at = None and input = rest] Suc.prems f(2) Some by simp
    moreover have "\<exists>r. parse k (Some n') rest' m' = Some r" if "wr_ExpectTag rt tag rest = Some rest'" for tag n' rest'
    proof -
      have "rest = wr_WriteTag rt tag @ rest'" "0 < length (wr_WriteTag rt tag)" using that assms(1,2) by (auto simp: tag_laws_def forward_laws_def)
      then have "length rest' < length rest" by simp
      then show ?thesis using Suc.IH [where at = "Some n'" and input = rest'] Suc.prems f(2) Some by simp
    qed
    ultimately show ?thesis using Some f(1) by (cases ok) (auto simp: at_field split: option.split)
  qed
qed

text \<open>A parser that reads every tag, never looking ahead, yields the same.\<close>

lemma plain_yields:
  assumes "tag_laws rt" "\<And>at input m. parse' 0 at input m = None"
    and plain_field: "\<And>k n input m. parse' (Suc k) (Some n) input m =
      (case field n input m of
         None \<Rightarrow> None
       | Some (False, m, input) \<Rightarrow> Some (False, m, input)
       | Some (True, m, input) \<Rightarrow> parse' k None input m)"
    and plain_tag: "\<And>k input m. parse' (Suc k) None input m =
      (case wr_ReadTag rt input of (tag, input) \<Rightarrow>
         if tag = 0 then Some (True, m, input)
         else if tag \<in> set tags then parse' k (Some (tag_field tag)) input m
         else if tag_type tag = WIRETYPE_END_GROUP then Some (True, m, input)
         else (case wr_SkipField rt tag input of
                 None \<Rightarrow> Some (False, m, input)
               | Some (v, input) \<Rightarrow> parse' k None input (keep tag v m)))"
  shows "parse' k at input m = Some r \<Longrightarrow> yields at input m r"
proof (induction k arbitrary: at input m)
  case (Suc k)
  show ?case
  proof (cases at)
    case None
    obtain tag rest where t: "wr_ReadTag rt input = (tag, rest)" by (cases "wr_ReadTag rt input")
    show ?thesis
    proof (cases "tag = 0 \<or> (tag \<notin> set tags \<and> (tag_type tag = WIRETYPE_END_GROUP \<or> wr_SkipField rt tag rest = None))")
      case True
      then show ?thesis using Suc.prems t tags_small None unfolding yields_def
        by (intro exI [of _ 1]) (auto simp: plain_tag at_tag split: if_splits)
    next
      case False
      then have "\<exists>at' input' m'. parse' k at' input' m' = Some r \<and> (\<forall>k. parse (Suc k) None input m = parse k at' input' m')"
        using Suc.prems t None by (cases "tag \<in> set tags") (fastforce simp: plain_tag at_tag split: if_splits)+
      then obtain at' input' m' where p: "parse' k at' input' m' = Some r" "\<And>k. parse (Suc k) None input m = parse k at' input' m'" by blast
      from Suc.IH [OF p(1)] show ?thesis using p(2) None unfolding yields_def by metis
    qed
  next
    case (Some n)
    then show ?thesis
      using Suc.prems Suc.IH yields_field [OF assms(1), of n input m _ _ r] unfolding Some plain_field
      by (auto simp: yields_def at_field intro!: exI [of _ 1] split: option.splits prod.splits bool.splits)
  qed
qed (simp add: assms(2))

lemma yields_parse:
  assumes "tag_laws rt" "forward_laws rt" "\<And>n input m. \<exists>ok m' rest. field n input m = Some (ok, m', rest) \<and> length rest \<le> length input"
    and "yields None input m r"
  shows "parse (2 * length input + 1) None input m = Some r"
proof -
  from enough_fuel [OF assms(1-3), of input None "2 * length input + 1" m] obtain r' where r': "parse (2 * length input + 1) None input m = Some r'" by auto
  then have "yields None input m r'" by (auto simp: yields_def)
  then show ?thesis using r' yields_unique [OF assms(4)] by simp
qed

end

text \<open>The two parsers.\<close>

lemma entry_tags: "n < 4 \<Longrightarrow> RegistryEntry_tags ! n \<in> set RegistryEntry_tags \<and> tag_field (RegistryEntry_tags ! n) = n + 1"
proof -
  have "list_all (\<lambda>n. RegistryEntry_tags ! n \<in> set RegistryEntry_tags \<and> tag_field (RegistryEntry_tags ! n) = n + 1) [0..<4]" by code_simp
  then show "n < 4 \<Longrightarrow> ?thesis" by (simp add: list_all_iff)
qed

lemma command_tags: "n < 11 \<Longrightarrow> Command_tags ! n \<in> set Command_tags \<and> tag_field (Command_tags ! n) = n + 1"
proof -
  have "list_all (\<lambda>n. Command_tags ! n \<in> set Command_tags \<and> tag_field (Command_tags ! n) = n + 1) [0..<11]" by code_simp
  then show "n < 11 \<Longrightarrow> ?thesis" by (simp add: list_all_iff)
qed

interpretation entry_parser: generated_parser rt "RegistryEntry_loop rt" "\<lambda>n input e. Some (RegistryEntry_field rt n input e)" RegistryEntry_tags
  "\<lambda>n. if n < 4 then Some (RegistryEntry_tags ! n, n + 1) else None" "\<lambda>n. 4 \<le> n"
  "\<lambda>tag v e. e\<lparr>re_unknown := re_unknown e @ [(tag, v)]\<rparr>" for rt
proof (unfold_locales, goal_cases)
  case (2 k n input m)
  then show ?case by (auto split: option.split prod.split bool.split)
next
  case (3 k input m)
  then show ?case by simp
next
  case (4 n tag n')
  then show ?case using entry_tags [of n] by (auto split: if_splits)
qed (auto simp: RegistryEntry_tags_def)

interpretation command_parser: generated_parser rt "Command_loop rt" "Command_field rt" Command_tags
  "\<lambda>n. Some (Command_tags ! (if n < 11 then n else 10), if n < 11 then n + 1 else 11)" "\<lambda>n. n = 11"
  "\<lambda>tag v c. c\<lparr>c_unknown := c_unknown c @ [(tag, v)]\<rparr>" for rt
proof (unfold_locales, goal_cases)
  case (2 k n input m)
  then show ?case by (auto split: option.split prod.split bool.split)
next
  case (3 k input m)
  then show ?case by simp
next
  case (4 n tag n')
  then show ?case using command_tags [of n] command_tags [of 10] by (auto split: if_splits)
qed (auto simp: Command_tags_def)

end
