(* ===== verification/Wire_Runtime.thy ===== *)
theory Wire_Runtime
  imports Wire_Parser
begin

text \<open>
  A runtime that keeps the promises: base 128 varints and length-delimited values, as the format of
  protocol buffers documents them.  It shows that the promises can be kept, and the examples
  run on it; no statement about the generated code depends on it.
\<close>

section \<open>Varints\<close>

fun varint :: "nat \<Rightarrow> char list" where
  "varint n = (if n < 128 then [char_of n] else char_of (n mod 128 + 128) # varint (n div 128))"

declare varint.simps [simp del]

fun read_varint :: "nat \<Rightarrow> char list \<Rightarrow> (nat \<times> char list) option" where
  "read_varint 0 cs = None"
| "read_varint (Suc k) [] = None"
| "read_varint (Suc k) (c # cs) =
     (if of_char c < (128 :: nat) then Some (of_char c, cs)
      else map_option (\<lambda>(n, rest). (of_char c - 128 + 128 * n, rest)) (read_varint k cs))"

lemma varint_back: "n < 128 ^ Suc k \<Longrightarrow> read_varint (Suc k) (varint n @ rest) = Some (n, rest)"
proof (induction k arbitrary: n)
  case 0
  then show ?case by (simp add: varint.simps [of n])
next
  case (Suc k)
  show ?case
  proof (cases "n < 128")
    case True
    then show ?thesis by (simp add: varint.simps [of n])
  next
    case False
    have "n div 128 < 128 ^ Suc k" using Suc.prems by (simp add: div_less_iff_less_mult mult.commute)
    note tail = Suc.IH [OF this]
    have "(of_char (char_of (n mod 128 + 128) :: char) :: nat) = n mod 128 + 128" by (simp add: of_char_of)
    moreover have "varint n = char_of (n mod 128 + 128) # varint (n div 128)" using False by (simp add: varint.simps [of n])
    ultimately show ?thesis using tail by (simp only: append_Cons read_varint.simps) simp
  qed
qed

lemma varint_forward: "read_varint k cs = Some (n, rest) \<Longrightarrow> length rest < length cs"
proof (induction k cs arbitrary: n rule: read_varint.induct)
  case (3 k c cs)
  then show ?case by (fastforce split: if_splits)
qed simp_all

lemma varint_length: "varint n \<noteq> []" "n < 128 \<Longrightarrow> length (varint n) = 1"
  by (simp_all add: varint.simps [of n])

lemma varint_small: "n < 128 \<Longrightarrow> varint n = [char_of n]"
  by (simp add: varint.simps [of n])

lemma read_varint_small: "of_char c < (128 :: nat) \<Longrightarrow> read_varint 10 (c # cs) = Some (of_char c, cs)"
  using read_varint.simps(3) [of 9 c cs] by simp

lemma varint_ten: "n < 18446744073709551616 \<Longrightarrow> read_varint 10 (varint n @ rest) = Some (n, rest)"
  using varint_back [of n 9 rest] by simp

section \<open>The runtime\<close>

fun cut :: "char list \<Rightarrow> char list \<Rightarrow> char list option" where
  "cut [] ys = Some ys"
| "cut (x # xs) [] = None"
| "cut (x # xs) (y # ys) = (if x = y then cut xs ys else None)"

lemma cut_append: "cut xs ys = Some zs \<longleftrightarrow> ys = xs @ zs"
  by (induction xs ys rule: cut.induct) auto

definition delimited :: "char list \<Rightarrow> (char list \<times> char list) option" where
  "delimited input = (case read_varint 10 input of
     None \<Rightarrow> None
   | Some (n, rest) \<Rightarrow> if n \<le> length rest then Some (take n rest, drop n rest) else None)"

definition skip_field :: "nat \<Rightarrow> char list \<Rightarrow> (char list \<times> char list) option" where
  "skip_field tag input =
     (let fixed = (\<lambda>n. if n \<le> length input then Some (take n input, drop n input) else None);
          before = map_option (\<lambda>rest. (take (length input - length rest) input, rest)) in
      if tag_type tag = 0 then before (map_option snd (read_varint 10 input))
      else if tag_type tag = 1 then fixed 8
      else if tag_type tag = 2 then before (map_option snd (delimited input))
      else if tag_type tag = 5 then fixed 4
      else None)"

definition standard_runtime :: wire_runtime where
  "standard_runtime = (let text = (\<lambda>input old. case delimited input of None \<Rightarrow> (False, old, input) | Some (s, rest) \<Rightarrow> (True, s, rest));
       signed = (\<lambda>input. map_option (\<lambda>(n, rest). (i32 (int n), rest)) (read_varint 10 input)) in
   \<lparr>wr_ReadTag = (\<lambda>input. case read_varint 5 input of None \<Rightarrow> (0, input) | Some (n, rest) \<Rightarrow> (n, rest)),
    wr_ExpectTag = (\<lambda>tag. cut (varint tag)),
    wr_ExpectAtEnd = (\<lambda>input. input = []),
    wr_ReadEnum = signed,
    wr_ReadInt32 = signed,
    wr_ReadUInt32 = (\<lambda>input. map_option (\<lambda>(n, rest). (n mod 4294967296, rest)) (read_varint 10 input)),
    wr_ReadString = text,
    wr_ReadBytes = text,
    wr_Delimited = delimited,
    wr_SkipField = skip_field,
    wr_VarintField = (\<lambda>v. varint (u64 v)),
    wr_WriteTag = varint,
    wr_WriteEnum = (\<lambda>n v. varint (8 * n) @ varint (u64 v)),
    wr_WriteInt32 = (\<lambda>n v. varint (8 * n) @ varint (u64 v)),
    wr_WriteUInt32 = (\<lambda>n v. varint (8 * n) @ varint v),
    wr_WriteString = (\<lambda>n s. varint (8 * n + 2) @ varint (length s) @ s),
    wr_WriteBytes = (\<lambda>n s. varint (8 * n + 2) @ varint (length s) @ s),
    wr_WriteMessage = (\<lambda>n s. varint (8 * n + 2) @ varint (length s) @ s),
    wr_EnumSize = (\<lambda>v. length (varint (u64 v))),
    wr_Int32Size = (\<lambda>v. length (varint (u64 v))),
    wr_UInt32Size = (\<lambda>v. length (varint v)),
    wr_StringSize = (\<lambda>s. length (varint (length s)) + length s),
    wr_BytesSize = (\<lambda>s. length (varint (length s)) + length s),
    wr_MessageSize = (\<lambda>n. length (varint n) + n)\<rparr>)"

section \<open>It keeps the promises\<close>

lemma delimited_back: "length s \<le> 2147483647 \<Longrightarrow> delimited (varint (length s) @ s @ rest) = Some (s, rest)"
  by (simp add: delimited_def varint_ten)

lemma delimited_forward: "delimited input = Some (s, rest) \<Longrightarrow> length rest \<le> length input"
  by (auto simp: delimited_def dest!: varint_forward split: option.splits if_splits)

lemma signed_mod: "i32 (v mod 18446744073709551616) = i32 v"
proof -
  have "(v mod 18446744073709551616) mod 4294967296 = v mod 4294967296" by (rule mod_mod_cancel) simp
  then have "(v mod 18446744073709551616 + 2147483648) mod 4294967296 = (v + 2147483648) mod 4294967296" by (rule mod_add_cong [OF _ refl])
  then show ?thesis unfolding i32_def by (rule arg_cong)
qed

lemma signed_back:
  assumes "- 2147483648 \<le> v" "v \<le> 2147483647"
  shows "i32 (int (u64 v)) = v"
proof -
  have "int (u64 v) = v mod 18446744073709551616" unfolding u64_def by (rule nat_0_le) (rule pos_mod_sign, rule zero_less_numeral)
  then show ?thesis using assms by (simp only: signed_mod i32_id)
qed

lemma standard_tags: "tag_laws standard_runtime"
proof -
  have "n < 2 ^ 32 \<Longrightarrow> read_varint 5 (varint n @ rest) = Some (n, rest)" for n rest
    using varint_back [of n 4 rest] by simp
  moreover have "read_varint 5 [] = None" by (simp add: numeral_eq_Suc)
  ultimately show ?thesis by (simp add: tag_laws_def standard_runtime_def Let_def cut_append varint_length)
qed

lemma standard_values: "value_laws standard_runtime"
  by (simp add: value_laws_def standard_runtime_def Let_def reads_def reads_text_def varint_ten u64_bound signed_back delimited_back)

lemma standard_forward: "forward_laws standard_runtime"
proof -
  have "skip_field tag input = Some (b, rest) \<Longrightarrow> length rest \<le> length input" for tag input b rest
    by (auto simp: skip_field_def Let_def dest!: varint_forward delimited_forward split: if_splits)
  then show ?thesis
    by (auto simp: forward_laws_def standard_runtime_def Let_def varint_length less_imp_le dest: varint_forward delimited_forward split: option.split)
qed

lemma standard_laws: "runtime_laws standard_runtime"
  by (simp add: runtime_laws_def standard_tags standard_values standard_forward)

lemma standard_writes:
  "wr_WriteTag standard_runtime tag = varint tag"
  "wr_WriteEnum standard_runtime n v = varint (8 * n) @ varint (u64 v)" "wr_WriteInt32 standard_runtime n v = varint (8 * n) @ varint (u64 v)"
  "wr_WriteUInt32 standard_runtime n u = varint (8 * n) @ varint u"
  "wr_WriteString standard_runtime n s = varint (8 * n + 2) @ varint (length s) @ s"
  "wr_WriteBytes standard_runtime n s = varint (8 * n + 2) @ varint (length s) @ s"
  "wr_WriteMessage standard_runtime n s = varint (8 * n + 2) @ varint (length s) @ s"
  "wr_SkipField standard_runtime = skip_field"
  by (simp_all add: standard_runtime_def Let_def)

end
