(* ===== verification/Transport.thy ===== *)
theory Transport
  imports Command "HOL-Library.Sublist"
begin

text \<open>
  The sockets of the proxy: \<^verbatim>\<open>publisher.cc\<close>, \<^verbatim>\<open>subscriber.cc\<close>, \<^verbatim>\<open>requester.cc\<close> and the
  constructors of \<^verbatim>\<open>publisher.cc\<close> and \<^verbatim>\<open>responder.cc\<close> that look for a free port, with the
  GUID generator and the string splitter of \<^verbatim>\<open>proxy.cc\<close>.  ZeroMQ is not part of the
  repository: a bind, a connect and a receive are arguments that give its answer.  What the
  proxy sends is a list of pairs of a topic and a message, in the order of the sends;
  \<open>frame_bytes\<close> is the form of such a pair on the wire.
\<close>

section \<open>Helpers of proxy.cc\<close>

definition GUID_SIZE :: nat where
  "GUID_SIZE = 16"

text \<open>\<^verbatim>\<open>GenerateGuid\<close> with the values that \<^verbatim>\<open>rand()\<close> returns.\<close>

definition guid_char :: "nat \<Rightarrow> char" where
  "guid_char r = (let d = r mod 16 in if d < 10 then char_of (d + 48) else char_of (d + 55))"

definition GenerateGuid :: "(nat \<Rightarrow> nat) \<Rightarrow> nat \<Rightarrow> string" where
  "GenerateGuid rnd len = map (\<lambda>i. guid_char (rnd i)) [0..<len]"

text \<open>
  \<^verbatim>\<open>split\<close>: \<^verbatim>\<open>std::getline\<close> extracts up to a delimiter or the end, and fails when nothing is
  left, so a trailing delimiter makes no empty last element.
\<close>

fun getline :: "char \<Rightarrow> string \<Rightarrow> string \<times> string" where
  "getline d [] = ([], [])"
| "getline d (c # cs) = (if c = d then ([], cs) else (let (l, r) = getline d cs in (c # l, r)))"

lemma getline_shorter: "s \<noteq> [] \<Longrightarrow> length (snd (getline d s)) < length s"
proof (induction d s rule: getline.induct)
  case (2 d c cs)
  then show ?case by (cases "cs = []") (auto simp: case_prod_unfold Let_def)
qed simp

function split :: "string \<Rightarrow> char \<Rightarrow> string list" where
  "split s d = (if s = [] then [] else fst (getline d s) # split (snd (getline d s)) d)"
  by pat_completeness auto
termination
  by (relation "measure (\<lambda>(s, d). length s)") (auto simp: getline_shorter)

declare split.simps [simp del]

text \<open>
  Fixed arrays.  \<open>strcpy_into cap s\<close> is \<^verbatim>\<open>strcpy\<close> or \<^verbatim>\<open>sprintf\<close> into an array of \<open>cap\<close>
  bytes; \<open>c_block s\<close> is the storage behind \<^verbatim>\<open>c_str()\<close> of a \<^verbatim>\<open>std::string\<close>.
\<close>

definition strcpy_into :: "nat \<Rightarrow> string \<Rightarrow> string res" where
  "strcpy_into cap s = (if length (c_str s) < cap then Inr (c_str s) else Inl OutOfBounds)"

definition c_block :: "string \<Rightarrow> char list" where
  "c_block s = s @ [NUL]"

text \<open>
  \<^verbatim>\<open>strcpy\<close> or \<^verbatim>\<open>sprintf\<close> of \<open>s\<close> into a heap block requested with \<open>n\<close> bytes; \<open>refused\<close> is what
  happens when there is no memory: \<^verbatim>\<open>malloc\<close> gives NULL, which is not checked, \<^verbatim>\<open>new\<close> throws.
\<close>

definition strcpy_heap :: "c_error \<Rightarrow> cmem \<Rightarrow> nat \<Rightarrow> string \<Rightarrow> string res" where
  "strcpy_heap refused m n s =
     check_res (mem_ok m n) refused
       (if length (c_str s) + 1 \<le> n + mem_slack m n then Inr (c_str s) else Inl OutOfBounds)"

section \<open>Publisher\<close>

text \<open>
  The calls of ZeroMQ that prepare and send a message are taken to succeed (\<^verbatim>\<open>Publish\<close> asserts the first and
  logs a failure of the second), and \<^verbatim>\<open>SerializeToArray\<close> fails for messages without their required fields only,
  which the proxy always sets (\<open>initialized_messages\<close> and \<open>initialized_answers\<close> of \<open>Bus_Props\<close>).  The same holds of
  the assertions on message calls in \<open>Responder_Poll\<close> and in \<open>SendProxyHello\<close>.
\<close>

type_synonym outbox = "(string \<times> Command) list"

definition Publish_n :: "char list \<Rightarrow> nat \<Rightarrow> Command \<Rightarrow> outbox \<Rightarrow> outbox res" where
  "Publish_n target guidSize cmd out =
     bind_res (peek target 0 guidSize) (\<lambda>topic. Inr (out @ [(topic, cmd)]))"

definition Publish :: "char list \<Rightarrow> Command \<Rightarrow> outbox \<Rightarrow> outbox res" where
  "Publish target cmd out = Publish_n target GUID_SIZE cmd out"

definition frame_bytes :: "(Command \<Rightarrow> char list) \<Rightarrow> string \<times> Command \<Rightarrow> char list" where
  "frame_bytes serialize f = fst f @ TAB # serialize (snd f)"

text \<open>
  The loop of the constructors of \<^verbatim>\<open>Publisher\<close> and \<^verbatim>\<open>Responder\<close>.  \<open>zbind port errno\<close> is
  the pair of the return code of \<^verbatim>\<open>zmq_bind\<close> and of \<^verbatim>\<open>zmq_errno()\<close> after it.
\<close>

definition ADDR_IN_USE_ERROR :: int where
  "ADDR_IN_USE_ERROR = 98"

function bind_loop :: "(int \<Rightarrow> int \<Rightarrow> int \<times> int) \<Rightarrow> nat \<Rightarrow> int \<Rightarrow> int \<Rightarrow> int res" where
  "bind_loop zbind retries port errno =
     (let (rc, errno') = zbind port errno in
      if errno' = ADDR_IN_USE_ERROR \<and> Suc retries < 10
      then bind_loop zbind (Suc retries) (port + 1) errno'
      else check_res (rc = 0) AssertFailed (Inr port))"
  by pat_completeness auto
termination
  by (relation "measure (\<lambda>(zbind, retries, port, errno). 10 - retries)") auto

declare bind_loop.simps [simp del]

text \<open>The constructors; of the objects only the port matters to the proxy.\<close>

definition Responder_new :: "(int \<Rightarrow> int \<Rightarrow> int \<times> int) \<Rightarrow> int \<Rightarrow> int \<Rightarrow> int res" where
  "Responder_new zbind port errno = bind_loop zbind 0 port errno"

definition Publisher_new :: "(int \<Rightarrow> int \<Rightarrow> int \<times> int) \<Rightarrow> int \<Rightarrow> int \<Rightarrow> int res" where
  "Publisher_new zbind port errno = bind_loop zbind 0 port errno"

section \<open>Subscriber\<close>

record Subscriber =
  sub_connectString :: string
  sub_targetGuid :: string
  sub_lastActiveTime :: int
  sub_filters :: "string list"

definition Subscriber_new :: "int \<Rightarrow> string \<Rightarrow> string \<Rightarrow> Subscriber res" where
  "Subscriber_new now connectString targetGuid =
     bind_res (strcpy_into (GUID_SIZE + 1) targetGuid) (\<lambda>tg.
       Inr \<lparr>sub_connectString = take 512 (c_str connectString), sub_targetGuid = tg,
            sub_lastActiveTime = i32 now, sub_filters = []\<rparr>)"

text \<open>
  \<^verbatim>\<open>Connect\<close>: \<open>zconnect\<close> is the return code of \<^verbatim>\<open>zmq_connect\<close>.  A connect string that fills
  the 512 bytes has no terminator.  The socket options return 0 on a valid socket.
\<close>

definition Subscriber_Connect ::
    "(string \<Rightarrow> int) \<Rightarrow> int \<Rightarrow> string \<Rightarrow> (string \<times> string) list \<Rightarrow> Subscriber \<Rightarrow> (bool \<times> Subscriber) res" where
  "Subscriber_Connect zconnect now guid subscribeChannels s =
     check_res (length (sub_connectString s) < 512) OutOfBounds
       (if zconnect (sub_connectString s) = 0
        then Inr (True, s\<lparr>sub_filters := sub_filters s @ take GUID_SIZE guid # map snd subscribeChannels,
                          sub_lastActiveTime := i32 now\<rparr>)
        else Inr (False, s))"

text \<open>\<^verbatim>\<open>Subscribe\<close>: the text with its tab is printed into \<^verbatim>\<open>channel.length()+1\<close> bytes.\<close>

definition Subscriber_Subscribe :: "cmem \<Rightarrow> string \<Rightarrow> Subscriber \<Rightarrow> Subscriber res" where
  "Subscriber_Subscribe m channel s =
     bind_res (strcpy_heap OutOfMemory m (length channel + 1) (c_str channel @ [TAB])) (\<lambda>chan.
     bind_res (peek (chan @ NUL # replicate (mem_slack m (length channel + 1)) (mem_junk m 0)) 0
                (length channel + 1)) (\<lambda>f.
       Inr (s\<lparr>sub_filters := sub_filters s @ [f]\<rparr>)))"

text \<open>The answers of \<^verbatim>\<open>zmq_recvmsg\<close> with \<^verbatim>\<open>ZMQ_DONTWAIT\<close>.\<close>

datatype recv = RecvAgain | RecvError | Received "char list"

fun after_tab :: "char list \<Rightarrow> char list option" where
  "after_tab [] = None"
| "after_tab (c # cs) = (if c = TAB then Some cs else after_tab cs)"

definition Subscriber_Poll ::
    "(char list \<Rightarrow> Command option) \<Rightarrow> int \<Rightarrow> string \<Rightarrow> recv \<Rightarrow> Subscriber \<Rightarrow> Command option \<times> Subscriber" where
  "Subscriber_Poll parse now guid r s =
     (case r of
        RecvAgain \<Rightarrow> (None, s)
      | RecvError \<Rightarrow> (None, s)
      | Received bs \<Rightarrow>
          if bs = [] then (None, s)
          else case after_tab bs of
            None \<Rightarrow> (None, s)
          | Some body \<Rightarrow>
              (case parse body of
                 None \<Rightarrow> (None, s)
               | Some c \<Rightarrow> (Some (c\<lparr>c_target_proxy_guid := Some guid\<rparr>),
                            s\<lparr>sub_lastActiveTime := i32 now\<rparr>)))"

section \<open>Requester\<close>

text \<open>
  \<^verbatim>\<open>strncpy\<close> copies at most the 512 bytes of the array and leaves no terminator when the argument is
  longer, so that \<^verbatim>\<open>zmq_connect\<close> reads behind the array; \<^verbatim>\<open>strcpy\<close> copies the GUID.
\<close>

record Requester =
  req_connectString :: string
  req_targetGuid :: string

definition Requester_new :: "string \<Rightarrow> string \<Rightarrow> Requester res" where
  "Requester_new connectString targetGuid =
     bind_res (strcpy_into (GUID_SIZE + 1) targetGuid) (\<lambda>g.
       Inr \<lparr>req_connectString = take 512 connectString, req_targetGuid = g\<rparr>)"

definition Requester_Connect :: "(string \<Rightarrow> int) \<Rightarrow> Requester \<Rightarrow> bool res" where
  "Requester_Connect zconnect r =
     check_res (length (req_connectString r) < 512) OutOfBounds (Inr (zconnect (req_connectString r) = 0))"

text \<open>
  \<^verbatim>\<open>Requester::SendProxyHello\<close>: the request, and what the caller's 512-byte array holds after
  the answer.  The result of \<^verbatim>\<open>ParseFromArray\<close> is not looked at: a message that does not parse
  leaves the partial message \<open>parse_any\<close>, whose payload is copied.
\<close>

definition ProxyHello_request :: "string \<Rightarrow> string \<Rightarrow> Command" where
  "ProxyHello_request targetGuid guid =
     Command_new\<lparr>c_cmd := Some PROXY_HELLO, c_guid_to := Some targetGuid, c_guid_from := Some guid,
                 c_source_proxy_guid := Some guid, c_payload := Some guid\<rparr>"

definition SendProxyHello :: "(char list \<Rightarrow> Command) \<Rightarrow> recv \<Rightarrow> string option" where
  "SendProxyHello parse_any r =
     (case r of
        Received bs \<Rightarrow> if bs = [] then None else Some (take 512 (c_str (payload (parse_any bs))))
      | RecvAgain \<Rightarrow> None
      | RecvError \<Rightarrow> None)"

section \<open>Lemmas\<close>

definition hex_digit :: "char \<Rightarrow> bool" where
  "hex_digit c \<longleftrightarrow> c \<in> set ''0123456789ABCDEF''"

definition guid_ok :: "string \<Rightarrow> bool" where
  "guid_ok g \<longleftrightarrow> length g = GUID_SIZE \<and> list_all hex_digit g"

lemma hex_digit_guid_char: "hex_digit (guid_char r)"
proof -
  have "list_all (\<lambda>d. hex_digit (if d < 10 then char_of (d + 48) else char_of (d + 55))) [0..<16]"
    by code_simp
  moreover have "r mod 16 \<in> set [0..<16]" by simp
  ultimately show ?thesis
    unfolding list_all_iff guid_char_def Let_def by blast
qed

lemma guid_ok_chars: "guid_ok g \<Longrightarrow> TAB \<notin> set g \<and> no_nul g \<and> CHR ''#'' \<notin> set g"
proof -
  assume g: "guid_ok g"
  have "\<not> hex_digit TAB" "\<not> hex_digit NUL" "\<not> hex_digit (CHR ''#'')"
    by (simp_all add: hex_digit_def)
  with g show ?thesis by (auto simp only: guid_ok_def list_all_iff no_nul_def)
qed

lemma guid_ok_block [simp]:
  "guid_ok g \<Longrightarrow> length g = 16" "guid_ok g \<Longrightarrow> c_str g = g"
  using guid_ok_chars by (auto simp: guid_ok_def GUID_SIZE_def)

lemma GenerateGuid_ok: "guid_ok (GenerateGuid rnd GUID_SIZE)"
  by (simp add: guid_ok_def GenerateGuid_def list_all_iff hex_digit_guid_char)

lemma Publish_ok: "GUID_SIZE \<le> length blk \<Longrightarrow> Publish blk cmd out = Inr (out @ [(take GUID_SIZE blk, cmd)])"
  by (simp add: Publish_def Publish_n_def mem_simps)

lemma Publish_InrD: "Publish blk cmd out = Inr out' \<Longrightarrow> out' = out @ [(take GUID_SIZE blk, cmd)]"
  by (auto simp: Publish_def Publish_n_def peek_def split: if_splits)

lemma after_tab_append [simp]: "TAB \<notin> set t \<Longrightarrow> after_tab (t @ TAB # r) = Some r"
  by (induction t) auto

lemma after_tab_prefix: "after_tab bs = Some r \<Longrightarrow> \<exists>t. bs = t @ TAB # r \<and> TAB \<notin> set t"
proof (induction bs)
  case (Cons c cs)
  show ?case
  proof (cases "c = TAB")
    case True
    with Cons.prems have "c # cs = [] @ TAB # r \<and> TAB \<notin> set []" by simp
    then show ?thesis by blast
  next
    case False
    with Cons obtain t where "cs = t @ TAB # r" "TAB \<notin> set t" by auto
    with False have "c # cs = (c # t) @ TAB # r \<and> TAB \<notin> set (c # t)" by auto
    then show ?thesis by blast
  qed
qed simp

lemma getline_append: "d \<notin> set a \<Longrightarrow> getline d (a @ d # b) = (a, b)"
  by (induction a) auto

lemma getline_all: "d \<notin> set a \<Longrightarrow> getline d a = (a, [])"
  by (induction a) auto

lemma split_cons: "d \<notin> set a \<Longrightarrow> split (a @ d # b) d = a # split b d"
  by (subst split.simps) (simp add: getline_append)

lemma split_last: "d \<notin> set a \<Longrightarrow> a \<noteq> [] \<Longrightarrow> split a d = [a]"
  by (subst split.simps) (simp add: getline_all split.simps [of "[]"])

lemma split_two: "d \<notin> set a \<Longrightarrow> d \<notin> set b \<Longrightarrow> b \<noteq> [] \<Longrightarrow> split (a @ d # b) d = [a, b]"
  by (simp add: split_cons split_last)

lemma prefix_frame:
  assumes "TAB \<notin> set ch" "TAB \<notin> set topic"
  shows "prefix (ch @ [TAB]) (topic @ TAB # body) \<longleftrightarrow> topic = ch"
proof
  assume "prefix (ch @ [TAB]) (topic @ TAB # body)"
  then obtain r where "topic @ TAB # body = (ch @ [TAB]) @ r" by (auto simp: prefix_def)
  then have "takeWhile (\<lambda>c. c \<noteq> TAB) (topic @ TAB # body) = takeWhile (\<lambda>c. c \<noteq> TAB) (ch @ TAB # r)"
    by simp
  moreover have "takeWhile (\<lambda>c. c \<noteq> TAB) (xs @ TAB # ys) = xs" if "TAB \<notin> set xs" for xs ys
    using that by (induction xs) auto
  ultimately show "topic = ch" using assms by simp
qed (simp add: prefix_def)

lemma bind_loop_first_free:
  assumes busy: "\<And>p e. p \<in> B \<Longrightarrow> zbind p e = (-1, ADDR_IN_USE_ERROR)"
    and free: "\<And>p e. p \<notin> B \<Longrightarrow> fst (zbind p e) = 0 \<and> snd (zbind p e) \<noteq> ADDR_IN_USE_ERROR"
    and k: "\<And>i. i < k \<Longrightarrow> port + int i \<in> B" "port + int k \<notin> B" "retries + k < 10"
  shows "bind_loop zbind retries port errno = Inr (port + int k)"
  using k
proof (induction k arbitrary: retries port errno)
  case 0
  then show ?case
    using free [of port errno] by (subst bind_loop.simps) (simp add: case_prod_unfold)
next
  case (Suc k)
  have "port \<in> B" using Suc.prems(1) [of 0] by simp
  moreover have "bind_loop zbind (Suc retries) (port + 1) ADDR_IN_USE_ERROR = Inr (port + 1 + int k)"
  proof (rule Suc.IH)
    show "port + 1 + int i \<in> B" if "i < k" for i
      using Suc.prems(1) [of "Suc i"] that by (simp add: algebra_simps)
  qed (use Suc.prems in \<open>simp_all add: algebra_simps\<close>)
  ultimately show ?case
    using Suc.prems(3) busy [of port errno]
    by (subst bind_loop.simps) (simp add: algebra_simps)
qed

section \<open>Properties\<close>

text \<open>
  For a topic without a tab and a message that the wire format reproduces, \<open>Subscriber_Poll\<close> on the published frame returns
  that message, marked with the receiver's own GUID as target.
\<close>

lemma poll_published:
  assumes "Publish_n target n cmd out = Inr (out @ [f])" "parse (serialize cmd) = Some cmd"
    and "TAB \<notin> set (take n target)"
  shows "Subscriber_Poll parse now guid (Received (frame_bytes serialize f)) s =
    (Some (cmd\<lparr>c_target_proxy_guid := Some guid\<rparr>), s\<lparr>sub_lastActiveTime := i32 now\<rparr>)"
  using assms
  by (auto simp: Publish_n_def peek_def frame_bytes_def Subscriber_Poll_def split: if_splits)

text \<open>
  A generated GUID has sixteen upper-case hexadecimal digits whatever \<^verbatim>\<open>rand()\<close> returns, so a
  topic made of it holds no tab and no NUL, and \<open>Publish\<close> sends to exactly that GUID.
\<close>

lemma generated_guid_is_topic:
  "guid_ok (GenerateGuid rnd GUID_SIZE) \<and>
   TAB \<notin> set (GenerateGuid rnd GUID_SIZE) \<and>
   Publish (c_block (GenerateGuid rnd GUID_SIZE)) cmd out =
     Inr (out @ [(GenerateGuid rnd GUID_SIZE, cmd)])"
  using guid_ok_chars [OF GenerateGuid_ok] GenerateGuid_ok
  by (simp add: Publish_ok c_block_def GUID_SIZE_def)

text \<open>
  The port search of the publisher and the responder.  When a busy port makes
  \<^verbatim>\<open>zmq_bind\<close> fail with \<^verbatim>\<open>EADDRINUSE\<close> and a successful bind leaves another error number, the
  loop ends on the first free port at or after the requested one, if there is one among the
  first ten.
\<close>

lemma bind_loop_takes_first_free_port:
  assumes "\<And>p e. p \<in> B \<Longrightarrow> zbind p e = (-1, ADDR_IN_USE_ERROR)"
    and "\<And>p e. p \<notin> B \<Longrightarrow> fst (zbind p e) = 0 \<and> snd (zbind p e) \<noteq> ADDR_IN_USE_ERROR"
    and "\<And>i. i < k \<Longrightarrow> port + int i \<in> B" "port + int k \<notin> B" "k < 10"
  shows "bind_loop zbind 0 port errno = Inr (port + int k)"
  using bind_loop_first_free [of B zbind k port 0 errno] assms by simp

text \<open>
  The error number is looked at even after a bind that succeeded.  When a successful bind
  leaves it as it was, one busy port makes the loop bind every following port too and end on
  the tenth, although the second was free.
\<close>

lemma bind_loop_stale_errno:
  "bind_loop (\<lambda>p e. if p = port then (-1, ADDR_IN_USE_ERROR) else (0, e)) 0 port errno = Inr (port + 9)"
  by (simp add: bind_loop.simps ADDR_IN_USE_ERROR_def)

text \<open>
  A subscription made with \<open>Subscribe\<close> selects exactly the frames published on that
  channel: its filter, a prefix of the frame, ends in the tab that closes the topic.
\<close>

lemma subscribe_selects_channel:
  assumes "Subscriber_Subscribe m channel s = Inr s'" "no_nul channel" "TAB \<notin> set channel"
    and "TAB \<notin> set (fst f)"
  shows "\<exists>flt. sub_filters s' = sub_filters s @ [flt] \<and>
    (prefix flt (frame_bytes serialize f) \<longleftrightarrow> fst f = channel)"
proof -
  have "c_str (channel @ [TAB]) = channel @ [TAB]" using assms(2) by (simp add: no_nul_def)
  with assms(1,2) have "sub_filters s' = sub_filters s @ [channel @ [TAB]]"
    by (auto simp: Subscriber_Subscribe_def strcpy_heap_def peek_def bind_res_Inr check_res_Inr split: if_splits)
  then show ?thesis
    using prefix_frame [OF assms(3,4)] by (auto simp: frame_bytes_def)
qed

text \<open>
  C36: \<open>Subscribe\<close> prints the channel, a tab and the terminator into one byte less than they
  need: with an allocator that gives no byte more than requested, every subscription writes
  outside its buffer, unless there is no memory for the buffer at all.
\<close>

theorem subscribe_overruns_buffer:
  assumes "no_nul channel" "mem_slack m (length channel + 1) = 0"
  shows "Subscriber_Subscribe m channel s = Inl (if mem_ok m (length channel + 1) then OutOfBounds else OutOfMemory)"
proof -
  have "c_str (channel @ [TAB]) = channel @ [TAB]" using assms(1) by (simp add: no_nul_def)
  then show ?thesis using assms by (simp add: Subscriber_Subscribe_def strcpy_heap_def)
qed

theorem subscribe_overruns_buffer_witness:
  "Subscriber_Subscribe \<lparr>mem_ok = (\<lambda>_. True), mem_junk = (\<lambda>_. NUL), mem_slack = (\<lambda>_. 0)\<rparr> ''news''
    \<lparr>sub_connectString = [], sub_targetGuid = [], sub_lastActiveTime = 0, sub_filters = []\<rparr> =
   Inl OutOfBounds"
  using subscribe_overruns_buffer [of "''news''" "\<lparr>mem_ok = (\<lambda>_. True), mem_junk = (\<lambda>_. NUL), mem_slack = (\<lambda>_. 0)\<rparr>"]
  by (simp add: no_nul_def)

end
