(* ===== verification/Wire_Props.thy ===== *)
theory Wire_Props
  imports Wire_Runtime Transport
begin

text \<open>
  Messages survive the wire: parsing what was written merges it into a message, the computed size is the
  size that is written, and a published message arrives as it was sent.
\<close>

section \<open>Messages that fit\<close>

definition fits_text :: "string option \<Rightarrow> bool" where
  "fits_text f \<longleftrightarrow> (case f of None \<Rightarrow> True | Some s \<Rightarrow> length s \<le> 2147483647)"

definition fits_int :: "int option \<Rightarrow> bool" where
  "fits_int f \<longleftrightarrow> (case f of None \<Rightarrow> True | Some v \<Rightarrow> - 2147483648 \<le> v \<and> v \<le> 2147483647)"

definition RegistryEntry_fits :: "wire_runtime \<Rightarrow> RegistryEntry \<Rightarrow> bool" where
  "RegistryEntry_fits rt e \<longleftrightarrow> fits_text (re_identifier e) \<and> fits_text (re_method_guid e) \<and> fits_text (re_proxy_guid e) \<and>
     list_all (skippable rt RegistryEntry_tags) (re_unknown e) \<and> length (RegistryEntry_Serialize rt e) \<le> 2147483647"

definition Command_fits :: "wire_runtime \<Rightarrow> Command \<Rightarrow> bool" where
  "Command_fits rt c \<longleftrightarrow> list_all fits_text [c_source_proxy_guid c, c_payload c, c_target_proxy_guid c, c_identifier c, c_guid_from c, c_guid_to c] \<and>
     fits_int (c_recursion c) \<and> fits_int (c_timeout_ms c) \<and> (case c_start_time c of None \<Rightarrow> True | Some v \<Rightarrow> v < 4294967296) \<and>
     list_all (RegistryEntry_fits rt) (c_reg_entry c) \<and> list_all (skippable rt Command_tags) (c_unknown c) \<and>
     length (Command_Serialize rt c) \<le> 2147483647"

section \<open>Single fields\<close>

lemma enum_law:
  assumes "value_laws rt" "0 < n" "n < 16" "- 2147483648 \<le> v" "v \<le> 2147483647"
  shows "\<exists>b. wr_WriteEnum rt n v = wr_WriteTag rt (8 * n) @ b \<and> reads (wr_ReadEnum rt) b v \<and> length b = wr_EnumSize rt v"
  using assms unfolding value_laws_def by blast

lemma int_law:
  assumes "value_laws rt" "0 < n" "n < 16" "fits_int (Some v)"
  shows "\<exists>b. wr_WriteInt32 rt n v = wr_WriteTag rt (8 * n) @ b \<and> reads (wr_ReadInt32 rt) b v \<and> length b = wr_Int32Size rt v"
  using assms unfolding value_laws_def by (simp add: fits_int_def)

lemma uint_law:
  assumes "value_laws rt" "0 < n" "n < 16" "v < 4294967296"
  shows "\<exists>b. wr_WriteUInt32 rt n v = wr_WriteTag rt (8 * n) @ b \<and> reads (wr_ReadUInt32 rt) b v \<and> length b = wr_UInt32Size rt v"
  using assms unfolding value_laws_def by blast

lemma string_law:
  assumes "value_laws rt" "0 < n" "n < 16" "fits_text (Some s)"
  shows "\<exists>b. wr_WriteString rt n s = wr_WriteTag rt (8 * n + 2) @ b \<and> reads_text (wr_ReadString rt) b s \<and> length b = wr_StringSize rt s"
  using assms unfolding value_laws_def by (simp add: fits_text_def)

lemma bytes_law:
  assumes "value_laws rt" "0 < n" "n < 16" "fits_text (Some s)"
  shows "\<exists>b. wr_WriteBytes rt n s = wr_WriteTag rt (8 * n + 2) @ b \<and> reads_text (wr_ReadBytes rt) b s \<and> length b = wr_BytesSize rt s"
  using assms unfolding value_laws_def by (simp add: fits_text_def)

lemma message_law:
  assumes "value_laws rt" "0 < n" "n < 16" "length s \<le> 2147483647"
  shows "\<exists>b. wr_WriteMessage rt n s = wr_WriteTag rt (8 * n + 2) @ b \<and> reads (wr_Delimited rt) b s \<and> length b = wr_MessageSize rt (length s)"
  using assms unfolding value_laws_def by blast

lemma cmd_numbers: "Command_Cmd_IsValid (cmd_number k)" "number_cmd (cmd_number k) = k" "- 2147483648 \<le> cmd_number k" "cmd_number k \<le> 2147483647"
  by (cases k; simp add: Command_Cmd_IsValid_def number_cmd_def all_cmds_def)+

lemma type_numbers: "Command_RegistryEntryType_IsValid (type_number t)" "number_type (type_number t) = t" "type_number t = 1"
  by (cases t; simp add: Command_RegistryEntryType_IsValid_def number_type_def)+

lemma type_read: "e\<lparr>re_type := Some t\<rparr> = e\<lparr>re_type := Some (number_type v)\<rparr>" "Command_RegistryEntryType_IsValid 1"
  by (cases t; simp add: Command_RegistryEntryType_IsValid_def number_type_def)+

section \<open>Parsing what was written\<close>

lemma keep_unknown:
  "fold (\<lambda>(tag, v) e. e\<lparr>re_unknown := re_unknown e @ [(tag, v)]\<rparr>) us e = e\<lparr>re_unknown := re_unknown e @ us\<rparr>"
  "fold (\<lambda>(tag, v) c. c\<lparr>c_unknown := c_unknown c @ [(tag, v)]\<rparr>) us c = c\<lparr>c_unknown := c_unknown c @ us\<rparr>"
  by (induction us arbitrary: e c) auto

lemma entry_written:
  assumes "runtime_laws rt" "RegistryEntry_fits rt e"
  shows "entry_parser.yields rt None (RegistryEntry_Serialize rt e) e0 (True, RegistryEntry_MergeFrom e e0, [])"
proof -
  have laws: "tag_laws rt" "value_laws rt" using assms(1) by (simp_all add: runtime_laws_def)
  have ok: "fits_text (re_identifier e)" "fits_text (re_method_guid e)" "fits_text (re_proxy_guid e)" "list_all (skippable rt RegistryEntry_tags) (re_unknown e)"
    using assms(2) by (simp_all add: RegistryEntry_fits_def)
  define e1 where "e1 = e0\<lparr>re_type := merge_field (re_type e) (re_type e0)\<rparr>"
  define e2 where "e2 = e1\<lparr>re_identifier := merge_field (re_identifier e) (re_identifier e1)\<rparr>"
  define e3 where "e3 = e2\<lparr>re_method_guid := merge_field (re_method_guid e) (re_method_guid e2)\<rparr>"
  define e4 where "e4 = e3\<lparr>re_proxy_guid := merge_field (re_proxy_guid e) (re_proxy_guid e3)\<rparr>"
  let ?r = "(True, RegistryEntry_MergeFrom e e0, [])"
  have "RegistryEntry_MergeFrom e e0 = e4\<lparr>re_unknown := re_unknown e4 @ re_unknown e\<rparr>"
    by (simp add: RegistryEntry_MergeFrom_def e1_def e2_def e3_def e4_def)
  then have "entry_parser.yields rt None (write_unknown rt (re_unknown e)) e4 ?r"
    using entry_parser.unknown_steps [OF laws(1) ok(4), of e4] by (simp add: keep_unknown)
  then have "entry_parser.yields rt None (write_opt (wr_WriteString rt 4) (re_proxy_guid e) @ write_unknown rt (re_unknown e)) e3 ?r"
    by (rule entry_parser.text_step [OF laws(1), where n = 4, rotated 3])
      (use ok(3) string_law [OF laws(2), of 4] in \<open>auto simp: RegistryEntry_tags_def RegistryEntry_field_def e4_def merge_field_def split: option.split\<close>)
  then have "entry_parser.yields rt None (write_opt (wr_WriteString rt 3) (re_method_guid e) @
      write_opt (wr_WriteString rt 4) (re_proxy_guid e) @ write_unknown rt (re_unknown e)) e2 ?r"
    by (rule entry_parser.text_step [OF laws(1), where n = 3, rotated 3])
      (use ok(2) string_law [OF laws(2), of 3] in \<open>auto simp: RegistryEntry_tags_def RegistryEntry_field_def e3_def merge_field_def split: option.split\<close>)
  then have "entry_parser.yields rt None (write_opt (wr_WriteString rt 2) (re_identifier e) @ write_opt (wr_WriteString rt 3) (re_method_guid e) @
      write_opt (wr_WriteString rt 4) (re_proxy_guid e) @ write_unknown rt (re_unknown e)) e1 ?r"
    by (rule entry_parser.text_step [OF laws(1), where n = 2, rotated 3])
      (use ok(1) string_law [OF laws(2), of 2] in \<open>auto simp: RegistryEntry_tags_def RegistryEntry_field_def e2_def merge_field_def split: option.split\<close>)
  then show ?thesis unfolding RegistryEntry_Serialize_def
    by (rule entry_parser.value_step [OF laws(1), where n = 1 and num = type_number and Q = "\<lambda>b v. length b = wr_EnumSize rt (type_number v)", rotated 3])
      (use enum_law [OF laws(2), of 1] in \<open>auto simp: RegistryEntry_tags_def RegistryEntry_field_def e1_def merge_field_def type_numbers type_read
        split: option.split\<close>)
qed

lemma entry_field_forward:
  assumes "forward_laws rt"
  shows "\<exists>ok e' rest. Some (RegistryEntry_field rt n input e) = Some (ok, e', rest) \<and> length rest \<le> length input"
proof -
  have v: "length (snd (snd (read_value (wr_ReadEnum rt) put e input))) \<le> length input" for put :: "int \<Rightarrow> RegistryEntry"
    using assms by (auto simp: read_value_def forward_laws_def split: option.split)
  have t: "length (snd (snd (read_string (wr_ReadString rt) old put input))) \<le> length input" for old and put :: "string \<Rightarrow> RegistryEntry"
    using assms by (auto simp: read_string_def forward_laws_def split_beta)
  have "length (snd (snd (RegistryEntry_field rt n input e))) \<le> length input" using v t by (simp add: RegistryEntry_field_def)
  then show ?thesis by (cases "RegistryEntry_field rt n input e") auto
qed

lemma entry_parses_written:
  assumes "runtime_laws rt" "RegistryEntry_fits rt e"
  shows "RegistryEntry_MergePartial rt (RegistryEntry_Serialize rt e) e0 = Some (True, RegistryEntry_MergeFrom e e0, [])"
  using entry_parser.yields_parse [OF _ _ entry_field_forward entry_written [OF assms]] assms(1)
  by (simp add: RegistryEntry_MergePartial_def runtime_laws_def)

text \<open>The parser ends on all bytes.\<close>

lemma entry_parser_total:
  assumes "runtime_laws rt"
  shows "\<exists>r. RegistryEntry_MergePartial rt input e = Some r"
  using entry_parser.enough_fuel [OF _ _ entry_field_forward, where input = input and at = None and k = "2 * length input + 1"] assms
  by (simp add: RegistryEntry_MergePartial_def runtime_laws_def)

lemma read_entry_forward:
  assumes "runtime_laws rt"
  shows "\<exists>ok c' rest. read_entry rt input c = Some (ok, c', rest) \<and> length rest \<le> length input"
proof (cases "wr_Delimited rt input")
  case (Some p)
  obtain inner rest where p: "p = (inner, rest)" by (cases p)
  then have "length rest \<le> length input" using Some assms by (auto simp: runtime_laws_def forward_laws_def)
  moreover obtain ok e left where "RegistryEntry_MergePartial rt inner RegistryEntry_new = Some (ok, e, left)"
    using entry_parser_total [OF assms, of inner RegistryEntry_new] by auto
  ultimately show ?thesis using Some p by (simp add: read_entry_def)
qed (auto simp: read_entry_def)

lemma command_field_forward:
  assumes "runtime_laws rt"
  shows "\<exists>ok c' rest. Command_field rt n input c = Some (ok, c', rest) \<and> length rest \<le> length input"
proof -
  have fw: "forward_laws rt" using assms by (simp add: runtime_laws_def)
  define fwd :: "Command parsed option \<Rightarrow> bool" where
    "fwd r \<longleftrightarrow> (\<exists>ok c' rest. r = Some (ok, c', rest) \<and> length rest \<le> length input)" for r
  have v: "fwd (Some (read_value rd put c input))" if "\<And>v rest. rd input = Some (v, rest) \<Longrightarrow> length rest \<le> length input"
    for rd :: "char list \<Rightarrow> ('v \<times> char list) option" and put
    using that by (auto simp: fwd_def read_value_def split: option.split)
  have ifs: "fwd x \<Longrightarrow> fwd y \<Longrightarrow> fwd (if b then x else y)" for x y b by simp
  have e: "fwd (read_entry rt input c)" using read_entry_forward [OF assms] by (simp add: fwd_def)
  have fw': "\<And>v rest. wr_ReadEnum rt input = Some (v, rest) \<Longrightarrow> length rest \<le> length input"
    "\<And>v rest. wr_ReadInt32 rt input = Some (v, rest) \<Longrightarrow> length rest \<le> length input"
    "\<And>v rest. wr_ReadUInt32 rt input = Some (v, rest) \<Longrightarrow> length rest \<le> length input"
    "\<And>old. length (snd (snd (wr_ReadString rt input old))) \<le> length input"
    "\<And>old. length (snd (snd (wr_ReadBytes rt input old))) \<le> length input"
    using fw unfolding forward_laws_def by blast+
  have t: "fwd (Some (read_string (wr_ReadString rt) old put input))" "fwd (Some (read_string (wr_ReadBytes rt) old put input))" for old put
    using fw'(4,5) [of "str_field old"] by (auto simp: fwd_def read_string_def split_beta)
  have "fwd (Command_field rt n input c)" unfolding Command_field_def
    by (intro ifs v [OF fw'(1)] v [OF fw'(2)] v [OF fw'(3)] t e)
  then show ?thesis by (simp add: fwd_def)
qed

lemma entries_written:
  assumes "runtime_laws rt" "list_all (RegistryEntry_fits rt) es"
    and "command_parser.yields rt None rest (c\<lparr>c_reg_entry := c_reg_entry c @ map (\<lambda>e. RegistryEntry_MergeFrom e RegistryEntry_new) es\<rparr>) r"
  shows "command_parser.yields rt None (concat (map (\<lambda>e. wr_WriteMessage rt 11 (RegistryEntry_Serialize rt e)) es) @ rest) c r"
  using assms(2,3)
proof (induction es arbitrary: c)
  case (Cons e es)
  have laws: "tag_laws rt" "value_laws rt" using assms(1) by (simp_all add: runtime_laws_def)
  have e: "RegistryEntry_fits rt e" using Cons.prems(1) by simp
  then have "length (RegistryEntry_Serialize rt e) \<le> 2147483647" by (simp add: RegistryEntry_fits_def)
  with message_law [OF laws(2), of 11] obtain b where
    b: "wr_WriteMessage rt 11 (RegistryEntry_Serialize rt e) = wr_WriteTag rt 90 @ b" "reads (wr_Delimited rt) b (RegistryEntry_Serialize rt e)" by auto
  let ?c = "c\<lparr>c_reg_entry := c_reg_entry c @ [RegistryEntry_MergeFrom e RegistryEntry_new]\<rparr>"
  let ?rest = "concat (map (\<lambda>e. wr_WriteMessage rt 11 (RegistryEntry_Serialize rt e)) es) @ rest"
  have "Command_field rt (tag_field 90) (b @ ?rest) c = Some (True, ?c, ?rest)"
    using b(2) entry_parses_written [OF assms(1) e] by (simp add: Command_field_def tag_field_def read_entry_def reads_def)
  moreover have "command_parser.yields rt None ?rest ?c r" using Cons by simp
  ultimately show ?case using command_parser.field_step [OF laws(1), of 90 b ?rest c ?c r] b(1) by (simp add: Command_tags_def)
qed simp

text \<open>The message with its first \<open>n\<close> fields merged.\<close>

definition merged :: "nat \<Rightarrow> Command \<Rightarrow> Command \<Rightarrow> Command" where
  "merged n from c = c\<lparr>
     c_cmd := if 1 \<le> n then merge_field (c_cmd from) (c_cmd c) else c_cmd c,
     c_source_proxy_guid := if 2 \<le> n then merge_field (c_source_proxy_guid from) (c_source_proxy_guid c) else c_source_proxy_guid c,
     c_payload := if 3 \<le> n then merge_field (c_payload from) (c_payload c) else c_payload c,
     c_target_proxy_guid := if 4 \<le> n then merge_field (c_target_proxy_guid from) (c_target_proxy_guid c) else c_target_proxy_guid c,
     c_identifier := if 5 \<le> n then merge_field (c_identifier from) (c_identifier c) else c_identifier c,
     c_guid_from := if 6 \<le> n then merge_field (c_guid_from from) (c_guid_from c) else c_guid_from c,
     c_guid_to := if 7 \<le> n then merge_field (c_guid_to from) (c_guid_to c) else c_guid_to c,
     c_recursion := if 8 \<le> n then merge_field (c_recursion from) (c_recursion c) else c_recursion c,
     c_start_time := if 9 \<le> n then merge_field (c_start_time from) (c_start_time c) else c_start_time c,
     c_timeout_ms := if 10 \<le> n then merge_field (c_timeout_ms from) (c_timeout_ms c) else c_timeout_ms c\<rparr>"

text \<open>The fields from number \<open>n\<close> on, as they are written.\<close>

definition written :: "wire_runtime \<Rightarrow> nat \<Rightarrow> Command \<Rightarrow> char list" where
  "written rt n c =
     (if n \<le> 1 then write_opt (\<lambda>k. wr_WriteEnum rt 1 (cmd_number k)) (c_cmd c) else []) @
     (if n \<le> 2 then write_opt (wr_WriteString rt 2) (c_source_proxy_guid c) else []) @
     (if n \<le> 3 then write_opt (wr_WriteBytes rt 3) (c_payload c) else []) @
     (if n \<le> 4 then write_opt (wr_WriteString rt 4) (c_target_proxy_guid c) else []) @
     (if n \<le> 5 then write_opt (wr_WriteString rt 5) (c_identifier c) else []) @
     (if n \<le> 6 then write_opt (wr_WriteString rt 6) (c_guid_from c) else []) @
     (if n \<le> 7 then write_opt (wr_WriteString rt 7) (c_guid_to c) else []) @
     (if n \<le> 8 then write_opt (wr_WriteInt32 rt 8) (c_recursion c) else []) @
     (if n \<le> 9 then write_opt (wr_WriteUInt32 rt 9) (c_start_time c) else []) @
     (if n \<le> 10 then write_opt (wr_WriteInt32 rt 10) (c_timeout_ms c) else []) @
     concat (map (\<lambda>e. wr_WriteMessage rt 11 (RegistryEntry_Serialize rt e)) (c_reg_entry c)) @ write_unknown rt (c_unknown c)"

lemma written_ends: "written rt 1 c = Command_Serialize rt c" "merged 0 from c = c"
  by (simp_all add: written_def Command_Serialize_def merged_def)

text \<open>One more field: if the rest is parsed right, so is the field with the rest.\<close>

lemma written_unknown:
  assumes "runtime_laws rt" "Command_fits rt c"
  shows "command_parser.yields rt None (written rt 11 c) (merged 10 c c0) (True, Command_MergeFrom c c0, [])"
proof -
  have laws: "tag_laws rt" using assms(1) by (simp add: runtime_laws_def)
  have ok: "list_all (RegistryEntry_fits rt) (c_reg_entry c)" "list_all (skippable rt Command_tags) (c_unknown c)"
    using assms(2) by (simp_all add: Command_fits_def)
  let ?m = "(merged 10 c c0)\<lparr>c_reg_entry := c_reg_entry c0 @ map (\<lambda>e. RegistryEntry_MergeFrom e RegistryEntry_new) (c_reg_entry c)\<rparr>"
  have "?m\<lparr>c_unknown := c_unknown ?m @ c_unknown c\<rparr> = Command_MergeFrom c c0" by (simp add: merged_def Command_MergeFrom_def)
  then have "command_parser.yields rt None (write_unknown rt (c_unknown c)) ?m (True, Command_MergeFrom c c0, [])"
    using command_parser.unknown_steps [OF laws ok(2), of ?m] by (simp add: keep_unknown)
  moreover have "c_reg_entry (merged 10 c c0) = c_reg_entry c0" by (simp add: merged_def)
  ultimately show ?thesis using entries_written [OF assms(1) ok(1), of "write_unknown rt (c_unknown c)" "merged 10 c c0"]
    by (simp add: written_def)
qed

text \<open>What is written before the fields from number \<open>n + 1\<close> on, and what it does to the message.\<close>

lemma written_more:
  "written rt 1 c = write_opt (\<lambda>k. wr_WriteEnum rt 1 (cmd_number k)) (c_cmd c) @ written rt 2 c"
  "written rt 2 c = write_opt (wr_WriteString rt 2) (c_source_proxy_guid c) @ written rt 3 c"
  "written rt 3 c = write_opt (wr_WriteBytes rt 3) (c_payload c) @ written rt 4 c"
  "written rt 4 c = write_opt (wr_WriteString rt 4) (c_target_proxy_guid c) @ written rt 5 c"
  "written rt 5 c = write_opt (wr_WriteString rt 5) (c_identifier c) @ written rt 6 c"
  "written rt 6 c = write_opt (wr_WriteString rt 6) (c_guid_from c) @ written rt 7 c"
  "written rt 7 c = write_opt (wr_WriteString rt 7) (c_guid_to c) @ written rt 8 c"
  "written rt 8 c = write_opt (wr_WriteInt32 rt 8) (c_recursion c) @ written rt 9 c"
  "written rt 9 c = write_opt (wr_WriteUInt32 rt 9) (c_start_time c) @ written rt 10 c"
  "written rt 10 c = write_opt (wr_WriteInt32 rt 10) (c_timeout_ms c) @ written rt 11 c"
  by (simp_all add: written_def)

lemma merged_more:
  "merged 1 c c0 = (case c_cmd c of None \<Rightarrow> merged 0 c c0 | Some v \<Rightarrow> (merged 0 c c0)\<lparr>c_cmd := Some v\<rparr>)"
  "merged 2 c c0 = (case c_source_proxy_guid c of None \<Rightarrow> merged 1 c c0 | Some v \<Rightarrow> (merged 1 c c0)\<lparr>c_source_proxy_guid := Some v\<rparr>)"
  "merged 3 c c0 = (case c_payload c of None \<Rightarrow> merged 2 c c0 | Some v \<Rightarrow> (merged 2 c c0)\<lparr>c_payload := Some v\<rparr>)"
  "merged 4 c c0 = (case c_target_proxy_guid c of None \<Rightarrow> merged 3 c c0 | Some v \<Rightarrow> (merged 3 c c0)\<lparr>c_target_proxy_guid := Some v\<rparr>)"
  "merged 5 c c0 = (case c_identifier c of None \<Rightarrow> merged 4 c c0 | Some v \<Rightarrow> (merged 4 c c0)\<lparr>c_identifier := Some v\<rparr>)"
  "merged 6 c c0 = (case c_guid_from c of None \<Rightarrow> merged 5 c c0 | Some v \<Rightarrow> (merged 5 c c0)\<lparr>c_guid_from := Some v\<rparr>)"
  "merged 7 c c0 = (case c_guid_to c of None \<Rightarrow> merged 6 c c0 | Some v \<Rightarrow> (merged 6 c c0)\<lparr>c_guid_to := Some v\<rparr>)"
  "merged 8 c c0 = (case c_recursion c of None \<Rightarrow> merged 7 c c0 | Some v \<Rightarrow> (merged 7 c c0)\<lparr>c_recursion := Some v\<rparr>)"
  "merged 9 c c0 = (case c_start_time c of None \<Rightarrow> merged 8 c c0 | Some v \<Rightarrow> (merged 8 c c0)\<lparr>c_start_time := Some v\<rparr>)"
  "merged 10 c c0 = (case c_timeout_ms c of None \<Rightarrow> merged 9 c c0 | Some v \<Rightarrow> (merged 9 c c0)\<lparr>c_timeout_ms := Some v\<rparr>)"
  by (simp_all add: merged_def merge_field_def split: option.split)

lemma command_fields:
  "Command_field rt 2 input c = Some (read_string (wr_ReadString rt) (c_source_proxy_guid c) (\<lambda>s. c\<lparr>c_source_proxy_guid := Some s\<rparr>) input)"
  "Command_field rt 3 input c = Some (read_string (wr_ReadBytes rt) (c_payload c) (\<lambda>s. c\<lparr>c_payload := Some s\<rparr>) input)"
  "Command_field rt 4 input c = Some (read_string (wr_ReadString rt) (c_target_proxy_guid c) (\<lambda>s. c\<lparr>c_target_proxy_guid := Some s\<rparr>) input)"
  "Command_field rt 5 input c = Some (read_string (wr_ReadString rt) (c_identifier c) (\<lambda>s. c\<lparr>c_identifier := Some s\<rparr>) input)"
  "Command_field rt 6 input c = Some (read_string (wr_ReadString rt) (c_guid_from c) (\<lambda>s. c\<lparr>c_guid_from := Some s\<rparr>) input)"
  "Command_field rt 7 input c = Some (read_string (wr_ReadString rt) (c_guid_to c) (\<lambda>s. c\<lparr>c_guid_to := Some s\<rparr>) input)"
  "Command_field rt 8 input c = Some (read_value (wr_ReadInt32 rt) (\<lambda>v. c\<lparr>c_recursion := Some v\<rparr>) c input)"
  "Command_field rt 9 input c = Some (read_value (wr_ReadUInt32 rt) (\<lambda>v. c\<lparr>c_start_time := Some v\<rparr>) c input)"
  "Command_field rt 10 input c = Some (read_value (wr_ReadInt32 rt) (\<lambda>v. c\<lparr>c_timeout_ms := Some v\<rparr>) c input)"
  "Command_field rt 1 input c = Some (read_value (wr_ReadEnum rt)
     (\<lambda>v. if Command_Cmd_IsValid v then c\<lparr>c_cmd := Some (number_cmd v)\<rparr>
          else c\<lparr>c_unknown := c_unknown c @ [(8, wr_VarintField rt v)]\<rparr>) c input)"
  by (simp_all add: Command_field_def)

lemma command_tag_set: "set Command_tags = {8 * 1, 8 * 2 + 2, 8 * 3 + 2, 8 * 4 + 2, 8 * 5 + 2, 8 * 6 + 2, 8 * 7 + 2, 8 * 8, 8 * 9, 8 * 10, 8 * 11 + 2}"
  by (simp add: Command_tags_def)

text \<open>From the last field back to the first.\<close>

lemma command_text_more:
  assumes "tag_laws rt" "8 * n + 2 \<in> set Command_tags" "\<And>input c. Command_field rt n input c = Some (read_string rd (old c) (put c) input)"
    and "\<And>v. f = Some v \<Longrightarrow> \<exists>b. w v = wr_WriteTag rt (8 * n + 2) @ b \<and> reads_text rd b v \<and> length b = sz v"
    and "command_parser.yields rt None rest (case f of None \<Rightarrow> m | Some v \<Rightarrow> put m v) r"
  shows "command_parser.yields rt None (write_opt w f @ rest) m r"
  by (rule command_parser.text_step [OF assms(1,2,3,4,5) refl])

lemma command_value_more:
  assumes "tag_laws rt" "8 * n \<in> set Command_tags" "\<And>input c. Command_field rt n input c = Some (read_value rd (put c) c input)"
    and "\<And>v. f = Some v \<Longrightarrow> \<exists>b. w v = wr_WriteTag rt (8 * n) @ b \<and> reads rd b (num v) \<and> length b = sz v"
    and "command_parser.yields rt None rest (case f of None \<Rightarrow> m | Some v \<Rightarrow> put m (num v)) r"
  shows "command_parser.yields rt None (write_opt w f @ rest) m r"
  by (rule command_parser.value_step [OF assms(1,2,3,4,5) refl])

lemma command_written:
  assumes "runtime_laws rt" "Command_fits rt c"
  shows "command_parser.yields rt None (Command_Serialize rt c) c0 (True, Command_MergeFrom c c0, [])"
proof -
  have tl: "tag_laws rt" and vl: "value_laws rt" using assms(1) by (simp_all add: runtime_laws_def)
  have texts: "list_all fits_text [c_source_proxy_guid c, c_payload c, c_target_proxy_guid c, c_identifier c, c_guid_from c, c_guid_to c]"
    and ints: "fits_int (c_recursion c)" "fits_int (c_timeout_ms c)" and time: "\<And>v. c_start_time c = Some v \<Longrightarrow> v < 4294967296"
    using assms(2) by (auto simp: Command_fits_def)
  let ?y = "\<lambda>n m. command_parser.yields rt None (written rt n c) (merged m c c0) (True, Command_MergeFrom c c0, [])"
  have enum: "\<exists>b. wr_WriteEnum rt 1 (cmd_number k) = wr_WriteTag rt (8 * 1) @ b \<and> reads (wr_ReadEnum rt) b (cmd_number k) \<and>
      length b = wr_EnumSize rt (cmd_number k)" for k
    using enum_law [OF vl, of 1 "cmd_number k"] cmd_numbers by simp
  note text_more = command_text_more [OF tl _ _ string_law [OF vl]] and bytes_more = command_text_more [OF tl _ _ bytes_law [OF vl]]
    and int_more = command_value_more [where num = "\<lambda>v. v", OF tl _ _ int_law [OF vl]]
    and uint_more = command_value_more [where num = "\<lambda>v. v", OF tl _ _ uint_law [OF vl]]
    and enum_more = command_value_more [where num = cmd_number, OF tl _ command_fields(10) enum]
  note more = merged_more command_fields command_tag_set
  have "?y 11 10" using written_unknown [OF assms] by simp
  then have "?y 10 9" using ints(2) unfolding written_more(10) by (intro int_more) (simp_all add: more)
  then have "?y 9 8" using time unfolding written_more(9) by (intro uint_more) (simp_all add: more)
  then have "?y 8 7" using ints(1) unfolding written_more(8) by (intro int_more) (simp_all add: more)
  then have "?y 7 6" using texts unfolding written_more(7) by (intro text_more) (simp_all add: more)
  then have "?y 6 5" using texts unfolding written_more(6) by (intro text_more) (simp_all add: more)
  then have "?y 5 4" using texts unfolding written_more(5) by (intro text_more) (simp_all add: more)
  then have "?y 4 3" using texts unfolding written_more(4) by (intro text_more) (simp_all add: more)
  then have "?y 3 2" using texts unfolding written_more(3) by (intro bytes_more) (simp_all add: more)
  then have "?y 2 1" using texts unfolding written_more(2) by (intro text_more) (simp_all add: more)
  then have "?y 1 0" unfolding written_more(1) merged_more(1)
    by (intro enum_more) (simp_all add: command_tag_set cmd_numbers cong: option.case_cong)
  then show ?thesis unfolding written_ends .
qed

theorem command_parses_written:
  assumes "runtime_laws rt" "Command_fits rt c"
  shows "Command_MergePartial rt (Command_Serialize rt c) c0 = Some (True, Command_MergeFrom c c0, [])"
  using command_parser.yields_parse [OF _ _ command_field_forward command_written [OF assms]] assms(1)
  by (simp add: Command_MergePartial_def runtime_laws_def)

lemma command_parser_total:
  assumes "runtime_laws rt"
  shows "\<exists>r. Command_MergePartial rt input c = Some r"
  using command_parser.enough_fuel [OF _ _ command_field_forward, where input = input and at = None and k = "2 * length input + 1"] assms
  by (simp add: Command_MergePartial_def runtime_laws_def)

lemma merge_into_new: "RegistryEntry_MergeFrom e RegistryEntry_new = e" "Command_MergeFrom c Command_new = c"
proof -
  have none: "merge_field f None = f" for f :: "'a option" by (simp add: merge_field_def split: option.split)
  show entry: "RegistryEntry_MergeFrom e RegistryEntry_new = e" for e by (simp add: RegistryEntry_MergeFrom_def RegistryEntry_new_def none)
  show "Command_MergeFrom c Command_new = c" by (simp add: Command_MergeFrom_def Command_new_def none entry)
qed

section \<open>Sizes\<close>

lemma size_written:
  assumes "\<And>v. f = Some v \<Longrightarrow> length (w v) = 1 + s v"
  shows "size_opt s f = int (length (write_opt w f))"
  using assms by (simp add: size_opt_def write_opt_def split: option.split)

lemma tag_length: "tag_laws rt \<Longrightarrow> 0 < tag \<Longrightarrow> tag < 128 \<Longrightarrow> length (wr_WriteTag rt tag) = 1"
  by (simp add: tag_laws_def)

lemma field_sizes:
  assumes "tag_laws rt" "value_laws rt" "0 < n" "n < 16"
  shows "- 2147483648 \<le> v \<Longrightarrow> v \<le> 2147483647 \<Longrightarrow> length (wr_WriteEnum rt n v) = 1 + wr_EnumSize rt v"
    "fits_int (Some v) \<Longrightarrow> length (wr_WriteInt32 rt n v) = 1 + wr_Int32Size rt v"
    "u < 4294967296 \<Longrightarrow> length (wr_WriteUInt32 rt n u) = 1 + wr_UInt32Size rt u"
    "fits_text (Some s) \<Longrightarrow> length (wr_WriteString rt n s) = 1 + wr_StringSize rt s"
    "fits_text (Some s) \<Longrightarrow> length (wr_WriteBytes rt n s) = 1 + wr_BytesSize rt s"
    "length s \<le> 2147483647 \<Longrightarrow> length (wr_WriteMessage rt n s) = 1 + wr_MessageSize rt (length s)"
  using enum_law [OF assms(2-4)] int_law [OF assms(2-4)] uint_law [OF assms(2-4)] string_law [OF assms(2-4)] bytes_law [OF assms(2-4)]
    message_law [OF assms(2-4)] tag_length [OF assms(1), of "8 * n"] tag_length [OF assms(1), of "8 * n + 2"] assms(3,4) by fastforce+

lemma i32_eqI: "x = int n \<Longrightarrow> n \<le> 2147483647 \<Longrightarrow> i32 x = int n"
  by (simp add: i32_id)

lemma entry_size:
  assumes "runtime_laws rt" "RegistryEntry_fits rt e"
  shows "RegistryEntry_ByteSize rt e = int (length (RegistryEntry_Serialize rt e))"
proof -
  have laws: "tag_laws rt" "value_laws rt" using assms(1) by (simp_all add: runtime_laws_def)
  have ok: "fits_text (re_identifier e)" "fits_text (re_method_guid e)" "fits_text (re_proxy_guid e)" "length (RegistryEntry_Serialize rt e) \<le> 2147483647"
    using assms(2) by (simp_all add: RegistryEntry_fits_def)
  note sz = field_sizes [OF laws]
  have "size_opt (\<lambda>t. wr_EnumSize rt (type_number t)) (re_type e) = int (length (write_opt (\<lambda>t. wr_WriteEnum rt 1 (type_number t)) (re_type e)))"
    by (rule size_written) (simp add: sz(1) type_numbers)
  moreover have "size_opt (wr_StringSize rt) (re_identifier e) = int (length (write_opt (wr_WriteString rt 2) (re_identifier e)))"
    by (rule size_written) (use ok(1) in \<open>simp add: sz(4)\<close>)
  moreover have "size_opt (wr_StringSize rt) (re_method_guid e) = int (length (write_opt (wr_WriteString rt 3) (re_method_guid e)))"
    by (rule size_written) (use ok(2) in \<open>simp add: sz(4)\<close>)
  moreover have "size_opt (wr_StringSize rt) (re_proxy_guid e) = int (length (write_opt (wr_WriteString rt 4) (re_proxy_guid e)))"
    by (rule size_written) (use ok(3) in \<open>simp add: sz(4)\<close>)
  ultimately show ?thesis unfolding RegistryEntry_ByteSize_def
    by (intro i32_eqI) (use ok(4) in \<open>simp_all add: RegistryEntry_Serialize_def unknown_size_def\<close>)
qed

lemma sum_sizes: "list_all (\<lambda>x. f x = int (length (w x))) xs \<Longrightarrow> sum_list (map f xs) = int (length (concat (map w xs)))"
  by (induction xs) simp_all

lemma sum_list_add1: "sum_list (map (\<lambda>x. 1 + f x) xs) = int (length xs) + sum_list (map f xs)"
  by (induction xs) simp_all

lemma entries_size:
  assumes "runtime_laws rt" "list_all (RegistryEntry_fits rt) es"
  shows "int (length es) + sum_list (map (\<lambda>e. int (wr_MessageSize rt (u64 (RegistryEntry_ByteSize rt e)))) es) =
    int (length (concat (map (\<lambda>e. wr_WriteMessage rt 11 (RegistryEntry_Serialize rt e)) es)))"
proof -
  have laws: "tag_laws rt" "value_laws rt" using assms(1) by (simp_all add: runtime_laws_def)
  have "1 + int (wr_MessageSize rt (u64 (RegistryEntry_ByteSize rt e))) = int (length (wr_WriteMessage rt 11 (RegistryEntry_Serialize rt e)))"
    if "RegistryEntry_fits rt e" for e
    using that entry_size [OF assms(1) that] field_sizes(6) [OF laws, of 11 "RegistryEntry_Serialize rt e"]
    by (simp add: RegistryEntry_fits_def u64_int)
  then have "list_all (\<lambda>e. 1 + int (wr_MessageSize rt (u64 (RegistryEntry_ByteSize rt e))) = int (length (wr_WriteMessage rt 11 (RegistryEntry_Serialize rt e)))) es"
    using assms(2) by (simp add: list_all_iff)
  from sum_sizes [OF this] show ?thesis by (simp add: sum_list_add1)
qed

lemma command_size:
  assumes "runtime_laws rt" "Command_fits rt c"
  shows "Command_ByteSize rt c = int (length (Command_Serialize rt c))"
proof -
  have laws: "tag_laws rt" "value_laws rt" using assms(1) by (simp_all add: runtime_laws_def)
  have texts: "list_all fits_text [c_source_proxy_guid c, c_payload c, c_target_proxy_guid c, c_identifier c, c_guid_from c, c_guid_to c]"
    and ints: "fits_int (c_recursion c)" "fits_int (c_timeout_ms c)" and time: "\<And>v. c_start_time c = Some v \<Longrightarrow> v < 4294967296"
    and entries: "list_all (RegistryEntry_fits rt) (c_reg_entry c)" and len: "length (Command_Serialize rt c) \<le> 2147483647"
    using assms(2) by (auto simp: Command_fits_def)
  note sz = field_sizes [OF laws]
  have str_sz: "size_opt (wr_StringSize rt) f = int (length (write_opt (wr_WriteString rt n) f))" if "fits_text f" "0 < n" "n < 16" for f n
    by (rule size_written) (use that in \<open>simp add: sz(4)\<close>)
  have int_sz: "size_opt (wr_Int32Size rt) f = int (length (write_opt (wr_WriteInt32 rt n) f))" if "fits_int f" "0 < n" "n < 16" for f n
    by (rule size_written) (use that in \<open>simp add: sz(2)\<close>)
  have "size_opt (\<lambda>k. wr_EnumSize rt (cmd_number k)) (c_cmd c) = int (length (write_opt (\<lambda>k. wr_WriteEnum rt 1 (cmd_number k)) (c_cmd c)))"
    by (rule size_written) (simp add: sz(1) cmd_numbers)
  moreover have "size_opt (wr_BytesSize rt) (c_payload c) = int (length (write_opt (wr_WriteBytes rt 3) (c_payload c)))"
    by (rule size_written) (use texts in \<open>simp add: sz(5)\<close>)
  moreover have "size_opt (wr_UInt32Size rt) (c_start_time c) = int (length (write_opt (wr_WriteUInt32 rt 9) (c_start_time c)))"
    by (rule size_written) (use time in \<open>simp add: sz(3)\<close>)
  ultimately show ?thesis
    using texts ints entries_size [OF assms(1) entries] len str_sz [where n = 2 and f = "c_source_proxy_guid c"] str_sz [where n = 4 and f = "c_target_proxy_guid c"]
      str_sz [where n = 5 and f = "c_identifier c"] str_sz [where n = 6 and f = "c_guid_from c"] str_sz [where n = 7 and f = "c_guid_to c"]
      int_sz [where n = 8 and f = "c_recursion c"] int_sz [where n = 10 and f = "c_timeout_ms c"]
    unfolding Command_ByteSize_def by (intro i32_eqI) (simp_all add: Command_Serialize_def unknown_size_def)
qed

section \<open>Expected tags\<close>

text \<open>The runtime without looking ahead.\<close>

definition no_lookahead :: "wire_runtime \<Rightarrow> wire_runtime" where
  "no_lookahead rt = rt\<lparr>wr_ExpectTag := \<lambda>tag input. None, wr_ExpectAtEnd := \<lambda>input. False\<rparr>"

lemma no_lookahead_simps [simp]:
  "wr_ExpectTag (no_lookahead rt) tag input = None" "\<not> wr_ExpectAtEnd (no_lookahead rt) input"
  "wr_ReadTag (no_lookahead rt) = wr_ReadTag rt" "wr_SkipField (no_lookahead rt) = wr_SkipField rt"
  "wr_Delimited (no_lookahead rt) = wr_Delimited rt" "wr_WriteTag (no_lookahead rt) = wr_WriteTag rt"
  "wr_ReadEnum (no_lookahead rt) = wr_ReadEnum rt" "wr_ReadInt32 (no_lookahead rt) = wr_ReadInt32 rt"
  "wr_ReadUInt32 (no_lookahead rt) = wr_ReadUInt32 rt" "wr_ReadString (no_lookahead rt) = wr_ReadString rt"
  "wr_ReadBytes (no_lookahead rt) = wr_ReadBytes rt" "wr_VarintField (no_lookahead rt) = wr_VarintField rt"
  "RegistryEntry_field (no_lookahead rt) n input e = RegistryEntry_field rt n input e"
  by (simp_all add: no_lookahead_def RegistryEntry_field_def cong: if_cong)

lemma no_lookahead_laws: "runtime_laws rt \<Longrightarrow> runtime_laws (no_lookahead rt)"
  by (simp add: runtime_laws_def tag_laws_def value_laws_def forward_laws_def no_lookahead_def)

lemma plain_entry:
  assumes "runtime_laws rt"
  shows "RegistryEntry_MergePartial (no_lookahead rt) input e = RegistryEntry_MergePartial rt input e"
proof -
  have laws: "tag_laws rt" "forward_laws rt" using assms by (simp_all add: runtime_laws_def)
  obtain r where r: "RegistryEntry_MergePartial (no_lookahead rt) input e = Some r"
    using entry_parser_total [OF no_lookahead_laws [OF assms]] by blast
  have "entry_parser.yields rt None input e r"
  proof (rule entry_parser.plain_yields [OF laws(1), where parse' = "RegistryEntry_loop (no_lookahead rt)"])
    show "RegistryEntry_loop (no_lookahead rt) (2 * length input + 1) None input e = Some r"
      using r by (simp add: RegistryEntry_MergePartial_def)
  qed (auto split: option.split prod.split bool.split)
  from entry_parser.yields_parse [OF laws entry_field_forward [OF laws(2)] this] show ?thesis
    using r by (simp add: RegistryEntry_MergePartial_def)
qed

lemma plain_command:
  assumes "runtime_laws rt"
  shows "Command_MergePartial (no_lookahead rt) input c = Command_MergePartial rt input c"
proof -
  have laws: "tag_laws rt" "forward_laws rt" using assms by (simp_all add: runtime_laws_def)
  have field: "Command_field (no_lookahead rt) n input c = Command_field rt n input c" for n input c
    by (simp add: Command_field_def read_entry_def plain_entry [OF assms] cong: if_cong option.case_cong)
  obtain r where r: "Command_MergePartial (no_lookahead rt) input c = Some r"
    using command_parser_total [OF no_lookahead_laws [OF assms]] by blast
  have "command_parser.yields rt None input c r"
  proof (rule command_parser.plain_yields [OF laws(1), where parse' = "Command_loop (no_lookahead rt)"])
    show "Command_loop (no_lookahead rt) (2 * length input + 1) None input c = Some r"
      using r by (simp add: Command_MergePartial_def)
  qed (auto simp: field split: option.split prod.split bool.split)
  from command_parser.yields_parse [OF laws command_field_forward [OF assms] this] show ?thesis
    using r by (simp add: Command_MergePartial_def)
qed

lemma command_fuel:
  assumes "runtime_laws rt" "2 * length input + 1 \<le> k"
  shows "Command_loop rt k None input c = Command_MergePartial rt input c"
  using command_parser_total [OF assms(1), of input c] command_parser.more_fuel_le [OF assms(2)]
  by (auto simp: Command_MergePartial_def)

section \<open>Messages as bytes and back\<close>

text \<open>
  What is assumed of the runtime that turns messages into bytes and back: it calls the generated functions.
\<close>

definition message_runtime :: "wire_runtime \<Rightarrow> (Command \<Rightarrow> char list) \<Rightarrow> (char list \<Rightarrow> Command option) \<Rightarrow> bool" where
  "message_runtime rt serialize parse \<longleftrightarrow> runtime_laws rt \<and>
     (\<forall>c. IsInitialized c \<longrightarrow> serialize c = Command_Serialize rt c) \<and>
     (\<forall>bs c. Command_MergePartial rt bs Command_new = Some (True, c, []) \<longrightarrow> IsInitialized c \<longrightarrow> parse bs = Some c)"

lemma sent_parses:
  assumes "message_runtime rt serialize parse" "Command_fits rt c" "IsInitialized c"
  shows "parse (serialize c) = Some c" "serialize c = Command_Serialize rt c"
proof -
  have rt: "runtime_laws rt" using assms(1) by (simp add: message_runtime_def)
  show bytes: "serialize c = Command_Serialize rt c" using assms(1,3) by (simp add: message_runtime_def)
  have "Command_MergePartial rt (serialize c) Command_new = Some (True, c, [])"
    using command_parses_written [OF rt assms(2), of Command_new] by (simp add: bytes merge_into_new)
  then show "parse (serialize c) = Some c" using assms(1,3) by (simp add: message_runtime_def)
qed

definition standard_parse :: "char list \<Rightarrow> Command option" where
  "standard_parse bs = (case Command_MergePartial standard_runtime bs Command_new of
     Some (ok, c, rest) \<Rightarrow> if ok \<and> rest = [] \<and> IsInitialized c then Some c else None
   | None \<Rightarrow> None)"

lemma standard_messages: "message_runtime standard_runtime (Command_Serialize standard_runtime) standard_parse"
  by (simp add: message_runtime_def standard_laws standard_parse_def)

section \<open>Properties\<close>

text \<open>An example: a publication with a registry entry and an unknown field.\<close>

definition example_entry :: RegistryEntry where
  "example_entry = RegistryEntry_new\<lparr>re_type := Some INVOKE_METHOD, re_identifier := Some ''sum'', re_method_guid := Some ''M'', re_proxy_guid := Some ''P''\<rparr>"

definition example_command :: Command where
  "example_command = Command_new\<lparr>c_reg_entry := [example_entry], c_cmd := Some PUBLISH, c_source_proxy_guid := Some ''S'', c_payload := Some ''hello'',
     c_recursion := Some (- 1), c_start_time := Some 300, c_unknown := [(96, [char_of (5 :: nat)])]\<rparr>"

lemma example_fits: "Command_fits standard_runtime example_command" "IsInitialized example_command"
proof -
  note written = standard_writes example_entry_def example_command_def RegistryEntry_new_def Command_new_def write_opt_def write_unknown_def
    varint_small u64_def RegistryEntry_Serialize_def Command_Serialize_def
  have varints: "length (varint 300) = 2" "length (varint 18446744073709551615) = 10"
    by (simp_all add: varint.simps [of "numeral m" for m] varint_small)
  have "length (RegistryEntry_Serialize standard_runtime example_entry) = 13" by (simp add: written)
  then have entry: "RegistryEntry_fits standard_runtime example_entry"
    by (simp add: RegistryEntry_fits_def fits_text_def) (simp add: example_entry_def RegistryEntry_new_def)
  have "skip_field 96 ([char_of (5 :: nat)] @ rest) = Some ([char_of (5 :: nat)], rest)" for rest
    by (simp add: skip_field_def tag_type_def Let_def read_varint_small)
  then have "skippable standard_runtime Command_tags (96, [char_of (5 :: nat)])"
    by (simp add: skippable_def standard_runtime_def Let_def Command_tags_def tag_type_def)
  moreover have "length (Command_Serialize standard_runtime example_command) = 43" by (simp add: written varints)
  ultimately show "Command_fits standard_runtime example_command" using entry
    by (simp add: Command_fits_def) (simp add: example_command_def Command_new_def fits_text_def fits_int_def)
  show "IsInitialized example_command"
    by (simp add: IsInitialized_def example_command_def example_entry_def RegistryEntry_IsInitialized_def)
qed

text \<open>
  C20: Messages survive the wire.  For every message with fields in the range of their types, unknown fields and registry
  entries included, parsing the bytes that \<^verbatim>\<open>SerializeWithCachedSizes\<close> writes into any message consumes them
  all and has the effect of \<^verbatim>\<open>MergeFrom\<close>; parsed into a new message, and copied by \<^verbatim>\<open>CopyFrom\<close> over any message, they give
  the message that was written.
\<close>

theorem command_wire_roundtrip:
  assumes "runtime_laws rt" "Command_fits rt c"
  shows "Command_MergePartial rt (Command_Serialize rt c) c0 = Some (True, Command_MergeFrom c c0, []) \<and>
    Command_MergePartial rt (Command_Serialize rt c) Command_new = Some (True, c, []) \<and>
    Command_CopyFrom c c0 = c"
  using command_parses_written [OF assms] by (simp add: merge_into_new Command_CopyFrom_def Command_Clear_def)

theorem command_wire_roundtrip_witness:
  "Command_MergePartial standard_runtime (Command_Serialize standard_runtime example_command) Command_new = Some (True, example_command, [])"
  using command_wire_roundtrip [OF standard_laws example_fits(1)] by blast

text \<open>
  C28: The parser ends on all bytes.  Whatever the input is, a number of steps that is twice its length is enough, more
  steps give the same result, and the tags that the generated code expects after a field only save time: a parser that
  reads every tag, and never looks ahead, gives the same message and leaves the same bytes.
\<close>

theorem command_parser_ends:
  assumes "runtime_laws rt"
  shows "Command_MergePartial rt input c \<noteq> None \<and>
    Command_loop rt (2 * length input + 1 + k) None input c = Command_MergePartial rt input c \<and>
    Command_MergePartial (no_lookahead rt) input c = Command_MergePartial rt input c"
  using command_parser_total [OF assms, of input c] command_fuel [OF assms, of input "2 * length input + 1 + k" c] plain_command [OF assms]
  by auto

theorem command_parser_ends_witness:
  "Command_MergePartial standard_runtime ''garbage'' Command_new \<noteq> None"
  using command_parser_ends [OF standard_laws] by blast

text \<open>
  C21: What one proxy publishes another receives unchanged.  \<^verbatim>\<open>Publish\<close> sends a frame whose length is the one that was
  computed from \<^verbatim>\<open>ByteSize\<close> for its buffer, and \<^verbatim>\<open>Poll\<close> on this frame returns the message, marked with the
  receiver's own GUID as target, and refreshes the activity time of the subscription.  The entry points of the runtime call the
  generated functions, and nothing else is assumed of them: writing calls \<^verbatim>\<open>SerializeWithCachedSizes\<close>, and reading gives what
  \<^verbatim>\<open>MergePartialFromCodedStream\<close> makes of a new message when it succeeds, uses all bytes and
  the message is initialised.
\<close>

theorem publish_poll_on_wire:
  assumes "message_runtime rt serialize parse" "Command_fits rt cmd" "IsInitialized cmd" "n \<le> length target" "TAB \<notin> set (take n target)"
  shows "\<exists>f. Publish_n target n cmd out = Inr (out @ [f]) \<and>
    int (length (frame_bytes serialize f)) = Command_ByteSize rt cmd + int n + 1 \<and>
    Subscriber_Poll parse now guid (Received (frame_bytes serialize f)) s =
      (Some (cmd\<lparr>c_target_proxy_guid := Some guid\<rparr>), s\<lparr>sub_lastActiveTime := i32 now\<rparr>)"
proof (intro exI conjI)
  note sent = sent_parses [OF assms(1-3)]
  have rt: "runtime_laws rt" using assms(1) by (simp add: message_runtime_def)
  show pub: "Publish_n target n cmd out = Inr (out @ [(take n target, cmd)])" using assms(4) by (simp add: Publish_n_def peek_def)
  show "int (length (frame_bytes serialize (take n target, cmd))) = Command_ByteSize rt cmd + int n + 1"
    using command_size [OF rt assms(2)] assms(4) sent(2) by (simp add: frame_bytes_def)
  show "Subscriber_Poll parse now guid (Received (frame_bytes serialize (take n target, cmd))) s =
      (Some (cmd\<lparr>c_target_proxy_guid := Some guid\<rparr>), s\<lparr>sub_lastActiveTime := i32 now\<rparr>)"
    by (rule poll_published [where serialize = serialize, OF pub _ assms(5)]) (rule sent(1))
qed

theorem publish_poll_on_wire_witness:
  "\<exists>f. Publish_n ''chan'' 4 example_command [] = Inr [f] \<and>
    fst (Subscriber_Poll standard_parse 7 ''0123456789ABCDEF'' (Received (frame_bytes (Command_Serialize standard_runtime) f))
      \<lparr>sub_connectString = [], sub_targetGuid = [], sub_lastActiveTime = 0, sub_filters = []\<rparr>) =
    Some (example_command\<lparr>c_target_proxy_guid := Some ''0123456789ABCDEF''\<rparr>)"
  using publish_poll_on_wire [OF standard_messages example_fits, of 4 "''chan''" "[]" 7 "''0123456789ABCDEF''"
      "\<lparr>sub_connectString = [], sub_targetGuid = [], sub_lastActiveTime = 0, sub_filters = []\<rparr>"]
  by fastforce

end
