(* ===== verification/Proxy_State.thy ===== *)
theory Proxy_State
  imports Transport
begin

text \<open>
  The state of class \<^verbatim>\<open>Proxy\<close> (\<^verbatim>\<open>src/src/proxy.h\<close>) and the environment of its handlers.  The
  fields keep the names of the class with the prefix \<open>p_\<close>; the publisher appears through the
  list of what it sent, and the connection to Redis through the list of the commands that were
  sent on it, each a list of arguments.  The vectors of the two method registries hold pointers, and each
  pointer is stored in one vector only, so the entries are kept in place.
\<close>

record LocalInvokeMethod =
  lm_identifier :: string
  lm_nodeGuid :: string
  lm_methodGuid :: string
  lm_lastCheckTime :: int

record RemoteInvokeMethod =
  rm_identifier :: string
  rm_proxyGuid :: string
  rm_methodGuid :: string
  rm_lastCheckTime :: int

record Proxy =
  p_guid :: string
  p_host :: string
  p_responderPort :: int
  p_publisherPort :: int
  p_outbox :: outbox
  p_invokeCalls :: int
  p_invokeErrors :: int
  p_registerInvoke :: int
  p_lastRedisPing :: int
  p_lastRegistryExchange :: int
  p_lastResponsesCleanUp :: int
  p_subscribeChannels :: "(string \<times> string) list"
  p_nodesGuids :: "(string \<times> string) list"
  p_proxiesGuids :: "(string \<times> string) list"
  p_subscribers :: "(string, Subscriber) umap"
  p_localInvokeMethods :: "(string, LocalInvokeMethod list) umap"
  p_remoteInvokeMethods :: "(string, RemoteInvokeMethod list) umap"
  p_invokeResponses :: "(string, string) umap"
  p_invokeResponsesCallTime :: "(string, int) umap"
  p_redisSent :: "string list list"

text \<open>
  The array \<^verbatim>\<open>guid\<close> of a new object.  \<^verbatim>\<open>GenerateGuid\<close> writes sixteen of its seventeen bytes; the last is
  never written, and \<open>tail\<close> is what the storage of the object happens to hold there.
\<close>

definition guid_array :: "(nat \<Rightarrow> nat) \<Rightarrow> char \<Rightarrow> char list" where
  "guid_array rnd tail = GenerateGuid rnd GUID_SIZE @ [tail]"

text \<open>
  The constructor: \<open>rnd\<close> gives the results of \<^verbatim>\<open>rand()\<close>, \<open>rbind\<close> and \<open>pbind\<close> what ZeroMQ
  answers to the binds of the responder and of the publisher.  The first thing it does with its GUID is to
  print it as a C string, which reads past the array unless \<open>tail\<close> is a NUL.
\<close>

definition Proxy_new ::
    "(nat \<Rightarrow> nat) \<Rightarrow> char \<Rightarrow> int \<Rightarrow> string \<Rightarrow> int \<Rightarrow> (int \<Rightarrow> int \<Rightarrow> int \<times> int) \<Rightarrow> (int \<Rightarrow> int \<Rightarrow> int \<times> int) \<Rightarrow> Proxy res" where
  "Proxy_new rnd tail now esbhost errno rbind pbind =
     bind_res (c_strlen (guid_array rnd tail)) (\<lambda>_.
     bind_res (strcpy_into 128 esbhost) (\<lambda>host.
     bind_res (Responder_new rbind 7770 errno) (\<lambda>rport.
     bind_res (Publisher_new pbind 7771 errno) (\<lambda>pport.
       Inr \<lparr>p_guid = c_str (guid_array rnd tail), p_host = host,
            p_responderPort = rport, p_publisherPort = pport, p_outbox = [],
            p_invokeCalls = 0, p_invokeErrors = 0, p_registerInvoke = 0, p_lastRedisPing = 0,
            p_lastRegistryExchange = 0, p_lastResponsesCleanUp = i32 now,
            p_subscribeChannels = [], p_nodesGuids = [], p_proxiesGuids = [], p_subscribers = [],
            p_localInvokeMethods = [], p_remoteInvokeMethods = [],
            p_invokeResponses = [], p_invokeResponsesCallTime = [], p_redisSent = []\<rparr>))))"

lemma guid_array_read:
  "c_strlen (guid_array rnd tail) = (if tail = NUL then Inr GUID_SIZE else Inl OutOfBounds)"
  "c_str (guid_array rnd NUL) = GenerateGuid rnd GUID_SIZE"
proof -
  have g: "no_nul (GenerateGuid rnd GUID_SIZE)" "length (GenerateGuid rnd GUID_SIZE) = GUID_SIZE"
    using guid_ok_chars [OF GenerateGuid_ok] by (simp_all add: GenerateGuid_def)
  then show "c_strlen (guid_array rnd tail) = (if tail = NUL then Inr GUID_SIZE else Inl OutOfBounds)"
    by (auto simp: guid_array_def no_nul_def c_strlen_def)
  show "c_str (guid_array rnd NUL) = GenerateGuid rnd GUID_SIZE"
    using g by (simp add: guid_array_def)
qed

text \<open>A constructor that returns had a NUL behind its GUID.\<close>

lemma Proxy_new_unterminated: "tail \<noteq> NUL \<Longrightarrow> Proxy_new rnd tail now esbhost errno rbind pbind = Inl OutOfBounds"
  by (simp add: Proxy_new_def guid_array_read)

text \<open>
  What a handler gets from outside: \<^verbatim>\<open>time(NULL)\<close>, \<^verbatim>\<open>rand()\<close>, the allocator, and the return
  code of \<^verbatim>\<open>zmq_connect\<close> for an endpoint.
\<close>

record env =
  e_now :: int
  e_rand :: nat
  e_mem :: cmem
  e_zconnect :: "string \<Rightarrow> int"

text \<open>
  The bytes of a 17-byte array that holds a copied GUID: \<^verbatim>\<open>calloc\<close> cleared a local entry,
  \<^verbatim>\<open>malloc\<close> left a remote one uninitialised behind the terminator.
\<close>

definition local_guid_block :: "string \<Rightarrow> char list" where
  "local_guid_block g = g @ replicate (GUID_SIZE + 1 - length g) NUL"

definition remote_guid_block :: "cmem \<Rightarrow> string \<Rightarrow> char list" where
  "remote_guid_block m g = g @ NUL # map (mem_junk m) [length g + 1..<GUID_SIZE + 1]"

definition publish_to :: "char list \<Rightarrow> Command \<Rightarrow> Proxy \<Rightarrow> Proxy res" where
  "publish_to target cmd p =
     bind_res (Publish target cmd (p_outbox p)) (\<lambda>out. Inr (p\<lparr>p_outbox := out\<rparr>))"

lemma publish_to_ok:
  "GUID_SIZE \<le> length blk \<Longrightarrow>
   publish_to blk cmd p = Inr (p\<lparr>p_outbox := p_outbox p @ [(take GUID_SIZE blk, cmd)]\<rparr>)"
  by (simp add: publish_to_def Publish_ok)

lemma publish_to_InrD:
  "publish_to blk cmd p = Inr p' \<Longrightarrow> p' = p\<lparr>p_outbox := p_outbox p @ [(take GUID_SIZE blk, cmd)]\<rparr>"
  by (auto simp: publish_to_def bind_res_Inr dest: Publish_InrD)

lemma local_guid_block_ok [simp]:
  "length g \<le> GUID_SIZE \<Longrightarrow> GUID_SIZE \<le> length (local_guid_block g)"
  by (simp add: local_guid_block_def)

lemma remote_guid_block_ok [simp]:
  "length g \<le> GUID_SIZE \<Longrightarrow> GUID_SIZE \<le> length (remote_guid_block m g)"
  by (simp add: remote_guid_block_def)

lemma guid_block_topic:
  assumes "guid_ok g"
  shows "take GUID_SIZE (local_guid_block g) = g" "take GUID_SIZE (remote_guid_block m g) = g"
    "take GUID_SIZE (c_block g) = g" "GUID_SIZE \<le> length (c_block g)"
  using assms
  by (simp_all add: local_guid_block_def remote_guid_block_def c_block_def guid_ok_def)

end
