(* ===== verification/Proxy.thy ===== *)
theory Proxy
  imports Proxy_State
begin

text \<open>
  The message handlers of \<^verbatim>\<open>src/src/proxy.cc\<close>: one definition per method, with the method's
  guards and early returns.  A handler takes the environment, the request and the state, and
  returns the new state or the failure that the C++ code runs into.
\<close>

section \<open>Calls\<close>

definition Invoke_local ::
    "env \<Rightarrow> Command \<Rightarrow> LocalInvokeMethod list \<Rightarrow> Proxy \<Rightarrow> Proxy res" where
  "Invoke_local e cmdReq vec p =
     (let entry = vec ! (e_rand e mod length vec);
          cmdResp = Command_new\<lparr>c_cmd := Some INVOKE,
                                c_guid_to := Some (lm_methodGuid entry),
                                c_source_proxy_guid := Some (p_guid p),
                                c_identifier := Some (lm_identifier entry),
                                c_payload := Some (payload cmdReq),
                                c_guid_from := Some (guid_from cmdReq)\<rparr>
      in publish_to (local_guid_block (lm_nodeGuid entry)) cmdResp
           (p\<lparr>p_invokeResponses :=
                um_insert (guid_from cmdReq) (source_proxy_guid cmdReq) (p_invokeResponses p),
              p_invokeResponsesCallTime :=
                um_insert (guid_from cmdReq) (i32 (e_now e)) (p_invokeResponsesCallTime p)\<rparr>))"

definition Invoke_remote ::
    "env \<Rightarrow> Command \<Rightarrow> RemoteInvokeMethod list \<Rightarrow> Proxy \<Rightarrow> Proxy res" where
  "Invoke_remote e cmdReq vec p =
     (let entry = vec ! (e_rand e mod length vec);
          cmdResp = Command_new\<lparr>c_cmd := Some INVOKE,
                                c_guid_to := Some (rm_methodGuid entry),
                                c_guid_from := Some (guid_from cmdReq),
                                c_source_proxy_guid := Some (p_guid p),
                                c_identifier := Some (rm_identifier entry),
                                c_payload := Some (payload cmdReq)\<rparr>
      in publish_to (remote_guid_block (e_mem e) (rm_proxyGuid entry)) cmdResp
           (p\<lparr>p_invokeResponses :=
                um_insert (guid_from cmdReq) (source_proxy_guid cmdReq) (p_invokeResponses p),
              p_invokeResponsesCallTime :=
                um_insert (guid_from cmdReq) (i32 (e_now e)) (p_invokeResponsesCallTime p)\<rparr>))"

definition Invoke_error :: "Command \<Rightarrow> Proxy \<Rightarrow> Proxy res" where
  "Invoke_error cmdReq p =
     bind_res (strcpy_into 1024 (''Identifier '' @ [CHR 0x27] @ c_str (cmd_identifier cmdReq) @
                                 [CHR 0x27] @ '' not found in registry'')) (\<lambda>buf.
       publish_to (c_block (source_proxy_guid cmdReq))
         (Command_new\<lparr>c_cmd := Some ERROR, c_payload := Some buf,
                      c_guid_to := Some (guid_from cmdReq),
                      c_source_proxy_guid := Some (p_guid p), c_guid_from := Some (p_guid p)\<rparr>)
         (p\<lparr>p_invokeErrors := i32 (p_invokeErrors p + 1)\<rparr>))"

definition Invoke :: "env \<Rightarrow> Command \<Rightarrow> Proxy \<Rightarrow> Proxy res" where
  "Invoke e cmdReq p =
     (let vec = um_get [] (p_localInvokeMethods p) (cmd_identifier cmdReq);
          p1 = p\<lparr>p_invokeCalls := i32 (p_invokeCalls p + 1),
                 p_localInvokeMethods := um_touch (cmd_identifier cmdReq) [] (p_localInvokeMethods p)\<rparr>
      in if length vec > 0 then Invoke_local e cmdReq vec p1
         else
           let rvec = um_get [] (p_remoteInvokeMethods p1) (cmd_identifier cmdReq);
               p2 = p1\<lparr>p_remoteInvokeMethods :=
                         um_touch (cmd_identifier cmdReq) [] (p_remoteInvokeMethods p1)\<rparr>
           in if length rvec < 1 then Invoke_error cmdReq p2
              else Invoke_remote e cmdReq rvec p2)"

definition InvokeResponse :: "Command \<Rightarrow> string \<Rightarrow> Proxy \<Rightarrow> Proxy res" where
  "InvokeResponse cmdReq sourceNodeGuid p =
     (case map_of (p_invokeResponses p) (guid_to cmdReq) of
        None \<Rightarrow>
          bind_res (strcpy_into 1024 (''Response callback '' @ c_str (guid_to cmdReq) @ '' not found''))
            (\<lambda>buf. publish_to (c_block sourceNodeGuid)
               (Command_new\<lparr>c_cmd := Some ERROR, c_payload := Some buf,
                            c_guid_from := Some (p_guid p),
                            c_guid_to := Some (guid_from cmdReq),
                            c_source_proxy_guid := Some (p_guid p)\<rparr>) p)
      | Some targetNode \<Rightarrow>
          bind_res (publish_to (c_block targetNode)
            (Command_new\<lparr>c_cmd := Some (cmd_of cmdReq), c_payload := Some (payload cmdReq),
                         c_guid_from := Some (guid_from cmdReq),
                         c_guid_to := Some (guid_to cmdReq),
                         c_source_proxy_guid := Some (p_guid p)\<rparr>) p)
            (\<lambda>p. Inr (p\<lparr>p_invokeResponses := um_erase (guid_to cmdReq) (p_invokeResponses p),
                       p_invokeResponsesCallTime :=
                         um_erase (guid_to cmdReq) (p_invokeResponsesCallTime p)\<rparr>)))"

text \<open>
  \<^verbatim>\<open>CleanUpResponsesMap\<close>: the loop over the call times.  \<open>found\<close> counts the erased entries;
  the loop is left when it reaches 100000.
\<close>

fun cleanup_loop :: "int \<Rightarrow> nat \<Rightarrow> (string, int) umap \<Rightarrow> string list" where
  "cleanup_loop now found [] = []"
| "cleanup_loop now found ((k, t) # rest) =
     (if i32 (now - t) > 3
      then k # (if Suc found \<ge> 100000 then [] else cleanup_loop now (Suc found) rest)
      else cleanup_loop now found rest)"

definition CleanUpResponsesMap :: "env \<Rightarrow> Proxy \<Rightarrow> Proxy" where
  "CleanUpResponsesMap e p =
     (let now = i32 (e_now e) in
      if i32 (now - p_lastResponsesCleanUp p) < 60 then p
      else let dead = cleanup_loop now 0 (p_invokeResponsesCallTime p) in
        p\<lparr>p_lastResponsesCleanUp := now,
          p_invokeResponses := fold um_erase dead (p_invokeResponses p),
          p_invokeResponsesCallTime := fold um_erase dead (p_invokeResponsesCallTime p)\<rparr>)"

section \<open>The local registry\<close>

fun touch_local :: "int \<Rightarrow> string \<Rightarrow> LocalInvokeMethod list \<Rightarrow> (string \<times> LocalInvokeMethod list) option" where
  "touch_local now mg [] = None"
| "touch_local now mg (t # ts) =
     (if lm_methodGuid t = mg then Some (lm_identifier t, t\<lparr>lm_lastCheckTime := now\<rparr> # ts)
      else map_option (\<lambda>(i, ts'). (i, t # ts')) (touch_local now mg ts))"

text \<open>
  The structs of both registries take 48 bytes where pointers have eight.  The results of \<^verbatim>\<open>calloc\<close>, which is
  asked for the square of the size, and of \<^verbatim>\<open>malloc\<close> are used unchecked.
\<close>

definition sizeof_InvokeMethod :: nat where
  "sizeof_InvokeMethod = 48"

definition RegisterInvoke_found ::
    "env \<Rightarrow> Command \<Rightarrow> Proxy \<Rightarrow> (string \<times> Proxy) res" where
  "RegisterInvoke_found e cmdReq p =
     (let key = c_str (cmd_identifier cmdReq);
          p1 = p\<lparr>p_localInvokeMethods := um_touch key [] (p_localInvokeMethods p)\<rparr>
      in case touch_local (i32 (e_now e)) (c_str (payload cmdReq))
                (um_get [] (p_localInvokeMethods p) key) of
           Some (pIdentifier, vec) \<Rightarrow>
             Inr (pIdentifier, p1\<lparr>p_localInvokeMethods := um_put key vec (p_localInvokeMethods p1)\<rparr>)
         | None \<Rightarrow>
             check_res (mem_ok (e_mem e) (sizeof_InvokeMethod * sizeof_InvokeMethod)) NullDeref (
             bind_res (strcpy_into (GUID_SIZE + 1) (source_proxy_guid cmdReq)) (\<lambda>nodeGuid.
             bind_res (strcpy_into (GUID_SIZE + 1) (payload cmdReq)) (\<lambda>methodGuid.
             bind_res (strcpy_heap NullDeref (e_mem e) (length (cmd_identifier cmdReq) + 1) (cmd_identifier cmdReq))
               (\<lambda>ident.
                  let entry = \<lparr>lm_identifier = ident, lm_nodeGuid = nodeGuid,
                               lm_methodGuid = methodGuid, lm_lastCheckTime = i32 (e_now e)\<rparr>;
                      vec = um_get [] (p_localInvokeMethods p1) ident
                  in Inr (ident, p1\<lparr>p_registerInvoke := i32 (p_registerInvoke p1 + 1),
                                    p_localInvokeMethods :=
                                      um_put ident (vec @ [entry]) (p_localInvokeMethods p1)\<rparr>))))))"

definition RegisterInvoke :: "env \<Rightarrow> Command \<Rightarrow> Proxy \<Rightarrow> Proxy res" where
  "RegisterInvoke e cmdReq p =
     bind_res (RegisterInvoke_found e cmdReq p) (\<lambda>(pIdentifier, p).
       publish_to (c_block (source_proxy_guid cmdReq))
         (Command_new\<lparr>c_cmd := Some REGISTER_INVOKE_OK,
                      c_guid_to := Some (source_proxy_guid cmdReq),
                      c_source_proxy_guid := Some (p_guid p),
                      c_payload := Some pIdentifier\<rparr>) p)"

text \<open>
  \<^verbatim>\<open>LocalRegistryHealthCheck\<close> and \<^verbatim>\<open>RemoteRegistryHealthCheck\<close>: one call removes the first
  expired entry it meets and returns true; \<^verbatim>\<open>MainLoop\<close> calls them until they return false.
\<close>

fun expire_vec :: "('a \<Rightarrow> bool) \<Rightarrow> 'a list \<Rightarrow> 'a list option" where
  "expire_vec dead [] = None"
| "expire_vec dead (t # ts) =
     (if dead t then Some ts else map_option ((#) t) (expire_vec dead ts))"

fun expire_map :: "('a \<Rightarrow> bool) \<Rightarrow> ('k, 'a list) umap \<Rightarrow> ('k, 'a list) umap option" where
  "expire_map dead [] = None"
| "expire_map dead ((k, vec) # rest) =
     (case expire_vec dead vec of
        Some vec' \<Rightarrow> Some ((k, vec') # rest)
      | None \<Rightarrow> map_option ((#) (k, vec)) (expire_map dead rest))"

definition local_dead :: "int \<Rightarrow> LocalInvokeMethod \<Rightarrow> bool" where
  "local_dead now t \<longleftrightarrow> now > i32 (lm_lastCheckTime t + 10)"

definition remote_dead :: "int \<Rightarrow> RemoteInvokeMethod \<Rightarrow> bool" where
  "remote_dead now t \<longleftrightarrow> now > i32 (rm_lastCheckTime t + 5)"

definition LocalRegistryHealthCheck :: "env \<Rightarrow> Proxy \<Rightarrow> bool \<times> Proxy" where
  "LocalRegistryHealthCheck e p =
     (case expire_map (local_dead (i32 (e_now e))) (p_localInvokeMethods p) of
        None \<Rightarrow> (False, p)
      | Some m \<Rightarrow> (True, p\<lparr>p_localInvokeMethods := m\<rparr>))"

definition RemoteRegistryHealthCheck :: "env \<Rightarrow> Proxy \<Rightarrow> bool \<times> Proxy" where
  "RemoteRegistryHealthCheck e p =
     (case expire_map (remote_dead (i32 (e_now e))) (p_remoteInvokeMethods p) of
        None \<Rightarrow> (False, p)
      | Some m \<Rightarrow> (True, p\<lparr>p_remoteInvokeMethods := m\<rparr>))"

definition registry_size :: "('k, 'a list) umap \<Rightarrow> nat" where
  "registry_size m = sum_list (map (length \<circ> snd) m)"

lemma expire_vec_length: "expire_vec dead v = Some v' \<Longrightarrow> length v = Suc (length v')"
  by (induction v arbitrary: v') (auto split: if_splits)

lemma expire_map_size: "expire_map dead m = Some m' \<Longrightarrow> registry_size m = Suc (registry_size m')"
proof (induction m arbitrary: m')
  case (Cons kv m)
  obtain k vec where kv: "kv = (k, vec)" by fastforce
  show ?case
    using Cons by (auto simp: kv registry_size_def split: option.splits dest: expire_vec_length)
qed simp

text \<open>
  The two \<^verbatim>\<open>while\<close> loops of \<^verbatim>\<open>MainLoop\<close>: each round makes the registry smaller.  The clock is taken to
  stand still in such a loop; the code reads it again in each call.
\<close>

function local_health_loop :: "env \<Rightarrow> Proxy \<Rightarrow> Proxy" where
  "local_health_loop e p =
     (case LocalRegistryHealthCheck e p of
        (True, p') \<Rightarrow> local_health_loop e p'
      | (False, p') \<Rightarrow> p')"
  by pat_completeness auto
termination
  by (relation "measure (\<lambda>(e, p). registry_size (p_localInvokeMethods p))")
    (auto simp: LocalRegistryHealthCheck_def dest: expire_map_size split: option.splits)

function remote_health_loop :: "env \<Rightarrow> Proxy \<Rightarrow> Proxy" where
  "remote_health_loop e p =
     (case RemoteRegistryHealthCheck e p of
        (True, p') \<Rightarrow> remote_health_loop e p'
      | (False, p') \<Rightarrow> p')"
  by pat_completeness auto
termination
  by (relation "measure (\<lambda>(e, p). registry_size (p_remoteInvokeMethods p))")
    (auto simp: RemoteRegistryHealthCheck_def dest: expire_map_size split: option.splits)

declare local_health_loop.simps [simp del] remote_health_loop.simps [simp del]

section \<open>The exchange of registries\<close>

definition registry_entry :: "string \<Rightarrow> string \<Rightarrow> LocalInvokeMethod \<Rightarrow> RegistryEntry" where
  "registry_entry guid ident t =
     RegistryEntry_new\<lparr>re_type := Some INVOKE_METHOD, re_identifier := Some ident,
       re_method_guid := Some (lm_methodGuid t), re_proxy_guid := Some guid\<rparr>"

definition registry_entries :: "string \<Rightarrow> (string, LocalInvokeMethod list) umap \<Rightarrow> RegistryEntry list" where
  "registry_entries guid m = concat (map (\<lambda>(ident, vec). map (registry_entry guid ident) vec) m)"

definition RegistryExchangeResponder :: "Command \<Rightarrow> Proxy \<Rightarrow> Proxy res" where
  "RegistryExchangeResponder cmdReq p =
     publish_to (c_block (source_proxy_guid cmdReq))
       (Command_new\<lparr>c_cmd := Some REGISTRY_EXCHANGE_RESPONSE,
                    c_source_proxy_guid := Some (p_guid p),
                    c_payload := Some ''here is my registry'',
                    c_reg_entry := registry_entries (p_guid p) (p_localInvokeMethods p)\<rparr>) p"

fun touch_remote :: "int \<Rightarrow> string \<Rightarrow> RemoteInvokeMethod list \<Rightarrow> RemoteInvokeMethod list option" where
  "touch_remote now mg [] = None"
| "touch_remote now mg (t # ts) =
     (if rm_methodGuid t = mg then Some (t\<lparr>rm_lastCheckTime := now\<rparr> # ts)
      else map_option ((#) t) (touch_remote now mg ts))"

text \<open>
  One turn of the loop of \<^verbatim>\<open>RemoteRegistryUpdate\<close>.  The identifier is copied into
  \<^verbatim>\<open>identifier().length()\<close> bytes, one less than it needs; \<^verbatim>\<open>at()\<close> looks the full identifier up,
  \<^verbatim>\<open>operator[]\<close> before it the part up to a NUL.
\<close>

definition RemoteRegistryUpdate_entry :: "env \<Rightarrow> RegistryEntry \<Rightarrow> Proxy \<Rightarrow> Proxy res" where
  "RemoteRegistryUpdate_entry e r p =
     (if entry_type r = INVOKE_METHOD
      then bind_res (strcpy_heap NullDeref (e_mem e) (length (entry_identifier r)) (entry_identifier r)) (\<lambda>ident.
        let p1 = p\<lparr>p_remoteInvokeMethods := um_touch ident [] (p_remoteInvokeMethods p)\<rparr>
        in case touch_remote (i32 (e_now e)) (c_str (entry_method_guid r))
                  (um_get [] (p_remoteInvokeMethods p) ident) of
             Some vec \<Rightarrow> Inr (p1\<lparr>p_remoteInvokeMethods := um_put ident vec (p_remoteInvokeMethods p1)\<rparr>)
           | None \<Rightarrow>
               check_res (mem_ok (e_mem e) sizeof_InvokeMethod) NullDeref (
               bind_res (strcpy_into (GUID_SIZE + 1) (entry_method_guid r)) (\<lambda>methodGuid.
               bind_res (strcpy_into (GUID_SIZE + 1) (entry_proxy_guid r)) (\<lambda>proxyGuid.
                 let entry = \<lparr>rm_identifier = ident, rm_proxyGuid = proxyGuid,
                              rm_methodGuid = methodGuid, rm_lastCheckTime = i32 (e_now e)\<rparr>
                 in case map_of (p_remoteInvokeMethods p1) (entry_identifier r) of
                      None \<Rightarrow> Inl OutOfRange
                    | Some vec \<Rightarrow>
                        Inr (p1\<lparr>p_remoteInvokeMethods :=
                                  um_put (entry_identifier r) (vec @ [entry]) (p_remoteInvokeMethods p1)\<rparr>)))))
      else Inr p)"

definition RemoteRegistryUpdate :: "env \<Rightarrow> Command \<Rightarrow> Proxy \<Rightarrow> Proxy res" where
  "RemoteRegistryUpdate e cmdReq p = fold_res (RemoteRegistryUpdate_entry e) (c_reg_entry cmdReq) p"

definition registry_request :: "string \<Rightarrow> Command" where
  "registry_request guid =
     Command_new\<lparr>c_cmd := Some REGISTRY_EXCHANGE_REQUEST, c_source_proxy_guid := Some guid,
                 c_payload := Some ''REGISTRY_EXCHANGE_REQUEST please :)''\<rparr>"

definition RequestRegistryExchange :: "env \<Rightarrow> Proxy \<Rightarrow> Proxy res" where
  "RequestRegistryExchange e p =
     (if e_now e - p_lastRegistryExchange p < 3 then Inr p
      else bind_res (fold_res (\<lambda>(k, s). publish_to (c_block s) (registry_request (p_guid p)))
                       (p_proxiesGuids p) p)
             (\<lambda>p. Inr (p\<lparr>p_lastRegistryExchange := i32 (e_now e)\<rparr>)))"

section \<open>Ping, publish and subscribe\<close>

definition PingRequest :: "Command \<Rightarrow> Proxy \<Rightarrow> Proxy res" where
  "PingRequest cmdReq p =
     publish_to (c_block (source_proxy_guid cmdReq))
       (Command_new\<lparr>c_cmd := Some RESPONSE, c_payload := Some ([CHR 0x22] @ ''Pong'' @ [CHR 0x22]),
                    c_guid_to := Some (guid_from cmdReq),
                    c_source_proxy_guid := Some (p_guid p)\<rparr>) p"

definition PublishReq :: "Command \<Rightarrow> Proxy \<Rightarrow> Proxy res" where
  "PublishReq cmdReq p =
     (if recursion cmdReq > 0 then Inr p
      else bind_res (Publish_n (c_block (cmd_identifier cmdReq)) (length (cmd_identifier cmdReq))
             (Command_new\<lparr>c_cmd := Some PUBLISH, c_identifier := Some (cmd_identifier cmdReq),
                          c_source_proxy_guid := Some (p_guid p),
                          c_payload := Some (payload cmdReq), c_recursion := Some 1\<rparr>) (p_outbox p))
             (\<lambda>out. Inr (p\<lparr>p_outbox := out\<rparr>)))"

fun subscribe_all :: "cmem \<Rightarrow> string \<Rightarrow> (string, Subscriber) umap \<Rightarrow> (string, Subscriber) umap res" where
  "subscribe_all m ch [] = Inr []"
| "subscribe_all m ch ((k, s) # rest) =
     bind_res (Subscriber_Subscribe m ch s) (\<lambda>s'.
       bind_res (subscribe_all m ch rest) (\<lambda>rest'. Inr ((k, s') # rest')))"

definition SubscribeReq :: "env \<Rightarrow> Command \<Rightarrow> Proxy \<Rightarrow> Proxy res" where
  "SubscribeReq e cmdReq p =
     (let ch = cmd_identifier cmdReq in
      bind_res (subscribe_all (e_mem e) ch (p_subscribers p)) (\<lambda>subs.
        Inr (p\<lparr>p_subscribeChannels := sm_put ch ch (p_subscribeChannels p), p_subscribers := subs\<rparr>)))"

section \<open>Dispatch\<close>

definition unknown_command :: "Command \<Rightarrow> string \<Rightarrow> Proxy \<Rightarrow> Proxy res" where
  "unknown_command cmdReq nodeGuid p =
     bind_res (strcpy_into 512 (''Subscriber get unknown command: '' @ dec_int (cmd_number (cmd_of cmdReq)) @
                                '', payload: '' @ c_str (payload cmdReq))) (\<lambda>errBuf.
       publish_to (c_block nodeGuid)
         (Command_new\<lparr>c_cmd := Some ERROR, c_payload := Some errBuf,
                      c_guid_from := Some (p_guid p), c_guid_to := Some (guid_from cmdReq),
                      c_source_proxy_guid := Some (p_guid p)\<rparr>) p)"

definition SubscriberCallback :: "env \<Rightarrow> Command \<Rightarrow> string \<Rightarrow> Proxy \<Rightarrow> Proxy res" where
  "SubscriberCallback e cmdReq nodeGuid p =
     (case cmd_of cmdReq of
        ERROR_RESPONSE \<Rightarrow> InvokeResponse cmdReq nodeGuid p
      | RESPONSE \<Rightarrow> InvokeResponse cmdReq nodeGuid p
      | PONG \<Rightarrow> Inr p
      | REGISTER_INVOKE \<Rightarrow> RegisterInvoke e cmdReq p
      | INVOKE \<Rightarrow> Invoke e cmdReq p
      | REGISTRY_EXCHANGE_REQUEST \<Rightarrow> RegistryExchangeResponder cmdReq p
      | ERROR \<Rightarrow> Inr p
      | REGISTRY_EXCHANGE_RESPONSE \<Rightarrow> RemoteRegistryUpdate e cmdReq p
      | PING \<Rightarrow> PingRequest cmdReq p
      | PUBLISH \<Rightarrow> PublishReq cmdReq p
      | SUBSCRIBE \<Rightarrow> SubscribeReq e cmdReq p
      | NODE_HELLO \<Rightarrow> unknown_command cmdReq nodeGuid p
      | PROXY_HELLO \<Rightarrow> unknown_command cmdReq nodeGuid p
      | REGISTER_INVOKE_OK \<Rightarrow> unknown_command cmdReq nodeGuid p)"

section \<open>Hello requests\<close>

definition drop_duplicate :: "string \<Rightarrow> (string, Subscriber) umap \<Rightarrow> (string, Subscriber) umap" where
  "drop_duplicate connectionString subs =
     (case find (\<lambda>ks. sub_connectString (snd ks) = connectionString) subs of
        None \<Rightarrow> subs
      | Some ks \<Rightarrow> um_erase (fst ks) subs)"

definition NodeHello :: "env \<Rightarrow> Command \<Rightarrow> Command \<Rightarrow> Proxy \<Rightarrow> (Command \<times> Proxy) res" where
  "NodeHello e cmdReq cmdResp p =
     bind_res (strcpy_into 256 (p_host p @ ''#'' @ dec_int (p_publisherPort p))) (\<lambda>response.
       let tmp = split (c_str (payload cmdReq)) (CHR ''#'') in
       check_res (2 \<le> length tmp) OutOfBounds
         (let nodeGuid = tmp ! 0; connectionString = tmp ! 1 in
          bind_res (Subscriber_new (e_now e) connectionString nodeGuid) (\<lambda>s0.
          bind_res (Subscriber_Connect (e_zconnect e) (e_now e) (p_guid p) (p_subscribeChannels p) s0)
            (\<lambda>(ok, s).
               if ok
               then Inr (cmdResp\<lparr>c_cmd := Some RESPONSE, c_payload := Some response\<rparr>,
                         p\<lparr>p_subscribers := um_insert connectionString s
                              (drop_duplicate connectionString (p_subscribers p)),
                           p_nodesGuids := sm_put nodeGuid nodeGuid (p_nodesGuids p)\<rparr>)
               else bind_res (strcpy_into 512
                      (''ESB Proxy can not connect to your Node, check the firewall, connectionString: `'' @
                       connectionString @ ''`'')) (\<lambda>errBuf.
                      Inr (cmdResp\<lparr>c_cmd := Some ERROR, c_payload := Some errBuf\<rparr>, p))))))"

definition ProxyHello :: "Command \<Rightarrow> Command \<Rightarrow> Proxy \<Rightarrow> (Command \<times> Proxy) res" where
  "ProxyHello cmdReq cmdResp p =
     bind_res (strcpy_into 256 (''tcp://'' @ p_host p @ '':'' @ dec_int (p_publisherPort p))) (\<lambda>response.
       Inr (cmdResp\<lparr>c_payload := Some response, c_cmd := Some RESPONSE\<rparr>, p))"

definition ResponderCallback :: "env \<Rightarrow> Command \<Rightarrow> Proxy \<Rightarrow> (Command \<times> Proxy) res" where
  "ResponderCallback e cmdReq p =
     bind_res
       (if cmd_of cmdReq = NODE_HELLO then NodeHello e cmdReq Command_new p
        else if cmd_of cmdReq = PROXY_HELLO then ProxyHello cmdReq Command_new p
        else if cmd_of cmdReq = ERROR then Inr (Command_new, p)
        else Inr (Command_new\<lparr>c_cmd := Some ERROR, c_payload := Some ''Responder unknown command''\<rparr>, p))
       (\<lambda>(cmdResp, p). Inr (cmdResp\<lparr>c_guid_from := Some (p_guid p), c_guid_to := Some (guid_from cmdReq),
                                   c_source_proxy_guid := Some (p_guid p)\<rparr>, p))"

end
