(* ===== verification/Proxy_Registry.thy ===== *)
theory Proxy_Registry
  imports Proxy
begin

text \<open>
  The two method registries: expiry, and the transfer of the local registry of one proxy into
  the remote registry of another.
\<close>

section \<open>Expiry\<close>

lemma expire_vec_None: "expire_vec dead v = None \<longleftrightarrow> (\<forall>t \<in> set v. \<not> dead t)"
  by (induction v) auto

lemma expire_vec_filter:
  "expire_vec dead v = Some v' \<Longrightarrow> filter (\<lambda>t. \<not> dead t) v' = filter (\<lambda>t. \<not> dead t) v"
  by (induction v arbitrary: v') (auto split: if_splits)

definition alive :: "('a \<Rightarrow> bool) \<Rightarrow> ('k, 'a list) umap \<Rightarrow> ('k, 'a list) umap" where
  "alive dead m = map (\<lambda>(k, v). (k, filter (\<lambda>t. \<not> dead t) v)) m"

lemma expire_map_None: "expire_map dead m = None \<Longrightarrow> alive dead m = m"
proof (induction m)
  case (Cons kv m)
  obtain k v where kv: "kv = (k, v)" by fastforce
  from Cons.prems have "\<forall>t \<in> set v. \<not> dead t" "expire_map dead m = None"
    by (auto simp: kv expire_vec_None split: option.splits)
  with Cons.IH show ?case by (simp add: kv alive_def)
qed (simp add: alive_def)

lemma expire_map_Some: "expire_map dead m = Some m' \<Longrightarrow> alive dead m' = alive dead m"
proof (induction m arbitrary: m')
  case (Cons kv m)
  obtain k v where kv: "kv = (k, v)" by fastforce
  show ?case
  proof (cases "expire_vec dead v")
    case None
    with Cons.prems obtain m1 where "expire_map dead m = Some m1" "m' = (k, v) # m1"
      by (auto simp: kv)
    with Cons.IH show ?thesis by (simp add: kv alive_def)
  next
    case (Some v')
    with Cons.prems have "m' = (k, v') # m" by (simp add: kv)
    with Some show ?thesis by (simp add: kv alive_def expire_vec_filter)
  qed
qed (simp add: alive_def)

lemma map_of_alive: "map_of (alive dead m) k = map_option (filter (\<lambda>t. \<not> dead t)) (map_of m k)"
  by (induction m) (auto simp: alive_def)

lemma um_wf_alive [simp]: "um_wf (alive dead m) = um_wf m"
  by (simp add: um_wf_def um_keys_def alive_def case_prod_unfold comp_def)

text \<open>
  The contract of a health check: a call either finds no expired entry and changes nothing, or
  removes one and asks to be called again.  The client is the \<^verbatim>\<open>while\<close> loop of \<^verbatim>\<open>MainLoop\<close>.
\<close>

locale health_check =
  fixes check :: "env \<Rightarrow> 'p \<Rightarrow> bool \<times> 'p"
    and loop :: "env \<Rightarrow> 'p \<Rightarrow> 'p"
    and dead :: "env \<Rightarrow> 'm \<Rightarrow> bool"
    and registry :: "'p \<Rightarrow> (string, 'm list) umap"
    and set_registry :: "(string, 'm list) umap \<Rightarrow> 'p \<Rightarrow> 'p"
  assumes check_law: "check e p =
      (case expire_map (dead e) (registry p) of
         None \<Rightarrow> (False, p) | Some m \<Rightarrow> (True, set_registry m p))"
    and loop_law: "loop e p = (case check e p of (True, p') \<Rightarrow> loop e p' | (False, p') \<Rightarrow> p')"
    and get_set: "registry (set_registry m p) = m"
    and set_set: "set_registry m (set_registry m' p) = set_registry m p"
    and set_get: "set_registry (registry p) p = p"
begin

lemma loop_alive: "loop e p = set_registry (alive (dead e) (registry p)) p"
proof (induction "registry_size (registry p)" arbitrary: p)
  case 0
  then have "expire_map (dead e) (registry p) = None"
    using expire_map_size by (cases "expire_map (dead e) (registry p)") fastforce+
  then show ?case
    by (subst loop_law) (simp add: check_law expire_map_None set_get)
next
  case (Suc n)
  show ?case
  proof (cases "expire_map (dead e) (registry p)")
    case None
    then show ?thesis by (subst loop_law) (simp add: check_law expire_map_None set_get)
  next
    case (Some m)
    then have "n = registry_size (registry (set_registry m p))"
      using Suc.hyps(2) expire_map_size by (fastforce simp: get_set)
    from Suc.hyps(1) [OF this] Some show ?thesis
      by (subst loop_law) (simp add: check_law expire_map_Some get_set set_set)
  qed
qed

end

interpretation local_check: health_check LocalRegistryHealthCheck local_health_loop
  "\<lambda>e. local_dead (i32 (e_now e))" p_localInvokeMethods "\<lambda>m. p_localInvokeMethods_update (\<lambda>_. m)"
  by unfold_locales
    (simp_all add: LocalRegistryHealthCheck_def local_health_loop.simps split: option.splits)

interpretation remote_check: health_check RemoteRegistryHealthCheck remote_health_loop
  "\<lambda>e. remote_dead (i32 (e_now e))" p_remoteInvokeMethods "\<lambda>m. p_remoteInvokeMethods_update (\<lambda>_. m)"
  by unfold_locales
    (simp_all add: RemoteRegistryHealthCheck_def remote_health_loop.simps split: option.splits)

text \<open>
  C29: The loop \<^verbatim>\<open>while(LocalRegistryHealthCheck())\<close> ends, and it removes exactly the local
  methods that were not renewed within ten seconds; the order of the others and every other
  field of the proxy are unchanged.
\<close>

theorem local_health_loop_expires:
  "local_health_loop e p =
     p\<lparr>p_localInvokeMethods := map (\<lambda>(k, v).
         (k, filter (\<lambda>t. \<not> i32 (e_now e) > i32 (lm_lastCheckTime t + 10)) v)) (p_localInvokeMethods p)\<rparr>"
  using local_check.loop_alive [of e p] by (simp add: alive_def local_dead_def not_less)

text \<open>
  The loop \<^verbatim>\<open>while(RemoteRegistryHealthCheck())\<close> ends, and it removes exactly the methods of
  other proxies that were not announced again within five seconds.
\<close>

lemma remote_health_loop_expires:
  "remote_health_loop e p =
     p\<lparr>p_remoteInvokeMethods := map (\<lambda>(k, v).
         (k, filter (\<lambda>t. \<not> i32 (e_now e) > i32 (rm_lastCheckTime t + 5)) v)) (p_remoteInvokeMethods p)\<rparr>"
  using remote_check.loop_alive [of e p] by (simp add: alive_def remote_dead_def not_less)

section \<open>Transfer of a registry\<close>

text \<open>
  \<open>announced p ident mg now\<close>: the remote registry of \<open>p\<close> knows the method \<open>mg\<close> under
  \<open>ident\<close> and renewed it at \<open>now\<close>.
\<close>

definition announced :: "Proxy \<Rightarrow> string \<Rightarrow> string \<Rightarrow> int \<Rightarrow> bool" where
  "announced p ident mg now \<longleftrightarrow>
     (\<exists>t \<in> set (um_get [] (p_remoteInvokeMethods p) ident).
        rm_methodGuid t = mg \<and> rm_lastCheckTime t = now)"

text \<open>
  What an entry of a registry message must satisfy to be stored without a failure, and what the
  allocator must do then: it serves the two requests, and happens to leave a byte behind the
  copy of the identifier, where the terminator is written.
\<close>

definition entry_ok :: "RegistryEntry \<Rightarrow> bool" where
  "entry_ok r \<longleftrightarrow> no_nul (entry_identifier r) \<and> no_nul (entry_method_guid r) \<and>
     length (entry_method_guid r) \<le> GUID_SIZE \<and> no_nul (entry_proxy_guid r) \<and>
     length (entry_proxy_guid r) \<le> GUID_SIZE"

definition room_for :: "cmem \<Rightarrow> RegistryEntry \<Rightarrow> bool" where
  "room_for m r \<longleftrightarrow> mem_ok m (length (entry_identifier r)) \<and> mem_ok m sizeof_InvokeMethod \<and>
     mem_slack m (length (entry_identifier r)) \<ge> 1"

definition storable :: "cmem \<Rightarrow> RegistryEntry \<Rightarrow> bool" where
  "storable m r \<longleftrightarrow> entry_ok r \<and> room_for m r"

lemma touch_remote_None: "touch_remote now mg v = None \<longleftrightarrow> mg \<notin> rm_methodGuid ` set v"
  by (induction v) auto

lemma touch_remote_guids: "touch_remote now mg v = Some v' \<Longrightarrow> map rm_methodGuid v' = map rm_methodGuid v"
  by (induction v arbitrary: v') (auto split: if_splits)

lemma touch_remote_origin:
  "touch_remote now mg v = Some v' \<Longrightarrow> t \<in> set v' \<Longrightarrow>
   \<exists>t0 \<in> set v. rm_proxyGuid t = rm_proxyGuid t0 \<and> rm_methodGuid t = rm_methodGuid t0"
  by (induction v arbitrary: v') (fastforce split: if_splits)+

lemma touch_remote_renews:
  "touch_remote now mg v = Some v' \<Longrightarrow> \<exists>t \<in> set v'. rm_methodGuid t = mg \<and> rm_lastCheckTime t = now"
  by (induction v arbitrary: v') (auto split: if_splits)

lemma touch_remote_keeps:
  "touch_remote now mg v = Some v' \<Longrightarrow> t \<in> set v \<Longrightarrow> rm_lastCheckTime t = now \<Longrightarrow>
   \<exists>t' \<in> set v'. rm_methodGuid t' = rm_methodGuid t \<and> rm_lastCheckTime t' = now"
  by (induction v arbitrary: v') (auto split: if_splits)

text \<open>The two outcomes of storing one entry, as an update of the registry alone.\<close>

lemma RemoteRegistryUpdate_entry_eq:
  assumes "storable (e_mem e) r"
  shows "RemoteRegistryUpdate_entry e r p =
    (let ident = entry_identifier r; vec = um_get [] (p_remoteInvokeMethods p) ident;
         reg = um_touch ident [] (p_remoteInvokeMethods p)
     in Inr (p\<lparr>p_remoteInvokeMethods := um_put ident
          (case touch_remote (i32 (e_now e)) (entry_method_guid r) vec of
             Some vec' \<Rightarrow> vec'
           | None \<Rightarrow> vec @ [\<lparr>rm_identifier = ident, rm_proxyGuid = entry_proxy_guid r,
               rm_methodGuid = entry_method_guid r, rm_lastCheckTime = i32 (e_now e)\<rparr>]) reg\<rparr>))"
proof -
  have copies: "strcpy_heap NullDeref (e_mem e) (length (entry_identifier r)) (entry_identifier r) = Inr (entry_identifier r)"
    "strcpy_into (GUID_SIZE + 1) (entry_method_guid r) = Inr (entry_method_guid r)"
    "strcpy_into (GUID_SIZE + 1) (entry_proxy_guid r) = Inr (entry_proxy_guid r)"
    "c_str (entry_method_guid r) = entry_method_guid r"
    using assms by (simp_all add: storable_def entry_ok_def room_for_def strcpy_heap_def strcpy_into_def)
  have "entry_type r = INVOKE_METHOD" by (cases "entry_type r") simp
  moreover have "mem_ok (e_mem e) sizeof_InvokeMethod" using assms by (simp add: storable_def room_for_def)
  ultimately show ?thesis
    unfolding RemoteRegistryUpdate_entry_def copies
    by (auto simp: Let_def copies um_touch_def um_get_def split: option.splits)
qed

lemma um_get_put_touch [simp]:
  "um_get d (um_put k v (um_touch k' d' m)) x =
     (if x = k then v else if x = k' \<and> map_of m k' = None then d' else um_get d m x)"
  by (simp add: um_get_def um_touch_def)

lemma RemoteRegistryUpdate_entry_announces:
  assumes "storable (e_mem e) r" "RemoteRegistryUpdate_entry e r p = Inr p'"
  shows "announced p' (entry_identifier r) (entry_method_guid r) (i32 (e_now e))"
  using assms(2) unfolding RemoteRegistryUpdate_entry_eq [OF assms(1)]
  by (auto simp: announced_def Let_def touch_remote_renews split: option.splits)

lemma RemoteRegistryUpdate_entry_keeps:
  assumes "storable (e_mem e) r" "RemoteRegistryUpdate_entry e r p = Inr p'"
    and "announced p ident mg (i32 (e_now e))"
  shows "announced p' ident mg (i32 (e_now e))"
proof (cases "ident = entry_identifier r")
  case False
  with assms show ?thesis
    unfolding RemoteRegistryUpdate_entry_eq [OF assms(1)]
    by (auto simp: announced_def Let_def)
next
  case True
  let ?vec = "um_get [] (p_remoteInvokeMethods p) ident"
  from assms(3) obtain t where t: "t \<in> set ?vec" "rm_methodGuid t = mg"
    "rm_lastCheckTime t = i32 (e_now e)" by (auto simp: announced_def)
  show ?thesis
  proof (cases "touch_remote (i32 (e_now e)) (entry_method_guid r) ?vec")
    case None
    with assms(2) t True show ?thesis
      unfolding RemoteRegistryUpdate_entry_eq [OF assms(1)] by (auto simp: announced_def Let_def)
  next
    case (Some vec')
    with touch_remote_keeps [OF Some t(1,3)] assms(2) t(2) True show ?thesis
      unfolding RemoteRegistryUpdate_entry_eq [OF assms(1)] by (auto simp: announced_def Let_def)
  qed
qed

lemma RemoteRegistryUpdate_all:
  assumes "\<forall>r \<in> set rs. storable (e_mem e) r"
  shows "\<exists>p'. fold_res (RemoteRegistryUpdate_entry e) rs p = Inr p' \<and>
    (\<forall>r \<in> set rs. announced p' (entry_identifier r) (entry_method_guid r) (i32 (e_now e))) \<and>
    (\<forall>ident mg. announced p ident mg (i32 (e_now e)) \<longrightarrow> announced p' ident mg (i32 (e_now e)))"
  using assms
proof (induction rs arbitrary: p)
  case Nil
  then show ?case by simp
next
  case (Cons r rs)
  then have r: "storable (e_mem e) r" by simp
  obtain p1 where p1: "RemoteRegistryUpdate_entry e r p = Inr p1"
    using RemoteRegistryUpdate_entry_eq [OF r] by (simp add: Let_def)
  note a = RemoteRegistryUpdate_entry_announces [OF r p1]
  note k = RemoteRegistryUpdate_entry_keeps [OF r p1]
  from Cons.IH [of p1] Cons.prems obtain p' where p':
    "fold_res (RemoteRegistryUpdate_entry e) rs p1 = Inr p'"
    "\<forall>r \<in> set rs. announced p' (entry_identifier r) (entry_method_guid r) (i32 (e_now e))"
    "\<forall>ident mg. announced p1 ident mg (i32 (e_now e)) \<longrightarrow> announced p' ident mg (i32 (e_now e))"
    by auto
  with p1 a k show ?case by auto
qed

text \<open>
  Without that provision: how a well-formed entry can fail, and that with memory at hand it fails exactly
  when there is no byte behind the copy.
\<close>

lemma RemoteRegistryUpdate_entry_fails:
  assumes "entry_ok r" "RemoteRegistryUpdate_entry e r p = Inl err"
  shows "err = OutOfBounds \<and> mem_slack (e_mem e) (length (entry_identifier r)) = 0 \<or>
    err = NullDeref \<and> (\<exists>k. \<not> mem_ok (e_mem e) k)"
proof (cases "mem_ok (e_mem e) (length (entry_identifier r)) \<and> mem_ok (e_mem e) sizeof_InvokeMethod")
  case True
  then have "mem_slack (e_mem e) (length (entry_identifier r)) = 0"
    using RemoteRegistryUpdate_entry_eq [of e r p] assms by (auto simp: storable_def room_for_def Let_def Suc_le_eq)
  moreover have "entry_type r = INVOKE_METHOD" by (cases "entry_type r") simp
  ultimately show ?thesis
    using assms True by (simp add: RemoteRegistryUpdate_entry_def strcpy_heap_def entry_ok_def)
next
  case False
  have ty: "entry_type r = INVOKE_METHOD" by (cases "entry_type r") simp
  show ?thesis
  proof (cases "strcpy_heap NullDeref (e_mem e) (length (entry_identifier r)) (entry_identifier r)")
    case (Inl x)
    then show ?thesis
      using assms ty by (auto simp: RemoteRegistryUpdate_entry_def strcpy_heap_def check_res_def entry_ok_def split: if_splits)
  next
    case (Inr ident)
    then have "\<not> mem_ok (e_mem e) sizeof_InvokeMethod" using False by (auto simp: strcpy_heap_def check_res_def split: if_splits)
    then show ?thesis using assms(2) Inr ty
      by (auto simp: RemoteRegistryUpdate_entry_def Let_def split: option.splits)
  qed
qed

lemma RemoteRegistryUpdate_fails:
  assumes "\<forall>r \<in> set rs. entry_ok r" "fold_res (RemoteRegistryUpdate_entry e) rs p = Inl err"
  shows "err = OutOfBounds \<and> (\<exists>r \<in> set rs. mem_slack (e_mem e) (length (entry_identifier r)) = 0) \<or>
    err = NullDeref \<and> (\<exists>k. \<not> mem_ok (e_mem e) k)"
  using assms
proof (induction rs arbitrary: p)
  case (Cons r rs)
  then show ?case using RemoteRegistryUpdate_entry_fails [of r e p err] by (auto simp: bind_res_Inl)
qed simp

lemma RemoteRegistryUpdate_overruns:
  assumes "\<forall>r \<in> set rs. entry_ok r" "\<forall>k. mem_ok (e_mem e) k"
    and "\<exists>r \<in> set rs. mem_slack (e_mem e) (length (entry_identifier r)) = 0"
  shows "fold_res (RemoteRegistryUpdate_entry e) rs p = Inl OutOfBounds"
  using assms
proof (induction rs arbitrary: p)
  case (Cons r rs)
  have ty: "entry_type r = INVOKE_METHOD" by (cases "entry_type r") simp
  show ?case
  proof (cases "mem_slack (e_mem e) (length (entry_identifier r)) = 0")
    case True
    then show ?thesis using Cons.prems(1,2) ty by (simp add: RemoteRegistryUpdate_entry_def strcpy_heap_def entry_ok_def)
  next
    case False
    then have "storable (e_mem e) r" using Cons.prems(1,2) by (simp add: storable_def room_for_def)
    from RemoteRegistryUpdate_entry_eq [OF this, of p] obtain q where "RemoteRegistryUpdate_entry e r p = Inr q"
      by (simp add: Let_def)
    then show ?thesis using Cons False by auto
  qed
qed simp

text \<open>Entries come from the old registry or from the message.\<close>

lemma RemoteRegistryUpdate_origin:
  assumes "\<forall>r \<in> set rs. storable (e_mem e) r \<and>
      Q (entry_identifier r) (entry_proxy_guid r) (entry_method_guid r)"
    and "fold_res (RemoteRegistryUpdate_entry e) rs p = Inr p'"
    and "\<forall>ident. \<forall>t \<in> set (um_get [] (p_remoteInvokeMethods p) ident). Q ident (rm_proxyGuid t) (rm_methodGuid t)"
  shows "\<forall>ident. \<forall>t \<in> set (um_get [] (p_remoteInvokeMethods p') ident). Q ident (rm_proxyGuid t) (rm_methodGuid t)"
proof (rule fold_res_invariant [OF assms(2), where I = "\<lambda>q. \<forall>ident. \<forall>t \<in> set (um_get [] (p_remoteInvokeMethods q) ident).
    Q ident (rm_proxyGuid t) (rm_methodGuid t)", OF assms(3)])
  fix r and q q' :: Proxy
  let ?vec = "um_get [] (p_remoteInvokeMethods q) (entry_identifier r)"
  let ?Q = "\<lambda>q. \<forall>ident. \<forall>t \<in> set (um_get [] (p_remoteInvokeMethods q) ident). Q ident (rm_proxyGuid t) (rm_methodGuid t)"
  assume r: "r \<in> set rs" "RemoteRegistryUpdate_entry e r q = Inr q'" "?Q q"
  have st: "storable (e_mem e) r" "Q (entry_identifier r) (entry_proxy_guid r) (entry_method_guid r)"
    using assms(1) r(1) by auto
  have touched: "\<forall>t \<in> set v. Q (entry_identifier r) (rm_proxyGuid t) (rm_methodGuid t)"
    if "touch_remote (i32 (e_now e)) (entry_method_guid r) ?vec = Some v" for v
    using touch_remote_origin [OF that] r(3) by metis
  define vec' where "vec' = (case touch_remote (i32 (e_now e)) (entry_method_guid r) ?vec of
      Some v \<Rightarrow> v
    | None \<Rightarrow> ?vec @ [\<lparr>rm_identifier = entry_identifier r, rm_proxyGuid = entry_proxy_guid r,
        rm_methodGuid = entry_method_guid r, rm_lastCheckTime = i32 (e_now e)\<rparr>])"
  have "\<forall>t \<in> set vec'. Q (entry_identifier r) (rm_proxyGuid t) (rm_methodGuid t)"
    using r(3) st(2) touched by (cases "touch_remote (i32 (e_now e)) (entry_method_guid r) ?vec") (auto simp: vec'_def)
  moreover have "q' = q\<lparr>p_remoteInvokeMethods := um_put (entry_identifier r) vec'
      (um_touch (entry_identifier r) [] (p_remoteInvokeMethods q))\<rparr>"
    using r(2) by (simp add: RemoteRegistryUpdate_entry_eq [OF st(1)] Let_def vec'_def)
  ultimately show "?Q q'" using r(3) by simp
qed

text \<open>The shape of the local registry that the handlers maintain.\<close>

definition local_entry_wf :: "string \<Rightarrow> LocalInvokeMethod \<Rightarrow> bool" where
  "local_entry_wf k t \<longleftrightarrow> lm_identifier t = k \<and> no_nul k \<and>
     no_nul (lm_nodeGuid t) \<and> length (lm_nodeGuid t) \<le> GUID_SIZE \<and>
     no_nul (lm_methodGuid t) \<and> length (lm_methodGuid t) \<le> GUID_SIZE"

definition local_wf :: "(string, LocalInvokeMethod list) umap \<Rightarrow> bool" where
  "local_wf reg \<longleftrightarrow> um_wf reg \<and>
     (\<forall>(k, vec) \<in> set reg. distinct (map lm_methodGuid vec) \<and> (\<forall>t \<in> set vec. local_entry_wf k t))"

lemma um_get_in_set: "t \<in> set (um_get [] reg k) \<Longrightarrow> \<exists>vec. (k, vec) \<in> set reg \<and> t \<in> set vec \<and> um_get [] reg k = vec"
  by (auto simp: um_get_def dest: map_of_SomeD split: option.splits)

lemma um_get_iff:
  "um_wf reg \<Longrightarrow> (k, vec) \<in> set reg \<Longrightarrow> um_get d reg k = vec"
  by (simp add: um_wf_def um_keys_def um_get_def map_of_is_SomeI)

lemma registry_entry_fields [simp]:
  "entry_identifier (registry_entry g k t) = k"
  "entry_method_guid (registry_entry g k t) = lm_methodGuid t"
  "entry_proxy_guid (registry_entry g k t) = g"
  "entry_type (registry_entry g k t) = INVOKE_METHOD"
  by (simp_all add: registry_entry_def getter_defs)

lemma registry_entries_ok:
  assumes "local_wf reg" "guid_ok g" "r \<in> set (registry_entries g reg)"
  shows "entry_ok r \<and> entry_proxy_guid r = g \<and>
    (\<exists>t \<in> set (um_get [] reg (entry_identifier r)). lm_methodGuid t = entry_method_guid r)"
proof -
  from assms(3) obtain k vec t where "(k, vec) \<in> set reg" "t \<in> set vec" "r = registry_entry g k t"
    unfolding registry_entries_def by auto
  then have r: "(k, vec) \<in> set reg" "t \<in> set vec" "entry_identifier r = k"
    "entry_method_guid r = lm_methodGuid t" "entry_proxy_guid r = g"
    by simp_all
  from r assms(1) have "local_entry_wf k t" "um_get [] reg k = vec"
    by (auto simp: local_wf_def um_get_iff)
  with r assms(2) guid_ok_chars [OF assms(2)] show ?thesis
    by (auto simp: entry_ok_def local_entry_wf_def guid_ok_def)
qed

lemma registry_entries_complete:
  assumes "t \<in> set (um_get [] reg k)"
  shows "\<exists>r \<in> set (registry_entries g reg). entry_identifier r = k \<and> entry_method_guid r = lm_methodGuid t"
proof -
  obtain vec where "(k, vec) \<in> set reg" "t \<in> set vec"
    using um_get_in_set [OF assms] by (elim exE conjE) simp
  then have "registry_entry g k t \<in> (\<Union>(ident, vec) \<in> set reg. registry_entry g ident ` set vec)"
    by auto
  then have "registry_entry g k t \<in> set (registry_entries g reg)"
    by (simp add: registry_entries_def case_prod_unfold)
  then show ?thesis by (rule bexI [rotated]) simp
qed

lemma RegistryExchangeResponder_message:
  assumes "RegistryExchangeResponder req p = Inr p'" "p_outbox p' = p_outbox p @ [(topic, msg)]"
  shows "c_reg_entry msg = registry_entries (p_guid p) (p_localInvokeMethods p)"
  using assms publish_to_InrD unfolding RegistryExchangeResponder_def by fastforce

lemma RemoteRegistryUpdate_entry_local:
  "RemoteRegistryUpdate_entry e r p = Inr p' \<Longrightarrow> p_localInvokeMethods p' = p_localInvokeMethods p"
proof (erule on_successD)
  show "on_success (\<lambda>p'. p_localInvokeMethods p' = p_localInvokeMethods p) (RemoteRegistryUpdate_entry e r p)"
    unfolding RemoteRegistryUpdate_entry_def Let_def
    by (intro on_success_intros) (simp_all add: on_success_def)
qed

lemma RemoteRegistryUpdate_local:
  "RemoteRegistryUpdate e cmd p = Inr p' \<Longrightarrow> p_localInvokeMethods p' = p_localInvokeMethods p"
  unfolding RemoteRegistryUpdate_def
  by (erule fold_res_invariant [where I = "\<lambda>q. p_localInvokeMethods q = p_localInvokeMethods p"])
    (auto dest: RemoteRegistryUpdate_entry_local)

section \<open>Properties\<close>

text \<open>
  The exchange of registries between two proxies.  The message that proxy \<open>A\<close> sends in
  answer to a registry request makes proxy \<open>B\<close> know every method registered at \<open>A\<close>, under
  the same identifier and renewed at the time of receipt, provided that there is memory and that each
  block into which an identifier is copied happens to have a byte behind it.
\<close>

lemma registry_exchange_announces:
  assumes "local_wf (p_localInvokeMethods A)" "guid_ok (p_guid A)"
    and "\<forall>r \<in> set (registry_entries (p_guid A) (p_localInvokeMethods A)). room_for (e_mem e) r"
    and "RegistryExchangeResponder req A = Inr A'" "p_outbox A' = p_outbox A @ [(topic, msg)]"
  shows "\<exists>B'. RemoteRegistryUpdate e msg B = Inr B' \<and>
    (\<forall>ident. \<forall>t \<in> set (um_get [] (p_localInvokeMethods A) ident).
       announced B' ident (lm_methodGuid t) (i32 (e_now e)))"
proof -
  note msg = RegistryExchangeResponder_message [OF assms(4,5)]
  have "\<forall>r \<in> set (c_reg_entry msg). storable (e_mem e) r"
    using registry_entries_ok [OF assms(1,2)] assms(3) by (simp add: msg storable_def)
  from RemoteRegistryUpdate_all [OF this, of B] show ?thesis
    unfolding RemoteRegistryUpdate_def
    using registry_entries_complete [of _ "p_localInvokeMethods A" _ "p_guid A"]
    by (fastforce simp: msg)
qed

text \<open>What \<^verbatim>\<open>Invoke\<close> passes on to another proxy or to a node.\<close>

definition forwarded_call :: "string \<Rightarrow> string \<Rightarrow> string \<Rightarrow> Command \<Rightarrow> Command" where
  "forwarded_call g mg ident call = Command_new\<lparr>c_cmd := Some INVOKE, c_guid_to := Some mg, c_guid_from := Some (guid_from call),
     c_source_proxy_guid := Some g, c_identifier := Some ident, c_payload := Some (payload call)\<rparr>"

lemma forwarded_call_fields:
  "cmd_of (forwarded_call g mg ident call) = INVOKE" "guid_to (forwarded_call g mg ident call) = mg"
  "source_proxy_guid (forwarded_call g mg ident call) = g" "cmd_identifier (forwarded_call g mg ident call) = ident"
  "payload (forwarded_call g mg ident call) = payload call" "guid_from (forwarded_call g mg ident call) = guid_from call"
  by (simp_all add: forwarded_call_def getter_defs)

lemma Invoke_remote_sends:
  assumes vec: "um_get [] (p_localInvokeMethods p) (cmd_identifier call) = []" "um_get [] (p_remoteInvokeMethods p) (cmd_identifier call) = vec" "vec \<noteq> []"
    and target: "m = vec ! (e_rand e mod length vec)" "guid_ok (rm_proxyGuid m)"
  shows "\<exists>p'. Invoke e call p = Inr p' \<and> m \<in> set vec \<and>
    p_outbox p' = p_outbox p @ [(rm_proxyGuid m, forwarded_call (p_guid p) (rm_methodGuid m) (rm_identifier m) call)] \<and> p_guid p' = p_guid p \<and>
    p_invokeResponses p' = um_insert (guid_from call) (source_proxy_guid call) (p_invokeResponses p) \<and>
    p_invokeResponsesCallTime p' = um_insert (guid_from call) (i32 (e_now e)) (p_invokeResponsesCallTime p)"
proof -
  have "m \<in> set vec" using vec(3) target(1) by simp
  moreover have "GUID_SIZE \<le> length (remote_guid_block (e_mem e) (rm_proxyGuid m))" using target(2) by (simp add: guid_ok_def)
  ultimately show ?thesis
    using vec guid_block_topic(2) [OF target(2)]
    by (simp add: Invoke_def Invoke_remote_def Let_def publish_to_ok forwarded_call_def target(1) [symmetric])
qed

text \<open>
  A method is reachable after one exchange: when \<open>B\<close> knew no methods of others and has none of its own under the identifier, a
  call at \<open>B\<close> is sent to \<open>A\<close> and names a method that is registered at \<open>A\<close> under this identifier.
\<close>

lemma call_after_exchange:
  assumes wf: "local_wf (p_localInvokeMethods A)" "guid_ok (p_guid A)"
    and room: "\<forall>r \<in> set (registry_entries (p_guid A) (p_localInvokeMethods A)). room_for (e_mem e) r"
    and entries: "c_reg_entry msg = registry_entries (p_guid A) (p_localInvokeMethods A)"
    and B: "p_remoteInvokeMethods B = []" "RemoteRegistryUpdate e msg B = Inr B'"
    and ident: "um_get [] (p_localInvokeMethods B') (cmd_identifier call) = []"
      "um_get [] (p_localInvokeMethods A) (cmd_identifier call) \<noteq> []"
  shows "\<exists>B'' t rt. Invoke e' call B' = Inr B'' \<and> t \<in> set (um_get [] (p_localInvokeMethods A) (cmd_identifier call)) \<and>
    rt \<in> set (um_get [] (p_remoteInvokeMethods B') (cmd_identifier call)) \<and>
    p_outbox B'' = p_outbox B' @ [(p_guid A, forwarded_call (p_guid B') (lm_methodGuid t) (rm_identifier rt) call)] \<and> p_guid B'' = p_guid B' \<and>
    p_invokeResponses B'' = um_insert (guid_from call) (source_proxy_guid call) (p_invokeResponses B')"
proof -
  let ?id = "cmd_identifier call"
  let ?Q = "\<lambda>ident g mg. g = p_guid A \<and> (\<exists>t \<in> set (um_get [] (p_localInvokeMethods A) ident). lm_methodGuid t = mg)"
  have st: "\<forall>r \<in> set (c_reg_entry msg). storable (e_mem e) r \<and>
      ?Q (entry_identifier r) (entry_proxy_guid r) (entry_method_guid r)"
    using registry_entries_ok [OF wf] room by (simp add: entries storable_def)
  have origin: "\<forall>ident. \<forall>t \<in> set (um_get [] (p_remoteInvokeMethods B') ident).
      ?Q ident (rm_proxyGuid t) (rm_methodGuid t)"
    using RemoteRegistryUpdate_origin [OF st B(2) [unfolded RemoteRegistryUpdate_def]] B(1)
    by (simp add: um_get_def)
  define vec where "vec = um_get [] (p_remoteInvokeMethods B') ?id"
  obtain t0 where t0: "t0 \<in> set (um_get [] (p_localInvokeMethods A) ?id)"
    using ident(2) by (meson last_in_set)
  obtain r0 where r0: "r0 \<in> set (c_reg_entry msg)" "entry_identifier r0 = ?id"
    using registry_entries_complete [OF t0, of "p_guid A"] by (auto simp: entries)
  have "\<forall>r \<in> set (c_reg_entry msg). storable (e_mem e) r" using st by blast
  from RemoteRegistryUpdate_all [OF this, of B] B(2) r0 have "vec \<noteq> []"
    by (fastforce simp: RemoteRegistryUpdate_def announced_def vec_def)
  define t where "t = vec ! (e_rand e' mod length vec)"
  have "t \<in> set vec" using \<open>vec \<noteq> []\<close> by (simp add: t_def)
  with origin have t: "rm_proxyGuid t = p_guid A"
    "\<exists>l \<in> set (um_get [] (p_localInvokeMethods A) ?id). lm_methodGuid l = rm_methodGuid t"
    by (auto simp: vec_def)
  from t(2) obtain l where "l \<in> set (um_get [] (p_localInvokeMethods A) ?id)" "lm_methodGuid l = rm_methodGuid t" by blast
  with Invoke_remote_sends [OF ident(1) vec_def [symmetric] \<open>vec \<noteq> []\<close> t_def] t(1) wf(2) show ?thesis
    unfolding vec_def by fastforce
qed

end
