(* ===== verification/Reply.thy ===== *)
theory Reply
  imports ESB_Prelude
begin

text \<open>
  The replies of a Redis server as the client library hands them to the proxy
  (\<^verbatim>\<open>src/src/deps/hiredis/hiredis.h\<close>, \<^verbatim>\<open>redisReply\<close>): the value of the object that
  \<^verbatim>\<open>redisReply\<close> pointers make up, once it is complete.
\<close>

datatype redisReply =
    ReplyString string
  | ReplyArray "redisReply list"
  | ReplyInteger int
  | ReplyNil
  | ReplyStatus string
  | ReplyError string

text \<open>The field \<^verbatim>\<open>type\<close>.\<close>

fun reply_type :: "redisReply \<Rightarrow> int" where
  "reply_type (ReplyString s) = 1"
| "reply_type (ReplyArray rs) = 2"
| "reply_type (ReplyInteger i) = 3"
| "reply_type ReplyNil = 4"
| "reply_type (ReplyStatus s) = 5"
| "reply_type (ReplyError s) = 6"

text \<open>The field \<^verbatim>\<open>str\<close>, which \<^verbatim>\<open>calloc\<close> leaves NULL in the other replies.\<close>

fun reply_str :: "redisReply \<Rightarrow> string option" where
  "reply_str (ReplyString s) = Some s"
| "reply_str (ReplyStatus s) = Some s"
| "reply_str (ReplyError s) = Some s"
| "reply_str (ReplyArray rs) = None"
| "reply_str (ReplyInteger i) = None"
| "reply_str ReplyNil = None"

end
