(* ===== verification/Proxy_Loop.thy ===== *)
theory Proxy_Loop
  imports Proxy_Registry Reply
begin

text \<open>
  The thread of the proxy: \<^verbatim>\<open>MainLoop\<close> of \<^verbatim>\<open>src/src/proxy.cc\<close> with \<^verbatim>\<open>Responder::Poll\<close>, the
  polling of the subscribers and the timers, among them \<^verbatim>\<open>PingRedis\<close>, which finds other
  proxies.  One round takes a record of everything it gets from outside; its result is the
  state after the round.
\<close>

section \<open>Finding other proxies\<close>

definition redis_send :: "string list \<Rightarrow> Proxy \<Rightarrow> Proxy" where
  "redis_send argv p = p\<lparr>p_redisSent := p_redisSent p @ [argv]\<rparr>"

text \<open>
  \<open>req\<close> is the return code of \<^verbatim>\<open>zmq_connect\<close> on the request socket, \<open>hello\<close> what is received
  on it, \<open>parse_any\<close> the message that \<^verbatim>\<open>ParseFromArray\<close> leaves.
\<close>

definition ConnectToAnotherProxy ::
    "env \<Rightarrow> (string \<Rightarrow> int) \<Rightarrow> (string \<Rightarrow> recv) \<Rightarrow> (char list \<Rightarrow> Command) \<Rightarrow> string \<Rightarrow> string \<Rightarrow> Proxy \<Rightarrow> Proxy res" where
  "ConnectToAnotherProxy e req hello parse_any proxyGuid connectionString p =
     bind_res (strcpy_into 512 (''tcp://'' @ p_host p @ '':'' @ dec_int (p_responderPort p))) (\<lambda>buf.
     bind_res (strcpy_into 1024 (proxyGuid @ ''#'' @ connectionString)) (\<lambda>redisKey.
       let zrem = redis_send [''ZREM'', ''ZSET:PROXIES'', redisKey] in
       if buf = connectionString then Inr (zrem p)
       else
         bind_res (Requester_new connectionString proxyGuid) (\<lambda>requester.
         bind_res (Requester_Connect req requester) (\<lambda>connected.
            if connected
            then case SendProxyHello parse_any (hello (req_connectString requester)) of
                None \<Rightarrow> Inr (zrem p)
              | Some endpoint \<Rightarrow>
                  bind_res (Subscriber_new (e_now e) endpoint proxyGuid) (\<lambda>s0.
                  bind_res (Subscriber_Connect (e_zconnect e) (e_now e) (p_guid p) (p_subscribeChannels p) s0)
                    (\<lambda>(ok, s).
                       if ok
                       then Inr (p\<lparr>p_subscribers := um_insert proxyGuid s
                                      (drop_duplicate endpoint (p_subscribers p)),
                                   p_proxiesGuids := sm_put proxyGuid proxyGuid (p_proxiesGuids p)\<rparr>)
                       else Inr (p\<lparr>p_proxiesGuids := um_erase proxyGuid (p_proxiesGuids p)\<rparr>)))
            else Inr (zrem p)))))"

text \<open>One element of the answer to \<^verbatim>\<open>ZREVRANGE\<close>.\<close>

definition PingRedis_entry ::
    "env \<Rightarrow> (string \<Rightarrow> int) \<Rightarrow> (string \<Rightarrow> recv) \<Rightarrow> (char list \<Rightarrow> Command) \<Rightarrow> redisReply \<Rightarrow> Proxy \<Rightarrow> Proxy res" where
  "PingRedis_entry e req hello parse_any proxy p =
     (case reply_str proxy of
        None \<Rightarrow> Inl NullDeref
      | Some str \<Rightarrow>
          let vector = split (c_str str) (CHR ''#'') in
          check_res (2 \<le> length vector) OutOfBounds
            (let guid2 = vector ! 0; connectionString = vector ! 1 in
             if guid2 = p_guid p then Inr p
             else if map_of (p_subscribers p) guid2 \<noteq> None then Inr p
             else ConnectToAnotherProxy e req hello parse_any guid2 connectionString p))"

text \<open>
  \<^verbatim>\<open>PingRedis\<close>: \<open>added\<close> and \<open>found\<close> are the results of the two \<^verbatim>\<open>redisCommand\<close> calls, \<open>None\<close>
  for NULL; both are dereferenced without a check.
\<close>

definition PingRedis ::
    "env \<Rightarrow> (string \<Rightarrow> int) \<Rightarrow> (string \<Rightarrow> recv) \<Rightarrow> (char list \<Rightarrow> Command) \<Rightarrow>
     redisReply option \<Rightarrow> redisReply option \<Rightarrow> Proxy \<Rightarrow> Proxy res" where
  "PingRedis e req hello parse_any added found p =
     (if e_now e - p_lastRedisPing p < 2 then Inr p
      else
        let p1 = redis_send [''ZADD'', ''ZSET:PROXIES'', dec_int (i32 (e_now e)),
                   p_guid p @ ''#tcp://'' @ p_host p @ '':'' @ dec_int (p_responderPort p)] p;
            p2 = redis_send [''ZREVRANGE'', ''ZSET:PROXIES'', ''0'', ''-1''] p1
        in case (added, found) of
             (None, _) \<Rightarrow> Inl NullDeref
           | (Some _, None) \<Rightarrow> Inl NullDeref
           | (Some _, Some reply) \<Rightarrow>
               bind_res (case reply of
                   ReplyArray element \<Rightarrow> fold_res (PingRedis_entry e req hello parse_any) element p2
                 | _ \<Rightarrow> Inr p2)
                 (\<lambda>p. Inr (p\<lparr>p_lastRedisPing := i32 (e_now e)\<rparr>)))"

section \<open>The main loop\<close>

text \<open>\<^verbatim>\<open>Responder::Poll\<close>: the answer that is sent, if there was a request.\<close>

definition Responder_Poll ::
    "env \<Rightarrow> (char list \<Rightarrow> Command) \<Rightarrow> recv \<Rightarrow> Proxy \<Rightarrow> (Command option \<times> Proxy) res" where
  "Responder_Poll e parse_any r p =
     (case r of
        RecvAgain \<Rightarrow> Inr (None, p)
      | RecvError \<Rightarrow> Inr (None, p)
      | Received bs \<Rightarrow>
          if bs = [] then Inr (None, p)
          else bind_res (ResponderCallback e (parse_any bs) p) (\<lambda>(resp, p). Inr (Some resp, p)))"

definition MAX_INACTIVE_SUBSCRIBER :: int where
  "MAX_INACTIVE_SUBSCRIBER = 30"

text \<open>
  The inner loop over at most 1000 messages of the subscriber under \<open>key\<close>, from the \<open>r\<close>-th
  turn on; \<open>io r\<close> is what the \<open>r\<close>-th poll receives and the environment of its handler.  The
  handler gets the key as the GUID of the sender.
\<close>

function drain_subscriber ::
    "(char list \<Rightarrow> Command option) \<Rightarrow> (nat \<Rightarrow> recv \<times> env) \<Rightarrow> int \<Rightarrow> string \<Rightarrow> nat \<Rightarrow> Proxy \<Rightarrow> Proxy res" where
  "drain_subscriber parse io now key r p =
     (if r < 1000
      then case map_of (p_subscribers p) key of
          None \<Rightarrow> Inl NullDeref
        | Some s \<Rightarrow>
            (let (answer, e) = io r;
                 (msg, s') = Subscriber_Poll parse (e_now e) (p_guid p) answer s;
                 p1 = p\<lparr>p_subscribers := um_put key s' (p_subscribers p)\<rparr>
             in case msg of
                  None \<Rightarrow>
                    if now - sub_lastActiveTime s' > MAX_INACTIVE_SUBSCRIBER
                    then Inr (p1\<lparr>p_subscribers := um_erase key (p_subscribers p1)\<rparr>)
                    else Inr p1
                | Some cmdReq \<Rightarrow>
                    bind_res (SubscriberCallback e cmdReq key p1) (drain_subscriber parse io now key (Suc r)))
      else Inr p)"
  by pat_completeness auto
termination
  by (relation "measure (\<lambda>(parse, io, now, key, r, p). 1000 - r)") auto

declare drain_subscriber.simps [simp del]

text \<open>
  The loop over the subscribers.  The iterator is the position \<open>i\<close>: after an \<^verbatim>\<open>erase\<close> it is on
  the next subscriber already and is advanced nevertheless.
\<close>

function drain_all ::
    "(char list \<Rightarrow> Command option) \<Rightarrow> (string \<Rightarrow> nat \<Rightarrow> recv \<times> env) \<Rightarrow> int \<Rightarrow> nat \<Rightarrow> nat \<Rightarrow> Proxy \<Rightarrow> Proxy res" where
  "drain_all parse io now n i p =
     (if i < n \<and> i < length (p_subscribers p)
      then bind_res (let key = fst (p_subscribers p ! i) in drain_subscriber parse (io key) now key 0 p)
             (drain_all parse io now n (Suc i))
      else Inr p)"
  by pat_completeness auto
termination
  by (relation "measure (\<lambda>(parse, io, now, n, i, p). n - i)") auto

declare drain_all.simps [simp del]

record round_io =
  ri_request :: "recv \<times> env"
  ri_now :: int
  ri_poll :: "string \<Rightarrow> nat \<Rightarrow> recv \<times> env"
  ri_timer :: env
  ri_req :: "string \<Rightarrow> int"
  ri_hello :: "string \<Rightarrow> recv"
  ri_added :: "redisReply option"
  ri_found :: "redisReply option"

text \<open>The timers, in the order of the code.\<close>

definition run_timers :: "(char list \<Rightarrow> Command) \<Rightarrow> round_io \<Rightarrow> Proxy \<Rightarrow> Proxy res" where
  "run_timers parse_any io p =
     bind_res (PingRedis (ri_timer io) (ri_req io) (ri_hello io) parse_any (ri_added io) (ri_found io) p) (\<lambda>p1.
     bind_res (RequestRegistryExchange (ri_timer io)
                 (local_health_loop (ri_timer io) (remote_health_loop (ri_timer io) p1))) (\<lambda>p2.
       Inr (CleanUpResponsesMap (ri_timer io) p2)))"

text \<open>
  One round of \<^verbatim>\<open>while (self->isWork)\<close>.  The number of subscribers bounds the loop over them:
  the handlers of messages add none.
\<close>

definition MainLoop_round ::
    "(char list \<Rightarrow> Command option) \<Rightarrow> (char list \<Rightarrow> Command) \<Rightarrow> round_io \<Rightarrow> int \<Rightarrow> Proxy \<Rightarrow> Proxy res" where
  "MainLoop_round parse parse_any io loop p =
     bind_res (Responder_Poll (snd (ri_request io)) parse_any (fst (ri_request io)) p) (\<lambda>(resp, p1).
     bind_res (drain_all parse (ri_poll io) (ri_now io) (length (p_subscribers p1)) 0 p1) (\<lambda>p2.
       if loop mod 25 = 0 then run_timers parse_any io p2 else Inr p2))"

fun MainLoop ::
    "(char list \<Rightarrow> Command option) \<Rightarrow> (char list \<Rightarrow> Command) \<Rightarrow> int \<Rightarrow> round_io list \<Rightarrow> Proxy \<Rightarrow> Proxy res" where
  "MainLoop parse parse_any loop [] p = Inr p"
| "MainLoop parse parse_any loop (io # ios) p =
     bind_res (MainLoop_round parse parse_any io loop p) (MainLoop parse parse_any (i32 (loop + 1)) ios)"

end
