(* ===== verification/Proxy_Inv.thy ===== *)
theory Proxy_Inv
  imports Proxy_Loop
begin

text \<open>
  The invariant of class \<^verbatim>\<open>Proxy\<close>, the step relation of its thread, and the proofs that every
  handler and timer keeps the invariant and that each round of \<^verbatim>\<open>MainLoop\<close> is a sequence of
  steps.
\<close>

section \<open>The invariant\<close>

text \<open>
  In the remote registry an identifier that holds a NUL is looked up under the part before it
  and stored under the full name, so only the lists of other identifiers are free of
  duplicates.
\<close>

definition remote_entry_wf :: "RemoteInvokeMethod \<Rightarrow> bool" where
  "remote_entry_wf t \<longleftrightarrow> no_nul (rm_identifier t) \<and>
     no_nul (rm_proxyGuid t) \<and> length (rm_proxyGuid t) \<le> GUID_SIZE \<and>
     no_nul (rm_methodGuid t) \<and> length (rm_methodGuid t) \<le> GUID_SIZE"

definition remote_vec_wf :: "string \<Rightarrow> RemoteInvokeMethod list \<Rightarrow> bool" where
  "remote_vec_wf k vec \<longleftrightarrow> (\<forall>t \<in> set vec. remote_entry_wf t) \<and>
     (no_nul k \<longrightarrow> distinct (map rm_methodGuid vec) \<and> (\<forall>t \<in> set vec. rm_identifier t = k))"

definition remote_wf :: "(string, RemoteInvokeMethod list) umap \<Rightarrow> bool" where
  "remote_wf reg \<longleftrightarrow> um_wf reg \<and> (\<forall>(k, vec) \<in> set reg. remote_vec_wf k vec)"

definition local_vec_wf :: "string \<Rightarrow> LocalInvokeMethod list \<Rightarrow> bool" where
  "local_vec_wf k vec \<longleftrightarrow> distinct (map lm_methodGuid vec) \<and> (\<forall>t \<in> set vec. local_entry_wf k t)"

definition pending_wf :: "(string, string) umap \<Rightarrow> (string, int) umap \<Rightarrow> bool" where
  "pending_wf resp calls \<longleftrightarrow> um_wf resp \<and> um_wf calls \<and> dom (map_of resp) = dom (map_of calls)"

definition name_set :: "(string \<times> string) list \<Rightarrow> bool" where
  "name_set m \<longleftrightarrow> sorted_wrt (<) (map fst m) \<and> (\<forall>(k, v) \<in> set m. k = v)"

definition proxy_inv :: "Proxy \<Rightarrow> bool" where
  "proxy_inv p \<longleftrightarrow> guid_ok (p_guid p) \<and> um_wf (p_subscribers p) \<and>
     local_wf (p_localInvokeMethods p) \<and> remote_wf (p_remoteInvokeMethods p) \<and>
     pending_wf (p_invokeResponses p) (p_invokeResponsesCallTime p) \<and>
     name_set (p_subscribeChannels p) \<and> name_set (p_nodesGuids p) \<and> name_set (p_proxiesGuids p)"

text \<open>A registry that is well-formed entry by entry: the operations of the container keep it.\<close>

definition reg_wf :: "('k \<Rightarrow> 'a list \<Rightarrow> bool) \<Rightarrow> ('k, 'a list) umap \<Rightarrow> bool" where
  "reg_wf W reg \<longleftrightarrow> um_wf reg \<and> (\<forall>k vec. map_of reg k = Some vec \<longrightarrow> W k vec)"

lemma reg_wf_entries: "reg_wf W reg \<longleftrightarrow> um_wf reg \<and> (\<forall>(k, vec) \<in> set reg. W k vec)"
  unfolding reg_wf_def um_wf_def um_keys_def
  by (auto simp: map_of_eq_Some_iff)

lemma local_wf_reg: "local_wf reg = reg_wf local_vec_wf reg"
  by (simp add: local_wf_def reg_wf_entries local_vec_wf_def)

lemma remote_wf_reg: "remote_wf reg = reg_wf remote_vec_wf reg"
  by (simp add: remote_wf_def reg_wf_entries)

lemma reg_wf_put: "reg_wf W reg \<Longrightarrow> W k vec \<Longrightarrow> reg_wf W (um_put k vec reg)"
  by (auto simp: reg_wf_def)

lemma reg_wf_touch: "reg_wf W reg \<Longrightarrow> W k [] \<Longrightarrow> reg_wf W (um_touch k [] reg)"
  by (auto simp: reg_wf_def um_touch_def)

lemma reg_wf_get: "reg_wf W reg \<Longrightarrow> W k [] \<Longrightarrow> W k (um_get [] reg k)"
  by (auto simp: reg_wf_def um_get_def split: option.splits)

lemma reg_wf_alive:
  "reg_wf W reg \<Longrightarrow> (\<And>k vec. W k vec \<Longrightarrow> W k (filter (\<lambda>t. \<not> dead t) vec)) \<Longrightarrow> reg_wf W (alive dead reg)"
  by (auto simp: reg_wf_def map_of_alive)

lemma vec_wf_Nil [simp]: "local_vec_wf k []" "remote_vec_wf k []"
  by (simp_all add: local_vec_wf_def remote_vec_wf_def)

lemma distinct_map_filter_sub: "distinct (map f xs) \<Longrightarrow> distinct (map f (filter P xs))"
  by (induction xs) auto

lemma local_vec_wf_filter: "local_vec_wf k vec \<Longrightarrow> local_vec_wf k (filter P vec)"
  by (auto simp: local_vec_wf_def distinct_map_filter_sub)

lemma remote_vec_wf_filter: "remote_vec_wf k vec \<Longrightarrow> remote_vec_wf k (filter P vec)"
  by (auto simp: remote_vec_wf_def distinct_map_filter_sub)

lemma touch_local_guids:
  "touch_local now mg v = Some (i, v') \<Longrightarrow> map lm_methodGuid v' = map lm_methodGuid v \<and> i \<in> lm_identifier ` set v"
  by (induction v arbitrary: v' i) (auto split: if_splits)

lemma touch_local_None: "touch_local now mg v = None \<longleftrightarrow> mg \<notin> lm_methodGuid ` set v"
  by (induction v) auto

lemma touch_local_wf:
  "touch_local now mg v = Some (i, v') \<Longrightarrow> \<forall>t \<in> set v. local_entry_wf k t \<Longrightarrow> \<forall>t \<in> set v'. local_entry_wf k t"
proof (induction v arbitrary: v' i)
  case (Cons t v)
  then show ?case by (cases "lm_methodGuid t = mg") (auto simp: local_entry_wf_def)
qed simp

lemma touch_remote_wf:
  "touch_remote now mg v = Some v' \<Longrightarrow> remote_vec_wf k v \<Longrightarrow> remote_vec_wf k v'"
proof -
  assume t: "touch_remote now mg v = Some v'" and wf: "remote_vec_wf k v"
  have "\<forall>t \<in> set v'. \<exists>t0 \<in> set v. rm_identifier t = rm_identifier t0 \<and>
      rm_proxyGuid t = rm_proxyGuid t0 \<and> rm_methodGuid t = rm_methodGuid t0"
    using t by (induction v arbitrary: v') (fastforce split: if_splits)+
  with wf touch_remote_guids [OF t] show ?thesis
    unfolding remote_vec_wf_def remote_entry_wf_def by metis
qed

section \<open>The handlers keep the invariant\<close>

lemma pending_wf_insert:
  "pending_wf r t \<Longrightarrow> pending_wf (um_insert k a r) (um_insert k b t)"
  by (auto simp: pending_wf_def dom_def split: if_splits)

lemma pending_wf_erase: "pending_wf r t \<Longrightarrow> pending_wf (um_erase k r) (um_erase k t)"
  by (auto simp: pending_wf_def dom_def)

lemma pending_wf_erase_all:
  "pending_wf r t \<Longrightarrow> pending_wf (fold um_erase ks r) (fold um_erase ks t)"
  by (induction ks arbitrary: r t) (auto simp: pending_wf_erase)

lemma name_set_Nil [simp]: "name_set []"
  by (simp add: name_set_def)

lemma set_sm_put: "set (sm_put k v m) \<subseteq> insert (k, v) (set m)"
  by (induction k v m rule: sm_put.induct) auto

lemma name_set_put: "name_set m \<Longrightarrow> name_set (sm_put k k m)"
  using set_sm_put [of k k m] by (fastforce simp: name_set_def sm_put_sorted)

lemma name_set_erase: "name_set m \<Longrightarrow> name_set (um_erase k m)"
proof -
  have "sorted_wrt (<) (map fst m) \<Longrightarrow> sorted_wrt (<) (map fst (filter P m))" for P and m :: "(string \<times> string) list"
    by (induction m) auto
  then show "name_set m \<Longrightarrow> name_set (um_erase k m)"
    by (auto simp: name_set_def um_erase_def)
qed

lemma proxy_inv_publish: "publish_to blk cmd p = Inr p' \<Longrightarrow> proxy_inv p \<Longrightarrow> proxy_inv p'"
  by (auto dest!: publish_to_InrD simp: proxy_inv_def)

lemma Invoke_inv: "Invoke e cmd p = Inr p' \<Longrightarrow> proxy_inv p \<Longrightarrow> proxy_inv p'"
proof -
  assume r: "Invoke e cmd p = Inr p'" and inv: "proxy_inv p"
  let ?l = "um_touch (cmd_identifier cmd) [] (p_localInvokeMethods p)"
  let ?r = "um_touch (cmd_identifier cmd) [] (p_remoteInvokeMethods p)"
  have "local_wf ?l" "remote_wf ?r"
    using inv by (simp_all add: proxy_inv_def local_wf_reg remote_wf_reg reg_wf_touch)
  with inv r show ?thesis
    unfolding Invoke_def Invoke_local_def Invoke_remote_def Invoke_error_def
    by (auto simp: Let_def bind_res_Inr proxy_inv_def pending_wf_insert dest!: publish_to_InrD split: if_splits)
qed

lemma InvokeResponse_inv: "InvokeResponse cmd n p = Inr p' \<Longrightarrow> proxy_inv p \<Longrightarrow> proxy_inv p'"
  unfolding InvokeResponse_def
  by (auto simp: bind_res_Inr proxy_inv_def pending_wf_erase dest!: publish_to_InrD split: option.splits)

lemma strcpy_into_InrD: "strcpy_into n s = Inr t \<Longrightarrow> t = c_str s \<and> length t < n"
  by (auto simp: strcpy_into_def split: if_splits)

lemma strcpy_heap_InrD: "strcpy_heap refused m n s = Inr t \<Longrightarrow> t = c_str s"
  by (auto simp: strcpy_heap_def check_res_Inr split: if_splits)

lemma RegisterInvoke_found_inv:
  assumes r: "RegisterInvoke_found e cmd p = Inr (i, p')" and inv: "proxy_inv p"
  shows "proxy_inv p'"
proof -
  let ?k = "c_str (cmd_identifier cmd)" and ?mg = "c_str (payload cmd)"
  let ?reg = "um_touch ?k [] (p_localInvokeMethods p)"
  let ?vec = "um_get [] (p_localInvokeMethods p) ?k"
  have reg: "reg_wf local_vec_wf ?reg" and vec: "local_vec_wf ?k ?vec"
    using inv by (simp_all add: proxy_inv_def local_wf_reg reg_wf_touch reg_wf_get)
  have get: "um_get [] ?reg ?k = ?vec" by (auto simp: um_get_def um_touch_def split: option.splits)
  have put: "proxy_inv (p\<lparr>p_registerInvoke := n, p_localInvokeMethods := um_put ?k v ?reg\<rparr>)"
    if "local_vec_wf ?k v" for v n
    using inv reg_wf_put [OF reg that] by (simp add: proxy_inv_def local_wf_reg)
  show ?thesis
  proof (cases "touch_local (i32 (e_now e)) ?mg ?vec")
    case None
    obtain node where node: "strcpy_into (GUID_SIZE + 1) (source_proxy_guid cmd) = Inr node"
      using r None by (cases "strcpy_into (GUID_SIZE + 1) (source_proxy_guid cmd)")
        (simp_all add: RegisterInvoke_found_def check_res_Inr)
    obtain mg where mg: "strcpy_into (GUID_SIZE + 1) (payload cmd) = Inr mg"
      using r None node by (cases "strcpy_into (GUID_SIZE + 1) (payload cmd)")
        (simp_all add: RegisterInvoke_found_def check_res_Inr)
    obtain k where k: "strcpy_heap NullDeref (e_mem e) (length (cmd_identifier cmd) + 1) (cmd_identifier cmd) = Inr k"
      using r None node mg
      by (cases "strcpy_heap NullDeref (e_mem e) (length (cmd_identifier cmd) + 1) (cmd_identifier cmd)")
        (simp_all add: RegisterInvoke_found_def check_res_Inr)
    note eqs = strcpy_into_InrD [OF node] strcpy_into_InrD [OF mg] strcpy_heap_InrD [OF k]
    define entry where "entry = \<lparr>lm_identifier = ?k, lm_nodeGuid = node, lm_methodGuid = ?mg,
      lm_lastCheckTime = i32 (e_now e)\<rparr>"
    have "p' = p\<lparr>p_registerInvoke := i32 (p_registerInvoke p + 1),
        p_localInvokeMethods := um_put ?k (?vec @ [entry]) ?reg\<rparr>"
      using r None node mg k get eqs by (clarsimp simp: RegisterInvoke_found_def check_res_Inr Let_def entry_def)
    moreover have "local_vec_wf ?k (?vec @ [entry])"
      using None vec eqs by (auto simp: local_vec_wf_def local_entry_wf_def touch_local_None entry_def)
    ultimately show ?thesis using put by simp
  next
    case (Some iv)
    obtain i' v' where iv: "iv = (i', v')" by fastforce
    with Some r have "p' = p\<lparr>p_localInvokeMethods := um_put ?k v' ?reg\<rparr>"
      by (simp add: RegisterInvoke_found_def Let_def)
    moreover have "local_vec_wf ?k v'"
      using vec touch_local_guids touch_local_wf Some by (fastforce simp: local_vec_wf_def iv)
    ultimately show ?thesis using put [of v' "p_registerInvoke p"] by simp
  qed
qed

lemma RegisterInvoke_inv: "RegisterInvoke e cmd p = Inr p' \<Longrightarrow> proxy_inv p \<Longrightarrow> proxy_inv p'"
  unfolding RegisterInvoke_def
  by (auto simp: bind_res_Inr intro: proxy_inv_publish RegisterInvoke_found_inv)

lemma RemoteRegistryUpdate_entry_inv:
  assumes r: "RemoteRegistryUpdate_entry e r p = Inr p'" and inv: "proxy_inv p"
  shows "proxy_inv p'"
proof -
  let ?k = "c_str (entry_identifier r)" and ?mg = "c_str (entry_method_guid r)"
  let ?reg = "um_touch ?k [] (p_remoteInvokeMethods p)"
  let ?vec = "um_get [] (p_remoteInvokeMethods p) ?k"
  have reg: "reg_wf remote_vec_wf ?reg" and vec: "remote_vec_wf ?k ?vec"
    using inv by (simp_all add: proxy_inv_def remote_wf_reg reg_wf_touch reg_wf_get)
  have put: "proxy_inv (p\<lparr>p_remoteInvokeMethods := um_put k v ?reg\<rparr>)"
    if "remote_vec_wf k v" for k v
    using inv reg_wf_put [OF reg that] by (simp add: proxy_inv_def remote_wf_reg)
  have ty: "entry_type r = INVOKE_METHOD" by (cases "entry_type r") simp
  show ?thesis
  proof (cases "touch_remote (i32 (e_now e)) ?mg ?vec")
    case None
    obtain k where k: "strcpy_heap NullDeref (e_mem e) (length (entry_identifier r)) (entry_identifier r) = Inr k"
      using r by (cases "strcpy_heap NullDeref (e_mem e) (length (entry_identifier r)) (entry_identifier r)")
        (simp_all add: RemoteRegistryUpdate_entry_def ty check_res_Inr)
    note kD = strcpy_heap_InrD [OF k]
    obtain mg where mg: "strcpy_into (GUID_SIZE + 1) (entry_method_guid r) = Inr mg"
      using r None k kD by (cases "strcpy_into (GUID_SIZE + 1) (entry_method_guid r)")
        (simp_all add: RemoteRegistryUpdate_entry_def ty check_res_Inr)
    obtain g where g: "strcpy_into (GUID_SIZE + 1) (entry_proxy_guid r) = Inr g"
      using r None k kD mg by (cases "strcpy_into (GUID_SIZE + 1) (entry_proxy_guid r)")
        (simp_all add: RemoteRegistryUpdate_entry_def ty check_res_Inr)
    note eqs = strcpy_into_InrD [OF g] strcpy_into_InrD [OF mg] kD
    obtain old where old: "map_of ?reg (entry_identifier r) = Some old"
      using r None k g mg eqs by (cases "map_of ?reg (entry_identifier r)")
        (simp_all add: RemoteRegistryUpdate_entry_def ty Let_def check_res_Inr)
    define entry where "entry = \<lparr>rm_identifier = ?k, rm_proxyGuid = g, rm_methodGuid = ?mg,
      rm_lastCheckTime = i32 (e_now e)\<rparr>"
    have p': "p' = p\<lparr>p_remoteInvokeMethods := um_put (entry_identifier r) (old @ [entry]) ?reg\<rparr>"
      using r None k g mg eqs old by (simp add: RemoteRegistryUpdate_entry_def ty Let_def entry_def check_res_Inr)
    have "remote_vec_wf (entry_identifier r) old" using reg old by (simp add: reg_wf_def)
    moreover have "old = ?vec" if "no_nul (entry_identifier r)"
      using old that by (auto simp: um_get_def um_touch_def split: if_splits option.splits)
    ultimately have "remote_vec_wf (entry_identifier r) (old @ [entry])"
      using eqs None by (auto simp: remote_vec_wf_def remote_entry_wf_def touch_remote_None entry_def)
    from put [OF this] p' show ?thesis by simp
  next
    case (Some v')
    with r have "p' = p\<lparr>p_remoteInvokeMethods := um_put ?k v' ?reg\<rparr>"
      by (auto simp: RemoteRegistryUpdate_entry_def ty Let_def bind_res_Inr dest!: strcpy_heap_InrD)
    with put [OF touch_remote_wf [OF Some vec]] show ?thesis by simp
  qed
qed

lemma RemoteRegistryUpdate_inv: "RemoteRegistryUpdate e cmd p = Inr p' \<Longrightarrow> proxy_inv p \<Longrightarrow> proxy_inv p'"
  unfolding RemoteRegistryUpdate_def
  by (erule fold_res_invariant [where I = proxy_inv]) (auto intro: RemoteRegistryUpdate_entry_inv)

lemma RequestRegistryExchange_inv:
  "RequestRegistryExchange e p = Inr p' \<Longrightarrow> proxy_inv p \<Longrightarrow> proxy_inv p'"
proof -
  assume r: "RequestRegistryExchange e p = Inr p'" and inv: "proxy_inv p"
  have "proxy_inv q" if "fold_res (\<lambda>(k, s). publish_to (c_block s) (registry_request g)) ps p = Inr q" for q g ps
    using that inv by (rule fold_res_invariant) (auto intro: proxy_inv_publish)
  with r inv show ?thesis
    by (fastforce simp: RequestRegistryExchange_def bind_res_Inr proxy_inv_def split: if_splits)
qed

lemma subscribe_all_keys: "subscribe_all m ch subs = Inr subs' \<Longrightarrow> um_keys subs' = um_keys subs"
  by (induction subs arbitrary: subs') (auto simp: bind_res_Inr um_keys_def)

lemma SubscribeReq_inv: "SubscribeReq e cmd p = Inr p' \<Longrightarrow> proxy_inv p \<Longrightarrow> proxy_inv p'"
  by (auto simp: SubscribeReq_def Let_def bind_res_Inr proxy_inv_def name_set_put um_wf_def
      dest: subscribe_all_keys)

lemma PublishReq_inv: "PublishReq cmd p = Inr p' \<Longrightarrow> proxy_inv p \<Longrightarrow> proxy_inv p'"
  by (auto simp: PublishReq_def bind_res_Inr proxy_inv_def split: if_splits)

lemma SubscriberCallback_inv:
  "SubscriberCallback e cmd n p = Inr p' \<Longrightarrow> proxy_inv p \<Longrightarrow> proxy_inv p'"
  unfolding SubscriberCallback_def unknown_command_def PingRequest_def RegistryExchangeResponder_def
  by (cases "cmd_of cmd")
    (auto simp: bind_res_Inr intro: InvokeResponse_inv RegisterInvoke_inv Invoke_inv proxy_inv_publish
      RemoteRegistryUpdate_inv PublishReq_inv SubscribeReq_inv)

lemma um_wf_drop_duplicate: "um_wf subs \<Longrightarrow> um_wf (drop_duplicate c subs)"
  by (simp add: drop_duplicate_def split: option.splits)

lemma ResponderCallback_inv:
  "ResponderCallback e cmd p = Inr (resp, p') \<Longrightarrow> proxy_inv p \<Longrightarrow> proxy_inv p'"
  unfolding ResponderCallback_def NodeHello_def ProxyHello_def
  by (auto simp: bind_res_Inr check_res_Inr Let_def proxy_inv_def name_set_put um_wf_drop_duplicate
      split: if_splits)

lemma ConnectToAnotherProxy_inv:
  "ConnectToAnotherProxy e req hello parse_any g c p = Inr p' \<Longrightarrow> proxy_inv p \<Longrightarrow> proxy_inv p'"
proof (erule on_successD)
  assume "proxy_inv p"
  then show "on_success proxy_inv (ConnectToAnotherProxy e req hello parse_any g c p)"
    unfolding ConnectToAnotherProxy_def redis_send_def Let_def
    by (intro on_success_intros)
      (simp_all add: proxy_inv_def name_set_put name_set_erase um_wf_drop_duplicate)
qed

lemma PingRedis_entry_inv:
  "PingRedis_entry e req hello parse_any r p = Inr p' \<Longrightarrow> proxy_inv p \<Longrightarrow> proxy_inv p'"
  unfolding PingRedis_entry_def
  by (auto simp: check_res_Inr Let_def intro: ConnectToAnotherProxy_inv split: if_splits option.splits)

lemma PingRedis_inv:
  assumes "PingRedis e req hello parse_any added found p = Inr p'" "proxy_inv p"
  shows "proxy_inv p'"
proof -
  have "proxy_inv q" if "fold_res (PingRedis_entry e req hello parse_any) rs p0 = Inr q" "proxy_inv p0" for rs p0 q
    using that by (rule fold_res_invariant) (auto intro: PingRedis_entry_inv)
  moreover have "proxy_inv (redis_send a q)" if "proxy_inv q" for a q
    using that by (simp add: redis_send_def proxy_inv_def)
  moreover have "proxy_inv (q\<lparr>p_lastRedisPing := n\<rparr>) = proxy_inv q" for q n
    by (simp add: proxy_inv_def)
  ultimately show ?thesis
    using assms unfolding PingRedis_def Let_def
    by (auto simp: bind_res_Inr split: if_splits option.splits redisReply.splits)
qed

lemma health_loops_inv:
  "proxy_inv p \<Longrightarrow> proxy_inv (local_health_loop e p)" "proxy_inv p \<Longrightarrow> proxy_inv (remote_health_loop e p)"
  by (auto simp: local_check.loop_alive remote_check.loop_alive proxy_inv_def local_wf_reg remote_wf_reg
      intro!: reg_wf_alive local_vec_wf_filter remote_vec_wf_filter)

lemma CleanUpResponsesMap_inv: "proxy_inv p \<Longrightarrow> proxy_inv (CleanUpResponsesMap e p)"
  by (simp add: CleanUpResponsesMap_def Let_def proxy_inv_def pending_wf_erase_all)

section \<open>Steps\<close>

inductive proxy_step :: "Proxy \<Rightarrow> Proxy \<Rightarrow> bool" where
  step_message: "map_of (p_subscribers p) key = Some s \<Longrightarrow> SubscriberCallback e cmd key p = Inr p' \<Longrightarrow>
    proxy_step p p'"
| step_request: "ResponderCallback e cmd p = Inr (resp, p') \<Longrightarrow> proxy_step p p'"
| step_poll: "map_of (p_subscribers p) key = Some s \<Longrightarrow>
    Subscriber_Poll parse now (p_guid p) r s = (msg, s') \<Longrightarrow>
    proxy_step p (p\<lparr>p_subscribers := um_put key s' (p_subscribers p)\<rparr>)"
| step_inactive: "map_of (p_subscribers p) key = Some s \<Longrightarrow>
    now - sub_lastActiveTime s > MAX_INACTIVE_SUBSCRIBER \<Longrightarrow>
    proxy_step p (p\<lparr>p_subscribers := um_erase key (p_subscribers p)\<rparr>)"
| step_ping: "PingRedis e req hello parse_any added found p = Inr p' \<Longrightarrow> proxy_step p p'"
| step_expire_remote: "RemoteRegistryHealthCheck e p = (True, p') \<Longrightarrow> proxy_step p p'"
| step_expire_local: "LocalRegistryHealthCheck e p = (True, p') \<Longrightarrow> proxy_step p p'"
| step_exchange: "RequestRegistryExchange e p = Inr p' \<Longrightarrow> proxy_step p p'"
| step_cleanup: "proxy_step p (CleanUpResponsesMap e p)"

lemma expire_vec_wf:
  "expire_vec dead v = Some v' \<Longrightarrow> set v' \<subseteq> set v \<and> (distinct (map f v) \<longrightarrow> distinct (map f v'))"
proof (induction v arbitrary: v')
  case (Cons t v)
  then show ?case by (fastforce split: if_splits)
qed simp

lemma expire_map_wf:
  assumes "expire_map dead m = Some m'" "reg_wf W m"
    and W: "\<And>k v v'. W k v \<Longrightarrow> expire_vec dead v = Some v' \<Longrightarrow> W k v'"
  shows "reg_wf W m'"
proof -
  have "um_keys m' = um_keys m \<and> (\<forall>(k, v) \<in> set m'. W k v)"
    using assms(1,2)[unfolded reg_wf_entries]
  proof (induction m arbitrary: m')
    case (Cons kv m)
    obtain k v where kv: "kv = (k, v)" by fastforce
    with Cons.prems have "um_wf m" "\<forall>(k, v) \<in> set m. W k v" "W k v" by (auto simp: um_wf_def um_keys_def)
    with Cons kv show ?case
      by (cases "expire_vec dead v") (auto simp: um_keys_def dest: W)
  qed simp
  with assms(2) show ?thesis by (simp add: reg_wf_entries um_wf_def)
qed

lemma health_checks_inv:
  "LocalRegistryHealthCheck e p = (b, p') \<Longrightarrow> proxy_inv p \<Longrightarrow> proxy_inv p'"
  "RemoteRegistryHealthCheck e p = (b, p') \<Longrightarrow> proxy_inv p \<Longrightarrow> proxy_inv p'"
proof -
  have l: "local_vec_wf k v'" if "local_vec_wf k v" "expire_vec dead v = Some v'" for k v v' dead
    using that expire_vec_wf [OF that(2), of lm_methodGuid] by (auto simp: local_vec_wf_def)
  have r: "remote_vec_wf k v'" if "remote_vec_wf k v" "expire_vec dead v = Some v'" for k v v' dead
    using that expire_vec_wf [OF that(2), of rm_methodGuid] by (auto simp: remote_vec_wf_def)
  show "LocalRegistryHealthCheck e p = (b, p') \<Longrightarrow> proxy_inv p \<Longrightarrow> proxy_inv p'"
    by (auto simp: LocalRegistryHealthCheck_def proxy_inv_def local_wf_reg
        dest: expire_map_wf l split: option.splits)
  show "RemoteRegistryHealthCheck e p = (b, p') \<Longrightarrow> proxy_inv p \<Longrightarrow> proxy_inv p'"
    by (auto simp: RemoteRegistryHealthCheck_def proxy_inv_def remote_wf_reg
        dest: expire_map_wf r split: option.splits)
qed

lemma proxy_step_inv: "proxy_step p p' \<Longrightarrow> proxy_inv p \<Longrightarrow> proxy_inv p'"
proof (induction rule: proxy_step.induct)
  case (step_expire_remote e p p')
  then show ?case by (rule health_checks_inv)
next
  case (step_expire_local e p p')
  then show ?case by (rule health_checks_inv)
next
  case (step_poll p key s parse now r msg s')
  then show ?case by (simp add: proxy_inv_def)
next
  case (step_inactive p key s now)
  then show ?case by (simp add: proxy_inv_def)
qed (auto intro: SubscriberCallback_inv ResponderCallback_inv PingRedis_inv RequestRegistryExchange_inv
    CleanUpResponsesMap_inv)

definition proxy_start :: "Proxy \<Rightarrow> bool" where
  "proxy_start p \<longleftrightarrow> (\<exists>rnd tail now host errno rbind pbind. Proxy_new rnd tail now host errno rbind pbind = Inr p)"

lemma Proxy_new_inv: "Proxy_new rnd tail now host errno rbind pbind = Inr p \<Longrightarrow> proxy_inv p"
  by (cases "tail = NUL") (auto simp: Proxy_new_def guid_array_read bind_res_Inr proxy_inv_def GenerateGuid_ok local_wf_def remote_wf_def pending_wf_def)

interpretation proxy_sys: invariant_system proxy_start proxy_step proxy_inv
  by unfold_locales (auto simp: proxy_start_def dest: Proxy_new_inv proxy_step_inv)

section \<open>The main loop is a sequence of steps\<close>

lemma local_health_loop_steps: "proxy_step\<^sup>*\<^sup>* p (local_health_loop e p)"
proof (induction e p rule: local_health_loop.induct)
  case (1 e p)
  obtain b p' where b: "LocalRegistryHealthCheck e p = (b, p')" by fastforce
  show ?case
  proof (cases b)
    case True
    with b 1 have "proxy_step\<^sup>*\<^sup>* p' (local_health_loop e p')" by simp
    with b True show ?thesis
      by (subst local_health_loop.simps) (auto intro: converse_rtranclp_into_rtranclp step_expire_local)
  next
    case False
    with b have "p' = p" by (auto simp: LocalRegistryHealthCheck_def split: option.splits)
    with b False show ?thesis by (subst local_health_loop.simps) simp
  qed
qed

lemma remote_health_loop_steps: "proxy_step\<^sup>*\<^sup>* p (remote_health_loop e p)"
proof (induction e p rule: remote_health_loop.induct)
  case (1 e p)
  obtain b p' where b: "RemoteRegistryHealthCheck e p = (b, p')" by fastforce
  show ?case
  proof (cases b)
    case True
    with b 1 have "proxy_step\<^sup>*\<^sup>* p' (remote_health_loop e p')" by simp
    with b True show ?thesis
      by (subst remote_health_loop.simps) (auto intro: converse_rtranclp_into_rtranclp step_expire_remote)
  next
    case False
    with b have "p' = p" by (auto simp: RemoteRegistryHealthCheck_def split: option.splits)
    with b False show ?thesis by (subst remote_health_loop.simps) simp
  qed
qed

lemma Responder_Poll_steps: "Responder_Poll e parse_any r p = Inr (resp, p') \<Longrightarrow> proxy_step\<^sup>*\<^sup>* p p'"
  by (auto simp: Responder_Poll_def bind_res_Inr intro: step_request split: recv.splits if_splits)

lemma drain_subscriber_steps:
  "drain_subscriber parse io now key r p = Inr p' \<Longrightarrow> proxy_step\<^sup>*\<^sup>* p p'"
proof (induction parse io now key r p rule: drain_subscriber.induct)
  case (1 parse io now key r p)
  show ?case
  proof (cases "r < 1000")
    case True
    with 1(2) obtain s where s: "map_of (p_subscribers p) key = Some s"
      by (subst (asm) drain_subscriber.simps) (auto split: option.splits)
    obtain answer e where io: "io r = (answer, e)" by fastforce
    obtain msg s' where poll: "Subscriber_Poll parse (e_now e) (p_guid p) answer s = (msg, s')" by fastforce
    define p1 where "p1 = p\<lparr>p_subscribers := um_put key s' (p_subscribers p)\<rparr>"
    have first: "proxy_step p p1" unfolding p1_def by (rule step_poll [OF s poll])
    have s1: "map_of (p_subscribers p1) key = Some s'" by (simp add: p1_def)
    show ?thesis
    proof (cases msg)
      case None
      from step_inactive [OF s1] have "proxy_step\<^sup>*\<^sup>* p1 p'"
        using 1(2) True s io poll None
        by (subst (asm) drain_subscriber.simps) (auto simp: p1_def Let_def split: if_splits)
      with first show ?thesis by (rule converse_rtranclp_into_rtranclp)
    next
      case (Some cmdReq)
      from 1(2) True s io poll Some obtain p2 where p2: "SubscriberCallback e cmdReq key p1 = Inr p2"
        "drain_subscriber parse io now key (Suc r) p2 = Inr p'"
        by (subst (asm) drain_subscriber.simps) (auto simp: p1_def Let_def bind_res_Inr)
      have "proxy_step\<^sup>*\<^sup>* p2 p'"
        using 1(1) [OF True s io [symmetric] refl poll [symmetric] refl p1_def Some p2] .
      with first step_message [OF s1 p2(1)] show ?thesis
        by (meson converse_rtranclp_into_rtranclp)
    qed
  next
    case False
    with 1(2) show ?thesis by (subst (asm) drain_subscriber.simps) simp
  qed
qed

lemma drain_all_steps: "drain_all parse io now n i p = Inr p' \<Longrightarrow> proxy_step\<^sup>*\<^sup>* p p'"
proof (induction parse io now n i p rule: drain_all.induct)
  case (1 parse io now n i p)
  show ?case
  proof (cases "i < n \<and> i < length (p_subscribers p)")
    case True
    with 1(2) obtain q where q: "drain_subscriber parse (io (fst (p_subscribers p ! i))) now
        (fst (p_subscribers p ! i)) 0 p = Inr q" "drain_all parse io now n (Suc i) q = Inr p'"
      by (subst (asm) drain_all.simps) (auto simp: Let_def bind_res_Inr)
    from 1(1) [OF True _ q(2)] drain_subscriber_steps [OF q(1)] q(1) show ?thesis by (auto simp: Let_def)
  next
    case False
    with 1(2) show ?thesis by (subst (asm) drain_all.simps) auto
  qed
qed

lemma run_timers_steps: "run_timers parse_any io p = Inr p' \<Longrightarrow> proxy_step\<^sup>*\<^sup>* p p'"
proof -
  assume "run_timers parse_any io p = Inr p'"
  then obtain p1 p2 where p: "PingRedis (ri_timer io) (ri_req io) (ri_hello io) parse_any (ri_added io) (ri_found io) p = Inr p1"
    "RequestRegistryExchange (ri_timer io) (local_health_loop (ri_timer io) (remote_health_loop (ri_timer io) p1)) = Inr p2"
    "p' = CleanUpResponsesMap (ri_timer io) p2"
    by (auto simp: run_timers_def bind_res_Inr)
  have "proxy_step\<^sup>*\<^sup>* p p1" using step_ping [OF p(1)] by blast
  also have "proxy_step\<^sup>*\<^sup>* p1 (remote_health_loop (ri_timer io) p1)" by (rule remote_health_loop_steps)
  also have "proxy_step\<^sup>*\<^sup>* \<dots> (local_health_loop (ri_timer io) (remote_health_loop (ri_timer io) p1))"
    by (rule local_health_loop_steps)
  also have "proxy_step\<^sup>*\<^sup>* \<dots> p2" using step_exchange [OF p(2)] by blast
  also have "proxy_step\<^sup>*\<^sup>* p2 p'" using step_cleanup p(3) by blast
  finally show ?thesis .
qed

lemma MainLoop_round_steps: "MainLoop_round parse parse_any io loop p = Inr p' \<Longrightarrow> proxy_step\<^sup>*\<^sup>* p p'"
  unfolding MainLoop_round_def
  by (auto simp: bind_res_Inr split: if_splits
      intro: rtranclp_trans Responder_Poll_steps drain_all_steps run_timers_steps
      dest!: Responder_Poll_steps drain_all_steps run_timers_steps)

lemma MainLoop_steps_lemma: "MainLoop parse parse_any loop ios p = Inr p' \<Longrightarrow> proxy_step\<^sup>*\<^sup>* p p'"
proof (induction ios arbitrary: loop p)
  case (Cons io ios)
  then obtain q where "MainLoop_round parse parse_any io loop p = Inr q"
    "MainLoop parse parse_any (i32 (loop + 1)) ios q = Inr p'" by (auto simp: bind_res_Inr)
  with Cons.IH MainLoop_round_steps show ?case by (meson rtranclp_trans)
qed simp

end
