(* ===== verification/Proxy_Props.thy ===== *)
theory Proxy_Props
  imports Proxy_Inv
begin

text \<open>
  The properties of the proxy that span its handlers: the life of a call, the registration of
  methods, publication, and the safety of the handlers on well-formed traffic.  The concrete
  states at the start are used by the examples only.
\<close>

section \<open>Concrete states\<close>

definition sample_mem :: cmem where
  "sample_mem = \<lparr>mem_ok = (\<lambda>_. True), mem_junk = (\<lambda>_. NUL), mem_slack = (\<lambda>_. 8)\<rparr>"

definition sample_env :: env where
  "sample_env = \<lparr>e_now = 1000, e_rand = 5, e_mem = sample_mem, e_zconnect = (\<lambda>_. 0)\<rparr>"

definition sample_proxy :: Proxy where
  "sample_proxy = \<lparr>p_guid = ''0000000000000000'', p_host = ''localhost'',
     p_responderPort = 7770, p_publisherPort = 7771, p_outbox = [],
     p_invokeCalls = 0, p_invokeErrors = 0, p_registerInvoke = 0, p_lastRedisPing = 0,
     p_lastRegistryExchange = 0, p_lastResponsesCleanUp = 900,
     p_subscribeChannels = [], p_nodesGuids = [], p_proxiesGuids = [], p_subscribers = [],
     p_localInvokeMethods = [(''/sum'', [\<lparr>lm_identifier = ''/sum'', lm_nodeGuid = ''AAAAAAAAAAAAAAAA'',
        lm_methodGuid = ''BBBBBBBBBBBBBBBB'', lm_lastCheckTime = 999\<rparr>])],
     p_remoteInvokeMethods = [], p_invokeResponses = [], p_invokeResponsesCallTime = [],
     p_redisSent = []\<rparr>"

definition sample_call :: Command where
  "sample_call = Command_new\<lparr>c_cmd := Some INVOKE, c_identifier := Some ''/sum'',
     c_source_proxy_guid := Some ''CCCCCCCCCCCCCCCC'', c_guid_from := Some ''1111111111111111'',
     c_payload := Some ''[1,2]''\<rparr>"

definition sample_response :: Command where
  "sample_response = Command_new\<lparr>c_cmd := Some RESPONSE, c_guid_to := Some ''1111111111111111'',
     c_guid_from := Some ''BBBBBBBBBBBBBBBB'', c_source_proxy_guid := Some ''AAAAAAAAAAAAAAAA'',
     c_payload := Some ''3''\<rparr>"

definition sample_registration :: Command where
  "sample_registration = Command_new\<lparr>c_cmd := Some REGISTER_INVOKE, c_identifier := Some ''/mul'',
     c_source_proxy_guid := Some ''AAAAAAAAAAAAAAAA'', c_payload := Some ''DDDDDDDDDDDDDDDD''\<rparr>"

lemma guid_ok_samples [simp]:
  "guid_ok ''0000000000000000''" "guid_ok ''1111111111111111''" "guid_ok ''AAAAAAAAAAAAAAAA''"
  "guid_ok ''BBBBBBBBBBBBBBBB''" "guid_ok ''CCCCCCCCCCCCCCCC''" "guid_ok ''DDDDDDDDDDDDDDDD''"
  by (simp_all add: guid_ok_def GUID_SIZE_def hex_digit_def)

lemma sample_proxy_inv: "proxy_inv sample_proxy"
  by (simp add: proxy_inv_def sample_proxy_def local_wf_def remote_wf_def pending_wf_def um_wf_def
      um_keys_def local_entry_wf_def no_nul_def GUID_SIZE_def)

lemmas sample_defs = sample_call_def sample_response_def sample_registration_def sample_env_def
  sample_mem_def Command_new_def getter_defs

section \<open>The thread\<close>

definition sample_round :: round_io where
  "sample_round = \<lparr>ri_request = (RecvAgain, sample_env), ri_now = 1000,
     ri_poll = (\<lambda>_ _. (RecvAgain, sample_env)), ri_timer = sample_env, ri_req = (\<lambda>_. 0),
     ri_hello = (\<lambda>_. RecvAgain), ri_added = Some (ReplyInteger 1),
     ri_found = Some (ReplyArray [])\<rparr>"

text \<open>A round with timers: the proxy finds no other in Redis.\<close>

lemma sample_round_runs:
  "MainLoop (\<lambda>_. None) (\<lambda>_. Command_new) 0 [sample_round] (sample_proxy\<lparr>p_localInvokeMethods := []\<rparr>) =
     Inr (sample_proxy\<lparr>p_localInvokeMethods := [], p_lastRedisPing := 1000, p_lastRegistryExchange := 1000,
       p_lastResponsesCleanUp := 1000,
       p_redisSent := [[''ZADD'', ''ZSET:PROXIES'', dec_int 1000, ''0000000000000000#tcp://localhost:'' @ dec_int 7770],
         [''ZREVRANGE'', ''ZSET:PROXIES'', ''0'', ''-1'']]\<rparr>)"
  by (simp add: MainLoop_round_def Responder_Poll_def drain_all.simps run_timers_def PingRedis_def
      redis_send_def local_check.loop_alive remote_check.loop_alive alive_def RequestRegistryExchange_def
      CleanUpResponsesMap_def sample_round_def sample_env_def sample_proxy_def i32_def)

text \<open>
  C2: The invariant of the proxy.  The byte behind the GUID is never written by the constructor.  When the storage of
  the object holds anything but a NUL there, printing the GUID reads past its array at once; a
  constructor that returns gives a proxy for which the invariant holds, after every number of rounds of
  the main loop: the GUID is a valid topic, the containers have no duplicate key, each local
  list holds a method once and under its own identifier, the same for the methods of others,
  every GUID fits its array, and each pending call has exactly one call time.
\<close>

theorem MainLoop_keeps_invariant:
  "(tail \<noteq> NUL \<longrightarrow> Proxy_new rnd tail now host errno rbind pbind = Inl OutOfBounds) \<and>
   (\<forall>p p'. Proxy_new rnd tail now host errno rbind pbind = Inr p \<longrightarrow>
      MainLoop parse parse_any loop ios p = Inr p' \<longrightarrow> proxy_inv p')"
proof (intro conjI allI impI)
  fix p p' assume new: "Proxy_new rnd tail now host errno rbind pbind = Inr p" and run: "MainLoop parse parse_any loop ios p = Inr p'"
  have "proxy_start p" using new unfolding proxy_start_def by blast
  then show "proxy_inv p'" using MainLoop_steps_lemma [OF run] by (rule proxy_sys.reached_inv)
qed (rule Proxy_new_unterminated)

theorem MainLoop_keeps_invariant_witness:
  "(\<exists>p p'. Proxy_new (\<lambda>_. 0) NUL 900 ''localhost'' 0 (\<lambda>_ _. (0, 0)) (\<lambda>_ _. (0, 0)) = Inr p \<and>
     MainLoop (\<lambda>_. None) (\<lambda>_. Command_new) 0 [sample_round] p = Inr p' \<and> proxy_inv p') \<and>
   Proxy_new (\<lambda>_. 0) LF 900 ''localhost'' 0 (\<lambda>_ _. (0, 0)) (\<lambda>_ _. (0, 0)) = Inl OutOfBounds"
proof -
  have "GenerateGuid (\<lambda>_. 0) GUID_SIZE = ''0000000000000000''"
    by (simp add: GenerateGuid_def GUID_SIZE_def guid_char_def upt_conv_Cons char_of_def bit_0)
  moreover have "strcpy_into 128 ''localhost'' = Inr ''localhost''" by (simp add: strcpy_into_def c_str_def)
  ultimately have new: "Proxy_new (\<lambda>_. 0) NUL 900 ''localhost'' 0 (\<lambda>_ _. (0, 0)) (\<lambda>_ _. (0, 0)) =
      Inr (sample_proxy\<lparr>p_localInvokeMethods := []\<rparr>)"
    by (simp add: Proxy_new_def guid_array_read Responder_new_def Publisher_new_def bind_loop.simps
        ADDR_IN_USE_ERROR_def sample_proxy_def i32_def)
  note keeps = MainLoop_keeps_invariant [of _ "\<lambda>_. 0" 900 "''localhost''" 0 "\<lambda>_ _. (0, 0)" "\<lambda>_ _. (0, 0)" "\<lambda>_. None" "\<lambda>_. Command_new" 0 "[sample_round]"]
  show ?thesis using keeps [of NUL] keeps [of LF] new sample_round_runs by auto
qed

section \<open>Calls\<close>

lemma Invoke_local_sends:
  fixes e :: env and p :: Proxy and call :: Command
  assumes "um_get [] (p_localInvokeMethods p) (cmd_identifier call) = vec" "vec \<noteq> []"
    "local_wf (p_localInvokeMethods p)"
  defines "t \<equiv> vec ! (e_rand e mod length vec)"
  defines "out \<equiv> Command_new\<lparr>c_cmd := Some INVOKE, c_guid_to := Some (lm_methodGuid t),
      c_source_proxy_guid := Some (p_guid p), c_identifier := Some (cmd_identifier call),
      c_payload := Some (payload call), c_guid_from := Some (guid_from call)\<rparr>"
  shows "\<exists>p'. Invoke e call p = Inr p' \<and> t \<in> set vec \<and>
    p_outbox p' = p_outbox p @ [(take GUID_SIZE (local_guid_block (lm_nodeGuid t)), out)] \<and>
    p_guid p' = p_guid p \<and>
    p_invokeResponses p' = um_insert (guid_from call) (source_proxy_guid call) (p_invokeResponses p) \<and>
    p_invokeResponsesCallTime p' = um_insert (guid_from call) (i32 (e_now e)) (p_invokeResponsesCallTime p)"
proof -
  have t: "t \<in> set vec" using assms(2) by (simp add: t_def)
  with um_get_in_set [of t "p_localInvokeMethods p" "cmd_identifier call"] assms(1,3)
  have wf: "local_entry_wf (cmd_identifier call) t" by (auto simp: local_wf_def)
  then have "GUID_SIZE \<le> length (local_guid_block (lm_nodeGuid t))" "lm_identifier t = cmd_identifier call"
    by (simp_all add: local_entry_wf_def)
  then show ?thesis
    using assms(1,2) t
    by (simp add: Invoke_def Invoke_local_def Let_def publish_to_ok out_def t_def [symmetric])
qed

lemma InvokeResponse_known:
  fixes p :: Proxy and resp :: Command
  assumes "map_of (p_invokeResponses p) (guid_to resp) = Some caller" "guid_ok caller"
  defines "out \<equiv> Command_new\<lparr>c_cmd := Some (cmd_of resp), c_payload := Some (payload resp),
      c_guid_from := Some (guid_from resp), c_guid_to := Some (guid_to resp),
      c_source_proxy_guid := Some (p_guid p)\<rparr>"
  shows "InvokeResponse resp n p = Inr (p\<lparr>p_outbox := p_outbox p @ [(caller, out)],
      p_invokeResponses := um_erase (guid_to resp) (p_invokeResponses p),
      p_invokeResponsesCallTime := um_erase (guid_to resp) (p_invokeResponsesCallTime p)\<rparr>)"
  using assms(1) guid_block_topic [OF assms(2)]
  by (simp add: InvokeResponse_def publish_to_ok out_def)

lemma um_erase_insert: "map_of m k = None \<Longrightarrow> um_erase k (um_insert k v m) = m"
proof -
  assume none: "map_of m k = None"
  then have "filter (\<lambda>p. fst p \<noteq> k) m = m"
    by (auto simp: map_of_eq_None_iff intro!: filter_True)
  with none show ?thesis by (simp add: um_erase_def um_insert_def)
qed

text \<open>
  C1: The life of a call.  A call with a fresh call id and a valid caller, for an identifier with
  a local method, is sent to the node that registered one of its methods, with the caller's
  payload and call id.  Any response that names the call id is then sent on to the caller with
  its payload, and the bookkeeping of the call is gone: the pending calls are the same as
  before the call.
\<close>

theorem invoke_response_roundtrip:
  assumes inv: "proxy_inv p"
    and methods: "um_get [] (p_localInvokeMethods p) (cmd_identifier call) \<noteq> []"
    and caller: "guid_ok (source_proxy_guid call)"
    and fresh: "map_of (p_invokeResponses p) (guid_from call) = None"
    and resp: "cmd_of resp = RESPONSE \<or> cmd_of resp = ERROR_RESPONSE" "guid_to resp = guid_from call"
    and call: "cmd_of call = INVOKE"
  shows "\<exists>p1 p2 t invoke answer. SubscriberCallback e call n p = Inr p1 \<and>
    t \<in> set (um_get [] (p_localInvokeMethods p) (cmd_identifier call)) \<and>
    p_outbox p1 = p_outbox p @ [(take GUID_SIZE (local_guid_block (lm_nodeGuid t)), invoke)] \<and>
    cmd_of invoke = INVOKE \<and> guid_to invoke = lm_methodGuid t \<and>
    payload invoke = payload call \<and> guid_from invoke = guid_from call \<and>
    SubscriberCallback e' resp n' p1 = Inr p2 \<and>
    p_outbox p2 = p_outbox p1 @ [(source_proxy_guid call, answer)] \<and>
    cmd_of answer = cmd_of resp \<and> payload answer = payload resp \<and> guid_to answer = guid_from call \<and>
    p_invokeResponses p2 = p_invokeResponses p \<and>
    p_invokeResponsesCallTime p2 = p_invokeResponsesCallTime p"
proof -
  define vec where "vec = um_get [] (p_localInvokeMethods p) (cmd_identifier call)"
  define t where "t = vec ! (e_rand e mod length vec)"
  define invoke where "invoke = Command_new\<lparr>c_cmd := Some INVOKE, c_guid_to := Some (lm_methodGuid t),
      c_source_proxy_guid := Some (p_guid p), c_identifier := Some (cmd_identifier call),
      c_payload := Some (payload call), c_guid_from := Some (guid_from call)\<rparr>"
  have "local_wf (p_localInvokeMethods p)" "vec \<noteq> []" using inv methods by (simp_all add: proxy_inv_def vec_def)
  from Invoke_local_sends [OF vec_def [symmetric] this(2,1), of e, folded t_def, folded invoke_def]
  obtain p1 where p1: "Invoke e call p = Inr p1" "t \<in> set vec"
    "p_outbox p1 = p_outbox p @ [(take GUID_SIZE (local_guid_block (lm_nodeGuid t)), invoke)]"
    "p_invokeResponses p1 = um_insert (guid_from call) (source_proxy_guid call) (p_invokeResponses p)"
    "p_invokeResponsesCallTime p1 = um_insert (guid_from call) (i32 (e_now e)) (p_invokeResponsesCallTime p)"
    by blast
  have times: "map_of (p_invokeResponsesCallTime p) (guid_from call) = None"
    using inv fresh unfolding proxy_inv_def pending_wf_def by (metis domIff)
  have pending: "map_of (p_invokeResponses p1) (guid_to resp) = Some (source_proxy_guid call)"
    using p1(4) resp(2) fresh by simp
  define answer where "answer = Command_new\<lparr>c_cmd := Some (cmd_of resp), c_payload := Some (payload resp),
      c_guid_from := Some (guid_from resp), c_guid_to := Some (guid_to resp),
      c_source_proxy_guid := Some (p_guid p1)\<rparr>"
  note p2 = InvokeResponse_known [OF pending caller, of n', folded answer_def]
  have "SubscriberCallback e call n p = Inr p1" by (simp add: SubscriberCallback_def call p1(1))
  moreover have "SubscriberCallback e' resp n' p1 = InvokeResponse resp n' p1"
    using resp(1) by (auto simp: SubscriberCallback_def)
  moreover have "cmd_of invoke = INVOKE" "guid_to invoke = lm_methodGuid t"
    "payload invoke = payload call" "guid_from invoke = guid_from call"
    "cmd_of answer = cmd_of resp" "payload answer = payload resp" "guid_to answer = guid_to resp"
    by (simp_all add: invoke_def answer_def getter_defs)
  ultimately show ?thesis
    using p1 p2 um_erase_insert [OF fresh] um_erase_insert [OF times] resp(2)
    by (auto simp: vec_def)
qed

theorem invoke_response_roundtrip_witness:
  "\<exists>p1 p2 answer. SubscriberCallback sample_env sample_call ''node'' sample_proxy = Inr p1 \<and>
     SubscriberCallback sample_env sample_response ''node'' p1 = Inr p2 \<and>
     p_outbox p2 = p_outbox p1 @ [(''CCCCCCCCCCCCCCCC'', answer)] \<and> payload answer = ''3'' \<and>
     p_invokeResponses p2 = []"
proof -
  have h: "um_get [] (p_localInvokeMethods sample_proxy) (cmd_identifier sample_call) \<noteq> []"
    "guid_ok (source_proxy_guid sample_call)"
    "map_of (p_invokeResponses sample_proxy) (guid_from sample_call) = None"
    "cmd_of sample_response = RESPONSE \<or> cmd_of sample_response = ERROR_RESPONSE"
    "guid_to sample_response = guid_from sample_call" "cmd_of sample_call = INVOKE"
    by (simp_all add: sample_defs sample_proxy_def um_get_def)
  have "source_proxy_guid sample_call = ''CCCCCCCCCCCCCCCC''" "payload sample_response = ''3''"
    "p_invokeResponses sample_proxy = []"
    by (simp_all add: sample_defs sample_proxy_def)
  with invoke_response_roundtrip [OF sample_proxy_inv h, of sample_env "''node''" sample_env "''node''"]
  show ?thesis by (metis (no_types))
qed

text \<open>
  A call id is answered once.  After the response of a call was sent on, a second response
  with the same call id is refused: its sender gets an \<open>ERROR\<close> that names the call id, and
  nothing else changes.
\<close>

lemma second_response_refused:
  assumes "InvokeResponse resp n p = Inr p1" "map_of (p_invokeResponses p) (guid_to resp) = Some caller"
    and "guid_to resp2 = guid_to resp" "length (guid_to resp) \<le> 980" "15 \<le> length n2"
  shows "\<exists>out. InvokeResponse resp2 n2 p1 =
      Inr (p1\<lparr>p_outbox := p_outbox p1 @ [(take GUID_SIZE (c_block n2), out)]\<rparr>) \<and>
    cmd_of out = ERROR \<and> guid_to out = guid_from resp2 \<and>
    payload out = ''Response callback '' @ c_str (guid_to resp) @ '' not found''"
proof -
  have "p_invokeResponses p1 = um_erase (guid_to resp) (p_invokeResponses p)"
    using assms(1,2) by (auto simp: InvokeResponse_def bind_res_Inr dest!: publish_to_InrD)
  then have none: "map_of (p_invokeResponses p1) (guid_to resp2) = None" by (simp add: assms(3))
  define body where "body = ''Response callback '' @ c_str (guid_to resp) @ '' not found''"
  define out where "out = Command_new\<lparr>c_cmd := Some ERROR, c_payload := Some body,
      c_guid_from := Some (p_guid p1), c_guid_to := Some (guid_from resp2),
      c_source_proxy_guid := Some (p_guid p1)\<rparr>"
  have "no_nul body" using no_nul_c_str [of "guid_to resp"] by (simp add: body_def no_nul_def)
  moreover have "length body < 1024"
    using length_c_str [of "guid_to resp"] assms(4) by (simp add: body_def)
  ultimately have copied: "strcpy_into 1024 body = Inr body" by (simp add: strcpy_into_def)
  have "InvokeResponse resp2 n2 p1 =
      Inr (p1\<lparr>p_outbox := p_outbox p1 @ [(take GUID_SIZE (c_block n2), out)]\<rparr>)"
    using none assms(3,5) copied [unfolded body_def]
    by (simp add: InvokeResponse_def out_def body_def publish_to_ok c_block_def GUID_SIZE_def)
  moreover have "cmd_of out = ERROR" "guid_to out = guid_from resp2" "payload out = body"
    by (simp_all add: out_def getter_defs)
  ultimately show ?thesis by (auto simp: body_def)
qed

section \<open>Dead calls\<close>

lemma cleanup_loop_all:
  "found + length (filter (\<lambda>(k, t). i32 (now - t) > 3) m) \<le> 100000 \<Longrightarrow>
   cleanup_loop now found m = map fst (filter (\<lambda>(k, t). i32 (now - t) > 3) m)"
proof (induction now found m rule: cleanup_loop.induct)
  case (2 now found k t rest)
  show ?case
  proof (cases "i32 (now - t) > 3")
    case True
    show ?thesis
    proof (cases "Suc found \<ge> 100000")
      case True
      with \<open>i32 (now - t) > 3\<close> 2(3) have "filter (\<lambda>(k, t). i32 (now - t) > 3) rest = []"
        by (simp flip: length_0_conv)
      then show ?thesis using True \<open>i32 (now - t) > 3\<close> by simp
    next
      case False
      with 2(1) [OF True False] 2(3) True show ?thesis by simp
    qed
  next
    case False
    with 2 show ?thesis by simp
  qed
qed simp

lemma fold_um_erase: "fold um_erase ks m = filter (\<lambda>p. fst p \<notin> set ks) m"
  by (induction ks arbitrary: m) (auto simp: um_erase_def intro: filter_cong)

lemma filter_by_key:
  assumes "um_wf m"
  shows "filter (\<lambda>p. fst p \<notin> fst ` set (filter Q m)) m = filter (\<lambda>p. \<not> Q p) m"
proof (rule filter_cong)
  fix p assume p: "p \<in> set m"
  have "fst p \<in> fst ` set (filter Q m) \<longleftrightarrow> Q p"
    using assms p by (cases p) (auto simp: um_wf_def um_keys_def image_iff dest: eq_key_imp_eq_value)
  then show "(fst p \<notin> fst ` set (filter Q m)) = (\<not> Q p)" by simp
qed simp

text \<open>
  C27: The clean-up of pending calls.  When its minute is over and at most 100000 calls are older
  than three seconds, it forgets exactly those: the others keep their caller and their call
  time, and the two maps still agree.
\<close>

theorem cleanup_forgets_dead_calls:
  assumes "proxy_inv p" "i32 (i32 (e_now e) - p_lastResponsesCleanUp p) \<ge> 60"
    and "length (filter (\<lambda>(k, t). i32 (i32 (e_now e) - t) > 3) (p_invokeResponsesCallTime p)) \<le> 100000"
  shows "p_invokeResponsesCallTime (CleanUpResponsesMap e p) =
      filter (\<lambda>(k, t). i32 (i32 (e_now e) - t) \<le> 3) (p_invokeResponsesCallTime p) \<and>
    map_of (p_invokeResponses (CleanUpResponsesMap e p)) k =
      (case map_of (p_invokeResponsesCallTime p) k of
         Some t \<Rightarrow> if i32 (i32 (e_now e) - t) \<le> 3 then map_of (p_invokeResponses p) k else None
       | None \<Rightarrow> None)"
proof -
  let ?now = "i32 (e_now e)" and ?times = "p_invokeResponsesCallTime p"
  let ?dead = "\<lambda>(k :: string, t). i32 (?now - t) > 3"
  have wf: "um_wf ?times" "dom (map_of (p_invokeResponses p)) = dom (map_of ?times)"
    using assms(1) by (simp_all add: proxy_inv_def pending_wf_def)
  have loop: "cleanup_loop ?now 0 ?times = map fst (filter ?dead ?times)"
    using assms(3) by (intro cleanup_loop_all) simp
  have clean: "p_invokeResponses (CleanUpResponsesMap e p) =
      filter (\<lambda>p. fst p \<notin> fst ` set (filter ?dead ?times)) (p_invokeResponses p)"
    "p_invokeResponsesCallTime (CleanUpResponsesMap e p) = filter (\<lambda>p. \<not> ?dead p) ?times"
    using assms(2) filter_by_key [OF wf(1), of ?dead]
    by (simp_all add: CleanUpResponsesMap_def Let_def loop fold_um_erase)
  have keys: "k \<in> fst ` set (filter ?dead ?times) \<longleftrightarrow> (\<exists>t. map_of ?times k = Some t \<and> ?dead (k, t))" for k
    using wf(1) by (force simp: um_wf_def um_keys_def map_of_eq_Some_iff)
  have drop: "map_of (filter (\<lambda>p. fst p \<notin> K) m) k = (if k \<in> K then None else map_of m k)" for K and m :: "(string \<times> string) list"
    by (induction m) auto
  have "map_of (p_invokeResponses (CleanUpResponsesMap e p)) k =
      (case map_of ?times k of
         Some t \<Rightarrow> if i32 (?now - t) \<le> 3 then map_of (p_invokeResponses p) k else None
       | None \<Rightarrow> None)"
  proof (cases "map_of ?times k")
    case None
    with wf(2) have "map_of (p_invokeResponses p) k = None" by (metis domIff)
    with None show ?thesis unfolding clean(1) drop by simp
  next
    case (Some t)
    then show ?thesis unfolding clean(1) drop unfolding keys by (simp add: not_le)
  qed
  moreover have "filter (\<lambda>p. \<not> ?dead p) ?times = filter (\<lambda>(k, t). i32 (?now - t) \<le> 3) ?times"
    by (rule filter_cong) (auto simp: not_less)
  ultimately show ?thesis using clean(2) by simp
qed

theorem cleanup_forgets_dead_calls_witness:
  "p_invokeResponsesCallTime (CleanUpResponsesMap sample_env
      (sample_proxy\<lparr>p_invokeResponses := [(''x'', ''g''), (''y'', ''h'')],
         p_invokeResponsesCallTime := [(''x'', 990), (''y'', 998)]\<rparr>)) = [(''y'', 998)]"
proof -
  let ?p = "sample_proxy\<lparr>p_invokeResponses := [(''x'', ''g''), (''y'', ''h'')],
     p_invokeResponsesCallTime := [(''x'', 990), (''y'', 998)]\<rparr>"
  have "proxy_inv ?p" using sample_proxy_inv
    by (auto simp: proxy_inv_def pending_wf_def um_wf_def um_keys_def)
  from cleanup_forgets_dead_calls [OF this, of sample_env] show ?thesis
    by (simp add: sample_env_def sample_proxy_def i32_def)
qed

section \<open>Quiet rounds\<close>

text \<open>
  A round in which nothing arrives: no request, no message on any subscription, and every subscriber
  was active in the last thirty seconds.
\<close>

definition quiet :: "round_io \<Rightarrow> Proxy \<Rightarrow> bool" where
  "quiet io p \<longleftrightarrow> fst (ri_request io) = RecvAgain \<and>
     (\<forall>(key, s) \<in> set (p_subscribers p). fst (ri_poll io key 0) = RecvAgain \<and>
        ri_now io - sub_lastActiveTime s \<le> MAX_INACTIVE_SUBSCRIBER)"

lemma um_put_same: "map_of m k = Some v \<Longrightarrow> um_put k v m = m"
  by (induction m) (auto split: if_splits)

lemma quiet_subscriber:
  assumes "quiet io p" "um_wf (p_subscribers p)" "i < length (p_subscribers p)"
  shows "drain_subscriber parse (ri_poll io (fst (p_subscribers p ! i))) (ri_now io) (fst (p_subscribers p ! i)) 0 p = Inr p"
proof -
  obtain key s where ks: "p_subscribers p ! i = (key, s)" by fastforce
  then have mem: "(key, s) \<in> set (p_subscribers p)" using assms(3) by (metis nth_mem)
  then have s: "map_of (p_subscribers p) key = Some s" using assms(2) by (simp add: um_wf_def um_keys_def map_of_is_SomeI)
  obtain e where e: "ri_poll io key 0 = (RecvAgain, e)" using assms(1) mem by (cases "ri_poll io key 0") (auto simp: quiet_def)
  have "\<not> ri_now io - sub_lastActiveTime s > MAX_INACTIVE_SUBSCRIBER" using assms(1) mem by (auto simp: quiet_def)
  then show ?thesis
    using s e by (subst drain_subscriber.simps) (simp add: ks Subscriber_Poll_def um_put_same)
qed

lemma quiet_drain:
  assumes "quiet io p" "um_wf (p_subscribers p)"
  shows "drain_all parse (ri_poll io) (ri_now io) n i p = Inr p"
proof (induction "n - i" arbitrary: i)
  case 0
  then show ?case by (subst drain_all.simps) simp
next
  case (Suc k)
  then have "drain_all parse (ri_poll io) (ri_now io) n (Suc i) p = Inr p" by simp
  then show ?case using quiet_subscriber [OF assms] by (subst drain_all.simps) (simp add: Let_def)
qed

lemma quiet_round:
  assumes "quiet io p" "um_wf (p_subscribers p)"
  shows "MainLoop_round parse parse_any io loop p = (if loop mod 25 = 0 then run_timers parse_any io p else Inr p)"
  using assms quiet_drain [OF assms] by (simp add: MainLoop_round_def Responder_Poll_def quiet_def)

lemma idle_rounds:
  assumes "\<forall>io \<in> set ios. quiet io p" "um_wf (p_subscribers p)" "0 \<le> loop" "loop + int (length ios) \<le> 2147483647"
    and "\<forall>i < length ios. (loop + int i) mod 25 \<noteq> 0"
  shows "MainLoop parse parse_any loop (ios @ rest) p = MainLoop parse parse_any (loop + int (length ios)) rest p"
  using assms
proof (induction ios arbitrary: loop)
  case (Cons io ios)
  have "loop mod 25 \<noteq> 0" using Cons.prems(5) by fastforce
  then have "MainLoop_round parse parse_any io loop p = Inr p" using quiet_round [of io p] Cons.prems(1,2) by simp
  moreover have "i32 (loop + 1) = loop + 1" using Cons.prems(3,4) by (simp add: i32_id)
  moreover have "\<forall>i < length ios. (loop + 1 + int i) mod 25 \<noteq> 0"
  proof (intro allI impI)
    fix i assume "i < length ios"
    then have "(loop + int (Suc i)) mod 25 \<noteq> 0" using Cons.prems(5) by (metis Suc_mono length_Cons)
    then show "(loop + 1 + int i) mod 25 \<noteq> 0" by (simp add: algebra_simps)
  qed
  ultimately show ?case using Cons.IH [of "loop + 1"] Cons.prems by (simp add: algebra_simps)
qed simp

text \<open>The timers are due at the time of \<open>e\<close>, and the answer of Redis names no proxy that is not connected.\<close>

definition timers_due :: "env \<Rightarrow> Proxy \<Rightarrow> bool" where
  "timers_due e p \<longleftrightarrow> e_now e - p_lastRedisPing p \<ge> 2 \<and> e_now e - p_lastRegistryExchange p \<ge> 3 \<and>
     i32 (i32 (e_now e) - p_lastResponsesCleanUp p) \<ge> 60 \<and>
     length (filter (\<lambda>(k, t). i32 (i32 (e_now e) - t) > 3) (p_invokeResponsesCallTime p)) \<le> 100000"

definition known_proxy :: "Proxy \<Rightarrow> redisReply \<Rightarrow> bool" where
  "known_proxy p r \<longleftrightarrow> (\<exists>str g c rest. reply_str r = Some str \<and> split (c_str str) (CHR ''#'') = g # c # rest \<and>
     (g = p_guid p \<or> map_of (p_subscribers p) g \<noteq> None))"

definition nothing_new :: "round_io \<Rightarrow> Proxy \<Rightarrow> bool" where
  "nothing_new io p \<longleftrightarrow> ri_added io \<noteq> None \<and> (\<exists>es. ri_found io = Some (ReplyArray es) \<and> (\<forall>r \<in> set es. known_proxy p r))"

text \<open>
  What the timers are there for, in the order of the fields: the registration and the query at Redis, methods of
  others that are younger than five seconds, own methods that are younger than ten, a request to every
  known proxy, and calls that are younger than three seconds.
\<close>

definition after_timers :: "env \<Rightarrow> Proxy \<Rightarrow> Proxy" where
  "after_timers e p =
     (let now = i32 (e_now e);
          young = filter (\<lambda>(k, t). i32 (now - t) \<le> 3) (p_invokeResponsesCallTime p)
      in p\<lparr>p_redisSent := p_redisSent p @
             [[''ZADD'', ''ZSET:PROXIES'', dec_int now, p_guid p @ ''#tcp://'' @ p_host p @ '':'' @ dec_int (p_responderPort p)],
              [''ZREVRANGE'', ''ZSET:PROXIES'', ''0'', ''-1'']],
           p_lastRedisPing := now,
           p_remoteInvokeMethods := map (\<lambda>(k, v). (k, filter (\<lambda>t. now \<le> i32 (rm_lastCheckTime t + 5)) v)) (p_remoteInvokeMethods p),
           p_localInvokeMethods := map (\<lambda>(k, v). (k, filter (\<lambda>t. now \<le> i32 (lm_lastCheckTime t + 10)) v)) (p_localInvokeMethods p),
           p_outbox := p_outbox p @ map (\<lambda>(k, g). (g, registry_request (p_guid p))) (p_proxiesGuids p),
           p_lastRegistryExchange := now,
           p_lastResponsesCleanUp := now,
           p_invokeResponses := filter (\<lambda>(k, g). map_of young k \<noteq> None) (p_invokeResponses p),
           p_invokeResponsesCallTime := young\<rparr>)"

lemma known_entries:
  assumes "\<forall>r \<in> set es. known_proxy p r" "p_guid q = p_guid p" "p_subscribers q = p_subscribers p"
  shows "fold_res (PingRedis_entry e req hello parse_any) es q = Inr q"
  using assms(1)
proof (induction es)
  case (Cons r es)
  then obtain str g c rest where "reply_str r = Some str" "split (c_str str) (CHR ''#'') = g # c # rest"
    "g = p_guid q \<or> map_of (p_subscribers q) g \<noteq> None" using assms(2,3) by (auto simp: known_proxy_def)
  then have "PingRedis_entry e req hello parse_any r q = Inr q" by (auto simp: PingRedis_entry_def Let_def)
  with Cons show ?case by simp
qed simp

lemma exchange_requests:
  assumes "\<forall>(k, g) \<in> set ps. guid_ok g"
  shows "fold_res (\<lambda>(k, g). publish_to (c_block g) (registry_request me)) ps p =
    Inr (p\<lparr>p_outbox := p_outbox p @ map (\<lambda>(k, g). (g, registry_request me)) ps\<rparr>)"
  using assms
proof (induction ps arbitrary: p)
  case (Cons kg ps)
  obtain k g where kg: "kg = (k, g)" by fastforce
  with Cons.prems have g: "guid_ok g" by simp
  show ?case using Cons guid_block_topic(3,4) [OF g] by (simp add: kg publish_to_ok)
qed simp

lemma cleanup_keeps:
  assumes "pending_wf (p_invokeResponses p) (p_invokeResponsesCallTime p)" "i32 (i32 (e_now e) - p_lastResponsesCleanUp p) \<ge> 60"
    and "length (filter (\<lambda>(k, t). i32 (i32 (e_now e) - t) > 3) (p_invokeResponsesCallTime p)) \<le> 100000"
  defines "young \<equiv> filter (\<lambda>(k, t). i32 (i32 (e_now e) - t) \<le> 3) (p_invokeResponsesCallTime p)"
  shows "CleanUpResponsesMap e p = p\<lparr>p_lastResponsesCleanUp := i32 (e_now e),
    p_invokeResponses := filter (\<lambda>(k, g). map_of young k \<noteq> None) (p_invokeResponses p), p_invokeResponsesCallTime := young\<rparr>"
proof -
  let ?now = "i32 (e_now e)" and ?times = "p_invokeResponsesCallTime p"
  let ?dead = "\<lambda>(k :: string, t). i32 (?now - t) > 3"
  have wf: "um_wf ?times" "dom (map_of (p_invokeResponses p)) = dom (map_of ?times)" using assms(1) by (simp_all add: pending_wf_def)
  have loop: "cleanup_loop ?now 0 ?times = map fst (filter ?dead ?times)"
    using assms(3) by (intro cleanup_loop_all) simp
  have live: "filter (\<lambda>p. \<not> ?dead p) ?times = young" unfolding young_def by (rule filter_cong) (auto simp: not_less)
  have each: "(k \<notin> fst ` set (filter ?dead ?times)) = (map_of young k \<noteq> None)" if "(k, g) \<in> set (p_invokeResponses p)" for k g
  proof -
    have "k \<in> dom (map_of (p_invokeResponses p))"
      unfolding dom_map_of_conv_image_fst using that by (rule rev_image_eqI) simp
    then obtain t where t: "(k, t) \<in> set ?times" using wf(2) by (auto dest: map_of_SomeD)
    have "k \<in> fst ` set (filter Q ?times) \<longleftrightarrow> Q (k, t)" for Q
      using wf(1) t by (auto simp: um_wf_def um_keys_def image_iff dest: eq_key_imp_eq_value)
    then show ?thesis unfolding live [symmetric] map_of_eq_None_iff by simp
  qed
  have key: "fst kg \<notin> fst ` set (filter ?dead ?times) \<longleftrightarrow> (\<lambda>(k, g). map_of young k \<noteq> None) kg"
    if "kg \<in> set (p_invokeResponses p)" for kg
  proof -
    have "(fst kg, snd kg) \<in> set (p_invokeResponses p)" using that by simp
    from each [OF this] show ?thesis unfolding case_prod_unfold .
  qed
  have "filter (\<lambda>p. fst p \<notin> fst ` set (filter ?dead ?times)) (p_invokeResponses p) = filter (\<lambda>(k, g). map_of young k \<noteq> None) (p_invokeResponses p)"
    by (rule filter_cong [OF refl key])
  then show ?thesis
    using assms(2) filter_by_key [OF wf(1), of ?dead] live
    by (simp add: CleanUpResponsesMap_def Let_def loop fold_um_erase)
qed

lemma timers_effect:
  assumes "proxy_inv p" "\<forall>(k, g) \<in> set (p_proxiesGuids p). guid_ok g" "timers_due (ri_timer io) p" "nothing_new io p"
  shows "run_timers parse_any io p = Inr (after_timers (ri_timer io) p)"
proof -
  define e where "e = ri_timer io"
  define now where "now = i32 (e_now e)"
  define p1 where "p1 = p\<lparr>p_redisSent := p_redisSent p @
     [[''ZADD'', ''ZSET:PROXIES'', dec_int now, p_guid p @ ''#tcp://'' @ p_host p @ '':'' @ dec_int (p_responderPort p)],
      [''ZREVRANGE'', ''ZSET:PROXIES'', ''0'', ''-1'']], p_lastRedisPing := now\<rparr>"
  define p2 where "p2 = p1\<lparr>
     p_remoteInvokeMethods := map (\<lambda>(k, v). (k, filter (\<lambda>t. now \<le> i32 (rm_lastCheckTime t + 5)) v)) (p_remoteInvokeMethods p),
     p_localInvokeMethods := map (\<lambda>(k, v). (k, filter (\<lambda>t. now \<le> i32 (lm_lastCheckTime t + 10)) v)) (p_localInvokeMethods p)\<rparr>"
  define p3 where "p3 = p2\<lparr>p_outbox := p_outbox p @ map (\<lambda>(k, g). (g, registry_request (p_guid p))) (p_proxiesGuids p),
     p_lastRegistryExchange := now\<rparr>"
  from assms(4) obtain a es where redis: "ri_added io = Some a" "ri_found io = Some (ReplyArray es)" "\<forall>r \<in> set es. known_proxy p r"
    by (auto simp: nothing_new_def)
  have due: "timers_due e p" using assms(3) by (simp add: e_def)
  note known = known_entries [OF redis(3), where q = "p1\<lparr>p_lastRedisPing := p_lastRedisPing p\<rparr>"]
  have "PingRedis e (ri_req io) (ri_hello io) parse_any (ri_added io) (ri_found io) p = Inr p1"
    using due known [of e "ri_req io" "ri_hello io" parse_any] redis(1,2)
    by (simp add: PingRedis_def timers_due_def Let_def redis_send_def p1_def now_def)
  moreover have "local_health_loop e (remote_health_loop e p1) = p2"
    by (simp add: local_check.loop_alive remote_check.loop_alive alive_def local_dead_def remote_dead_def not_less p1_def p2_def now_def)
  moreover have "RequestRegistryExchange e p2 = Inr p3"
  proof -
    have "p_guid p2 = p_guid p" "p_proxiesGuids p2 = p_proxiesGuids p" "p_outbox p2 = p_outbox p"
      "p_lastRegistryExchange p2 = p_lastRegistryExchange p" by (simp_all add: p1_def p2_def)
    then show ?thesis
      using due exchange_requests [OF assms(2), of "p_guid p" p2] by (simp add: RequestRegistryExchange_def timers_due_def p3_def now_def)
  qed
  moreover have "CleanUpResponsesMap e p3 = after_timers e p"
  proof -
    have "p_invokeResponses p3 = p_invokeResponses p" "p_invokeResponsesCallTime p3 = p_invokeResponsesCallTime p"
      "p_lastResponsesCleanUp p3 = p_lastResponsesCleanUp p" by (simp_all add: p1_def p2_def p3_def)
    moreover from this have "CleanUpResponsesMap e p3 = p3\<lparr>p_lastResponsesCleanUp := i32 (e_now e),
        p_invokeResponses := filter (\<lambda>(k, g). map_of (filter (\<lambda>(k, t). i32 (i32 (e_now e) - t) \<le> 3) (p_invokeResponsesCallTime p)) k \<noteq> None) (p_invokeResponses p),
        p_invokeResponsesCallTime := filter (\<lambda>(k, t). i32 (i32 (e_now e) - t) \<le> 3) (p_invokeResponsesCallTime p)\<rparr>"
      using cleanup_keeps [of p3 e] assms(1) due by (simp add: proxy_inv_def timers_due_def)
    ultimately show ?thesis by (simp only: after_timers_def Let_def) (simp add: p1_def p2_def p3_def now_def)
  qed
  ultimately show ?thesis by (simp add: run_timers_def e_def)
qed

text \<open>A whole cycle of quiet rounds is its timer round, when the timers keep the subscribers.\<close>

lemma other_rounds:
  assumes "i < 25" "j < 25" "i \<noteq> j" "(loop + int j) mod 25 = 0"
  shows "(loop + int i) mod 25 \<noteq> 0"
proof
  assume "(loop + int i) mod 25 = 0"
  with assms(4) have "(loop + int i) mod 25 = (loop + int j) mod 25" by simp
  then have "25 dvd int i - int j" by (simp add: mod_eq_dvd_iff)
  moreover have "int i - int j \<noteq> 0" "\<bar>int i - int j\<bar> < 25" using assms(1-3) by simp_all
  ultimately show False using dvd_imp_le_int [of "int i - int j" 25] by simp
qed

lemma cycle_of_rounds:
  assumes timers: "run_timers parse_any (ios ! j) p = Inr q" "p_subscribers q = p_subscribers p" and wf: "um_wf (p_subscribers p)"
    and rounds: "length ios = 25" "0 \<le> loop" "loop + 25 \<le> 2147483647" "j < 25" "(loop + int j) mod 25 = 0" "\<forall>io \<in> set ios. quiet io p"
  shows "MainLoop parse parse_any loop ios p = Inr q"
proof -
  define xs where "xs = take j ios"
  define ys where "ys = drop (Suc j) ios"
  define io where "io = ios ! j"
  have split: "ios = xs @ io # ys" unfolding xs_def ys_def io_def using rounds(1,4) by (simp add: id_take_nth_drop)
  have len: "length xs = j" "length ys = 24 - j" using rounds(1,4) by (simp_all add: xs_def ys_def)
  have q: "\<forall>r \<in> set xs. quiet r p" "quiet io p" "\<forall>r \<in> set ys. quiet r q"
    using rounds(6) timers(2) unfolding split quiet_def by auto
  have "\<forall>i < length xs. (loop + int i) mod 25 \<noteq> 0"
    using other_rounds [OF _ rounds(4) _ rounds(5)] rounds(4) len(1) by auto
  then have before: "MainLoop parse parse_any loop (xs @ io # ys) p = MainLoop parse parse_any (loop + int j) (io # ys) p"
    using idle_rounds [OF q(1) wf rounds(2), of parse parse_any "io # ys"] rounds(3,4) len(1) by simp
  have timer: "MainLoop_round parse parse_any io (loop + int j) p = Inr q"
    using quiet_round [OF q(2) wf] timers(1) rounds(5) by (simp add: io_def)
  have "\<forall>i < length ys. (loop + int (Suc j) + int i) mod 25 \<noteq> 0"
  proof (intro allI impI)
    fix i assume "i < length ys"
    then show "(loop + int (Suc j) + int i) mod 25 \<noteq> 0"
      using other_rounds [of "Suc j + i" j loop] rounds(4,5) len(2) by (simp add: ac_simps)
  qed
  then have after: "MainLoop parse parse_any (loop + int (Suc j)) (ys @ []) q = MainLoop parse parse_any (loop + int (Suc j) + int (length ys)) [] q"
    using q(3) wf timers(2) rounds(2,3,4) len(2) by (intro idle_rounds) auto
  have "i32 (loop + int j + 1) = loop + int (Suc j)" using rounds(2,3,4) by (simp add: i32_id)
  with timer after have "MainLoop parse parse_any (loop + int j) (io # ys) p = Inr q" by simp
  with before show ?thesis unfolding split by simp
qed

text \<open>
  C26: The timers run once in twenty-five rounds.  Take any twenty-five rounds in a row in which nothing arrives, and let the
  timers be due in the one whose number is a multiple of twenty-five.  Then the proxy ends in its
  old state, except for what the timers do, once: it registered itself at Redis and asked for the other proxies; both
  registries keep exactly the methods that were renewed in time; every known proxy is asked for its registry; the pending
  calls that are older than three seconds are forgotten in both tables; and the times of all this are noted.
\<close>

theorem quiet_rounds_run_timers:
  assumes "proxy_inv p" "\<forall>(k, g) \<in> set (p_proxiesGuids p). guid_ok g"
    and rounds: "length ios = 25" "0 \<le> loop" "loop + 25 \<le> 2147483647" "j < 25" "(loop + int j) mod 25 = 0" "\<forall>io \<in> set ios. quiet io p"
    and due: "timers_due (ri_timer (ios ! j)) p" "nothing_new (ios ! j) p"
  shows "MainLoop parse parse_any loop ios p = Inr (after_timers (ri_timer (ios ! j)) p)"
proof -
  have "um_wf (p_subscribers p)" using assms(1) by (simp add: proxy_inv_def)
  then show ?thesis
    using timers_effect [OF assms(1,2) due, of parse_any] rounds
    by (intro cycle_of_rounds) (simp_all add: after_timers_def Let_def)
qed

definition sample_busy :: Proxy where
  "sample_busy = sample_proxy\<lparr>p_proxiesGuids := [(''CCCCCCCCCCCCCCCC'', ''CCCCCCCCCCCCCCCC'')],
     p_invokeResponses := [(''x'', ''AAAAAAAAAAAAAAAA''), (''y'', ''AAAAAAAAAAAAAAAA'')],
     p_invokeResponsesCallTime := [(''x'', 990), (''y'', 998)]\<rparr>"

theorem quiet_rounds_run_timers_witness:
  "MainLoop (\<lambda>_. None) (\<lambda>_. Command_new) 3 (replicate 25 sample_round) sample_busy = Inr (after_timers sample_env sample_busy) \<and>
   p_invokeResponses (after_timers sample_env sample_busy) = [(''y'', ''AAAAAAAAAAAAAAAA'')]"
proof -
  have inv: "proxy_inv sample_busy" using sample_proxy_inv
    by (auto simp: proxy_inv_def sample_busy_def pending_wf_def um_wf_def um_keys_def name_set_def)
  have round: "replicate 25 sample_round ! 22 = sample_round" "ri_timer sample_round = sample_env" by (simp_all add: sample_round_def)
  have "\<forall>(k, g) \<in> set (p_proxiesGuids sample_busy). guid_ok g" by (simp add: sample_busy_def)
  moreover have "\<forall>io \<in> set (replicate 25 sample_round). quiet io sample_busy"
    by (simp add: quiet_def sample_busy_def sample_proxy_def sample_round_def)
  moreover have "timers_due sample_env sample_busy" "nothing_new sample_round sample_busy"
    by (simp_all add: timers_due_def nothing_new_def sample_env_def sample_busy_def sample_proxy_def sample_round_def i32_def)
  ultimately show ?thesis
    using quiet_rounds_run_timers [OF inv, of "replicate 25 sample_round" 3 22] round
    by (simp add: after_timers_def Let_def sample_busy_def sample_env_def i32_def)
qed

section \<open>Registration and publication\<close>

text \<open>What a node must send to register a method.\<close>

definition registration_ok :: "Command \<Rightarrow> bool" where
  "registration_ok cmd \<longleftrightarrow> guid_ok (source_proxy_guid cmd) \<and> guid_ok (payload cmd) \<and>
     no_nul (cmd_identifier cmd)"

lemma registration_copies:
  assumes "registration_ok cmd"
  shows "strcpy_into (GUID_SIZE + 1) (source_proxy_guid cmd) = Inr (source_proxy_guid cmd)"
    "strcpy_into (GUID_SIZE + 1) (payload cmd) = Inr (payload cmd)"
    "mem_ok m (length (cmd_identifier cmd) + 1) \<Longrightarrow>
      strcpy_heap NullDeref m (length (cmd_identifier cmd) + 1) (cmd_identifier cmd) = Inr (cmd_identifier cmd)"
    "c_str (payload cmd) = payload cmd" "c_str (cmd_identifier cmd) = cmd_identifier cmd"
  using assms by (simp_all add: registration_ok_def strcpy_into_def strcpy_heap_def GUID_SIZE_def)

lemma touch_local_renews:
  "touch_local now mg v = Some (i, v') \<Longrightarrow> \<exists>t \<in> set v'. lm_methodGuid t = mg \<and> lm_lastCheckTime t = now"
  by (induction v arbitrary: i v') (auto split: if_splits)

lemma map_of_touch_empty: "um_get [] m k = [] \<Longrightarrow> map_of (um_touch k [] m) k = Some []"
  by (auto simp: um_get_def um_touch_def split: option.splits)

definition registration_memory :: "cmem \<Rightarrow> Command \<Rightarrow> bool" where
  "registration_memory m cmd \<longleftrightarrow> mem_ok m (sizeof_InvokeMethod * sizeof_InvokeMethod) \<and> mem_ok m (length (cmd_identifier cmd) + 1)"

lemma RegisterInvoke_found_ok:
  assumes "registration_ok cmd" "local_wf (p_localInvokeMethods p)" "registration_memory (e_mem e) cmd"
  shows "\<exists>q. RegisterInvoke_found e cmd p = Inr (cmd_identifier cmd, q) \<and>
    p_guid q = p_guid p \<and> p_outbox q = p_outbox p \<and> p_invokeResponses q = p_invokeResponses p \<and>
    (\<exists>t \<in> set (um_get [] (p_localInvokeMethods q) (cmd_identifier cmd)).
       lm_methodGuid t = payload cmd \<and> lm_lastCheckTime t = i32 (e_now e)) \<and>
    (um_get [] (p_localInvokeMethods p) (cmd_identifier cmd) = [] \<longrightarrow>
       um_get [] (p_localInvokeMethods q) (cmd_identifier cmd) =
         [\<lparr>lm_identifier = cmd_identifier cmd, lm_nodeGuid = source_proxy_guid cmd,
           lm_methodGuid = payload cmd, lm_lastCheckTime = i32 (e_now e)\<rparr>])"
proof -
  let ?k = "cmd_identifier cmd" and ?vec = "um_get [] (p_localInvokeMethods p) (cmd_identifier cmd)"
  note c = registration_copies [OF assms(1)]
  have get: "um_get [] (um_touch ?k [] (p_localInvokeMethods p)) ?k = ?vec"
    by (auto simp: um_get_def um_touch_def split: option.splits)
  show ?thesis
  proof (cases "touch_local (i32 (e_now e)) (payload cmd) ?vec")
    case None
    then show ?thesis
      using c(1,2,3) assms(3) by (simp add: RegisterInvoke_found_def registration_memory_def Let_def c(4,5) get)
  next
    case (Some iv)
    obtain i v where iv: "iv = (i, v)" by fastforce
    have "\<forall>t \<in> set ?vec. lm_identifier t = ?k"
      using reg_wf_get [of local_vec_wf "p_localInvokeMethods p" ?k] assms(2)
      by (simp add: local_wf_reg local_vec_wf_def local_entry_wf_def)
    moreover have "i \<in> lm_identifier ` set ?vec" using touch_local_guids Some iv by blast
    ultimately have "i = ?k" by auto
    moreover have "\<exists>t \<in> set v. lm_methodGuid t = payload cmd \<and> lm_lastCheckTime t = i32 (e_now e)"
      using touch_local_renews Some unfolding iv by blast
    moreover have "?vec \<noteq> []" using Some by auto
    ultimately show ?thesis
      using Some by (simp add: RegisterInvoke_found_def Let_def c(4,5) iv)
  qed
qed

text \<open>
  C22: A registered method is callable.  After a node registered a method under an identifier that
  had none, and there was memory for the entry, the node got \<open>REGISTER_INVOKE_OK\<close> with the identifier, and a call of the identifier
  goes to that node, for that method, with the caller's payload.
\<close>

theorem register_then_invoke:
  assumes "registration_ok reg" "cmd_of reg = REGISTER_INVOKE" "proxy_inv p" "registration_memory (e_mem e) reg"
    and "um_get [] (p_localInvokeMethods p) (cmd_identifier reg) = []"
    and "cmd_of call = INVOKE" "cmd_identifier call = cmd_identifier reg"
  shows "\<exists>p1 p2 ok invoke. SubscriberCallback e reg n p = Inr p1 \<and>
    p_outbox p1 = p_outbox p @ [(source_proxy_guid reg, ok)] \<and>
    cmd_of ok = REGISTER_INVOKE_OK \<and> payload ok = cmd_identifier reg \<and>
    SubscriberCallback e' call n' p1 = Inr p2 \<and>
    p_outbox p2 = p_outbox p1 @ [(source_proxy_guid reg, invoke)] \<and>
    cmd_of invoke = INVOKE \<and> guid_to invoke = payload reg \<and>
    payload invoke = payload call \<and> guid_from invoke = guid_from call"
proof -
  define t where "t = \<lparr>lm_identifier = cmd_identifier reg, lm_nodeGuid = source_proxy_guid reg,
           lm_methodGuid = payload reg, lm_lastCheckTime = i32 (e_now e)\<rparr>"
  have lwf: "local_wf (p_localInvokeMethods p)" using assms(3) by (simp add: proxy_inv_def)
  from RegisterInvoke_found_ok [OF assms(1) lwf assms(4)] assms(5)
  obtain q where q: "RegisterInvoke_found e reg p = Inr (cmd_identifier reg, q)" "p_guid q = p_guid p"
    "p_outbox q = p_outbox p" "um_get [] (p_localInvokeMethods q) (cmd_identifier reg) = [t]"
    by (auto simp: t_def)
  have g: "guid_ok (source_proxy_guid reg)" using assms(1) by (simp add: registration_ok_def)
  define ok where "ok = Command_new\<lparr>c_cmd := Some REGISTER_INVOKE_OK,
     c_guid_to := Some (source_proxy_guid reg), c_source_proxy_guid := Some (p_guid q),
     c_payload := Some (cmd_identifier reg)\<rparr>"
  define p1 where "p1 = q\<lparr>p_outbox := p_outbox q @ [(source_proxy_guid reg, ok)]\<rparr>"
  have r1: "SubscriberCallback e reg n p = Inr p1"
    using q(1) guid_block_topic [OF g]
    by (simp add: SubscriberCallback_def assms(2) RegisterInvoke_def publish_to_ok p1_def ok_def)
  have "proxy_inv p1" by (rule SubscriberCallback_inv [OF r1 assms(3)])
  then have wf1: "local_wf (p_localInvokeMethods p1)" by (simp add: proxy_inv_def)
  have "um_get [] (p_localInvokeMethods p1) (cmd_identifier call) = [t]"
    using q(4) assms(7) by (simp add: p1_def)
  note inv2 = Invoke_local_sends [OF this _ wf1, of e']
  define invoke where "invoke = Command_new\<lparr>c_cmd := Some INVOKE, c_guid_to := Some (payload reg),
      c_source_proxy_guid := Some (p_guid p1), c_identifier := Some (cmd_identifier call),
      c_payload := Some (payload call), c_guid_from := Some (guid_from call)\<rparr>"
  from inv2 obtain p2 where p2: "Invoke e' call p1 = Inr p2"
    "p_outbox p2 = p_outbox p1 @ [(source_proxy_guid reg, invoke)]"
    using guid_block_topic(1) [OF g] by (auto simp: t_def invoke_def)
  have "cmd_of ok = REGISTER_INVOKE_OK" "payload ok = cmd_identifier reg" "cmd_of invoke = INVOKE"
    "guid_to invoke = payload reg" "payload invoke = payload call" "guid_from invoke = guid_from call"
    by (simp_all add: ok_def invoke_def getter_defs)
  with r1 p2 q(3) show ?thesis
    by (auto simp: SubscriberCallback_def assms(6) p1_def)
qed

theorem register_then_invoke_witness:
  "\<exists>p1 p2 invoke. SubscriberCallback sample_env sample_registration ''node'' sample_proxy = Inr p1 \<and>
     SubscriberCallback sample_env (sample_call\<lparr>c_identifier := Some ''/mul''\<rparr>) ''node'' p1 = Inr p2 \<and>
     p_outbox p2 = p_outbox p1 @ [(''AAAAAAAAAAAAAAAA'', invoke)] \<and> guid_to invoke = ''DDDDDDDDDDDDDDDD''"
proof -
  have h: "registration_ok sample_registration" "cmd_of sample_registration = REGISTER_INVOKE"
    "um_get [] (p_localInvokeMethods sample_proxy) (cmd_identifier sample_registration) = []"
    "cmd_of (sample_call\<lparr>c_identifier := Some ''/mul''\<rparr>) = INVOKE"
    "cmd_identifier (sample_call\<lparr>c_identifier := Some ''/mul''\<rparr>) = cmd_identifier sample_registration"
    "source_proxy_guid sample_registration = ''AAAAAAAAAAAAAAAA''"
    "payload sample_registration = ''DDDDDDDDDDDDDDDD''"
    by (simp_all add: sample_defs sample_proxy_def um_get_def registration_ok_def no_nul_def)
  have m: "registration_memory (e_mem sample_env) sample_registration" by (simp add: registration_memory_def sample_env_def sample_mem_def)
  from register_then_invoke [OF h(1,2) sample_proxy_inv m h(3,4,5), of "''node''" sample_env "''node''"]
  show ?thesis unfolding h(6,7) by blast
qed

text \<open>
  C34: A publication is forwarded once.  What a proxy publishes for a \<open>PUBLISH\<close> request on its
  channel carries the payload and is marked so that every proxy that receives it drops it.
\<close>

theorem publish_forwards_once:
  assumes "cmd_of cmd = PUBLISH" "recursion cmd = 0"
  shows "\<exists>out. SubscriberCallback e cmd n p =
      Inr (p\<lparr>p_outbox := p_outbox p @ [(cmd_identifier cmd, out)]\<rparr>) \<and>
    cmd_of out = PUBLISH \<and> cmd_identifier out = cmd_identifier cmd \<and> payload out = payload cmd \<and>
    (\<forall>e' n' q. SubscriberCallback e' out n' q = Inr q)"
proof -
  define out where "out = Command_new\<lparr>c_cmd := Some PUBLISH, c_identifier := Some (cmd_identifier cmd),
    c_source_proxy_guid := Some (p_guid p), c_payload := Some (payload cmd), c_recursion := Some 1\<rparr>"
  have out: "cmd_of out = PUBLISH" "cmd_identifier out = cmd_identifier cmd" "payload out = payload cmd"
    "recursion out = 1"
    by (simp_all add: out_def getter_defs)
  have "SubscriberCallback e cmd n p = Inr (p\<lparr>p_outbox := p_outbox p @ [(cmd_identifier cmd, out)]\<rparr>)"
    using assms
    by (simp add: SubscriberCallback_def PublishReq_def Publish_n_def peek_def c_block_def out_def)
  moreover have "SubscriberCallback e' out n' q = Inr q" for e' n' q
    by (simp add: SubscriberCallback_def PublishReq_def out)
  ultimately show ?thesis using out by blast
qed

theorem publish_forwards_once_witness:
  "\<exists>out. SubscriberCallback sample_env (Command_new\<lparr>c_cmd := Some PUBLISH, c_identifier := Some ''news''\<rparr>) ''node'' sample_proxy =
      Inr (sample_proxy\<lparr>p_outbox := [(''news'', out)]\<rparr>) \<and>
    SubscriberCallback sample_env out ''node'' sample_proxy = Inr sample_proxy"
  using publish_forwards_once [of "Command_new\<lparr>c_cmd := Some PUBLISH, c_identifier := Some ''news''\<rparr>"
      sample_env "''node''" sample_proxy]
  by (auto simp: sample_defs sample_proxy_def)

text \<open>
  A call of an identifier that nobody registered is answered with an \<open>ERROR\<close> to the caller,
  and it leaves an empty entry under the identifier in both registries: the maps grow with
  every unknown name.
\<close>

lemma invoke_unknown_identifier:
  assumes "um_get [] (p_localInvokeMethods p) (cmd_identifier call) = []"
    and "um_get [] (p_remoteInvokeMethods p) (cmd_identifier call) = []"
    and "guid_ok (source_proxy_guid call)" "length (cmd_identifier call) \<le> 980"
  shows "\<exists>p' out. Invoke e call p = Inr p' \<and>
    p_outbox p' = p_outbox p @ [(source_proxy_guid call, out)] \<and>
    cmd_of out = ERROR \<and> guid_to out = guid_from call \<and>
    p_invokeResponses p' = p_invokeResponses p \<and>
    map_of (p_localInvokeMethods p') (cmd_identifier call) = Some [] \<and>
    map_of (p_remoteInvokeMethods p') (cmd_identifier call) = Some []"
proof -
  define body where "body = ''Identifier '' @ [CHR 0x27] @ c_str (cmd_identifier call) @
    [CHR 0x27] @ '' not found in registry''"
  have "no_nul body" using no_nul_c_str [of "cmd_identifier call"] by (simp add: body_def no_nul_def)
  moreover have "length body < 1024"
    using length_c_str [of "cmd_identifier call"] assms(4) by (simp add: body_def)
  ultimately have copied: "strcpy_into 1024 body = Inr body" by (simp add: strcpy_into_def)
  define out where "out = Command_new\<lparr>c_cmd := Some ERROR, c_payload := Some body,
    c_guid_to := Some (guid_from call), c_source_proxy_guid := Some (p_guid p),
    c_guid_from := Some (p_guid p)\<rparr>"
  define p' where "p' = p\<lparr>p_invokeCalls := i32 (p_invokeCalls p + 1),
    p_localInvokeMethods := um_touch (cmd_identifier call) [] (p_localInvokeMethods p),
    p_remoteInvokeMethods := um_touch (cmd_identifier call) [] (p_remoteInvokeMethods p),
    p_invokeErrors := i32 (p_invokeErrors p + 1),
    p_outbox := p_outbox p @ [(source_proxy_guid call, out)]\<rparr>"
  have "Invoke e call p = Inr p'"
    using assms(1,2) copied [unfolded body_def] guid_block_topic [OF assms(3)]
    by (simp add: Invoke_def Let_def Invoke_error_def publish_to_ok p'_def out_def body_def)
  moreover have "cmd_of out = ERROR" "guid_to out = guid_from call"
    by (simp_all add: out_def getter_defs)
  ultimately show ?thesis using assms(1,2) by (auto simp: p'_def map_of_touch_empty)
qed

section \<open>Safety of the handlers\<close>

text \<open>
  Well-formed traffic: sender and call ids are GUIDs, texts that are printed into the fixed arrays are
  short, names hold no NUL, and the entries of a registry fit their arrays.
\<close>

definition message_ok :: "Command \<Rightarrow> bool" where
  "message_ok cmd \<longleftrightarrow> guid_ok (source_proxy_guid cmd) \<and>
     no_nul (cmd_identifier cmd) \<and> length (cmd_identifier cmd) \<le> 980 \<and> length (guid_to cmd) \<le> 980 \<and>
     (cmd_of cmd = REGISTER_INVOKE \<longrightarrow> guid_ok (payload cmd)) \<and>
     (cmd_of cmd \<in> {NODE_HELLO, PROXY_HELLO, REGISTER_INVOKE_OK} \<longrightarrow> length (payload cmd) \<le> 400) \<and>
     (\<forall>r \<in> set (c_reg_entry cmd). entry_ok r)"

text \<open>
  The messages whose handling asks for memory, and those whose handling writes one byte behind a
  block: a subscription, and the registry of another proxy.
\<close>

definition allocates :: "Command \<Rightarrow> bool" where
  "allocates cmd \<longleftrightarrow> cmd_of cmd \<in> {REGISTER_INVOKE, REGISTRY_EXCHANGE_RESPONSE, SUBSCRIBE}"

definition overruns :: "env \<Rightarrow> Command \<Rightarrow> Proxy \<Rightarrow> bool" where
  "overruns e cmd p \<longleftrightarrow>
     cmd_of cmd = SUBSCRIBE \<and> p_subscribers p \<noteq> [] \<and> mem_slack (e_mem e) (length (cmd_identifier cmd) + 1) = 0 \<or>
     cmd_of cmd = REGISTRY_EXCHANGE_RESPONSE \<and>
       (\<exists>r \<in> set (c_reg_entry cmd). mem_slack (e_mem e) (length (entry_identifier r)) = 0)"

definition callers_ok :: "Proxy \<Rightarrow> bool" where
  "callers_ok p \<longleftrightarrow> (\<forall>k g. map_of (p_invokeResponses p) k = Some g \<longrightarrow> guid_ok g)"

lemma print_ok:
  assumes "no_nul a" "no_nul b" "length a + length s + length b < n"
  shows "strcpy_into n (a @ c_str s @ b) = Inr (a @ c_str s @ b)"
proof -
  have "no_nul (a @ c_str s @ b)" using assms(1,2) no_nul_c_str [of s] by (simp add: no_nul_def)
  then show ?thesis using assms(3) length_c_str [of s] by (simp add: strcpy_into_def)
qed

lemma publish_to_total: "15 \<le> length g \<Longrightarrow> \<exists>p'. publish_to (c_block g) cmd p = Inr p'"
  by (simp add: publish_to_ok c_block_def GUID_SIZE_def)

lemma Invoke_total:
  assumes "proxy_inv p" "message_ok call"
  shows "\<exists>p'. Invoke e call p = Inr p'"
proof -
  let ?k = "cmd_identifier call"
  let ?vec = "um_get [] (p_localInvokeMethods p) ?k" and ?rvec = "um_get [] (p_remoteInvokeMethods p) ?k"
  consider "?vec \<noteq> []" | "?vec = []" "?rvec = []" | "?vec = []" "?rvec \<noteq> []" by blast
  then show ?thesis
  proof cases
    case 1
    then show ?thesis using Invoke_local_sends [OF refl 1] assms(1) by (auto simp: proxy_inv_def)
  next
    case 2
    have "strcpy_into 1024 ((''Identifier '' @ [CHR 0x27]) @ c_str ?k @ ([CHR 0x27] @ '' not found in registry'')) =
        Inr ((''Identifier '' @ [CHR 0x27]) @ c_str ?k @ ([CHR 0x27] @ '' not found in registry''))"
      using assms(2) by (intro print_ok) (simp_all add: no_nul_def message_ok_def)
    then show ?thesis
      using 2 guid_block_topic(4) assms(2)
      by (simp add: Invoke_def Let_def Invoke_error_def publish_to_ok message_ok_def)
  next
    case 3
    let ?t = "?rvec ! (e_rand e mod length ?rvec)"
    have "remote_vec_wf ?k ?rvec" using assms(1) by (simp add: proxy_inv_def remote_wf_reg reg_wf_get)
    then have "length (rm_proxyGuid ?t) \<le> GUID_SIZE" using 3(2) by (simp add: remote_vec_wf_def remote_entry_wf_def)
    then show ?thesis
      using 3 by (simp add: Invoke_def Let_def Invoke_remote_def publish_to_ok)
  qed
qed

lemma InvokeResponse_total:
  assumes "callers_ok p" "length (guid_to resp) \<le> 980" "15 \<le> length n"
  shows "\<exists>p'. InvokeResponse resp n p = Inr p'"
proof (cases "map_of (p_invokeResponses p) (guid_to resp)")
  case None
  have "strcpy_into 1024 (''Response callback '' @ c_str (guid_to resp) @ '' not found'') =
      Inr (''Response callback '' @ c_str (guid_to resp) @ '' not found'')"
    using assms(2) by (intro print_ok) (simp_all add: no_nul_def)
  with None publish_to_total [OF assms(3)] show ?thesis by (simp add: InvokeResponse_def)
next
  case (Some g)
  then show ?thesis using InvokeResponse_known assms(1) by (auto simp: callers_ok_def)
qed

lemma Subscriber_Subscribe_cases:
  assumes "no_nul ch"
  shows "Subscriber_Subscribe m ch s =
    (if \<not> mem_ok m (length ch + 1) then Inl OutOfMemory
     else if mem_slack m (length ch + 1) = 0 then Inl OutOfBounds
     else Inr (s\<lparr>sub_filters := sub_filters s @ [ch @ [TAB]]\<rparr>))"
proof -
  have "c_str (ch @ [TAB]) = ch @ [TAB]" using assms by (simp add: no_nul_def)
  then show ?thesis using assms by (simp add: Subscriber_Subscribe_def strcpy_heap_def peek_def)
qed

lemma subscribe_all_cases:
  assumes "no_nul ch"
  shows "subscribe_all m ch subs =
    (if subs = [] then Inr []
     else if \<not> mem_ok m (length ch + 1) then Inl OutOfMemory
     else if mem_slack m (length ch + 1) = 0 then Inl OutOfBounds
     else Inr (map (\<lambda>(k, s). (k, s\<lparr>sub_filters := sub_filters s @ [ch @ [TAB]]\<rparr>)) subs))"
  by (induction subs) (auto simp: Subscriber_Subscribe_cases [OF assms])

lemma RegisterInvoke_found_fails:
  assumes "registration_ok cmd" "local_wf (p_localInvokeMethods p)" "RegisterInvoke_found e cmd p = Inl err"
  shows "err = NullDeref \<and> (\<exists>k. \<not> mem_ok (e_mem e) k)"
proof -
  have memory: "\<not> registration_memory (e_mem e) cmd" using RegisterInvoke_found_ok [OF assms(1,2), of e] assms(3) by auto
  note c = registration_copies [OF assms(1)]
  from assms(3) c(1,2) have "err = NullDeref"
    by (auto simp: RegisterInvoke_found_def Let_def strcpy_heap_def check_res_def c(5) bind_res_Inl split: option.splits if_splits)
  then show ?thesis using memory by (auto simp: registration_memory_def)
qed

lemma no_nul_dec_int: "no_nul (dec_int i)"
  using dec_nat_digits is_digit_not_special by (fastforce simp: no_nul_def dec_int_def)

lemma cmd_number_length: "length (dec_int (cmd_number c)) \<le> 2"
proof -
  have "length (dec_nat n) \<le> 2" if "n < 100" for n
  proof -
    have "n div 10 < 10" using that by (simp add: less_mult_imp_div_less)
    then show ?thesis using dec_nat.simps [of n] dec_nat.simps [of "n div 10"] by simp
  qed
  moreover have "0 \<le> cmd_number c" "cmd_number c < 100" by (cases c; simp)+
  ultimately show ?thesis by (simp add: dec_int_def)
qed

lemma unknown_command_total:
  assumes "length (payload cmd) \<le> 400" "15 \<le> length n" "cmd_of cmd \<in> {NODE_HELLO, PROXY_HELLO, REGISTER_INVOKE_OK}"
  shows "\<exists>p'. unknown_command cmd n p = Inr p'"
proof -
  let ?a = "''Subscriber get unknown command: '' @ dec_int (cmd_number (cmd_of cmd)) @ '', payload: ''"
  have "no_nul ?a" "length ?a \<le> 60"
    using no_nul_dec_int [of "cmd_number (cmd_of cmd)"] cmd_number_length [of "cmd_of cmd"]
    by (simp_all add: no_nul_def)
  then have "strcpy_into 512 (?a @ c_str (payload cmd) @ []) = Inr (?a @ c_str (payload cmd) @ [])"
    using assms(1) by (intro print_ok) (simp_all add: no_nul_def)
  with publish_to_total [OF assms(2)] show ?thesis by (simp add: unknown_command_def)
qed

lemma callers_ok_insert:
  "callers_ok p \<Longrightarrow> guid_ok g \<Longrightarrow> p_invokeResponses p' = um_insert k g (p_invokeResponses p) \<Longrightarrow> callers_ok p'"
  by (auto simp: callers_ok_def)

lemma callers_ok_same:
  "callers_ok p \<Longrightarrow> p_invokeResponses p' = p_invokeResponses p \<Longrightarrow> callers_ok p'"
  by (simp add: callers_ok_def)

lemma publish_to_responses: "publish_to blk cmd p = Inr p' \<Longrightarrow> p_invokeResponses p' = p_invokeResponses p"
  by (drule publish_to_InrD) simp

lemma Invoke_callers:
  "Invoke e cmd p = Inr p' \<Longrightarrow> guid_ok (source_proxy_guid cmd) \<Longrightarrow> callers_ok p \<Longrightarrow> callers_ok p'"
  unfolding Invoke_def Invoke_local_def Invoke_remote_def Invoke_error_def
  by (auto simp: Let_def bind_res_Inr split: if_splits dest!: publish_to_responses
      elim: callers_ok_same callers_ok_insert)

lemma InvokeResponse_callers: "InvokeResponse cmd n p = Inr p' \<Longrightarrow> callers_ok p \<Longrightarrow> callers_ok p'"
  unfolding InvokeResponse_def
  by (auto simp: bind_res_Inr callers_ok_def split: option.splits if_splits dest!: publish_to_responses)

lemma RegisterInvoke_callers: "RegisterInvoke e cmd p = Inr p' \<Longrightarrow> callers_ok p \<Longrightarrow> callers_ok p'"
  unfolding RegisterInvoke_def RegisterInvoke_found_def Let_def
  by (auto simp: bind_res_Inr check_res_Inr split: option.splits prod.splits dest!: publish_to_responses
      elim!: callers_ok_same)

lemma RemoteRegistryUpdate_entry_responses:
  "RemoteRegistryUpdate_entry e r p = Inr p' \<Longrightarrow> p_invokeResponses p' = p_invokeResponses p"
proof (erule on_successD)
  show "on_success (\<lambda>p'. p_invokeResponses p' = p_invokeResponses p) (RemoteRegistryUpdate_entry e r p)"
    unfolding RemoteRegistryUpdate_entry_def Let_def
    by (intro on_success_intros) (simp_all add: on_success_def)
qed

lemma RemoteRegistryUpdate_callers:
  "RemoteRegistryUpdate e cmd p = Inr p' \<Longrightarrow> callers_ok p \<Longrightarrow> callers_ok p'"
  unfolding RemoteRegistryUpdate_def
  by (erule fold_res_invariant) (auto elim: callers_ok_same dest: RemoteRegistryUpdate_entry_responses)

lemma SubscriberCallback_callers:
  "SubscriberCallback e cmd n p = Inr p' \<Longrightarrow> guid_ok (source_proxy_guid cmd) \<Longrightarrow> callers_ok p \<Longrightarrow> callers_ok p'"
  unfolding SubscriberCallback_def unknown_command_def PingRequest_def RegistryExchangeResponder_def
    PublishReq_def SubscribeReq_def Let_def
  by (cases "cmd_of cmd")
    (auto simp: bind_res_Inr split: if_splits intro: Invoke_callers InvokeResponse_callers RegisterInvoke_callers
      RemoteRegistryUpdate_callers callers_ok_same dest: publish_to_responses)

lemma SubscriberCallback_fails:
  assumes "proxy_inv p" "callers_ok p" "message_ok cmd" "15 \<le> length n" "SubscriberCallback e cmd n p = Inl err"
  shows "err = OutOfBounds \<and> overruns e cmd p \<or>
    err \<in> {NullDeref, OutOfMemory} \<and> allocates cmd \<and> (\<exists>k. \<not> mem_ok (e_mem e) k)"
proof -
  have src: "guid_ok (source_proxy_guid cmd)" "15 \<le> length (source_proxy_guid cmd)"
    using assms(3) by (simp_all add: message_ok_def)
  show ?thesis
  proof (cases "cmd_of cmd")
    case REGISTER_INVOKE
    have "registration_ok cmd" using assms(3) REGISTER_INVOKE by (simp add: message_ok_def registration_ok_def)
    moreover have "local_wf (p_localInvokeMethods p)" using assms(1) by (simp add: proxy_inv_def)
    moreover have "RegisterInvoke_found e cmd p = Inl err"
    proof (cases "RegisterInvoke_found e cmd p")
      case (Inr iq)
      obtain i q where "iq = (i, q)" by fastforce
      then show ?thesis using Inr assms(5) publish_to_total [OF src(2)]
        by (auto simp: SubscriberCallback_def REGISTER_INVOKE RegisterInvoke_def) (metis Inl_Inr_False)
    qed (use assms(5) in \<open>simp add: SubscriberCallback_def REGISTER_INVOKE RegisterInvoke_def\<close>)
    ultimately show ?thesis using RegisterInvoke_found_fails by (auto simp: allocates_def REGISTER_INVOKE)
  next
    case REGISTRY_EXCHANGE_RESPONSE
    then show ?thesis using RemoteRegistryUpdate_fails [of "c_reg_entry cmd" e p err] assms(3,5)
      by (auto simp: SubscriberCallback_def RemoteRegistryUpdate_def message_ok_def overruns_def allocates_def)
  next
    case SUBSCRIBE
    then show ?thesis using assms(3,5) subscribe_all_cases [of "cmd_identifier cmd" "e_mem e" "p_subscribers p"]
      by (auto simp: SubscriberCallback_def SubscribeReq_def Let_def message_ok_def overruns_def allocates_def split: if_splits)
  next
    case PUBLISH
    then show ?thesis using assms(5)
      by (simp add: SubscriberCallback_def PublishReq_def Publish_n_def peek_def c_block_def split: if_splits)
  next
    case INVOKE
    then show ?thesis using Invoke_total [OF assms(1,3), of e] assms(5) by (simp add: SubscriberCallback_def)
  next
    case RESPONSE
    then show ?thesis using InvokeResponse_total [OF assms(2) _ assms(4), of cmd] assms(3,5)
      by (simp add: SubscriberCallback_def message_ok_def)
  next
    case ERROR_RESPONSE
    then show ?thesis using InvokeResponse_total [OF assms(2) _ assms(4), of cmd] assms(3,5)
      by (simp add: SubscriberCallback_def message_ok_def)
  next
    case REGISTRY_EXCHANGE_REQUEST
    then show ?thesis using assms(5) publish_to_total [OF src(2)]
      by (simp add: SubscriberCallback_def RegistryExchangeResponder_def) (metis Inl_Inr_False)
  next
    case PING
    then show ?thesis using assms(5) publish_to_total [OF src(2)]
      by (simp add: SubscriberCallback_def PingRequest_def) (metis Inl_Inr_False)
  qed (use assms(3,5) unknown_command_total [OF _ assms(4), of cmd p] in \<open>auto simp: SubscriberCallback_def message_ok_def\<close>)
qed

lemma SubscriberCallback_overruns:
  assumes "message_ok cmd" "overruns e cmd p" "\<forall>k. mem_ok (e_mem e) k"
  shows "SubscriberCallback e cmd n p = Inl OutOfBounds"
proof (cases "cmd_of cmd = SUBSCRIBE")
  case True
  then show ?thesis using assms subscribe_all_cases [of "cmd_identifier cmd" "e_mem e" "p_subscribers p"]
    by (simp add: overruns_def message_ok_def SubscriberCallback_def SubscribeReq_def Let_def)
next
  case False
  then have "cmd_of cmd = REGISTRY_EXCHANGE_RESPONSE" "\<forall>r \<in> set (c_reg_entry cmd). entry_ok r"
    "\<exists>r \<in> set (c_reg_entry cmd). mem_slack (e_mem e) (length (entry_identifier r)) = 0"
    using assms(1,2) by (auto simp: overruns_def message_ok_def)
  with RemoteRegistryUpdate_overruns [OF this(2) assms(3) this(3), of p] show ?thesis
    by (simp add: SubscriberCallback_def RemoteRegistryUpdate_def)
qed

text \<open>
  C4: What can go wrong on well-formed traffic.  In a state with the invariant whose pending callers are GUIDs, a
  well-formed message from a sender with a name of at least fifteen bytes is handled, and the
  resulting state has the same properties again; or the handler writes one byte behind a block, which
  only happens for a subscription and for the registry of another proxy, when the block has no byte to
  spare there; or one of the three kinds of messages that need memory met an allocator that refused a
  request.  While memory is available, a handler leaves its objects exactly in those cases of the
  two overruns, whatever the message.
\<close>

theorem SubscriberCallback_safe:
  assumes "proxy_inv p" "callers_ok p" "message_ok cmd" "15 \<le> length n"
  shows "(case SubscriberCallback e cmd n p of
      Inr p' \<Rightarrow> proxy_inv p' \<and> callers_ok p'
    | Inl err \<Rightarrow> err = OutOfBounds \<and> overruns e cmd p \<or>
        err \<in> {NullDeref, OutOfMemory} \<and> allocates cmd \<and> (\<exists>k. \<not> mem_ok (e_mem e) k)) \<and>
    ((\<forall>k. mem_ok (e_mem e) k) \<longrightarrow> (SubscriberCallback e cmd n p = Inl OutOfBounds \<longleftrightarrow> overruns e cmd p))"
proof (cases "SubscriberCallback e cmd n p")
  case (Inl err)
  then show ?thesis using SubscriberCallback_fails [OF assms Inl] SubscriberCallback_overruns [OF assms(3), of e p n] by auto
next
  case (Inr p')
  have "guid_ok (source_proxy_guid cmd)" using assms(3) by (simp add: message_ok_def)
  then show ?thesis
    using SubscriberCallback_inv [OF Inr assms(1)] SubscriberCallback_callers [OF Inr _ assms(2)]
      SubscriberCallback_overruns [OF assms(3), of e p n] Inr by auto
qed

definition tight_env :: env where
  "tight_env = sample_env\<lparr>e_mem := sample_mem\<lparr>mem_slack := (\<lambda>_. 0)\<rparr>\<rparr>"

definition sample_registry :: Command where
  "sample_registry = Command_new\<lparr>c_cmd := Some REGISTRY_EXCHANGE_RESPONSE, c_source_proxy_guid := Some ''CCCCCCCCCCCCCCCC'',
     c_reg_entry := [RegistryEntry_new\<lparr>re_identifier := Some ''/mul''\<rparr>]\<rparr>"

theorem SubscriberCallback_safe_witness:
  "(\<exists>p'. SubscriberCallback tight_env sample_call ''tcp://localhost:7781'' sample_proxy = Inr p' \<and> proxy_inv p' \<and> callers_ok p') \<and>
   SubscriberCallback tight_env sample_registry ''tcp://localhost:7781'' sample_proxy = Inl OutOfBounds"
proof -
  let ?n = "''tcp://localhost:7781''"
  have callers: "callers_ok sample_proxy" and len: "15 \<le> length ?n" by (simp_all add: callers_ok_def sample_proxy_def)
  have mem: "\<forall>k. mem_ok (e_mem tight_env) k" by (simp add: tight_env_def sample_env_def sample_mem_def)
  have call: "message_ok sample_call" "\<not> overruns tight_env sample_call sample_proxy"
    by (simp_all add: message_ok_def overruns_def sample_defs no_nul_def)
  have registry: "message_ok sample_registry" "overruns tight_env sample_registry sample_proxy"
    by (simp_all add: message_ok_def overruns_def sample_registry_def tight_env_def sample_defs entry_ok_def RegistryEntry_new_def no_nul_def)
  note safe = SubscriberCallback_safe [OF sample_proxy_inv callers _ len, of _ tight_env]
  from safe [OF call(1)] call(2) mem safe [OF registry(1)] registry(2) show ?thesis
    by (auto split: sum.splits)
qed

text \<open>
  C37: The copy of an identifier into the remote registry needs one byte more than
  \<^verbatim>\<open>RemoteRegistryUpdate\<close> asks for: with an allocator that gives no byte more than requested,
  every registry entry is written outside its block, or through NULL when there is no block at all.
\<close>

theorem remote_update_overruns_identifier:
  assumes "c_reg_entry cmd = r # rs" "no_nul (entry_identifier r)"
    and "mem_slack (e_mem e) (length (entry_identifier r)) = 0"
  shows "RemoteRegistryUpdate e cmd p =
    Inl (if mem_ok (e_mem e) (length (entry_identifier r)) then OutOfBounds else NullDeref)"
proof -
  have "entry_type r = INVOKE_METHOD" by (cases "entry_type r") simp
  then show ?thesis
    using assms by (simp add: RemoteRegistryUpdate_def RemoteRegistryUpdate_entry_def strcpy_heap_def)
qed

theorem remote_update_overruns_identifier_witness:
  "RemoteRegistryUpdate (sample_env\<lparr>e_mem := sample_mem\<lparr>mem_slack := (\<lambda>_. 0)\<rparr>\<rparr>)
     (Command_new\<lparr>c_reg_entry := [RegistryEntry_new\<lparr>re_identifier := Some ''/sum''\<rparr>]\<rparr>) sample_proxy = Inl OutOfBounds"
  using remote_update_overruns_identifier [where rs = "[]" and r = "RegistryEntry_new\<lparr>re_identifier := Some ''/sum''\<rparr>"
      and cmd = "Command_new\<lparr>c_reg_entry := [RegistryEntry_new\<lparr>re_identifier := Some ''/sum''\<rparr>]\<rparr>"
      and e = "sample_env\<lparr>e_mem := sample_mem\<lparr>mem_slack := (\<lambda>_. 0)\<rparr>\<rparr>"]
  by (simp add: sample_defs RegistryEntry_new_def no_nul_def)

text \<open>
  A node that says hello is polled under its connection string.  After \<^verbatim>\<open>NODE_HELLO\<close> with the
  payload \<^verbatim>\<open>guid#endpoint\<close> the proxy answers with its own host and publisher port, the node is
  known under its GUID, and its subscriber is stored under the endpoint, in place of every older
  binding of that endpoint; \<^verbatim>\<open>MainLoop\<close> passes this key on as the GUID of the sender.
\<close>

lemma node_hello_subscribes:
  assumes "cmd_of cmd = NODE_HELLO" "payload cmd = g @ ''#'' @ endpoint" "guid_ok g"
    and "endpoint \<noteq> []" "no_nul endpoint" "CHR ''#'' \<notin> set endpoint" "length endpoint < 512"
    and "e_zconnect e endpoint = 0"
    and "no_nul (p_host p)" "length (p_host p @ ''#'' @ dec_int (p_publisherPort p)) < 256"
    and "map_of (drop_duplicate endpoint (p_subscribers p)) endpoint = None"
  shows "\<exists>resp p' s. ResponderCallback e cmd p = Inr (resp, p') \<and> cmd_of resp = RESPONSE \<and>
    payload resp = p_host p @ ''#'' @ dec_int (p_publisherPort p) \<and>
    map_of (p_subscribers p') endpoint = Some s \<and> sub_connectString s = endpoint \<and>
    sub_targetGuid s = g \<and> map_of (p_nodesGuids p') g = Some g"
proof -
  define host where "host = p_host p @ ''#'' @ dec_int (p_publisherPort p)"
  have "no_nul host" using assms(9) no_nul_dec_int by (simp add: host_def no_nul_def)
  then have resp: "strcpy_into 256 host = Inr host" using assms(10) by (simp add: strcpy_into_def host_def)
  have g: "no_nul g" "CHR ''#'' \<notin> set g" "length g = 16" "c_str g = g"
    using assms(3) guid_ok_chars [OF assms(3)] by simp_all
  have "no_nul (payload cmd)" using g(1) assms(5) by (simp add: assms(2) no_nul_def)
  then have tmp: "split (c_str (payload cmd)) (CHR ''#'') = [g, endpoint]"
    using split_two [OF g(2) assms(6,4)] by (simp add: assms(2))
  define s where "s = \<lparr>sub_connectString = endpoint, sub_targetGuid = g, sub_lastActiveTime = i32 (e_now e),
    sub_filters = take GUID_SIZE (p_guid p) # map snd (p_subscribeChannels p)\<rparr>"
  have "Subscriber_new (e_now e) endpoint g = Inr (s\<lparr>sub_filters := []\<rparr>)"
    using g assms(5,7) by (simp add: Subscriber_new_def strcpy_into_def GUID_SIZE_def s_def)
  moreover have "Subscriber_Connect (e_zconnect e) (e_now e) (p_guid p) (p_subscribeChannels p) (s\<lparr>sub_filters := []\<rparr>) = Inr (True, s)"
    using assms(7,8) by (simp add: Subscriber_Connect_def s_def)
  ultimately have "NodeHello e cmd Command_new p = Inr (Command_new\<lparr>c_cmd := Some RESPONSE, c_payload := Some host\<rparr>,
      p\<lparr>p_subscribers := um_insert endpoint s (drop_duplicate endpoint (p_subscribers p)),
        p_nodesGuids := sm_put g g (p_nodesGuids p)\<rparr>)"
    unfolding NodeHello_def host_def [symmetric] resp tmp by simp
  then show ?thesis
    using assms(1,11) by (simp add: ResponderCallback_def getter_defs host_def s_def)
qed

end
