(* ===== verification/Bus_Props.thy ===== *)
theory Bus_Props
  imports Wire_Props Proxy_Props
begin

text \<open>
  Two proxies on one bus: the handlers of the proxies, the frames that they publish, and the messages that
  their subscribers make of these frames, put together.
\<close>

section \<open>Hearing a message\<close>

text \<open>The message that a subscriber of proxy \<open>p\<close> makes of a published frame.\<close>

definition hears :: "(Command \<Rightarrow> char list) \<Rightarrow> (char list \<Rightarrow> Command option) \<Rightarrow> Proxy \<Rightarrow> string \<times> Command \<Rightarrow> Command option" where
  "hears serialize parse p f =
     fst (Subscriber_Poll parse 0 (p_guid p) (Received (frame_bytes serialize f)) \<lparr>sub_connectString = [], sub_targetGuid = [], sub_lastActiveTime = 0, sub_filters = []\<rparr>)"

lemma hears_sent:
  assumes "message_runtime rt serialize parse" "Command_fits rt c" "IsInitialized c" "guid_ok g"
  shows "hears serialize parse p (g, c) = Some (c\<lparr>c_target_proxy_guid := Some (p_guid p)\<rparr>)"
proof -
  have "parse (serialize c) = Some c" by (rule sent_parses(1) [OF assms(1-3)])
  moreover have "Publish_n g (length g) c [] = Inr ([] @ [(g, c)])" by (simp add: Publish_n_def peek_def)
  moreover have "TAB \<notin> set (take (length g) g)" using guid_ok_chars [OF assms(4)] by simp
  ultimately show ?thesis unfolding hears_def by (simp add: poll_published [of g "length g" c "[]" "(g, c)"])
qed

lemma initialized_messages:
  "IsInitialized (registry_request g)" "IsInitialized (forwarded_call g mg ident call)"
  by (simp_all add: IsInitialized_def registry_request_def forwarded_call_def Command_new_def)

text \<open>Reading a message does not look at its target.\<close>

lemma target_getters:
  "cmd_of (c\<lparr>c_target_proxy_guid := x\<rparr>) = cmd_of c" "source_proxy_guid (c\<lparr>c_target_proxy_guid := x\<rparr>) = source_proxy_guid c"
  "cmd_identifier (c\<lparr>c_target_proxy_guid := x\<rparr>) = cmd_identifier c" "payload (c\<lparr>c_target_proxy_guid := x\<rparr>) = payload c"
  "guid_from (c\<lparr>c_target_proxy_guid := x\<rparr>) = guid_from c" "guid_to (c\<lparr>c_target_proxy_guid := x\<rparr>) = guid_to c"
  by (simp_all add: getter_defs)

section \<open>The messages of an exchange\<close>

definition registry_answer :: "Proxy \<Rightarrow> Command" where
  "registry_answer p = Command_new\<lparr>c_cmd := Some REGISTRY_EXCHANGE_RESPONSE, c_source_proxy_guid := Some (p_guid p),
     c_payload := Some ''here is my registry'', c_reg_entry := registry_entries (p_guid p) (p_localInvokeMethods p)\<rparr>"

definition passed_answer :: "string \<Rightarrow> Command \<Rightarrow> Command" where
  "passed_answer g resp = Command_new\<lparr>c_cmd := Some (cmd_of resp), c_payload := Some (payload resp), c_guid_from := Some (guid_from resp),
     c_guid_to := Some (guid_to resp), c_source_proxy_guid := Some g\<rparr>"

lemma passed_answer_fields:
  "cmd_of (passed_answer g resp) = cmd_of resp" "payload (passed_answer g resp) = payload resp" "guid_to (passed_answer g resp) = guid_to resp"
  "guid_from (passed_answer g resp) = guid_from resp"
  by (simp_all add: passed_answer_def getter_defs)

lemma initialized_answers: "IsInitialized (registry_answer p)" "IsInitialized (passed_answer g resp)"
  by (auto simp: IsInitialized_def registry_answer_def passed_answer_def registry_entries_def registry_entry_def
      RegistryEntry_IsInitialized_def list_all_iff Command_new_def)

lemma answers_request:
  assumes "guid_ok g" "cmd_of req = REGISTRY_EXCHANGE_REQUEST" "source_proxy_guid req = g"
  shows "SubscriberCallback e req k p = Inr (p\<lparr>p_outbox := p_outbox p @ [(g, registry_answer p)]\<rparr>)"
  using assms guid_block_topic [OF assms(1)]
  by (simp add: SubscriberCallback_def RegistryExchangeResponder_def publish_to_ok registry_answer_def)

lemma update_keeps:
  "RemoteRegistryUpdate e cmd p = Inr p' \<Longrightarrow> p_guid p' = p_guid p \<and> p_invokeResponses p' = p_invokeResponses p \<and> p_outbox p' = p_outbox p"
  unfolding RemoteRegistryUpdate_def
proof (erule fold_res_invariant [where I = "\<lambda>q. p_guid q = p_guid p \<and> p_invokeResponses q = p_invokeResponses p \<and> p_outbox q = p_outbox p"])
  fix r q q' assume q: "p_guid q = p_guid p \<and> p_invokeResponses q = p_invokeResponses p \<and> p_outbox q = p_outbox p" and "RemoteRegistryUpdate_entry e r q = Inr q'"
  then have "p_guid q' = p_guid q \<and> p_invokeResponses q' = p_invokeResponses q \<and> p_outbox q' = p_outbox q"
  proof (elim on_successD)
    show "on_success (\<lambda>q'. p_guid q' = p_guid q \<and> p_invokeResponses q' = p_invokeResponses q \<and> p_outbox q' = p_outbox q) (RemoteRegistryUpdate_entry e r q)"
      unfolding RemoteRegistryUpdate_entry_def Let_def
      by (intro on_success_intros) (simp_all add: on_success_def)
  qed
  with q show "p_guid q' = p_guid p \<and> p_invokeResponses q' = p_invokeResponses p \<and> p_outbox q' = p_outbox p" by simp
qed simp

text \<open>The answer of proxy \<open>A\<close> is stored at proxy \<open>B\<close>.\<close>

lemma stores_answer:
  assumes "proxy_inv A" "\<forall>r \<in> set (registry_entries (p_guid A) (p_localInvokeMethods A)). room_for (e_mem e) r" "cmd_of msg = REGISTRY_EXCHANGE_RESPONSE"
    and "c_reg_entry msg = registry_entries (p_guid A) (p_localInvokeMethods A)"
  shows "\<exists>B'. SubscriberCallback e msg k B = Inr B' \<and> RemoteRegistryUpdate e msg B = Inr B'"
proof -
  have "\<forall>r \<in> set (c_reg_entry msg). storable (e_mem e) r"
    using registry_entries_ok [of "p_localInvokeMethods A" "p_guid A"] assms(1,2,4) by (simp add: proxy_inv_def storable_def)
  from RemoteRegistryUpdate_all [OF this, of B] show ?thesis
    by (auto simp: SubscriberCallback_def assms(3) RemoteRegistryUpdate_def)
qed

lemma remote_identifier:
  assumes "proxy_inv p" "rt \<in> set (um_get [] (p_remoteInvokeMethods p) ident)" "no_nul ident"
  shows "rm_identifier rt = ident"
  using assms um_get_in_set [OF assms(2)] by (fastforce simp: proxy_inv_def remote_wf_def remote_vec_wf_def)

lemma invoke_message: "cmd_of call = INVOKE \<Longrightarrow> SubscriberCallback e call k p = Invoke e call p"
  by (simp add: SubscriberCallback_def)

lemma response_message: "cmd_of resp = RESPONSE \<Longrightarrow> SubscriberCallback e resp k p = InvokeResponse resp k p"
  by (simp add: SubscriberCallback_def)

lemma local_identifier:
  assumes "local_wf reg" "um_get [] reg k \<noteq> []"
  shows "no_nul k"
proof -
  obtain t where t: "t \<in> set (um_get [] reg k)" using assms(2) by (meson last_in_set)
  from um_get_in_set [OF this] obtain vec where "(k, vec) \<in> set reg" "t \<in> set vec" by blast
  with assms(1) show ?thesis by (auto simp: local_wf_def local_entry_wf_def)
qed

text \<open>What a call leaves behind at a proxy: its identity, and one entry in each of the tables of pending calls.\<close>

definition called :: "Proxy \<Rightarrow> Proxy \<Rightarrow> string \<Rightarrow> string \<Rightarrow> int \<Rightarrow> bool" where
  "called p p' ident caller now \<longleftrightarrow> p_guid p' = p_guid p \<and> p_invokeResponses p' = um_insert ident caller (p_invokeResponses p) \<and>
     p_invokeResponsesCallTime p' = um_insert ident (i32 now) (p_invokeResponsesCallTime p)"

lemma answered:
  assumes "called p p' (guid_to resp) caller now" "guid_ok caller" "proxy_inv p" "map_of (p_invokeResponses p) (guid_to resp) = None"
  shows "\<exists>p''. InvokeResponse resp k p' = Inr p'' \<and> p_outbox p'' = p_outbox p' @ [(caller, passed_answer (p_guid p) resp)] \<and>
    p_invokeResponses p'' = p_invokeResponses p \<and> p_invokeResponsesCallTime p'' = p_invokeResponsesCallTime p"
proof -
  have time: "map_of (p_invokeResponsesCallTime p) (guid_to resp) = None"
    using assms(3,4) unfolding proxy_inv_def pending_wf_def by (metis domIff)
  have "map_of (p_invokeResponses p') (guid_to resp) = Some caller" using assms(1,4) by (simp add: called_def)
  from InvokeResponse_known [OF this assms(2), of k, folded passed_answer_def] show ?thesis
    using assms(1) um_erase_insert [OF assms(4)] um_erase_insert [OF time] by (simp add: called_def)
qed

text \<open>
  The exchange.  \<open>B\<close> can store the answer when each block for an identifier of \<open>A\<close> happens to have a byte behind it
  (\<open>room_for\<close>); without it the copy of the identifier runs over.
\<close>

lemma exchange_heard:
  assumes rt: "message_runtime rt serialize parse"
    and inv: "proxy_inv A" "proxy_inv B" "\<forall>r \<in> set (registry_entries (p_guid A) (p_localInvokeMethods A)). room_for (e_mem e2) r"
    and fits: "Command_fits rt (registry_request (p_guid B))" "Command_fits rt (registry_answer A)"
  shows "\<exists>request answer B1. hears serialize parse A (p_guid A, registry_request (p_guid B)) = Some request \<and>
    SubscriberCallback e1 request k1 A = Inr (A\<lparr>p_outbox := p_outbox A @ [(p_guid B, registry_answer A)]\<rparr>) \<and>
    hears serialize parse B (p_guid B, registry_answer A) = Some answer \<and> SubscriberCallback e2 answer k2 B = Inr B1 \<and>
    RemoteRegistryUpdate e2 answer B = Inr B1 \<and> c_reg_entry answer = registry_entries (p_guid A) (p_localInvokeMethods A)"
proof -
  have guids: "guid_ok (p_guid A)" "guid_ok (p_guid B)" using inv(1,2) by (simp_all add: proxy_inv_def)
  define request where "request = (registry_request (p_guid B))\<lparr>c_target_proxy_guid := Some (p_guid A)\<rparr>"
  have request: "hears serialize parse A (p_guid A, registry_request (p_guid B)) = Some request"
    unfolding request_def by (rule hears_sent [OF rt fits(1) initialized_messages(1) guids(1)])
  have "cmd_of request = REGISTRY_EXCHANGE_REQUEST" "source_proxy_guid request = p_guid B"
    unfolding request_def target_getters by (simp_all add: registry_request_def getter_defs)
  note answers = answers_request [OF guids(2) this, of e1 k1 A]
  define answer where "answer = (registry_answer A)\<lparr>c_target_proxy_guid := Some (p_guid B)\<rparr>"
  have heard: "hears serialize parse B (p_guid B, registry_answer A) = Some answer"
    unfolding answer_def by (rule hears_sent [OF rt fits(2) initialized_answers(1) guids(2)])
  have "cmd_of answer = REGISTRY_EXCHANGE_RESPONSE" "c_reg_entry answer = registry_entries (p_guid A) (p_localInvokeMethods A)"
    by (simp_all add: answer_def registry_answer_def getter_defs)
  with stores_answer [OF inv(1,3) this, of k2 B] request answers heard show ?thesis by blast
qed

text \<open>The way to the node: the call that \<open>B\<close> passes to \<open>A\<close> and \<open>A\<close> to the node.\<close>

lemma call_heard:
  assumes rt: "message_runtime rt serialize parse"
    and inv: "proxy_inv A" "proxy_inv B"
    and methods: "um_get [] (p_localInvokeMethods A) (cmd_identifier call) \<noteq> []" "um_get [] (p_localInvokeMethods B) (cmd_identifier call) = []"
    and known: "um_get [] (p_remoteInvokeMethods B) (cmd_identifier call) = vec" "vec \<noteq> []" "m = vec ! (e_rand e1 mod length vec)" "rm_proxyGuid m = p_guid A"
    and fits: "Command_fits rt (forwarded_call (p_guid B) (rm_methodGuid m) (cmd_identifier call) call)"
  shows "\<exists>B1 out out' A1 t invoke. Invoke e1 call B = Inr B1 \<and> p_outbox B1 = p_outbox B @ [(p_guid A, out)] \<and>
    hears serialize parse A (p_guid A, out) = Some out' \<and> SubscriberCallback e2 out' k2 A = Inr A1 \<and>
    t \<in> set (um_get [] (p_localInvokeMethods A) (cmd_identifier call)) \<and>
    p_outbox A1 = p_outbox A @ [(take GUID_SIZE (local_guid_block (lm_nodeGuid t)), invoke)] \<and>
    cmd_of invoke = INVOKE \<and> guid_to invoke = lm_methodGuid t \<and> payload invoke = payload call \<and> guid_from invoke = guid_from call \<and>
    called A A1 (guid_from call) (p_guid B) (e_now e2) \<and> called B B1 (guid_from call) (source_proxy_guid call) (e_now e1)"
proof -
  let ?id = "cmd_identifier call"
  have guid: "guid_ok (p_guid A)" "guid_ok (rm_proxyGuid m)" and lw: "local_wf (p_localInvokeMethods A)"
    using inv(1) known(4) by (simp_all add: proxy_inv_def)
  from Invoke_remote_sends [OF methods(2) known(1-3) guid(2)] obtain B1 where
    B1: "Invoke e1 call B = Inr B1" "m \<in> set vec" "p_outbox B1 = p_outbox B @ [(p_guid A, forwarded_call (p_guid B) (rm_methodGuid m) (rm_identifier m) call)]"
      "called B B1 (guid_from call) (source_proxy_guid call) (e_now e1)" by (auto simp: known(4) called_def)
  have ident: "rm_identifier m = ?id" using remote_identifier [OF inv(2) _ local_identifier [OF lw methods(1)]] B1(2) known(1) by blast
  define out where "out = forwarded_call (p_guid B) (rm_methodGuid m) ?id call"
  define out' where "out' = out\<lparr>c_target_proxy_guid := Some (p_guid A)\<rparr>"
  have heard: "hears serialize parse A (p_guid A, out) = Some out'"
    unfolding out_def out'_def by (rule hears_sent [OF rt fits initialized_messages(2) guid(1)])
  have o': "cmd_of out' = INVOKE" "cmd_identifier out' = ?id" "source_proxy_guid out' = p_guid B" "payload out' = payload call" "guid_from out' = guid_from call"
    unfolding out'_def out_def target_getters by (simp_all add: forwarded_call_fields)
  have "um_get [] (p_localInvokeMethods A) (cmd_identifier out') = um_get [] (p_localInvokeMethods A) ?id" by (simp add: o'(2))
  from Invoke_local_sends [OF this methods(1) lw, of e2] o' obtain A1 t invoke where
    "Invoke e2 out' A = Inr A1" "t \<in> set (um_get [] (p_localInvokeMethods A) ?id)"
      "p_outbox A1 = p_outbox A @ [(take GUID_SIZE (local_guid_block (lm_nodeGuid t)), invoke)]"
      "cmd_of invoke = INVOKE" "guid_to invoke = lm_methodGuid t" "payload invoke = payload call" "guid_from invoke = guid_from call"
      "called A A1 (guid_from call) (p_guid B) (e_now e2)"
    by (auto simp: getter_defs called_def)
  then show ?thesis using B1(1,3,4) heard invoke_message [OF o'(1), of e2 k2 A]
    by (intro exI [of _ B1] exI [of _ out] exI [of _ out'] exI [of _ A1] exI [of _ t] exI [of _ invoke]) (simp add: out_def ident)
qed

text \<open>The way back.\<close>

lemma response_heard:
  assumes rt: "message_runtime rt serialize parse" and inv: "proxy_inv A" "proxy_inv B" "guid_ok caller"
    and A: "called A A1 (guid_to resp) (p_guid B) nowA" "map_of (p_invokeResponses A) (guid_to resp) = None"
    and B: "called B B1 (guid_to resp) caller nowB" "map_of (p_invokeResponses B) (guid_to resp) = None"
    and resp: "cmd_of resp = RESPONSE" and fits: "Command_fits rt (passed_answer (p_guid A) resp)"
  shows "\<exists>A2 back back' B2 reply. SubscriberCallback e3 resp k3 A1 = Inr A2 \<and> p_outbox A2 = p_outbox A1 @ [(p_guid B, back)] \<and>
    hears serialize parse B1 (p_guid B, back) = Some back' \<and> SubscriberCallback e4 back' k4 B1 = Inr B2 \<and>
    p_outbox B2 = p_outbox B1 @ [(caller, reply)] \<and> cmd_of reply = RESPONSE \<and> payload reply = payload resp \<and> guid_to reply = guid_to resp \<and>
    p_invokeResponses A2 = p_invokeResponses A \<and> p_invokeResponsesCallTime A2 = p_invokeResponsesCallTime A \<and>
    p_invokeResponses B2 = p_invokeResponses B \<and> p_invokeResponsesCallTime B2 = p_invokeResponsesCallTime B"
proof -
  have guid: "guid_ok (p_guid B)" using inv(2) by (simp add: proxy_inv_def)
  from answered [OF A(1) guid inv(1) A(2), of k3] obtain A2 where
    A2: "InvokeResponse resp k3 A1 = Inr A2" "p_outbox A2 = p_outbox A1 @ [(p_guid B, passed_answer (p_guid A) resp)]"
      "p_invokeResponses A2 = p_invokeResponses A" "p_invokeResponsesCallTime A2 = p_invokeResponsesCallTime A" by blast
  define rsp where "rsp = passed_answer (p_guid A) resp"
  define rsp' where "rsp' = rsp\<lparr>c_target_proxy_guid := Some (p_guid B1)\<rparr>"
  have h: "hears serialize parse B1 (p_guid B, rsp) = Some rsp'"
    unfolding rsp_def rsp'_def by (rule hears_sent [OF rt fits initialized_answers(2) guid])
  have f: "cmd_of rsp' = RESPONSE" "guid_to rsp' = guid_to resp" "payload rsp' = payload resp"
    unfolding rsp'_def rsp_def target_getters by (simp_all add: passed_answer_fields resp)
  from answered [of B B1 rsp' caller nowB k4] f(2) B inv(2,3) obtain B2 where
    B2: "InvokeResponse rsp' k4 B1 = Inr B2" "p_outbox B2 = p_outbox B1 @ [(caller, passed_answer (p_guid B) rsp')]"
      "p_invokeResponses B2 = p_invokeResponses B" "p_invokeResponsesCallTime B2 = p_invokeResponsesCallTime B" by auto
  have "SubscriberCallback e3 resp k3 A1 = Inr A2" "SubscriberCallback e4 rsp' k4 B1 = Inr B2"
    using A2(1) B2(1) response_message [OF resp] response_message [OF f(1)] by simp_all
  moreover have "cmd_of (passed_answer (p_guid B) rsp') = RESPONSE" "payload (passed_answer (p_guid B) rsp') = payload resp"
    "guid_to (passed_answer (p_guid B) rsp') = guid_to resp" using f by (simp_all add: passed_answer_fields)
  ultimately show ?thesis using A2(2-4) B2(2-4) h unfolding rsp_def by blast
qed

section \<open>Properties\<close>

text \<open>
  C3: A call crosses the bus and its answer comes back.  A call arrives at proxy \<open>B\<close>, which has no methods of its own under the
  identifier of the call but knows some of others, and picks one that proxy \<open>A\<close> announced; \<open>A\<close> has methods under the identifier.
  \<open>B\<close> publishes the call to \<open>A\<close>, which hears it and publishes it to the node of one of its methods,
  with the caller's payload and call id.  When the node responds, \<open>A\<close> publishes the response to \<open>B\<close>, and \<open>B\<close>, which hears
  it, publishes it to the caller with the payload of the response.  Afterwards no bookkeeping of the call is left at either
  proxy: both tables of pending calls are at both proxies what they were.
  Everything the proxies hear of each other went through its bytes on the wire.
\<close>

theorem call_crosses_the_bus:
  assumes rt: "message_runtime rt serialize parse"
    and inv: "proxy_inv A" "proxy_inv B"
    and methods: "um_get [] (p_localInvokeMethods A) (cmd_identifier call) \<noteq> []" "um_get [] (p_localInvokeMethods B) (cmd_identifier call) = []"
    and known: "um_get [] (p_remoteInvokeMethods B) (cmd_identifier call) = vec" "vec \<noteq> []" "m = vec ! (e_rand e1 mod length vec)" "rm_proxyGuid m = p_guid A"
    and call: "cmd_of call = INVOKE" "guid_ok (source_proxy_guid call)"
    and fresh: "map_of (p_invokeResponses A) (guid_from call) = None" "map_of (p_invokeResponses B) (guid_from call) = None"
    and resp: "cmd_of resp = RESPONSE" "guid_to resp = guid_from call"
    and fits: "Command_fits rt (forwarded_call (p_guid B) (rm_methodGuid m) (cmd_identifier call) call)" "Command_fits rt (passed_answer (p_guid A) resp)"
  shows "\<exists>B1 out out' A1 t invoke A2 back back' B2 reply.
    SubscriberCallback e1 call k1 B = Inr B1 \<and> p_outbox B1 = p_outbox B @ [(p_guid A, out)] \<and>
    hears serialize parse A (p_guid A, out) = Some out' \<and> SubscriberCallback e2 out' k2 A = Inr A1 \<and>
    t \<in> set (um_get [] (p_localInvokeMethods A) (cmd_identifier call)) \<and>
    p_outbox A1 = p_outbox A @ [(take GUID_SIZE (local_guid_block (lm_nodeGuid t)), invoke)] \<and>
    cmd_of invoke = INVOKE \<and> guid_to invoke = lm_methodGuid t \<and> payload invoke = payload call \<and> guid_from invoke = guid_from call \<and>
    SubscriberCallback e3 resp k3 A1 = Inr A2 \<and> p_outbox A2 = p_outbox A1 @ [(p_guid B, back)] \<and>
    hears serialize parse B1 (p_guid B, back) = Some back' \<and> SubscriberCallback e4 back' k4 B1 = Inr B2 \<and>
    p_outbox B2 = p_outbox B1 @ [(source_proxy_guid call, reply)] \<and>
    cmd_of reply = RESPONSE \<and> payload reply = payload resp \<and> guid_to reply = guid_from call \<and>
    p_invokeResponses A2 = p_invokeResponses A \<and> p_invokeResponsesCallTime A2 = p_invokeResponsesCallTime A \<and>
    p_invokeResponses B2 = p_invokeResponses B \<and> p_invokeResponsesCallTime B2 = p_invokeResponsesCallTime B"
proof -
  note to = call_heard [OF rt inv methods known fits(1), of e2 k2]
  from to obtain B1 out out' A1 t invoke where
    y: "Invoke e1 call B = Inr B1" "p_outbox B1 = p_outbox B @ [(p_guid A, out)]" "hears serialize parse A (p_guid A, out) = Some out'"
      "SubscriberCallback e2 out' k2 A = Inr A1" "t \<in> set (um_get [] (p_localInvokeMethods A) (cmd_identifier call))"
      "p_outbox A1 = p_outbox A @ [(take GUID_SIZE (local_guid_block (lm_nodeGuid t)), invoke)]" "cmd_of invoke = INVOKE" "guid_to invoke = lm_methodGuid t"
      "payload invoke = payload call" "guid_from invoke = guid_from call"
    and c: "called A A1 (guid_to resp) (p_guid B) (e_now e2)" "called B B1 (guid_to resp) (source_proxy_guid call) (e_now e1)"
    unfolding resp(2) by blast
  note fr = fresh [folded resp(2)]
  from response_heard [OF rt inv call(2) c(1) fr(1) c(2) fr(2) resp(1) fits(2), of e3 k3 e4 k4] obtain A2 rsp rsp' B2 reply where
    z: "SubscriberCallback e3 resp k3 A1 = Inr A2" "p_outbox A2 = p_outbox A1 @ [(p_guid B, rsp)]"
      "hears serialize parse B1 (p_guid B, rsp) = Some rsp'" "SubscriberCallback e4 rsp' k4 B1 = Inr B2"
      "p_outbox B2 = p_outbox B1 @ [(source_proxy_guid call, reply)]" "cmd_of reply = RESPONSE" "payload reply = payload resp" "guid_to reply = guid_from call"
      "p_invokeResponses A2 = p_invokeResponses A" "p_invokeResponsesCallTime A2 = p_invokeResponsesCallTime A"
      "p_invokeResponses B2 = p_invokeResponses B" "p_invokeResponsesCallTime B2 = p_invokeResponsesCallTime B"
    unfolding resp(2) by blast
  have "SubscriberCallback e1 call k1 B = Inr B1" using invoke_message [OF call(1)] y(1) by simp
  then show ?thesis using y(2-) z by (intro exI conjI)
qed

text \<open>The example: a second proxy, without methods of its own, that heard of the first one's.\<close>

definition sample_peer :: Proxy where
  "sample_peer = sample_proxy\<lparr>p_guid := ''1111111111111111'', p_localInvokeMethods := [],
     p_remoteInvokeMethods := [(''/sum'', [\<lparr>rm_identifier = ''/sum'', rm_proxyGuid = ''0000000000000000'',
       rm_methodGuid = ''BBBBBBBBBBBBBBBB'', rm_lastCheckTime = 999\<rparr>])]\<rparr>"

lemma sample_peer_inv: "proxy_inv sample_peer"
  using sample_proxy_inv by (simp add: proxy_inv_def sample_peer_def local_wf_def um_wf_def um_keys_def remote_wf_def remote_vec_wf_def
      remote_entry_wf_def no_nul_def GUID_SIZE_def)

lemma sample_fits:
  "Command_fits standard_runtime (forwarded_call (p_guid sample_peer) ''BBBBBBBBBBBBBBBB'' (cmd_identifier sample_call) sample_call)"
  "Command_fits standard_runtime (passed_answer (p_guid sample_proxy) sample_response)"
  by (auto simp: Command_fits_def RegistryEntry_fits_def fits_text_def fits_int_def standard_writes write_opt_def write_unknown_def varint_small u64_def
      RegistryEntry_Serialize_def Command_Serialize_def passed_answer_def forwarded_call_def
      getter_defs sample_defs sample_peer_def sample_proxy_def Command_new_def RegistryEntry_new_def um_get_def)

theorem call_crosses_the_bus_witness:
  "\<exists>B1 out out' A1 A2 back back' B2 reply.
    SubscriberCallback sample_env sample_call [] sample_peer = Inr B1 \<and> p_outbox B1 = [(''0000000000000000'', out)] \<and>
    hears (Command_Serialize standard_runtime) standard_parse sample_proxy (''0000000000000000'', out) = Some out' \<and>
    SubscriberCallback sample_env out' [] sample_proxy = Inr A1 \<and> SubscriberCallback sample_env sample_response [] A1 = Inr A2 \<and>
    hears (Command_Serialize standard_runtime) standard_parse B1 (''1111111111111111'', back) = Some back' \<and>
    SubscriberCallback sample_env back' [] B1 = Inr B2 \<and> p_outbox B2 = p_outbox B1 @ [(''CCCCCCCCCCCCCCCC'', reply)] \<and> payload reply = ''3'' \<and>
    p_invokeResponsesCallTime B2 = []"
proof -
  let ?m = "\<lparr>rm_identifier = ''/sum'', rm_proxyGuid = ''0000000000000000'', rm_methodGuid = ''BBBBBBBBBBBBBBBB'', rm_lastCheckTime = 999\<rparr>"
  have h: "um_get [] (p_localInvokeMethods sample_proxy) (cmd_identifier sample_call) \<noteq> []"
    "um_get [] (p_localInvokeMethods sample_peer) (cmd_identifier sample_call) = []"
    "um_get [] (p_remoteInvokeMethods sample_peer) (cmd_identifier sample_call) = [?m]" "[?m] \<noteq> []"
    "?m = [?m] ! (e_rand sample_env mod length [?m])" "rm_proxyGuid ?m = p_guid sample_proxy"
    "cmd_of sample_call = INVOKE" "guid_ok (source_proxy_guid sample_call)"
    "map_of (p_invokeResponses sample_proxy) (guid_from sample_call) = None" "map_of (p_invokeResponses sample_peer) (guid_from sample_call) = None"
    "cmd_of sample_response = RESPONSE" "guid_to sample_response = guid_from sample_call"
    by (simp_all add: sample_defs sample_proxy_def sample_peer_def um_get_def)
  have f: "Command_fits standard_runtime (forwarded_call (p_guid sample_peer) (rm_methodGuid ?m) (cmd_identifier sample_call) sample_call)"
    using sample_fits(1) by simp
  have v: "p_guid sample_proxy = ''0000000000000000''" "p_guid sample_peer = ''1111111111111111''" "p_outbox sample_peer = []"
    "source_proxy_guid sample_call = ''CCCCCCCCCCCCCCCC''" "payload sample_response = ''3''" "p_invokeResponsesCallTime sample_peer = []"
    by (simp_all add: sample_defs sample_proxy_def sample_peer_def)
  from call_crosses_the_bus [OF standard_messages sample_proxy_inv sample_peer_inv h f sample_fits(2), of "[]" sample_env "[]" sample_env "[]" sample_env "[]"]
  show ?thesis unfolding v append_Nil by blast
qed

end
