(* ===== verification/Sds.thy ===== *)
theory Sds
  imports ESB_Prelude
begin

text \<open>
  \<^verbatim>\<open>src/src/deps/hiredis/sds.c\<close>: the dynamic strings that hold the protocol reader's input, the
  output buffer of a connection and the arguments of a command.  A string is a header with the
  two \<^verbatim>\<open>int\<close> fields \<open>len\<close> and \<open>free\<close>, followed in the same allocation by \<open>len + free + 1\<close>
  bytes.  The model keeps the bytes of the allocation, so a read or write outside it is an
  \<open>OutOfBounds\<close> result, and a NULL result is \<open>OutOfMemory\<close>.
\<close>

section \<open>State\<close>

record sds =
  sds_len :: int
  sds_free :: int
  sds_buf :: "char list"

text \<open>\<^verbatim>\<open>sizeof(struct sdshdr)\<close>: two 32-bit integers.\<close>

definition SDSHDR :: nat where
  "SDSHDR = 8"

definition sdslen :: "sds \<Rightarrow> nat" where
  "sdslen s = u64 (sds_len s)"

definition sdsavail :: "sds \<Rightarrow> nat" where
  "sdsavail s = u64 (sds_free s)"

text \<open>The bytes of the string, and the shape every operation keeps.\<close>

definition sds_str :: "sds \<Rightarrow> char list" where
  "sds_str s = take (sdslen s) (sds_buf s)"

definition sds_wf :: "sds \<Rightarrow> bool" where
  "sds_wf s \<longleftrightarrow>
     0 \<le> sds_len s \<and> 0 \<le> sds_free s \<and> sds_len s + sds_free s \<le> INT_MAX \<and>
     length (sds_buf s) = nat (sds_len s) + nat (sds_free s) + 1 \<and>
     sds_buf s ! nat (sds_len s) = NUL"

section \<open>Operations\<close>

definition sdsnewlen :: "cmem \<Rightarrow> char list option \<Rightarrow> nat \<Rightarrow> sds res" where
  "sdsnewlen m init initlen =
     (case malloc m (u64 (int (SDSHDR + initlen + 1))) of
        None \<Rightarrow> Inl OutOfMemory
      | Some blk \<Rightarrow>
          bind_res
            (if initlen \<noteq> 0
             then (case init of
                     Some p \<Rightarrow> bind_res (peek p 0 initlen) (poke (drop SDSHDR blk) 0)
                   | None \<Rightarrow> poke (drop SDSHDR blk) 0 (replicate initlen NUL))
             else Inr (drop SDSHDR blk))
            (\<lambda>b. bind_res (poke b initlen [NUL])
               (\<lambda>b. Inr \<lparr>sds_len = i32 (int initlen), sds_free = 0, sds_buf = b\<rparr>)))"

definition sdsempty :: "cmem \<Rightarrow> sds res" where
  "sdsempty m = sdsnewlen m (Some [NUL]) 0"

definition sdsnew :: "cmem \<Rightarrow> char list option \<Rightarrow> sds res" where
  "sdsnew m init =
     bind_res (case init of None \<Rightarrow> Inr 0 | Some p \<Rightarrow> c_strlen p) (sdsnewlen m init)"

definition sdsdup :: "cmem \<Rightarrow> sds \<Rightarrow> sds res" where
  "sdsdup m s = sdsnewlen m (Some (sds_buf s)) (sdslen s)"

definition sdsupdatelen :: "sds \<Rightarrow> sds res" where
  "sdsupdatelen s =
     bind_res (c_strlen (sds_buf s)) (\<lambda>n. let reallen = i32 (int n) in
       Inr (s\<lparr>sds_free := i32 (sds_free s + (sds_len s - reallen)), sds_len := reallen\<rparr>))"

text \<open>
  The eight header bytes that precede the buffer move with it; the block handed to
  \<^verbatim>\<open>realloc\<close> therefore starts with \<open>SDSHDR\<close> bytes whose value is in the record's fields.
\<close>

definition sdsMakeRoomFor :: "cmem \<Rightarrow> sds \<Rightarrow> nat \<Rightarrow> sds res" where
  "sdsMakeRoomFor m s addlen =
     (if addlen \<le> sdsavail s then Inr s
      else
        let len = sdslen s; newlen = u64 (int (u64 (int (len + addlen))) * 2) in
        (case realloc m (replicate SDSHDR NUL @ sds_buf s) (u64 (int (SDSHDR + newlen + 1))) of
           None \<Rightarrow> Inl OutOfMemory
         | Some blk \<Rightarrow>
             Inr (s\<lparr>sds_free := i32 (int newlen - int len), sds_buf := drop SDSHDR blk\<rparr>)))"

definition sdsgrowzero :: "cmem \<Rightarrow> sds \<Rightarrow> nat \<Rightarrow> sds res" where
  "sdsgrowzero m s len =
     (let curlen = sdslen s in
      if len \<le> curlen then Inr s
      else bind_res (sdsMakeRoomFor m s (len - curlen)) (\<lambda>s.
        bind_res (poke (sds_buf s) curlen (replicate (len - curlen + 1) NUL)) (\<lambda>b.
          let totlen = u64 (i32 (sds_len s + sds_free s)) in
          Inr (s\<lparr>sds_buf := b, sds_len := i32 (int len),
                 sds_free := i32 (int totlen - i32 (int len))\<rparr>))))"

definition sdscatlen :: "cmem \<Rightarrow> sds \<Rightarrow> char list \<Rightarrow> nat \<Rightarrow> sds res" where
  "sdscatlen m s t len =
     (let curlen = sdslen s in
      bind_res (sdsMakeRoomFor m s len) (\<lambda>s.
      bind_res (peek t 0 len) (\<lambda>bs.
      bind_res (poke (sds_buf s) curlen bs) (\<lambda>b.
      bind_res (poke b (curlen + len) [NUL]) (\<lambda>b.
        Inr (s\<lparr>sds_len := i32 (int (curlen + len)),
               sds_free := i32 (sds_free s - int len), sds_buf := b\<rparr>))))))"

definition sdscat :: "cmem \<Rightarrow> sds \<Rightarrow> char list \<Rightarrow> sds res" where
  "sdscat m s t = bind_res (c_strlen t) (sdscatlen m s t)"

definition sdscpylen :: "cmem \<Rightarrow> sds \<Rightarrow> char list \<Rightarrow> nat \<Rightarrow> sds res" where
  "sdscpylen m s t len =
     (let totlen = u64 (i32 (sds_free s + sds_len s)) in
      bind_res
        (if totlen < len then sdsMakeRoomFor m s (u64 (int len - sds_len s)) else Inr s)
        (\<lambda>s. let totlen = u64 (i32 (sds_free s + sds_len s)) in
           bind_res (peek t 0 len) (\<lambda>bs.
           bind_res (poke (sds_buf s) 0 bs) (\<lambda>b.
           bind_res (poke b len [NUL]) (\<lambda>b.
             Inr (s\<lparr>sds_len := i32 (int len), sds_free := i32 (int totlen - int len),
                    sds_buf := b\<rparr>))))))"

definition sdscpy :: "cmem \<Rightarrow> sds \<Rightarrow> char list \<Rightarrow> sds res" where
  "sdscpy m s t = bind_res (c_strlen t) (sdscpylen m s t)"

text \<open>
  \<^verbatim>\<open>sdscatvprintf\<close>: \<open>out\<close> is the text that \<^verbatim>\<open>vsnprintf\<close> makes of the format and the arguments.
  The loop doubles a scratch buffer until the byte before its last one stays NUL.
\<close>

function vprintf_loop :: "cmem \<Rightarrow> string \<Rightarrow> nat \<Rightarrow> char list res" where
  "vprintf_loop m out buflen =
     (if buflen < 2 then Inl OutOfBounds
      else case malloc m buflen of
        None \<Rightarrow> Inl OutOfMemory
      | Some b0 \<Rightarrow>
          bind_res (poke b0 (buflen - 2) [NUL]) (\<lambda>b1.
          bind_res (poke b1 0 (take (buflen - 1) out @ [NUL])) (\<lambda>b2.
            if b2 ! (buflen - 2) \<noteq> NUL then vprintf_loop m out (buflen * 2) else Inr b2)))"
  by pat_completeness auto
termination
proof (relation "measure (\<lambda>(m, out, buflen). length out + 2 - buflen)", goal_cases)
  case 1
  then show ?case by simp
next
  case (2 m out buflen b0 b1 b2)
  then have b: "buflen \<ge> 2" "length b0 = buflen"
    "b1 = take (buflen - 2) b0 @ NUL # drop (buflen - 1) b0"
    by (auto simp: poke_def malloc_def Suc_diff_Suc numeral_2_eq_2 split: if_splits)
  from 2 b have b2: "b2 = take (buflen - 1) out @ NUL # drop (Suc (min (buflen - 1) (length out))) b1"
    by (auto simp: poke_def min_def split: if_splits)
  have "\<not> length out + 1 < buflen"
  proof
    assume short: "length out + 1 < buflen"
    with b2 b have "b2 ! (buflen - 2) = NUL"
      by (cases "length out = buflen - 2") (auto simp: nth_append)
    with 2 show False by simp
  qed
  with b show ?case by simp
qed

declare vprintf_loop.simps [simp del]

definition sdscatvprintf :: "cmem \<Rightarrow> sds \<Rightarrow> string \<Rightarrow> sds res" where
  "sdscatvprintf m s out = bind_res (vprintf_loop m out 16) (sdscat m s)"

text \<open>
  \<^verbatim>\<open>sdstrim\<close>.  \<^verbatim>\<open>strchr\<close> finds the terminator of the set as well, so NUL bytes of the string
  are trimmed too.
\<close>

definition in_cset :: "char list \<Rightarrow> char \<Rightarrow> bool" where
  "in_cset cset c \<longleftrightarrow> c \<in> set (c_str cset) \<or> c = NUL"

function trim_front :: "char list \<Rightarrow> char list \<Rightarrow> int \<Rightarrow> int \<Rightarrow> int res" where
  "trim_front cset buf sp end =
     (if sp \<le> end
      then bind_res (byte_at buf (nat sp))
             (\<lambda>c. if in_cset cset c then trim_front cset buf (sp + 1) end else Inr sp)
      else Inr sp)"
  by pat_completeness auto
termination
  by (relation "measure (\<lambda>(cset, buf, sp, end). nat (end + 1 - sp))") auto

function trim_back :: "char list \<Rightarrow> char list \<Rightarrow> int \<Rightarrow> int res" where
  "trim_back cset buf ep =
     (if ep > 0
      then bind_res (byte_at buf (nat ep))
             (\<lambda>c. if in_cset cset c then trim_back cset buf (ep - 1) else Inr ep)
      else Inr ep)"
  by pat_completeness auto
termination
  by (relation "measure (\<lambda>(cset, buf, ep). nat ep)") auto

declare trim_front.simps [simp del] trim_back.simps [simp del]

definition sdstrim :: "sds \<Rightarrow> char list \<Rightarrow> sds res" where
  "sdstrim s cset =
     (let end = int (sdslen s) - 1 in
      bind_res (trim_front cset (sds_buf s) 0 end) (\<lambda>sp.
      bind_res (trim_back cset (sds_buf s) end) (\<lambda>ep.
        let len = (if sp > ep then 0 else nat (ep - sp + 1)) in
        bind_res (if sp \<noteq> 0 then bind_res (peek (sds_buf s) (nat sp) len) (poke (sds_buf s) 0)
                  else Inr (sds_buf s)) (\<lambda>b.
        bind_res (poke b len [NUL]) (\<lambda>b.
          Inr (s\<lparr>sds_free := i32 (sds_free s + (sds_len s - int len)),
                 sds_len := i32 (int len), sds_buf := b\<rparr>))))))"

text \<open>
  \<^verbatim>\<open>sdsrange\<close>.  \<open>range_bounds\<close> is the clamping of the two indices: it yields the start
  offset and the length of the kept part.
\<close>

definition range_bounds :: "nat \<Rightarrow> int \<Rightarrow> int \<Rightarrow> int \<times> int" where
  "range_bounds len start0 end0 =
     (let start1 = (if start0 < 0 then i32 (int len + start0) else start0);
          start2 = (if start0 < 0 \<and> start1 < 0 then 0 else start1);
          end1 = (if end0 < 0 then i32 (int len + end0) else end0);
          end2 = (if end0 < 0 \<and> end1 < 0 then 0 else end1);
          newlen = (if start2 > end2 then 0 else end2 - start2 + 1)
      in if newlen \<noteq> 0
         then if start2 \<ge> i32 (int len) then (start2, 0)
              else if end2 \<ge> i32 (int len)
              then let end3 = i32 (int len) - 1 in
                   (start2, if start2 > end3 then 0 else end3 - start2 + 1)
              else (start2, newlen)
         else (0, 0))"

definition sdsrange :: "sds \<Rightarrow> int \<Rightarrow> int \<Rightarrow> sds res" where
  "sdsrange s start0 end0 =
     (if sdslen s = 0 then Inr s
      else let (start, newlen) = range_bounds (sdslen s) start0 end0 in
        bind_res (if start \<noteq> 0 \<and> newlen \<noteq> 0
                  then bind_res (peek (sds_buf s) (nat start) (nat newlen)) (poke (sds_buf s) 0)
                  else Inr (sds_buf s)) (\<lambda>b.
        bind_res (poke b (nat newlen) [NUL]) (\<lambda>b.
          Inr (s\<lparr>sds_free := i32 (sds_free s + (sds_len s - newlen)),
                 sds_len := i32 newlen, sds_buf := b\<rparr>))))"

section \<open>Correctness\<close>

lemma sds_wfD:
  assumes "sds_wf s"
  shows "sdslen s = nat (sds_len s)" "sdsavail s = nat (sds_free s)"
    "length (sds_buf s) = sdslen s + sdsavail s + 1" "sds_buf s ! sdslen s = NUL"
    "length (sds_str s) = sdslen s" "int (sdslen s) = sds_len s" "int (sdsavail s) = sds_free s"
    "sdslen s + sdsavail s \<le> 2147483647"
  using assms by (auto simp: sds_wf_def sdslen_def sdsavail_def sds_str_def INT_MAX_def width_simps)

lemma sds_wfI:
  assumes "sds_len s = int n" "sds_free s = int k" "n + k \<le> 2147483647"
    "length (sds_buf s) = n + k + 1" "sds_buf s ! n = NUL"
  shows "sds_wf s" "sds_str s = take n (sds_buf s)" "sdslen s = n" "sdsavail s = k"
  using assms by (auto simp: sds_wf_def INT_MAX_def sds_str_def sdslen_def sdsavail_def width_simps)

text \<open>Doubling the length does not leave the range of \<^verbatim>\<open>int\<close>.\<close>

definition sds_room :: "sds \<Rightarrow> nat \<Rightarrow> bool" where
  "sds_room s n \<longleftrightarrow> 2 * (sdslen s + n) \<le> 2147483647"

lemma sdsnewlen_yields:
  assumes "n \<le> 2147483647" and "case init of Some p \<Rightarrow> n \<le> length p | None \<Rightarrow> True"
  shows "yields m (sdsnewlen m init n)
    (\<lambda>s. sds_wf s \<and> sdsavail s = 0 \<and>
         sds_str s = (case init of Some p \<Rightarrow> take n p | None \<Rightarrow> replicate n NUL))"
proof -
  have sz: "u64 (int (SDSHDR + n + 1)) = n + 9"
    using assms(1) by (simp add: SDSHDR_def u64_def nat_add_distrib)
  show ?thesis
    unfolding sdsnewlen_def sz
  proof (rule yields_malloc, rule yields_bind)
    fix blk :: "char list" assume blk: "length blk = n + 9"
    let ?data = "case init of Some p \<Rightarrow> take n p | None \<Rightarrow> replicate n NUL"
    show "yields m
      (if n \<noteq> 0
       then (case init of
               Some p \<Rightarrow> bind_res (peek p 0 n) (poke (drop SDSHDR blk) 0)
             | None \<Rightarrow> poke (drop SDSHDR blk) 0 (replicate n NUL))
       else Inr (drop SDSHDR blk))
      (\<lambda>b. length b = n + 1 \<and> take n b = ?data)"
      using assms(2) blk by (auto simp: SDSHDR_def peek_def poke_def split: option.splits)
    fix b :: "char list" assume b: "length b = n + 1 \<and> take n b = ?data"
    obtain d where d: "d = ?data" "length d = n"
      using assms(2) by (auto split: option.splits)
    from b show "yields m (bind_res (poke b n [NUL])
        (\<lambda>b. Inr \<lparr>sds_len = i32 (int n), sds_free = 0, sds_buf = b\<rparr>))
      (\<lambda>s. sds_wf s \<and> sdsavail s = 0 \<and> sds_str s = ?data)"
      using assms(1) d(2) unfolding d(1) [symmetric]
      by (auto simp: poke_def sds_wf_def sds_str_def sdslen_def sdsavail_def INT_MAX_def
          width_simps nth_append)
  qed
qed

lemma sdsempty_yields: "yields m (sdsempty m) (\<lambda>s. sds_wf s \<and> sdsavail s = 0 \<and> sds_str s = [])"
  unfolding sdsempty_def using sdsnewlen_yields [of 0 "Some [NUL]" m] by simp

lemma sdsdup_yields:
  assumes "sds_wf s"
  shows "yields m (sdsdup m s) (\<lambda>s'. sds_wf s' \<and> sdsavail s' = 0 \<and> sds_str s' = sds_str s)"
  unfolding sdsdup_def
  using sdsnewlen_yields [of "sdslen s" "Some (sds_buf s)" m] sds_wfD [OF assms]
  by (simp add: sds_str_def)

lemma sdsMakeRoomFor_yields:
  assumes wf: "sds_wf s" and room: "sds_room s n"
  shows "yields m (sdsMakeRoomFor m s n)
    (\<lambda>s'. sds_wf s' \<and> sdslen s' = sdslen s \<and> sds_str s' = sds_str s \<and> n \<le> sdsavail s')"
proof (cases "n \<le> sdsavail s")
  case True
  then show ?thesis by (simp add: sdsMakeRoomFor_def wf)
next
  case False
  note D = sds_wfD [OF wf]
  have newlen: "u64 (int (u64 (int (sdslen s + n))) * 2) = 2 * (sdslen s + n)"
    using room by (simp add: sds_room_def u64_def)
  have sz: "u64 (int (SDSHDR + 2 * (sdslen s + n) + 1)) = 8 + (2 * (sdslen s + n) + 1)"
    using room by (simp add: sds_room_def u64_def SDSHDR_def nat_add_distrib)
  have free: "i32 (int (2 * (sdslen s + n)) - int (sdslen s)) = int (sdslen s + 2 * n)"
    using room by (simp add: sds_room_def width_simps)
  show ?thesis
    unfolding sdsMakeRoomFor_def Let_def newlen sz free
  proof (simp only: False if_False, rule yields_realloc)
    fix junk :: "char list"
    let ?N = "8 + (2 * (sdslen s + n) + 1)" and ?old = "replicate SDSHDR NUL @ sds_buf s"
    assume junk: "length junk = ?N - length ?old"
    define b where "b = drop SDSHDR (take ?N ?old @ junk)"
    define t where "t = s\<lparr>sds_free := int (sdslen s + 2 * n), sds_buf := b\<rparr>"
    have len: "length b = 2 * (sdslen s + n) + 1"
      using junk by (auto simp: SDSHDR_def b_def)
    have pre: "take (Suc (sdslen s)) b = take (Suc (sdslen s)) (sds_buf s)"
      using False D(3) by (simp add: SDSHDR_def b_def)
    have nul: "b ! sdslen s = NUL"
      by (metis D(4) lessI nth_take pre)
    have str: "take (sdslen s) b = sds_str s"
      using arg_cong [OF pre, of "take (sdslen s)"] by (simp add: sds_str_def min_def)
    have t: "sds_len t = int (sdslen s)" "sds_free t = int (sdslen s + 2 * n)" "sds_buf t = b"
      using D(6) by (simp_all add: t_def)
    have sum: "sdslen s + (sdslen s + 2 * n) \<le> 2147483647"
      "length (sds_buf t) = sdslen s + (sdslen s + 2 * n) + 1" "sds_buf t ! sdslen s = NUL"
      using room len nul t(3) by (simp_all add: sds_room_def)
    have "yields m (Inr t)
      (\<lambda>s'. sds_wf s' \<and> sdslen s' = sdslen s \<and> sds_str s' = sds_str s \<and> n \<le> sdsavail s')"
      using sds_wfI [OF t(1,2) sum] str t(3) by simp
    then show "yields m
      (Inr (s\<lparr>sds_free := int (sdslen s + 2 * n), sds_buf := drop SDSHDR (take ?N ?old @ junk)\<rparr>))
      (\<lambda>s'. sds_wf s' \<and> sdslen s' = sdslen s \<and> sds_str s' = sds_str s \<and> n \<le> sdsavail s')"
      by (simp only: t_def b_def)
  qed
qed

text \<open>
  The last step of every operation: the buffer holds the new contents and a terminator, and
  the header is set so that length and free space still add up to the allocation.
\<close>

lemma sds_store:
  assumes wf: "sds_wf s" and n: "n \<le> sdslen s + sdsavail s"
    and b: "length b = length (sds_buf s)" "b ! n = NUL" "take n b = c"
    and t: "sds_len t = int n" "sds_free t = sds_free s + (sds_len s - int n)" "sds_buf t = b"
  shows "sds_wf t \<and> sds_str t = c \<and> sdslen t + sdsavail t = sdslen s + sdsavail s"
proof -
  note D = sds_wfD [OF wf]
  have free: "sds_free t = int (sdslen s + sdsavail s - n)"
    using t(2) n D(6,7) by linarith
  have len: "n + (sdslen s + sdsavail s - n) \<le> 2147483647"
    "length (sds_buf t) = n + (sdslen s + sdsavail s - n) + 1" "sds_buf t ! n = NUL"
    using n D(3,8) b t(3) by simp_all
  show ?thesis
    using sds_wfI [OF t(1) free len] b(3) t(3) n by simp
qed

lemma sdscatlen_yields:
  assumes wf: "sds_wf s" and room: "sds_room s n" and t: "n \<le> length t"
  shows "yields m (sdscatlen m s t n) (\<lambda>s'. sds_wf s' \<and> sds_str s' = sds_str s @ take n t)"
  unfolding sdscatlen_def Let_def
proof (rule yields_bind [OF sdsMakeRoomFor_yields [OF wf room]])
  fix s1 assume s1: "sds_wf s1 \<and> sdslen s1 = sdslen s \<and> sds_str s1 = sds_str s \<and> n \<le> sdsavail s1"
  note D = sds_wfD [of s1]
  define b where
    "b = take (sdslen s) (sds_buf s1) @ take n t @ NUL # drop (sdslen s + n + 1) (sds_buf s1)"
  define r where
    "r = s1\<lparr>sds_len := int (sdslen s + n), sds_free := sds_free s1 - int n, sds_buf := b\<rparr>"
  have lens: "length (sds_buf s1) = sdslen s + sdsavail s1 + 1" "sdslen s + n \<le> 2147483647"
    "0 \<le> sds_free s1 - int n" "sds_free s1 - int n \<le> 2147483647" "sds_len s1 = int (sdslen s)"
    using s1 D(3,6,7,8) room by (auto simp: sds_room_def)
  have b: "length b = length (sds_buf s1)" "b ! (sdslen s + n) = NUL"
    "take (sdslen s + n) b = sds_str s @ take n t"
    using s1 t lens(1) by (auto simp: b_def nth_append sds_str_def min_def)
  have eq: "bind_res (peek t 0 n) (\<lambda>bs. bind_res (poke (sds_buf s1) (sdslen s) bs)
      (\<lambda>b. bind_res (poke b (sdslen s + n) [NUL]) (\<lambda>b.
        Inr (s1\<lparr>sds_len := i32 (int (sdslen s + n)), sds_free := i32 (sds_free s1 - int n),
                sds_buf := b\<rparr>)))) = Inr r"
    using s1 t lens by (simp add: mem_simps width_simps r_def b_def min_def ac_simps del: of_nat_add)
  have "sds_wf r \<and> sds_str r = sds_str s @ take n t \<and> sdslen r + sdsavail r = sdslen s1 + sdsavail s1"
  proof (rule sds_store [OF _ _ b])
    show "sds_wf s1" "sdslen s + n \<le> sdslen s1 + sdsavail s1" using s1 by simp_all
    show "sds_len r = int (sdslen s + n)" "sds_buf r = b" by (simp_all add: r_def)
    show "sds_free r = sds_free s1 + (sds_len s1 - int (sdslen s + n))"
      using lens(5) by (simp add: r_def)
  qed
  with eq show "yields m (bind_res (peek t 0 n) (\<lambda>bs. bind_res (poke (sds_buf s1) (sdslen s) bs)
      (\<lambda>b. bind_res (poke b (sdslen s + n) [NUL]) (\<lambda>b.
        Inr (s1\<lparr>sds_len := i32 (int (sdslen s + n)), sds_free := i32 (sds_free s1 - int n),
                sds_buf := b\<rparr>)))))
    (\<lambda>s'. sds_wf s' \<and> sds_str s' = sds_str s @ take n t)"
    by simp
qed

lemma sdsgrowzero_yields:
  assumes wf: "sds_wf s" and n: "2 * n \<le> 2147483647"
  shows "yields m (sdsgrowzero m s n) (\<lambda>s'. sds_wf s' \<and>
    sds_str s' = sds_str s @ replicate (n - sdslen s) NUL)"
proof (cases "n \<le> sdslen s")
  case True
  then show ?thesis by (simp add: sdsgrowzero_def wf)
next
  case False
  then have room: "sds_room s (n - sdslen s)" using n by (simp add: sds_room_def)
  have "yields m (bind_res (sdsMakeRoomFor m s (n - sdslen s)) (\<lambda>s1.
        bind_res (poke (sds_buf s1) (sdslen s) (replicate (n - sdslen s + 1) NUL)) (\<lambda>b.
          let totlen = u64 (i32 (sds_len s1 + sds_free s1)) in
          Inr (s1\<lparr>sds_buf := b, sds_len := i32 (int n),
                 sds_free := i32 (int totlen - i32 (int n))\<rparr>))))
    (\<lambda>s'. sds_wf s' \<and> sds_str s' = sds_str s @ replicate (n - sdslen s) NUL)"
  proof (rule yields_bind [OF sdsMakeRoomFor_yields [OF wf room]])
    fix s1 assume s1: "sds_wf s1 \<and> sdslen s1 = sdslen s \<and> sds_str s1 = sds_str s \<and>
      n - sdslen s \<le> sdsavail s1"
    note D = sds_wfD [of s1]
    define b where "b = take (sdslen s) (sds_buf s1) @ replicate (n - sdslen s) NUL @
      NUL # drop (n + 1) (sds_buf s1)"
    define r where "r = s1\<lparr>sds_buf := b, sds_len := int n,
      sds_free := sds_free s1 + (sds_len s1 - int n)\<rparr>"
    have lens: "length (sds_buf s1) = sdslen s + sdsavail s1 + 1"
      "sds_len s1 = int (sdslen s)" "sds_free s1 = int (sdsavail s1)"
      "sdslen s + sdsavail s1 \<le> 2147483647"
      using s1 D(3,6,7,8) by auto
    have b: "length b = length (sds_buf s1)" "b ! n = NUL"
      "take n b = sds_str s @ replicate (n - sdslen s) NUL"
      using s1 lens(1) False by (auto simp: b_def nth_append sds_str_def)
    have poke: "poke (sds_buf s1) (sdslen s) (replicate (n - sdslen s + 1) NUL) = Inr b"
      using s1 lens(1) False by (auto simp: poke_def b_def replicate_app_Cons_same)
    have eq: "bind_res (poke (sds_buf s1) (sdslen s) (replicate (n - sdslen s + 1) NUL)) (\<lambda>b.
          let totlen = u64 (i32 (sds_len s1 + sds_free s1)) in
          Inr (s1\<lparr>sds_buf := b, sds_len := i32 (int n),
                 sds_free := i32 (int totlen - i32 (int n))\<rparr>)) = Inr r"
      unfolding poke using lens n by (simp add: width_simps r_def)
    have "n \<le> sdslen s1 + sdsavail s1" using s1 by linarith
    then have "sds_wf r \<and> sds_str r = sds_str s @ replicate (n - sdslen s) NUL \<and>
        sdslen r + sdsavail r = sdslen s1 + sdsavail s1"
      by (intro sds_store [OF _ _ b]) (use s1 in \<open>simp_all add: r_def\<close>)
    with eq show "yields m (bind_res
        (poke (sds_buf s1) (sdslen s) (replicate (n - sdslen s + 1) NUL)) (\<lambda>b.
          let totlen = u64 (i32 (sds_len s1 + sds_free s1)) in
          Inr (s1\<lparr>sds_buf := b, sds_len := i32 (int n),
                 sds_free := i32 (int totlen - i32 (int n))\<rparr>)))
      (\<lambda>s'. sds_wf s' \<and> sds_str s' = sds_str s @ replicate (n - sdslen s) NUL)"
      by simp
  qed
  with False show ?thesis by (simp add: sdsgrowzero_def Let_def)
qed

lemma sdscpylen_yields:
  assumes wf: "sds_wf s" and n: "2 * n \<le> 2147483647" "n \<le> length t"
  shows "yields m (sdscpylen m s t n) (\<lambda>s'. sds_wf s' \<and> sds_str s' = take n t)"
proof -
  note W = sds_wfD [OF wf]
  have tot: "u64 (i32 (sds_free s + sds_len s)) = sdslen s + sdsavail s"
    using W(6,7,8) by (simp add: width_simps flip: W(6,7))
  have grow: "yields m
    (if sdslen s + sdsavail s < n then sdsMakeRoomFor m s (u64 (int n - sds_len s)) else Inr s)
    (\<lambda>s'. sds_wf s' \<and> n \<le> sdslen s' + sdsavail s')"
  proof (cases "sdslen s + sdsavail s < n")
    case True
    then have k: "u64 (int n - sds_len s) = n - sdslen s"
      using n(1) by (simp add: width_simps nat_diff_distrib' flip: W(6))
    have "sds_room s (n - sdslen s)" using True n(1) by (simp add: sds_room_def)
    then show ?thesis unfolding k
      using True by (auto intro!: yields_mono [OF sdsMakeRoomFor_yields [OF wf]])
  next
    case False
    then show ?thesis using wf by simp
  qed
  show ?thesis
    unfolding sdscpylen_def Let_def tot
  proof (rule yields_bind [OF grow])
    fix s1 assume s1: "sds_wf s1 \<and> n \<le> sdslen s1 + sdsavail s1"
    note D = sds_wfD [of s1]
    define b where "b = take n t @ NUL # drop (n + 1) (sds_buf s1)"
    define r where "r = s1\<lparr>sds_len := int n, sds_free := sds_free s1 + (sds_len s1 - int n),
      sds_buf := b\<rparr>"
    have lens: "length (sds_buf s1) = sdslen s1 + sdsavail s1 + 1" "sds_len s1 = int (sdslen s1)"
      "sds_free s1 = int (sdsavail s1)" "sdslen s1 + sdsavail s1 \<le> 2147483647"
      using s1 D(3,6,7,8) by auto
    have b: "length b = length (sds_buf s1)" "b ! n = NUL" "take n b = take n t"
      using s1 lens(1) n(2) by (auto simp: b_def nth_append)
    have eq: "bind_res (peek t 0 n) (\<lambda>bs. bind_res (poke (sds_buf s1) 0 bs) (\<lambda>b.
        bind_res (poke b n [NUL]) (\<lambda>b. Inr (s1\<lparr>sds_len := i32 (int n),
          sds_free := i32 (int (u64 (i32 (sds_free s1 + sds_len s1))) - int n), sds_buf := b\<rparr>))))
      = Inr r"
      using s1 n lens
      by (simp add: mem_simps width_simps r_def b_def)
    have "sds_wf r \<and> sds_str r = take n t \<and> sdslen r + sdsavail r = sdslen s1 + sdsavail s1"
      by (rule sds_store [OF _ _ b]) (use s1 in \<open>simp_all add: r_def\<close>)
    with eq show "yields m (bind_res (peek t 0 n) (\<lambda>bs. bind_res (poke (sds_buf s1) 0 bs) (\<lambda>b.
        bind_res (poke b n [NUL]) (\<lambda>b. Inr (s1\<lparr>sds_len := i32 (int n),
          sds_free := i32 (int (u64 (i32 (sds_free s1 + sds_len s1))) - int n), sds_buf := b\<rparr>)))))
      (\<lambda>s'. sds_wf s' \<and> sds_str s' = take n t)"
      by simp
  qed
qed

text \<open>
  The formatting loop: whatever the scratch buffers held, it returns a NUL-terminated copy of
  the formatted text (cut at its first NUL).
\<close>

lemma vprintf_result:
  assumes "2 \<le> buflen" "length b1 = buflen" "b1 ! (buflen - 2) = NUL"
    and "poke b1 0 (take (buflen - 1) out @ [NUL]) = Inr b2" "b2 ! (buflen - 2) = NUL"
  shows "NUL \<in> set b2 \<and> c_str b2 = c_str out"
proof (cases "length out \<le> buflen - 1")
  case True
  with assms(1,2,4) have "b2 = out @ NUL # drop (Suc (length out)) b1"
    by (auto simp: poke_def split: if_splits)
  then show ?thesis by simp
next
  case False
  with assms(1,2,4) have b2: "b2 = take (buflen - 1) out @ [NUL]"
    by (auto simp: poke_def split: if_splits)
  have lt: "buflen - 2 < length (take (buflen - 1) out)" using assms(1) False by simp
  moreover have "take (buflen - 1) out ! (buflen - 2) = NUL"
    using assms(5) b2 lt by (metis nth_append)
  ultimately have "take (buflen - 1) out ! (buflen - 2) = NUL"
    "buflen - 2 < length (take (buflen - 1) out)"
    by simp_all
  then have "NUL \<in> set (take (buflen - 1) out)"
    by (metis nth_mem)
  then show ?thesis using b2 by (simp add: c_str_take)
qed

lemma vprintf_loop_yields:
  "2 \<le> buflen \<Longrightarrow> yields m (vprintf_loop m out buflen) (\<lambda>b. NUL \<in> set b \<and> c_str b = c_str out)"
proof (induction m out buflen rule: vprintf_loop.induct)
  case (1 m out buflen)
  then have len: "\<not> buflen < 2" by simp
  have "yields m (case malloc m buflen of None \<Rightarrow> Inl OutOfMemory | Some b0 \<Rightarrow>
      bind_res (poke b0 (buflen - 2) [NUL]) (\<lambda>b1.
      bind_res (poke b1 0 (take (buflen - 1) out @ [NUL])) (\<lambda>b2.
        if b2 ! (buflen - 2) \<noteq> NUL then vprintf_loop m out (buflen * 2) else Inr b2)))
    (\<lambda>b. NUL \<in> set b \<and> c_str b = c_str out)"
  proof (cases "malloc m buflen")
    case None
    then show ?thesis by (auto simp: malloc_def yields_def split: if_splits)
  next
    case (Some b0)
    then have b0: "length b0 = buflen" by (simp add: malloc_Some)
    obtain b1 where b1: "poke b0 (buflen - 2) [NUL] = Inr b1" "length b1 = buflen"
      "b1 ! (buflen - 2) = NUL"
    proof -
      have "Suc (buflen - 2) \<le> length b0" using b0 len by simp
      with that [of "take (buflen - 2) b0 @ [NUL] @ drop (Suc (buflen - 2)) b0"] b0
      show thesis by (simp add: poke_def nth_append)
    qed
    have "0 + length (take (buflen - 1) out @ [NUL]) \<le> length b1"
      using b1(2) len by (auto simp: min_def)
    then obtain b2 where b2: "poke b1 0 (take (buflen - 1) out @ [NUL]) = Inr b2"
      using poke_total by blast
    show ?thesis
    proof (cases "b2 ! (buflen - 2) = NUL")
      case True
      with vprintf_result [OF 1(2) b1(2,3) b2] Some b1 b2 show ?thesis by simp
    next
      case False
      with 1(1) [OF len Some b1(1) b2 False] Some b1 b2 len show ?thesis by simp
    qed
  qed
  with len show ?case by (subst vprintf_loop.simps) simp
qed

lemma sdscatvprintf_yields:
  assumes wf: "sds_wf s" and room: "sds_room s (length (c_str out))"
  shows "yields m (sdscatvprintf m s out) (\<lambda>s'. sds_wf s' \<and> sds_str s' = sds_str s @ c_str out)"
  unfolding sdscatvprintf_def
proof (rule yields_bind [OF vprintf_loop_yields])
  fix b assume b: "NUL \<in> set b \<and> c_str b = c_str out"
  have "take (length (c_str b)) b = c_str b"
    unfolding c_str_def by (metis takeWhile_eq_take)
  with b sdscatlen_yields [OF wf room, of b m] length_c_str [of b]
  show "yields m (sdscat m s b) (\<lambda>s'. sds_wf s' \<and> sds_str s' = sds_str s @ c_str out)"
    by (simp add: sdscat_def c_strlen_def)
qed simp

text \<open>
  \<open>sdsrange\<close> against the reference: the part of the string between two positions, negative
  positions counting from the end.  \<open>range_ref\<close> is written with \<open>take\<close> and \<open>drop\<close> only.
\<close>

definition range_pos :: "nat \<Rightarrow> int \<Rightarrow> nat" where
  "range_pos len i = nat (if i < 0 then int len + i else i)"

definition range_ref :: "char list \<Rightarrow> int \<Rightarrow> int \<Rightarrow> char list" where
  "range_ref xs start0 end0 =
     (let a = range_pos (length xs) start0; b = range_pos (length xs) end0
      in take (Suc b - a) (drop a xs))"

lemma range_bounds_ref:
  assumes len: "0 < len" "len \<le> 2147483647"
    and ab: "-2147483648 \<le> a" "a \<le> 2147483647" "-2147483648 \<le> b" "b \<le> 2147483647"
    and r: "range_bounds len a b = (start, newlen)"
  shows "0 \<le> newlen" "0 \<le> start" "newlen = 0 \<or> start + newlen \<le> int len"
    "int (min (Suc (range_pos len b) - range_pos len a) (len - range_pos len a)) = newlen"
    "newlen \<noteq> 0 \<longrightarrow> nat start = range_pos len a"
proof -
  have i: "i32 (int len + x) = int len + x" if "-2147483648 \<le> x" "x < 0" for x
    using that len by (simp add: width_simps)
  have l: "i32 (int len) = int len" using len by (simp add: width_simps)
  show "0 \<le> newlen" "0 \<le> start" "newlen = 0 \<or> start + newlen \<le> int len"
    "int (min (Suc (range_pos len b) - range_pos len a) (len - range_pos len a)) = newlen"
    "newlen \<noteq> 0 \<longrightarrow> nat start = range_pos len a"
    using r ab len
    by (auto simp: range_bounds_def range_pos_def Let_def i l split: if_splits)
qed

lemma sdsrange_correct:
  assumes wf: "sds_wf s"
    and ab: "-2147483648 \<le> a" "a \<le> 2147483647" "-2147483648 \<le> b" "b \<le> 2147483647"
  shows "\<exists>s'. sdsrange s a b = Inr s' \<and> sds_wf s' \<and> sds_str s' = range_ref (sds_str s) a b \<and>
    sdslen s' + sdsavail s' = sdslen s + sdsavail s"
proof (cases "sdslen s = 0")
  case True
  with wf show ?thesis by (simp add: sdsrange_def sds_str_def range_ref_def)
next
  case False
  note D = sds_wfD [OF wf]
  obtain start newlen where r: "range_bounds (sdslen s) a b = (start, newlen)" by fastforce
  from False D(8) have len: "0 < sdslen s" "sdslen s \<le> 2147483647" by auto
  note R = range_bounds_ref [OF len ab r]
  define k where "k = nat newlen"
  define o' where "o' = range_pos (sdslen s) a"
  have k: "newlen = int k" "k \<le> sdslen s" "k = 0 \<or> o' + k \<le> sdslen s" "k \<noteq> 0 \<Longrightarrow> nat start = o'"
    using R by (auto simp: k_def o'_def)
  have ref: "range_ref (sds_str s) a b = take k (drop o' (sds_str s))"
  proof -
    have "min (Suc (range_pos (sdslen s) b) - o') (sdslen s - o') = k"
      using R(4) k(1) by (simp add: o'_def)
    then show ?thesis
      using D(5) by (simp add: range_ref_def o'_def [symmetric] Let_def)
        (metis length_drop length_take min.commute take_all take_take nat_le_linear D(5) min.idem take_equalityI)
  qed
  define c where "c = take k (drop o' (sds_str s))"
  have lc: "length c = k" using k(3) D(5) by (auto simp: c_def)
  have move: "(if start \<noteq> 0 \<and> newlen \<noteq> 0
      then bind_res (peek (sds_buf s) (nat start) (nat newlen)) (poke (sds_buf s) 0)
      else Inr (sds_buf s)) = Inr (c @ drop k (sds_buf s))"
  proof (cases "start \<noteq> 0 \<and> newlen \<noteq> 0")
    case True
    then have "nat start = o'" "nat newlen = k" "k \<noteq> 0" using k by auto
    moreover have "c = take k (drop o' (sds_buf s))"
      using k(3) \<open>k \<noteq> 0\<close> by (simp add: c_def sds_str_def drop_take)
    ultimately show ?thesis using True k(3) D(3) lc by (simp add: mem_simps)
  next
    case False
    then have "k = 0 \<or> o' = 0" using k(1,4) by (cases "k = 0"; simp)
    then have "c = take k (sds_buf s)" using k(2) by (auto simp: c_def sds_str_def)
    with False show ?thesis by auto
  qed
  define t where "t = s\<lparr>sds_free := sds_free s + (sds_len s - int k), sds_len := int k,
    sds_buf := c @ NUL # drop (Suc k) (sds_buf s)\<rparr>"
  have free: "i32 (sds_free s + (sds_len s - int k)) = sds_free s + (sds_len s - int k)"
    "i32 (int k) = int k"
    using k(2) D(6,7,8) by (auto intro!: i32_id)
  have "sdsrange s a b = Inr t"
    unfolding sdsrange_def Let_def r prod.case move if_not_P [OF False] bind_res_simps
    using lc k(1,2) D(3) free by (simp add: mem_simps t_def)
  moreover have "sds_wf t \<and> sds_str t = c \<and> sdslen t + sdsavail t = sdslen s + sdsavail s"
    by (rule sds_store [OF wf, where b = "sds_buf t"]) (use k(2) lc D in \<open>simp_all add: t_def nth_append\<close>)
  ultimately show ?thesis using ref by (simp add: c_def)
qed

text \<open>\<open>sdstrim\<close> against dropping from both ends.\<close>

definition trim_ref :: "(char \<Rightarrow> bool) \<Rightarrow> char list \<Rightarrow> char list" where
  "trim_ref P xs = dropWhile P (rev (dropWhile P (rev xs)))"

lemma trim_front_eq:
  assumes "i \<le> n" "n \<le> length buf"
  shows "trim_front cset buf (int i) (int n - 1) =
    Inr (int (i + length (takeWhile (in_cset cset) (take (n - i) (drop i buf)))))"
  using assms
proof (induction "n - i" arbitrary: i)
  case 0
  then show ?case by (subst trim_front.simps) simp
next
  case (Suc k)
  then have i: "i < n" "i < length buf" by simp_all
  then have "take (n - i) (drop i buf) = buf ! i # take (n - Suc i) (drop (Suc i) buf)"
    by (metis Cons_nth_drop_Suc Suc_diff_Suc take_Suc_Cons)
  moreover have "trim_front cset buf (int i + 1) (int n - 1) =
    Inr (int (Suc i + length (takeWhile (in_cset cset) (take (n - Suc i) (drop (Suc i) buf)))))"
    using Suc.hyps(1) [of "Suc i"] Suc.hyps(2) Suc.prems i by (simp add: algebra_simps)
  ultimately show ?case
    using i by (subst trim_front.simps) (simp add: mem_simps)
qed

lemma trim_back_eq:
  assumes "n < length buf"
  shows "trim_back cset buf (int n) =
    Inr (int (length (dropWhile (in_cset cset) (rev (take (Suc n) buf))) - 1))"
  using assms
proof (induction n)
  case 0
  have "length (dropWhile (in_cset cset) (rev (take (Suc 0) buf))) \<le> 1"
    by (metis length_dropWhile_le length_rev length_take min.cobounded2 One_nat_def order.trans)
  then show ?case by (subst trim_back.simps) simp
next
  case (Suc n)
  then have "take (Suc (Suc n)) buf = take (Suc n) buf @ [buf ! Suc n]"
    by (simp add: take_Suc_conv_app_nth)
  moreover have "nat (1 + int n) = Suc n" by simp
  ultimately show ?case
    using Suc by (subst trim_back.simps) (simp add: mem_simps del: nat_int_add)
qed

lemma trim_ref_slice:
  "trim_ref P xs = drop (length (takeWhile P xs)) (take (length (dropWhile P (rev xs))) xs)"
proof -
  let ?k = "length (dropWhile P (rev xs))"
  have rt: "rev (dropWhile P (rev xs)) = take ?k xs"
    by (metis dropWhile_eq_drop length_drop length_rev rev_drop rev_rev_ident)
  show ?thesis
  proof (cases "dropWhile P (rev xs)")
    case Nil
    then show ?thesis by (simp only: trim_ref_def) simp
  next
    case (Cons y ys)
    then have "y \<in> set (take ?k xs)" "\<not> P y"
      using rt by (metis list.set_intros(1) set_rev, metis hd_dropWhile list.distinct(1) list.sel(1))
    then have "takeWhile P xs = takeWhile P (take ?k xs)"
      by (metis append_take_drop_id takeWhile_append1)
    then show ?thesis
      unfolding trim_ref_def rt by (simp only: dropWhile_eq_drop [of P "take ?k xs"])
  qed
qed

lemma sdstrim_correct:
  assumes wf: "sds_wf s"
  shows "\<exists>s'. sdstrim s cset = Inr s' \<and> sds_wf s' \<and>
    sds_str s' = trim_ref (in_cset cset) (sds_str s) \<and>
    sdslen s' + sdsavail s' = sdslen s + sdsavail s"
proof -
  note D = sds_wfD [OF wf]
  let ?P = "in_cset cset" and ?n = "sdslen s"
  define sp where "sp = length (takeWhile ?P (sds_str s))"
  define kb where "kb = length (dropWhile ?P (rev (sds_str s)))"
  define c where "c = trim_ref ?P (sds_str s)"
  have front: "trim_front cset (sds_buf s) 0 (int ?n - 1) = Inr (int sp)"
    using trim_front_eq [of 0 ?n "sds_buf s" cset] D(3) by (simp add: sp_def sds_str_def)
  have trimmed: "\<exists>ep. trim_back cset (sds_buf s) (int ?n - 1) = Inr ep \<and>
    (if int sp > ep then 0 else nat (ep - int sp + 1)) = length c"
  proof (cases "sdslen s")
    case 0
    then show ?thesis
      by (subst trim_back.simps) (simp add: c_def trim_ref_def sds_str_def)
  next
    case (Suc n)
    then have "trim_back cset (sds_buf s) (int ?n - 1) = Inr (int (kb - 1))"
      using trim_back_eq [of n "sds_buf s" cset] D(3) by (simp add: kb_def sds_str_def)
    moreover have "length c = kb - sp"
      using length_dropWhile_le [of ?P "rev (sds_str s)"]
      by (simp add: c_def trim_ref_slice sp_def kb_def min_absorb2)
    moreover have "kb = 0 \<Longrightarrow> sp = ?n"
      unfolding kb_def sp_def using D(5) by (simp add: takeWhile_eq_all_conv [THEN iffD2])
    ultimately show ?thesis using Suc by (cases "kb = 0") auto
  qed
  then obtain ep where ep: "trim_back cset (sds_buf s) (int ?n - 1) = Inr ep"
    "(if int sp > ep then 0 else nat (ep - int sp + 1)) = length c" by blast
  have slice: "c = take (length c) (drop sp (sds_buf s))" "sp + length c \<le> ?n \<or> length c = 0"
  proof -
    have "c = drop sp (take kb (sds_str s))" "kb \<le> ?n"
      using length_dropWhile_le [of ?P "rev (sds_str s)"] D(5)
      by (simp_all add: c_def trim_ref_slice sp_def kb_def)
    then show "c = take (length c) (drop sp (sds_buf s))" "sp + length c \<le> ?n \<or> length c = 0"
      using D(3) by (auto simp: sds_str_def min_def drop_take)
  qed
  have lc: "length c \<le> ?n" "sp \<le> ?n"
    using slice(2) D(5) length_takeWhile_le [of ?P "sds_str s"] by (auto simp: sp_def)
  have move: "(if int sp \<noteq> 0 then bind_res (peek (sds_buf s) (nat (int sp)) (length c)) (poke (sds_buf s) 0)
      else Inr (sds_buf s)) = Inr (c @ drop (length c) (sds_buf s))"
  proof (cases "sp = 0")
    case True
    then have "c = take (length c) (sds_buf s)" using slice(1) by simp
    then have "c @ drop (length c) (sds_buf s) = sds_buf s" by (metis append_take_drop_id)
    with True show ?thesis by simp
  next
    case False
    then have "peek (sds_buf s) sp (length c) = Inr c"
      using slice lc D(3) by (auto simp: peek_def)
    then show ?thesis using False lc D(3) by (simp add: mem_simps)
  qed
  define t where "t = s\<lparr>sds_free := sds_free s + (sds_len s - int (length c)),
    sds_len := int (length c), sds_buf := c @ NUL # drop (Suc (length c)) (sds_buf s)\<rparr>"
  have free: "i32 (sds_free s + (sds_len s - int (length c))) = sds_free s + (sds_len s - int (length c))"
    "i32 (int (length c)) = int (length c)"
    using lc D(6,7,8) by (auto intro!: i32_id)
  have "sdstrim s cset = Inr t"
    unfolding sdstrim_def Let_def front ep(1) bind_res_simps ep(2) move
    using lc D(3) free by (simp add: mem_simps t_def)
  moreover have "sds_wf t \<and> sds_str t = c \<and> sdslen t + sdsavail t = sdslen s + sdsavail s"
    by (rule sds_store [OF wf, where b = "sds_buf t" and n = "length c"])
      (use lc D in \<open>simp_all add: t_def nth_append\<close>)
  ultimately show ?thesis by (simp add: c_def)
qed

section \<open>The buffer interface\<close>

text \<open>
  What the protocol reader and the connection rely on when they use a string as a byte queue:
  bytes are appended at the end and dropped at the front.
\<close>

locale byte_buffer =
  fixes contents :: "'b \<Rightarrow> char list"
    and buffer_wf :: "'b \<Rightarrow> bool"
    and append_bytes :: "cmem \<Rightarrow> 'b \<Rightarrow> char list \<Rightarrow> nat \<Rightarrow> 'b res"
    and drop_bytes :: "'b \<Rightarrow> nat \<Rightarrow> 'b res"
  assumes append_law: "buffer_wf b \<Longrightarrow> 2 * (length (contents b) + n) \<le> 2147483647 \<Longrightarrow> n \<le> length t \<Longrightarrow>
      yields m (append_bytes m b t n) (\<lambda>b'. buffer_wf b' \<and> contents b' = contents b @ take n t)"
    and drop_law: "buffer_wf b \<Longrightarrow> k \<le> length (contents b) \<Longrightarrow>
      \<exists>b'. drop_bytes b k = Inr b' \<and> buffer_wf b' \<and> contents b' = drop k (contents b)"
begin

lemma append_chunks:
  assumes "buffer_wf b" "2 * (length (contents b) + length (concat ts)) \<le> 2147483647"
  shows "yields m (fold_res (\<lambda>t b. append_bytes m b t (length t)) ts b)
    (\<lambda>b'. buffer_wf b' \<and> contents b' = contents b @ concat ts)"
  using assms
proof (induction ts arbitrary: b)
  case Nil
  then show ?case by simp
next
  case (Cons t ts)
  have "yields m (append_bytes m b t (length t)) (\<lambda>b'. buffer_wf b' \<and> contents b' = contents b @ t)"
    using append_law [of b "length t" t m] Cons.prems by simp
  then show ?case
    unfolding fold_res.simps
  proof (rule yields_bind)
    fix b' assume b': "buffer_wf b' \<and> contents b' = contents b @ t"
    then show "yields m (fold_res (\<lambda>t b. append_bytes m b t (length t)) ts b')
      (\<lambda>b'. buffer_wf b' \<and> contents b' = contents b @ concat (t # ts))"
      using Cons.IH [of b'] Cons.prems(2) by (simp add: add.assoc)
  qed
qed

lemma append_then_drop:
  assumes "buffer_wf b" "2 * (length (contents b) + length t) \<le> 2147483647"
  shows "yields m (bind_res (append_bytes m b t (length t)) (\<lambda>b'. drop_bytes b' (length (contents b))))
    (\<lambda>b'. buffer_wf b' \<and> contents b' = t)"
proof (rule yields_bind [OF append_law])
  fix b' assume "buffer_wf b' \<and> contents b' = contents b @ take (length t) t"
  then show "yields m (drop_bytes b' (length (contents b))) (\<lambda>b'. buffer_wf b' \<and> contents b' = t)"
    using drop_law [of b' "length (contents b)"] by auto
qed (use assms in simp_all)

end

lemma sdsrange_drop:
  assumes wf: "sds_wf s" and k: "k \<le> length (sds_str s)"
  shows "\<exists>s'. sdsrange s (int k) (-1) = Inr s' \<and> sds_wf s' \<and> sds_str s' = drop k (sds_str s)"
proof -
  note D = sds_wfD [OF wf]
  have "range_ref (sds_str s) (int k) (-1) = drop k (sds_str s)"
    using k by (cases "sds_str s") (simp_all add: range_ref_def range_pos_def nat_diff_distrib')
  moreover have "int k \<le> 2147483647" using k D(5,8) by simp
  ultimately show ?thesis using sdsrange_correct [OF wf, of "int k" "-1"] by auto
qed

interpretation sdsbuf: byte_buffer sds_str sds_wf sdscatlen "\<lambda>s k. sdsrange s (int k) (-1)"
proof unfold_locales
  fix b :: sds and n :: nat and t :: "char list" and m
  assume "sds_wf b" "2 * (length (sds_str b) + n) \<le> 2147483647" "n \<le> length t"
  then show "yields m (sdscatlen m b t n) (\<lambda>b'. sds_wf b' \<and> sds_str b' = sds_str b @ take n t)"
    by (intro sdscatlen_yields) (simp_all add: sds_room_def sds_wfD)
qed (rule sdsrange_drop)

section \<open>Properties\<close>

text \<open>
  Appending any sequence of chunks to a well-formed dynamic string with \<open>sdscatlen\<close> yields a
  well-formed string whose contents are the old contents followed by the chunks in order, as
  long as twice the total length fits an \<^verbatim>\<open>int\<close>; the only failure is a refused allocation, and
  no byte outside the allocation is touched.
\<close>

lemma sdscatlen_chunks:
  assumes "sds_wf s" "2 * (length (sds_str s) + length (concat ts)) \<le> 2147483647"
  shows "yields m (fold_res (\<lambda>t s. sdscatlen m s t (length t)) ts s)
    (\<lambda>s'. sds_wf s' \<and> sds_str s' = sds_str s @ concat ts)"
  using assms by (rule sdsbuf.append_chunks)

end
