(* ===== verification/Printf.thy ===== *)
theory Printf
  imports ESB_Prelude
begin

text \<open>
  The integer conversions of the C library's \<^verbatim>\<open>printf\<close> family, as far as the command formatter
  of the client library hands them on: flags, field width, precision, the length modifiers
  \<^verbatim>\<open>hh\<close>, \<^verbatim>\<open>h\<close>, \<^verbatim>\<open>l\<close> and \<^verbatim>\<open>ll\<close>, and the conversions \<^verbatim>\<open>d i o u x X\<close>.
\<close>

record conv_spec =
  cs_alt :: bool
  cs_zero :: bool
  cs_left :: bool
  cs_space :: bool
  cs_plus :: bool
  cs_width :: nat
  cs_prec :: "nat option"
  cs_bits :: nat
  cs_conv :: char

fun parse_flags :: "string \<Rightarrow> conv_spec \<Rightarrow> string \<times> conv_spec" where
  "parse_flags [] s = ([], s)"
| "parse_flags (c # cs) s =
     (if c = CHR ''#'' then parse_flags cs (s\<lparr>cs_alt := True\<rparr>)
      else if c = CHR ''0'' then parse_flags cs (s\<lparr>cs_zero := True\<rparr>)
      else if c = CHR ''-'' then parse_flags cs (s\<lparr>cs_left := True\<rparr>)
      else if c = CHR '' '' then parse_flags cs (s\<lparr>cs_space := True\<rparr>)
      else if c = CHR ''+'' then parse_flags cs (s\<lparr>cs_plus := True\<rparr>)
      else (c # cs, s))"

definition read_dec :: "string \<Rightarrow> nat \<times> string" where
  "read_dec cs = (foldl (\<lambda>n c. n * 10 + (of_char c - 48)) 0 (takeWhile is_digit cs), dropWhile is_digit cs)"

definition parse_prec :: "string \<Rightarrow> nat option \<times> string" where
  "parse_prec cs = (case cs of
       [] \<Rightarrow> (None, [])
     | c # cs' \<Rightarrow> if c = CHR ''.'' then (let (n, rest) = read_dec cs' in (Some n, rest)) else (None, cs))"

definition parse_bits :: "string \<Rightarrow> nat \<times> string" where
  "parse_bits cs =
     (if take 2 cs = ''hh'' then (8, drop 2 cs)
      else if take 1 cs = ''h'' then (16, drop 1 cs)
      else if take 2 cs = ''ll'' then (64, drop 2 cs)
      else if take 1 cs = ''l'' then (64, drop 1 cs)
      else (32, cs))"

text \<open>The specification after the percent sign, if it is an integer conversion.\<close>

definition parse_spec :: "string \<Rightarrow> conv_spec option" where
  "parse_spec cs =
     (let (cs1, s) = parse_flags cs \<lparr>cs_alt = False, cs_zero = False, cs_left = False, cs_space = False,
            cs_plus = False, cs_width = 0, cs_prec = None, cs_bits = 32, cs_conv = NUL\<rparr>;
          (w, cs2) = read_dec cs1;
          (p, cs3) = parse_prec cs2;
          (b, cs4) = parse_bits cs3
      in case cs4 of
           [c] \<Rightarrow> if c \<in> set ''diouxX'' then Some (s\<lparr>cs_width := w, cs_prec := p, cs_bits := b, cs_conv := c\<rparr>) else None
         | _ \<Rightarrow> None)"

definition digit_in :: "bool \<Rightarrow> nat \<Rightarrow> char" where
  "digit_in upper d = (if d < 10 then digit d else char_of ((if upper then 55 else 87) + d))"

fun base_digits :: "nat \<Rightarrow> bool \<Rightarrow> nat \<Rightarrow> string" where
  "base_digits b upper n =
     (if b < 2 \<or> n < b then [digit_in upper n] else base_digits b upper (n div b) @ [digit_in upper (n mod b)])"

declare base_digits.simps [simp del]

definition conv_value :: "conv_spec \<Rightarrow> int \<Rightarrow> int" where
  "conv_value s v =
     (if cs_conv s \<in> set ''di'' then (v + 2 ^ (cs_bits s - 1)) mod 2 ^ cs_bits s - 2 ^ (cs_bits s - 1)
      else v mod 2 ^ cs_bits s)"

definition conv_digits :: "conv_spec \<Rightarrow> nat \<Rightarrow> string" where
  "conv_digits s mag =
     (let base = (if cs_conv s = CHR ''o'' then 8 else if cs_conv s \<in> set ''xX'' then 16 else 10);
          ds = (if cs_prec s = Some 0 \<and> mag = 0 then [] else base_digits base (cs_conv s = CHR ''X'') mag);
          ds = replicate ((case cs_prec s of None \<Rightarrow> 1 | Some p \<Rightarrow> p) - length ds) (CHR ''0'') @ ds
      in if cs_alt s \<and> cs_conv s = CHR ''o'' \<and> take 1 ds \<noteq> ''0'' then CHR ''0'' # ds else ds)"

definition conv_sign :: "conv_spec \<Rightarrow> int \<Rightarrow> string" where
  "conv_sign s val =
     (if cs_conv s \<in> set ''di''
      then if val < 0 then ''-'' else if cs_plus s then ''+'' else if cs_space s then '' '' else []
      else if cs_alt s \<and> cs_conv s \<in> set ''xX'' \<and> val \<noteq> 0 then [CHR ''0'', cs_conv s] else [])"

definition format_int :: "conv_spec \<Rightarrow> int \<Rightarrow> string" where
  "format_int s v =
     (let val = conv_value s v; sign = conv_sign s val; ds = conv_digits s (nat \<bar>val\<bar>);
          gap = cs_width s - (length sign + length ds)
      in if cs_left s then sign @ ds @ replicate gap (CHR '' '')
         else if cs_zero s \<and> cs_prec s = None then sign @ replicate gap (CHR ''0'') @ ds
         else replicate gap (CHR '' '') @ sign @ ds)"

text \<open>Plain \<^verbatim>\<open>%d\<close> and \<^verbatim>\<open>%i\<close> print the value as \<open>dec_int\<close> does.\<close>

lemma base_digits_dec: "base_digits 10 upper n = dec_nat n"
proof (induction n rule: dec_nat.induct)
  case (1 n)
  then show ?case by (subst base_digits.simps, subst dec_nat.simps) (simp add: digit_in_def)
qed

lemma parse_spec_plain:
  assumes "c \<in> set ''di''"
  shows "parse_spec [c] = Some \<lparr>cs_alt = False, cs_zero = False, cs_left = False, cs_space = False,
    cs_plus = False, cs_width = 0, cs_prec = None, cs_bits = 32, cs_conv = c\<rparr>"
  using assms by (auto simp: parse_spec_def read_dec_def parse_prec_def parse_bits_def is_digit_def)

lemma format_int_plain:
  assumes "c \<in> set ''di''" "parse_spec [c] = Some s"
  shows "format_int s v = dec_int (i32 v)"
proof -
  have s: "s = \<lparr>cs_alt = False, cs_zero = False, cs_left = False, cs_space = False,
    cs_plus = False, cs_width = 0, cs_prec = None, cs_bits = 32, cs_conv = c\<rparr>"
    using parse_spec_plain [OF assms(1)] assms(2) by simp
  have "conv_value s v = i32 v" using assms(1) by (simp add: s conv_value_def i32_def)
  moreover have "conv_digits s n = dec_nat n" for n
    using assms(1) dec_nat_nonempty [of n] by (auto simp: s conv_digits_def base_digits_dec Let_def Suc_le_eq)
  ultimately show ?thesis
    using assms(1) by (auto simp: format_int_def conv_sign_def dec_int_def s Let_def)
qed

end
