(* ===== verification/Format.thy ===== *)
theory Format
  imports Sds Printf
begin

text \<open>
  Formatting of commands (\<^verbatim>\<open>src/src/deps/hiredis/hiredis.c\<close>, lines 667 to 971).  The format string
  is a block with a position; the variable arguments are a list of which the conversions take
  elements; the argument vector is a list of dynamic strings.  \<open>None\<close> as the result of a step is
  the jump to the label \<^verbatim>\<open>err\<close>.
\<close>

section \<open>Lengths\<close>

text \<open>Division by ten truncates towards zero.\<close>

definition tdiv10 :: "int \<Rightarrow> int" where
  "tdiv10 i = (if i < 0 then - ((- i) div 10) else i div 10)"

function intlen_loop :: "int \<Rightarrow> int" where
  "intlen_loop i = (if tdiv10 i = 0 then 1 else 1 + intlen_loop (tdiv10 i))"
  by pat_completeness auto
termination
  by (relation "measure (\<lambda>i. nat \<bar>i\<bar>)") (auto simp: tdiv10_def split: if_splits)

declare intlen_loop.simps [simp del]

definition intlen :: "int \<Rightarrow> int" where
  "intlen i = (if i < 0 then 1 + intlen_loop (i32 (- i)) else intlen_loop i)"

definition bulklen :: "nat \<Rightarrow> nat" where
  "bulklen len = u64 (1 + intlen (i32 (int len)) + 2 + int len + 2)"

section \<open>Variable arguments\<close>

text \<open>A pointer to a block or NULL, an integer of up to 64 bits, a floating point number by its bits.\<close>

datatype c_arg = ArgPtr "char list option" | ArgNum int | ArgDouble nat

definition va_ptr :: "c_arg list \<Rightarrow> (char list option \<times> c_arg list) res" where
  "va_ptr ap = (case ap of ArgPtr p # ap' \<Rightarrow> Inr (p, ap') | _ \<Rightarrow> Inl OutOfBounds)"

definition va_size :: "c_arg list \<Rightarrow> (nat \<times> c_arg list) res" where
  "va_size ap = (case ap of ArgNum n # ap' \<Rightarrow> Inr (u64 n, ap') | _ \<Rightarrow> Inl OutOfBounds)"

definition va_skip :: "bool \<Rightarrow> c_arg list \<Rightarrow> c_arg list res" where
  "va_skip dbl ap = (case ap of
       ArgNum n # ap' \<Rightarrow> if dbl then Inl OutOfBounds else Inr ap'
     | ArgDouble n # ap' \<Rightarrow> if dbl then Inr ap' else Inl OutOfBounds
     | _ \<Rightarrow> Inl OutOfBounds)"

text \<open>
  What \<^verbatim>\<open>vsnprintf\<close> prints for one conversion.  Integer conversions are defined in \<open>Printf\<close>;
  \<open>other\<close> is the text for a floating point conversion or an incomplete one.
\<close>

definition printf_text :: "(string \<Rightarrow> c_arg list \<Rightarrow> string) \<Rightarrow> string \<Rightarrow> c_arg list \<Rightarrow> string res" where
  "printf_text other fmt ap =
     (case parse_spec (drop 1 fmt) of
        Some s \<Rightarrow> (case ap of ArgNum v # _ \<Rightarrow> Inr (format_int s v) | _ \<Rightarrow> Inl OutOfBounds)
      | None \<Rightarrow> Inr (other fmt ap))"

section \<open>Scanning the format\<close>

record fmt_state =
  fs_curarg :: sds
  fs_touched :: bool
  fs_argv :: "sds list"
  fs_totlen :: int
  fs_ap :: "c_arg list"

definition or_err :: "'a res \<Rightarrow> 'a option res" where
  "or_err x = (case x of Inl e \<Rightarrow> if e = OutOfMemory then Inr None else Inl e | Inr y \<Rightarrow> Inr (Some y))"

definition push_arg :: "cmem \<Rightarrow> fmt_state \<Rightarrow> fmt_state option" where
  "push_arg m st =
     (if mem_ok m (8 * (length (fs_argv st) + 1))
      then Some (st\<lparr>fs_argv := fs_argv st @ [fs_curarg st],
                    fs_totlen := i32 (fs_totlen st + int (bulklen (sdslen (fs_curarg st))))\<rparr>)
      else None)"

text \<open>The new value of the current argument.\<close>

definition set_curarg :: "fmt_state \<Rightarrow> sds option \<Rightarrow> fmt_state option" where
  "set_curarg st newarg = map_option (\<lambda>s. st\<lparr>fs_curarg := s, fs_touched := True\<rparr>) newarg"

definition fmt_literal :: "cmem \<Rightarrow> char \<Rightarrow> fmt_state \<Rightarrow> fmt_state option res" where
  "fmt_literal m c st =
     (if c = CHR '' ''
      then if fs_touched st
           then (case push_arg m st of
                   None \<Rightarrow> Inr None
                 | Some st1 \<Rightarrow> bind_res (or_err (sdsempty m)) (\<lambda>e.
                     Inr (map_option (\<lambda>s. st1\<lparr>fs_curarg := s, fs_touched := False\<rparr>) e)))
           else Inr (Some st)
      else bind_res (or_err (sdscatlen m (fs_curarg st) [c] 1)) (\<lambda>n. Inr (set_curarg st n)))"

definition skip_flag :: "char list \<Rightarrow> char \<Rightarrow> nat \<Rightarrow> nat res" where
  "skip_flag fmt f p = bind_res (byte_at fmt p) (\<lambda>c. Inr (if c \<noteq> NUL \<and> c = f then Suc p else p))"

function skip_digits :: "char list \<Rightarrow> nat \<Rightarrow> nat res" where
  "skip_digits fmt p = bind_res (byte_at fmt p) (\<lambda>c. if c \<noteq> NUL \<and> is_digit c then skip_digits fmt (Suc p) else Inr p)"
  by pat_completeness auto
termination
  by (relation "measure (\<lambda>(fmt, p). length fmt - p)") (auto simp: byte_at_def split: if_splits)

declare skip_digits.simps [simp del]

definition skip_flags :: "char list \<Rightarrow> nat \<Rightarrow> nat res" where
  "skip_flags fmt p = fold_res (skip_flag fmt) ''#0- +'' p"

definition skip_precision :: "char list \<Rightarrow> nat \<Rightarrow> nat res" where
  "skip_precision fmt p = bind_res (byte_at fmt p) (\<lambda>c. if c = CHR ''.'' then skip_digits fmt (Suc p) else Inr p)"

text \<open>
  The position of the conversion character and whether it is a floating point conversion; \<open>None\<close>
  for an invalid specification.  \<^verbatim>\<open>strchr\<close> finds the terminator too, so the end of the format
  counts as an integer conversion here, but not after a length modifier.
\<close>

definition scan_modified :: "char list \<Rightarrow> nat \<Rightarrow> (nat \<times> bool) option res" where
  "scan_modified fmt p =
     bind_res (byte_at fmt p) (\<lambda>c. Inr (if c \<noteq> NUL \<and> c \<in> set ''diouxX'' then Some (p, False) else None))"

definition scan_conversion :: "char list \<Rightarrow> nat \<Rightarrow> (nat \<times> bool) option res" where
  "scan_conversion fmt p =
     bind_res (byte_at fmt p) (\<lambda>c.
       if in_cset (''diouxX'' @ [NUL]) c then Inr (Some (p, False))
       else if in_cset (''eEfFgGaA'' @ [NUL]) c then Inr (Some (p, True))
       else if c = CHR ''h'' \<or> c = CHR ''l''
       then bind_res (byte_at fmt (Suc p)) (\<lambda>d. scan_modified fmt (if d = c then p + 2 else p + 1))
       else Inr None)"

definition scan_spec :: "char list \<Rightarrow> nat \<Rightarrow> (nat \<times> bool) option res" where
  "scan_spec fmt p =
     bind_res (skip_flags fmt p) (\<lambda>p1.
     bind_res (skip_digits fmt p1) (\<lambda>p2.
     bind_res (skip_precision fmt p2) (scan_conversion fmt)))"

text \<open>
  A conversion at position \<open>i\<close>: the new argument and the position after it.  A specification of
  fourteen characters or more is not printed, and the position moves by two only.
\<close>

definition fmt_printf ::
    "cmem \<Rightarrow> (string \<Rightarrow> c_arg list \<Rightarrow> string) \<Rightarrow> char list \<Rightarrow> nat \<Rightarrow> fmt_state \<Rightarrow> (nat \<times> fmt_state) option res" where
  "fmt_printf m other fmt i st =
     bind_res (scan_spec fmt (i + 1)) (\<lambda>o1.
       case o1 of
         None \<Rightarrow> Inr None
       | Some (p, dbl) \<Rightarrow>
           bind_res (va_skip dbl (fs_ap st)) (\<lambda>ap'.
             let st1 = st\<lparr>fs_ap := ap'\<rparr> in
             if p + 1 - i < 14
             then bind_res (peek fmt i (p + 1 - i)) (\<lambda>spec.
                  bind_res (printf_text other (c_str (spec @ [NUL])) (fs_ap st)) (\<lambda>out.
                  bind_res (or_err (sdscatvprintf m (fs_curarg st) out)) (\<lambda>n.
                    Inr (map_option (\<lambda>s. (p + 1, s)) (set_curarg st1 n)))))
             else Inr (Some (i + 2, st1\<lparr>fs_touched := True\<rparr>))))"

definition cat_bytes :: "cmem \<Rightarrow> fmt_state \<Rightarrow> char list option \<Rightarrow> nat \<Rightarrow> fmt_state option res" where
  "cat_bytes m st arg size1 =
     (if size1 > 0
      then case arg of
          None \<Rightarrow> Inl NullDeref
        | Some blk \<Rightarrow> bind_res (or_err (sdscatlen m (fs_curarg st) blk size1)) (\<lambda>n. Inr (set_curarg st n))
      else Inr (Some (st\<lparr>fs_touched := True\<rparr>)))"

definition fmt_conversion ::
    "cmem \<Rightarrow> (string \<Rightarrow> c_arg list \<Rightarrow> string) \<Rightarrow> char list \<Rightarrow> nat \<Rightarrow> char \<Rightarrow> fmt_state \<Rightarrow> (nat \<times> fmt_state) option res" where
  "fmt_conversion m other fmt i d st =
     (if d = CHR ''s''
      then bind_res (va_ptr (fs_ap st)) (\<lambda>(arg, ap').
           bind_res (case arg of None \<Rightarrow> Inl NullDeref | Some blk \<Rightarrow> c_strlen blk) (\<lambda>size1.
           bind_res (cat_bytes m (st\<lparr>fs_ap := ap'\<rparr>) arg size1) (\<lambda>o1. Inr (map_option (\<lambda>s. (i + 2, s)) o1))))
      else if d = CHR ''b''
      then bind_res (va_ptr (fs_ap st)) (\<lambda>(arg, ap').
           bind_res (va_size ap') (\<lambda>(size1, ap'').
           bind_res (cat_bytes m (st\<lparr>fs_ap := ap''\<rparr>) arg size1) (\<lambda>o1. Inr (map_option (\<lambda>s. (i + 2, s)) o1))))
      else if d = CHR ''%''
      then bind_res (or_err (sdscat m (fs_curarg st) (''%'' @ [NUL]))) (\<lambda>n.
             Inr (map_option (\<lambda>s. (i + 2, s)) (set_curarg st n)))
      else fmt_printf m other fmt i st)"

definition fmt_step ::
    "cmem \<Rightarrow> (string \<Rightarrow> c_arg list \<Rightarrow> string) \<Rightarrow> char list \<Rightarrow> nat \<Rightarrow> char \<Rightarrow> fmt_state \<Rightarrow> (nat \<times> fmt_state) option res" where
  "fmt_step m other fmt i c st =
     (if c \<noteq> CHR ''%''
      then bind_res (fmt_literal m c st) (\<lambda>o1. Inr (map_option (\<lambda>s. (i + 1, s)) o1))
      else bind_res (byte_at fmt (i + 1)) (\<lambda>d.
        if d = NUL then bind_res (fmt_literal m c st) (\<lambda>o1. Inr (map_option (\<lambda>s. (i + 1, s)) o1))
        else fmt_conversion m other fmt i d st))"

text \<open>Every step moves forward in the format.\<close>

lemma skip_digits_ge: "skip_digits fmt p = Inr q \<Longrightarrow> p \<le> q"
proof (induction fmt p rule: skip_digits.induct)
  case (1 fmt p)
  from 1(2) show ?case
    by (subst (asm) skip_digits.simps) (use 1(1) in \<open>auto simp: bind_res_Inr split: if_splits dest: Suc_leD\<close>)
qed

lemma skip_flags_ge: "fold_res (skip_flag fmt) fs p = Inr q \<Longrightarrow> p \<le> q"
proof (induction fs arbitrary: p)
  case (Cons f fs)
  from Cons.prems obtain p1 where p1: "skip_flag fmt f p = Inr p1" "fold_res (skip_flag fmt) fs p1 = Inr q"
    by (auto simp: bind_res_Inr)
  have "p \<le> p1" using p1(1) by (auto simp: skip_flag_def bind_res_Inr)
  with Cons.IH [OF p1(2)] show ?case by simp
qed simp

lemma skip_precision_ge: "skip_precision fmt p = Inr q \<Longrightarrow> p \<le> q"
  using skip_digits_ge [of fmt "Suc p" q]
  by (cases "byte_at fmt p") (auto simp: skip_precision_def split: if_splits)

lemma scan_modified_ge: "scan_modified fmt p = Inr (Some (q, dbl)) \<Longrightarrow> p \<le> q"
  by (cases "byte_at fmt p") (auto simp: scan_modified_def split: if_splits)

lemma scan_conversion_ge:
  assumes "scan_conversion fmt p = Inr (Some (q, dbl))"
  shows "p \<le> q"
proof (cases "byte_at fmt p")
  case (Inl e)
  then show ?thesis using assms by (simp add: scan_conversion_def)
next
  case (Inr c)
  then show ?thesis
    using assms scan_modified_ge [of fmt "p + 2" q dbl] scan_modified_ge [of fmt "p + 1" q dbl]
    by (cases "byte_at fmt (Suc p)") (auto simp: scan_conversion_def split: if_splits)
qed

lemma scan_spec_ge:
  assumes "scan_spec fmt p = Inr (Some (q, dbl))"
  shows "p \<le> q"
proof -
  from assms obtain p1 p2 p3 where s: "skip_flags fmt p = Inr p1" "skip_digits fmt p1 = Inr p2"
    "skip_precision fmt p2 = Inr p3" "scan_conversion fmt p3 = Inr (Some (q, dbl))"
    by (auto simp: scan_spec_def bind_res_Inr)
  show ?thesis
    using skip_flags_ge [OF s(1) [unfolded skip_flags_def]] skip_digits_ge [OF s(2)] skip_precision_ge [OF s(3)]
      scan_conversion_ge [OF s(4)] by simp
qed

lemma fmt_step_progress:
  assumes "fmt_step m other fmt i c st = Inr (Some (j, st'))"
  shows "i < j"
  using assms
  by (auto simp: fmt_step_def fmt_conversion_def fmt_printf_def bind_res_Inr Let_def
      split: if_splits option.splits dest!: scan_spec_ge)

function fmt_loop ::
    "cmem \<Rightarrow> (string \<Rightarrow> c_arg list \<Rightarrow> string) \<Rightarrow> char list \<Rightarrow> nat \<Rightarrow> fmt_state \<Rightarrow> fmt_state option res" where
  "fmt_loop m other fmt i st =
     bind_res (byte_at fmt i) (\<lambda>c.
       if c = NUL then Inr (Some st)
       else bind_res (fmt_step m other fmt i c st) (\<lambda>o1.
         case o1 of None \<Rightarrow> Inr None | Some (j, st') \<Rightarrow> fmt_loop m other fmt j st'))"
  by pat_completeness auto
termination
  by (relation "measure (\<lambda>(m, other, fmt, i, st). length fmt - i)")
    (auto simp: byte_at_def split: if_splits dest!: fmt_step_progress)

declare fmt_loop.simps [simp del]

section \<open>Building the command\<close>

definition poke_int :: "char list \<Rightarrow> int \<Rightarrow> char list \<Rightarrow> char list res" where
  "poke_int cmd pos bs = check_res (0 \<le> pos) OutOfBounds (poke cmd (nat pos) bs)"

definition print_at :: "char list \<Rightarrow> int \<Rightarrow> string \<Rightarrow> (char list \<times> int) res" where
  "print_at cmd pos txt = bind_res (poke_int cmd pos (txt @ [NUL])) (\<lambda>cmd. Inr (cmd, i32 (pos + int (length txt))))"

definition write_bulk :: "char list \<times> nat \<Rightarrow> char list \<times> int \<Rightarrow> (char list \<times> int) res" where
  "write_bulk arg cp =
     (case (arg, cp) of ((blk, len), (cmd, pos)) \<Rightarrow>
        bind_res (print_at cmd pos (''$'' @ dec_nat len @ [CR, LF])) (\<lambda>(cmd, pos).
        bind_res (peek blk 0 len) (\<lambda>bs.
        bind_res (poke_int cmd pos bs) (\<lambda>cmd.
        let pos = i32 (pos + int len) in
        bind_res (poke_int cmd pos [CR]) (\<lambda>cmd.
        let pos = i32 (pos + 1) in
        bind_res (poke_int cmd pos [LF]) (\<lambda>cmd. Inr (cmd, i32 (pos + 1))))))))"

text \<open>The result is the length and the command, or \<^verbatim>\<open>-1\<close>.\<close>

definition build_command :: "cmem \<Rightarrow> int \<Rightarrow> int \<Rightarrow> (char list \<times> nat) list \<Rightarrow> (int \<times> char list option) res" where
  "build_command m argc totlen bulks =
     (case malloc m (u64 (totlen + 1)) of
        None \<Rightarrow> Inr (-1, None)
      | Some cmd \<Rightarrow>
          bind_res (print_at cmd 0 (''*'' @ dec_int argc @ [CR, LF])) (\<lambda>cp.
          bind_res (fold_res write_bulk bulks cp) (\<lambda>(cmd, pos).
            check_res (pos = totlen) AssertFailed
              (bind_res (poke_int cmd pos [NUL]) (\<lambda>cmd. Inr (totlen, Some cmd))))))"

definition finish_format :: "cmem \<Rightarrow> fmt_state \<Rightarrow> (int \<times> char list option) res" where
  "finish_format m st =
     (case (if fs_touched st then push_arg m st else Some st) of
        None \<Rightarrow> Inr (-1, None)
      | Some st1 \<Rightarrow>
          let argc = int (length (fs_argv st1)) in
          build_command m argc (i32 (fs_totlen st1 + (1 + intlen argc + 2)))
            (map (\<lambda>s. (sds_buf s, sdslen s)) (fs_argv st1)))"

definition redisvFormatCommand ::
    "cmem \<Rightarrow> (string \<Rightarrow> c_arg list \<Rightarrow> string) \<Rightarrow> bool \<Rightarrow> char list \<Rightarrow> c_arg list \<Rightarrow> (int \<times> char list option) res" where
  "redisvFormatCommand m other target format ap =
     (if \<not> target then Inr (-1, None)
      else bind_res (or_err (sdsempty m)) (\<lambda>e.
        case e of
          None \<Rightarrow> Inr (-1, None)
        | Some curarg \<Rightarrow>
            bind_res (fmt_loop m other format 0 \<lparr>fs_curarg = curarg, fs_touched = False, fs_argv = [],
                fs_totlen = 0, fs_ap = ap\<rparr>) (\<lambda>o1.
              case o1 of None \<Rightarrow> Inr (-1, None) | Some st \<Rightarrow> finish_format m st)))"

definition redisFormatCommand ::
    "cmem \<Rightarrow> (string \<Rightarrow> c_arg list \<Rightarrow> string) \<Rightarrow> bool \<Rightarrow> char list \<Rightarrow> c_arg list \<Rightarrow> (int \<times> char list option) res" where
  "redisFormatCommand m other target format args = redisvFormatCommand m other target format args"

definition arg_at :: "char list list \<Rightarrow> nat list option \<Rightarrow> nat \<Rightarrow> (char list \<times> nat) res" where
  "arg_at argv argvlen j =
     (if j < length argv
      then bind_res (case argvlen of
               Some ls \<Rightarrow> if j < length ls then Inr (ls ! j) else Inl OutOfBounds
             | None \<Rightarrow> c_strlen (argv ! j)) (\<lambda>len. Inr (argv ! j, len))
      else Inl OutOfBounds)"

definition redisFormatCommandArgv ::
    "cmem \<Rightarrow> int \<Rightarrow> char list list \<Rightarrow> nat list option \<Rightarrow> (int \<times> char list option) res" where
  "redisFormatCommandArgv m argc argv argvlen =
     bind_res (fold_res (\<lambda>j (totlen, bulks).
           bind_res (arg_at argv argvlen j) (\<lambda>(blk, len).
             Inr (i32 (totlen + int (bulklen len)), bulks @ [(blk, len)])))
         [0..<nat argc] (1 + intlen argc + 2, []))
       (\<lambda>(totlen, bulks). build_command m argc totlen bulks)"

end
