(* ===== verification/Reader.thy ===== *)
theory Reader
  imports Sds Reply
begin

text \<open>
  The incremental protocol parser of the client library (\<^verbatim>\<open>src/src/deps/hiredis/hiredis.c\<close>,
  lines 44 to 665) with its default reply objects.  The objects live in a heap, a list of cells
  whose index is the address; \<^verbatim>\<open>freeReplyObject\<close> empties a cell.  The parser keeps a stack of
  nine tasks; a task refers to its parent by the position in the stack.  \<^verbatim>\<open>fn\<close> is
  \<^verbatim>\<open>&defaultFunctions\<close> throughout, as \<^verbatim>\<open>redisReaderCreate\<close> sets it.
\<close>

abbreviation (input) REDIS_ERR :: int where "REDIS_ERR \<equiv> -1"
abbreviation (input) REDIS_OK :: int where "REDIS_OK \<equiv> 0"
abbreviation (input) REDIS_ERR_PROTOCOL :: int where "REDIS_ERR_PROTOCOL \<equiv> 4"
abbreviation (input) REDIS_ERR_OOM :: int where "REDIS_ERR_OOM \<equiv> 5"
abbreviation (input) REPLY_STRING :: int where "REPLY_STRING \<equiv> 1"
abbreviation (input) REPLY_ARRAY :: int where "REPLY_ARRAY \<equiv> 2"
abbreviation (input) REPLY_INTEGER :: int where "REPLY_INTEGER \<equiv> 3"
abbreviation (input) REPLY_NIL :: int where "REPLY_NIL \<equiv> 4"
abbreviation (input) REPLY_STATUS :: int where "REPLY_STATUS \<equiv> 5"
abbreviation (input) REPLY_ERROR :: int where "REPLY_ERROR \<equiv> 6"

section \<open>Reply objects\<close>

type_synonym addr = nat

record reply_obj =
  ro_type :: int
  ro_integer :: int
  ro_len :: int
  ro_str :: "string option"
  ro_elements :: nat
  ro_element :: "addr option list option"

type_synonym heap = "reply_obj option list"

record redisReadTask =
  rt_type :: int
  rt_elements :: int
  rt_idx :: int
  rt_obj :: "addr option"
  rt_parent :: "nat option"

definition createReplyObject :: "cmem \<Rightarrow> int \<Rightarrow> heap \<Rightarrow> (addr \<times> heap) option" where
  "createReplyObject m ty h =
     (if mem_ok m 48
      then Some (length h, h @ [Some \<lparr>ro_type = ty, ro_integer = 0, ro_len = 0, ro_str = None,
                                      ro_elements = 0, ro_element = None\<rparr>])
      else None)"

text \<open>
  \<^verbatim>\<open>freeReplyObject\<close>: \<open>n\<close> bounds the nesting; elements are allocated after the array that
  holds them, so the number of cells is enough.  A later use of a released cell is an error of the function that uses it; the
  release of a cell that is released already is not reported here.
\<close>

fun free_object :: "nat \<Rightarrow> addr \<Rightarrow> heap \<Rightarrow> heap" where
  "free_object 0 a h = h"
| "free_object (Suc n) a h =
     (if a < length h
      then case h ! a of
          None \<Rightarrow> h
        | Some r \<Rightarrow>
            (if ro_type r = REPLY_ARRAY
             then case ro_element r of
                 None \<Rightarrow> h
               | Some es \<Rightarrow> fold (\<lambda>e h. case e of None \<Rightarrow> h | Some b \<Rightarrow> free_object n b h) es h
             else h) [a := None]
      else h)"

definition freeReplyObject :: "addr \<Rightarrow> heap \<Rightarrow> heap" where
  "freeReplyObject a h = free_object (length h) a h"

text \<open>The assignment \<^verbatim>\<open>parent->element[task->idx] = r\<close> at the end of every constructor.\<close>

definition store_in_parent :: "redisReadTask list \<Rightarrow> redisReadTask \<Rightarrow> addr \<Rightarrow> heap \<Rightarrow> heap res" where
  "store_in_parent stack task a h =
     (case rt_parent task of
        None \<Rightarrow> Inr h
      | Some j \<Rightarrow>
          (case rt_obj (stack ! j) of
             None \<Rightarrow> Inl NullDeref
           | Some p \<Rightarrow>
               (case (if p < length h then h ! p else None) of
                  None \<Rightarrow> Inl OutOfBounds
                | Some parent \<Rightarrow>
                    check_res (ro_type parent = REPLY_ARRAY) AssertFailed
                      (case ro_element parent of
                         None \<Rightarrow> Inl NullDeref
                       | Some es \<Rightarrow>
                           check_res (0 \<le> rt_idx task \<and> nat (rt_idx task) < length es) OutOfBounds
                             (Inr (h[p := Some (parent\<lparr>ro_element := Some (es[nat (rt_idx task) := Some a])\<rparr>)]))))))"

text \<open>The constructors return the new object, or \<open>None\<close> for NULL.\<close>

definition createStringObject ::
    "cmem \<Rightarrow> redisReadTask list \<Rightarrow> redisReadTask \<Rightarrow> char list \<Rightarrow> heap \<Rightarrow> (addr option \<times> heap) res" where
  "createStringObject m stack task str h =
     (case createReplyObject m (rt_type task) h of
        None \<Rightarrow> Inr (None, h)
      | Some (a, h1) \<Rightarrow>
          if \<not> mem_ok m (length str + 1) then Inr (None, freeReplyObject a h1)
          else
            check_res (rt_type task \<in> {REPLY_ERROR, REPLY_STATUS, REPLY_STRING}) AssertFailed
              (bind_res (store_in_parent stack task a
                  (h1[a := map_option (\<lambda>r. r\<lparr>ro_str := Some str, ro_len := i32 (int (length str))\<rparr>) (h1 ! a)]))
                 (\<lambda>h2. Inr (Some a, h2))))"

definition createArrayObject ::
    "cmem \<Rightarrow> redisReadTask list \<Rightarrow> redisReadTask \<Rightarrow> int \<Rightarrow> heap \<Rightarrow> (addr option \<times> heap) res" where
  "createArrayObject m stack task elements h =
     (case createReplyObject m REPLY_ARRAY h of
        None \<Rightarrow> Inr (None, h)
      | Some (a, h1) \<Rightarrow>
          if elements > 0 \<and> \<not> mem_ok m (nat elements * 8) then Inr (None, freeReplyObject a h1)
          else
            bind_res (store_in_parent stack task a
                (h1[a := map_option (\<lambda>r. r\<lparr>ro_elements := u64 elements,
                     ro_element := (if elements > 0 then Some (replicate (nat elements) None) else None)\<rparr>) (h1 ! a)]))
              (\<lambda>h2. Inr (Some a, h2)))"

definition createIntegerObject ::
    "cmem \<Rightarrow> redisReadTask list \<Rightarrow> redisReadTask \<Rightarrow> int \<Rightarrow> heap \<Rightarrow> (addr option \<times> heap) res" where
  "createIntegerObject m stack task value h =
     (case createReplyObject m REPLY_INTEGER h of
        None \<Rightarrow> Inr (None, h)
      | Some (a, h1) \<Rightarrow>
          bind_res (store_in_parent stack task a
              (h1[a := map_option (\<lambda>r. r\<lparr>ro_integer := value\<rparr>) (h1 ! a)]))
            (\<lambda>h2. Inr (Some a, h2)))"

definition createNilObject ::
    "cmem \<Rightarrow> redisReadTask list \<Rightarrow> redisReadTask \<Rightarrow> heap \<Rightarrow> (addr option \<times> heap) res" where
  "createNilObject m stack task h =
     (case createReplyObject m REPLY_NIL h of
        None \<Rightarrow> Inr (None, h)
      | Some (a, h1) \<Rightarrow> bind_res (store_in_parent stack task a h1) (\<lambda>h2. Inr (Some a, h2)))"

section \<open>Reader\<close>

record redisReader =
  rd_err :: int
  rd_errstr :: string
  rd_buf :: "sds option"
  rd_pos :: nat
  rd_len :: nat
  rd_maxbuf :: nat
  rd_rstack :: "redisReadTask list"
  rd_ridx :: int
  rd_reply :: "addr option"
  rd_heap :: heap

definition redisReaderSetError :: "int \<Rightarrow> string \<Rightarrow> redisReader \<Rightarrow> redisReader" where
  "redisReaderSetError ty str r =
     (let r1 = (case rd_reply r of
                  None \<Rightarrow> r
                | Some a \<Rightarrow> r\<lparr>rd_heap := freeReplyObject a (rd_heap r), rd_reply := None\<rparr>);
          r2 = (case rd_buf r1 of
                  None \<Rightarrow> r1
                | Some _ \<Rightarrow> r1\<lparr>rd_buf := None, rd_pos := 0, rd_len := 0\<rparr>)
      in r2\<lparr>rd_ridx := -1, rd_err := ty, rd_errstr := take 127 str\<rparr>)"

definition isprint :: "char \<Rightarrow> bool" where
  "isprint c \<longleftrightarrow> 32 \<le> (of_char c :: nat) \<and> (of_char c :: nat) \<le> 126"

definition hex_char :: "nat \<Rightarrow> char" where
  "hex_char d = (if d < 10 then char_of (48 + d) else char_of (87 + d))"

definition chrtos :: "char \<Rightarrow> string" where
  "chrtos byte =
     (let q = [CHR 0x22]; b = [CHR 0x5C] in
      if byte = CHR 0x5C \<or> byte = CHR 0x22 then q @ b @ [byte] @ q
      else if byte = LF then q @ b @ ''n'' @ q
      else if byte = CR then q @ b @ ''r'' @ q
      else if byte = TAB then q @ b @ ''t'' @ q
      else if byte = CHR 0x07 then q @ b @ ''a'' @ q
      else if byte = CHR 0x08 then q @ b @ ''b'' @ q
      else if isprint byte then q @ [byte] @ q
      else q @ b @ ''x'' @ [hex_char (of_char byte div 16), hex_char (of_char byte mod 16)] @ q)"

definition redisReaderSetErrorProtocolByte :: "char \<Rightarrow> redisReader \<Rightarrow> redisReader" where
  "redisReaderSetErrorProtocolByte byte r =
     redisReaderSetError REDIS_ERR_PROTOCOL
       (take 127 (''Protocol error, got '' @ take 7 (chrtos byte) @ '' as reply type byte'')) r"

definition redisReaderSetErrorOOM :: "redisReader \<Rightarrow> redisReader" where
  "redisReaderSetErrorOOM r = redisReaderSetError REDIS_ERR_OOM ''Out of memory'' r"

definition rd_block :: "redisReader \<Rightarrow> char list res" where
  "rd_block r = (case rd_buf r of None \<Rightarrow> Inl NullDeref | Some s \<Rightarrow> Inr (sds_buf s))"

text \<open>\<^verbatim>\<open>readBytes\<close>: the offset of the bytes in the buffer.\<close>

definition readBytes :: "nat \<Rightarrow> redisReader \<Rightarrow> nat option \<times> redisReader" where
  "readBytes bytes r =
     (if u64 (int (rd_len r) - int (rd_pos r)) \<ge> bytes
      then (Some (rd_pos r), r\<lparr>rd_pos := rd_pos r + bytes\<rparr>)
      else (None, r))"

text \<open>
  \<^verbatim>\<open>seekNewline\<close> on the bytes from offset \<open>off\<close> on; \<open>len1\<close> is the \<^verbatim>\<open>int\<close> \<^verbatim>\<open>_len\<close>.  The inner
  loop looks for a carriage return.
\<close>

function seek_cr :: "char list \<Rightarrow> nat \<Rightarrow> nat \<Rightarrow> int \<Rightarrow> nat res" where
  "seek_cr blk off pos len1 =
     (if int pos < len1
      then bind_res (byte_at blk (off + pos)) (\<lambda>c.
             if c \<noteq> CR then seek_cr blk off (Suc pos) len1 else Inr pos)
      else Inr pos)"
  by pat_completeness auto
termination
  by (relation "measure (\<lambda>(blk, off, pos, len1). nat (len1 - int pos))") auto

declare seek_cr.simps [simp del]

lemma seek_cr_ge: "seek_cr blk off pos len1 = Inr q \<Longrightarrow> pos \<le> q"
proof (induction blk off pos len1 rule: seek_cr.induct)
  case (1 blk off pos len1)
  from 1(2) show ?case
    by (subst (asm) seek_cr.simps)
      (use 1(1) in \<open>auto simp: bind_res_Inr split: if_splits dest: Suc_leD\<close>)
qed

function seek_loop :: "char list \<Rightarrow> nat \<Rightarrow> nat \<Rightarrow> int \<Rightarrow> nat option res" where
  "seek_loop blk off pos len1 =
     (if int pos < len1
      then bind_res (seek_cr blk off pos len1) (\<lambda>q.
           bind_res (byte_at blk (off + q)) (\<lambda>c.
             if c \<noteq> CR then Inr None
             else bind_res (byte_at blk (off + q + 1)) (\<lambda>d.
               if d = LF then Inr (Some q) else seek_loop blk off (Suc q) len1)))
      else Inr None)"
  by pat_completeness auto
termination
  by (relation "measure (\<lambda>(blk, off, pos, len1). nat (len1 - int pos))") (auto dest: seek_cr_ge)

declare seek_loop.simps [simp del]

definition seekNewline :: "char list \<Rightarrow> nat \<Rightarrow> nat \<Rightarrow> nat option res" where
  "seekNewline blk off len = seek_loop blk off 0 (i32 (int (u64 (int len - 1))))"

text \<open>\<^verbatim>\<open>readLongLong\<close>: \<open>None\<close> stands for the \<^verbatim>\<open>return -1\<close> on an unexpected byte.\<close>

function rll_loop :: "char list \<Rightarrow> nat \<Rightarrow> int \<Rightarrow> int option res" where
  "rll_loop blk off v =
     bind_res (byte_at blk off) (\<lambda>c.
       if c = CR then Inr (Some v)
       else if is_digit c then rll_loop blk (Suc off) (i64 (i64 (v * 10) + (int (of_char c) - 48)))
       else Inr None)"
  by pat_completeness auto
termination
  by (relation "measure (\<lambda>(blk, off, v). length blk - off)") (auto simp: byte_at_def split: if_splits)

declare rll_loop.simps [simp del]

definition readLongLong :: "char list \<Rightarrow> nat \<Rightarrow> int res" where
  "readLongLong blk off =
     bind_res (byte_at blk off) (\<lambda>c.
       let mult = (if c = CHR ''-'' then -1 else 1);
           off1 = (if c = CHR ''-'' \<or> c = CHR ''+'' then Suc off else off)
       in bind_res (rll_loop blk off1 0) (\<lambda>v.
            Inr (case v of None \<Rightarrow> -1 | Some v \<Rightarrow> i64 (mult * v))))"

text \<open>\<^verbatim>\<open>readLine\<close>: offset and length of the line.\<close>

definition readLine :: "redisReader \<Rightarrow> ((nat \<times> nat) option \<times> redisReader) res" where
  "readLine r =
     bind_res (rd_block r) (\<lambda>blk.
     bind_res (seekNewline blk (rd_pos r) (u64 (int (rd_len r) - int (rd_pos r)))) (\<lambda>s.
       case s of
         None \<Rightarrow> Inr (None, r)
       | Some n \<Rightarrow> Inr (Some (rd_pos r, n), r\<lparr>rd_pos := u64 (int (rd_pos r) + (i32 (int n) + 2))\<rparr>)))"

definition cur_task :: "redisReader \<Rightarrow> redisReadTask res" where
  "cur_task r =
     (if 0 \<le> rd_ridx r \<and> nat (rd_ridx r) < length (rd_rstack r) then Inr (rd_rstack r ! nat (rd_ridx r))
      else Inl OutOfBounds)"

definition set_cur :: "redisReadTask \<Rightarrow> redisReader \<Rightarrow> redisReader" where
  "set_cur t r = r\<lparr>rd_rstack := (rd_rstack r)[nat (rd_ridx r) := t]\<rparr>"

function moveToNextTask :: "redisReader \<Rightarrow> redisReader res" where
  "moveToNextTask r =
     (if rd_ridx r \<ge> 0
      then if rd_ridx r = 0 then Inr (r\<lparr>rd_ridx := -1\<rparr>)
      else
        let cur = rd_rstack r ! nat (rd_ridx r); prv = rd_rstack r ! (nat (rd_ridx r) - 1) in
        check_res (rt_type prv = REPLY_ARRAY) AssertFailed
          (if rt_idx cur = i32 (rt_elements prv - 1) then moveToNextTask (r\<lparr>rd_ridx := rd_ridx r - 1\<rparr>)
           else check_res (rt_idx cur < rt_elements prv) AssertFailed
             (Inr (set_cur (cur\<lparr>rt_type := -1, rt_elements := -1, rt_idx := i32 (rt_idx cur + 1)\<rparr>) r)))
      else Inr r)"
  by pat_completeness auto
termination
  by (relation "measure (\<lambda>r. nat (rd_ridx r))") auto

declare moveToNextTask.simps [simp del]

text \<open>
  The end of \<^verbatim>\<open>processLineItem\<close> and \<^verbatim>\<open>processBulkItem\<close>: NULL is reported as out of memory, an
  object becomes the reply when it is the root.
\<close>

definition finish_item :: "nat \<Rightarrow> addr option \<times> heap \<Rightarrow> redisReader \<Rightarrow> (int \<times> redisReader) res" where
  "finish_item pos objh r =
     (case objh of
        (None, h) \<Rightarrow> Inr (REDIS_ERR, redisReaderSetErrorOOM (r\<lparr>rd_heap := h\<rparr>))
      | (Some a, h) \<Rightarrow>
          let r1 = r\<lparr>rd_heap := h, rd_pos := pos\<rparr>;
              r2 = (if rd_ridx r1 = 0 then r1\<lparr>rd_reply := Some a\<rparr> else r1)
          in bind_res (moveToNextTask r2) (\<lambda>r3. Inr (REDIS_OK, r3)))"

definition processLineItem :: "cmem \<Rightarrow> redisReader \<Rightarrow> (int \<times> redisReader) res" where
  "processLineItem m r =
     bind_res (cur_task r) (\<lambda>cur.
     bind_res (readLine r) (\<lambda>(line, r1).
       case line of
         None \<Rightarrow> Inr (REDIS_ERR, r1)
       | Some (p, len) \<Rightarrow>
           bind_res (rd_block r1) (\<lambda>blk.
           bind_res
             (if rt_type cur = REPLY_INTEGER
              then bind_res (readLongLong blk p) (\<lambda>v. createIntegerObject m (rd_rstack r1) cur v (rd_heap r1))
              else bind_res (peek blk p len) (\<lambda>str. createStringObject m (rd_rstack r1) cur str (rd_heap r1)))
             (\<lambda>objh. finish_item (rd_pos r1) objh r1))))"

definition processBulkItem :: "cmem \<Rightarrow> redisReader \<Rightarrow> (int \<times> redisReader) res" where
  "processBulkItem m r =
     bind_res (cur_task r) (\<lambda>cur.
     bind_res (rd_block r) (\<lambda>blk.
     bind_res (seekNewline blk (rd_pos r) (u64 (int (rd_len r) - int (rd_pos r)))) (\<lambda>s.
       case s of
         None \<Rightarrow> Inr (REDIS_ERR, r)
       | Some n \<Rightarrow>
           bind_res (readLongLong blk (rd_pos r)) (\<lambda>len.
             if len < 0
             then bind_res (createNilObject m (rd_rstack r) cur (rd_heap r))
                    (\<lambda>objh. finish_item (rd_pos r + (n + 2)) objh r)
             else
               let bytelen = u64 (int n + 2 + (len + 2)) in
               if u64 (int (rd_pos r) + int bytelen) \<le> rd_len r
               then bind_res (peek blk (rd_pos r + n + 2) (nat len)) (\<lambda>str.
                    bind_res (createStringObject m (rd_rstack r) cur str (rd_heap r))
                      (\<lambda>objh. finish_item (u64 (int (rd_pos r) + int bytelen)) objh r))
               else Inr (REDIS_ERR, r)))))"

definition processMultiBulkItem :: "cmem \<Rightarrow> redisReader \<Rightarrow> (int \<times> redisReader) res" where
  "processMultiBulkItem m r =
     bind_res (cur_task r) (\<lambda>cur.
       if rd_ridx r = 8
       then Inr (REDIS_ERR, redisReaderSetError REDIS_ERR_PROTOCOL
              ''No support for nested multi bulk replies with depth > 7'' r)
       else
         bind_res (readLine r) (\<lambda>(line, r1).
           case line of
             None \<Rightarrow> Inr (REDIS_ERR, r1)
           | Some (p, _) \<Rightarrow>
               bind_res (rd_block r1) (\<lambda>blk.
               bind_res (readLongLong blk p) (\<lambda>elements.
                 let root = (rd_ridx r1 = 0) in
                 if elements = -1
                 then
                   bind_res (createNilObject m (rd_rstack r1) cur (rd_heap r1)) (\<lambda>objh.
                     case objh of
                       (None, h) \<Rightarrow> Inr (REDIS_ERR, redisReaderSetErrorOOM (r1\<lparr>rd_heap := h\<rparr>))
                     | (Some a, h) \<Rightarrow>
                         bind_res (moveToNextTask (r1\<lparr>rd_heap := h\<rparr>)) (\<lambda>r2.
                           Inr (REDIS_OK, if root then r2\<lparr>rd_reply := Some a\<rparr> else r2)))
                 else
                   bind_res (createArrayObject m (rd_rstack r1) cur (i32 elements) (rd_heap r1)) (\<lambda>objh.
                     case objh of
                       (None, h) \<Rightarrow> Inr (REDIS_ERR, redisReaderSetErrorOOM (r1\<lparr>rd_heap := h\<rparr>))
                     | (Some a, h) \<Rightarrow>
                         bind_res
                           (if elements > 0
                            then let r2 = set_cur (cur\<lparr>rt_elements := i32 elements, rt_obj := Some a\<rparr>) (r1\<lparr>rd_heap := h\<rparr>);
                                     r3 = r2\<lparr>rd_ridx := rd_ridx r2 + 1\<rparr>
                                 in Inr (set_cur \<lparr>rt_type = -1, rt_elements = -1, rt_idx = 0, rt_obj = None,
                                           rt_parent = Some (nat (rd_ridx r2))\<rparr> r3)
                            else moveToNextTask (r1\<lparr>rd_heap := h\<rparr>))
                           (\<lambda>r2. Inr (REDIS_OK, if root then r2\<lparr>rd_reply := Some a\<rparr> else r2)))))))"

text \<open>The type of an item from its first byte.\<close>

definition item_type :: "char \<Rightarrow> int option" where
  "item_type c =
     (if c = CHR ''-'' then Some REPLY_ERROR
      else if c = CHR ''+'' then Some REPLY_STATUS
      else if c = CHR '':'' then Some REPLY_INTEGER
      else if c = CHR ''$'' then Some REPLY_STRING
      else if c = CHR ''*'' then Some REPLY_ARRAY
      else None)"

definition process_typed :: "cmem \<Rightarrow> redisReader \<Rightarrow> (int \<times> redisReader) res" where
  "process_typed m r =
     bind_res (cur_task r) (\<lambda>cur.
       if rt_type cur \<in> {REPLY_ERROR, REPLY_STATUS, REPLY_INTEGER} then processLineItem m r
       else if rt_type cur = REPLY_STRING then processBulkItem m r
       else if rt_type cur = REPLY_ARRAY then processMultiBulkItem m r
       else Inl AssertFailed)"

definition processItem :: "cmem \<Rightarrow> redisReader \<Rightarrow> (int \<times> redisReader) res" where
  "processItem m r =
     bind_res (cur_task r) (\<lambda>cur.
       if rt_type cur < 0
       then
         (case readBytes 1 r of
            (None, r1) \<Rightarrow> Inr (REDIS_ERR, r1)
          | (Some p, r1) \<Rightarrow>
              bind_res (rd_block r1) (\<lambda>blk.
              bind_res (byte_at blk p) (\<lambda>c.
                case item_type c of
                  None \<Rightarrow> Inr (REDIS_ERR, redisReaderSetErrorProtocolByte c r1)
                | Some ty \<Rightarrow> process_typed m (set_cur (cur\<lparr>rt_type := ty\<rparr>) r1))))
       else process_typed m r)"

definition redisReaderCreate :: "cmem \<Rightarrow> redisReader option" where
  "redisReaderCreate m =
     (if mem_ok m 560
      then case sdsempty m of
          Inl _ \<Rightarrow> None
        | Inr s \<Rightarrow> Some \<lparr>rd_err = 0, rd_errstr = [], rd_buf = Some s, rd_pos = 0, rd_len = 0,
            rd_maxbuf = 16384,
            rd_rstack = replicate 9 \<lparr>rt_type = 0, rt_elements = 0, rt_idx = 0, rt_obj = None, rt_parent = None\<rparr>,
            rd_ridx = -1, rd_reply = None, rd_heap = []\<rparr>
      else None)"

definition feed_buffer :: "cmem \<Rightarrow> sds \<Rightarrow> redisReader \<Rightarrow> (sds \<times> redisReader) res" where
  "feed_buffer m s r =
     (if rd_len r = 0 \<and> rd_maxbuf r \<noteq> 0 \<and> sdsavail s > rd_maxbuf r
      then (case sdsempty m of
              Inl _ \<Rightarrow> Inl AssertFailed
            | Inr e \<Rightarrow> Inr (e, r\<lparr>rd_buf := Some e, rd_pos := 0\<rparr>))
      else Inr (s, r))"

definition redisReaderFeed :: "cmem \<Rightarrow> char list option \<Rightarrow> nat \<Rightarrow> redisReader \<Rightarrow> (int \<times> redisReader) res" where
  "redisReaderFeed m buf len r =
     (if rd_err r \<noteq> 0 then Inr (REDIS_ERR, r)
      else if buf = None \<or> len < 1 then Inr (REDIS_OK, r)
      else
        (case rd_buf r of
           None \<Rightarrow> Inl NullDeref
         | Some s0 \<Rightarrow>
             bind_res (feed_buffer m s0 r) (\<lambda>(s, r).
               (case sdscatlen m s (the buf) len of
                  Inl e \<Rightarrow> if e = OutOfMemory then Inr (REDIS_ERR, redisReaderSetErrorOOM r) else Inl e
                | Inr newbuf \<Rightarrow> Inr (REDIS_OK, r\<lparr>rd_buf := Some newbuf, rd_len := sdslen newbuf\<rparr>)))))"

text \<open>
  The loop of \<^verbatim>\<open>redisReaderGetReply\<close> with fuel; \<open>None\<close> says that the fuel was not enough.  Each
  item takes at least two bytes of the buffer, so its length is enough.
\<close>

fun process_items :: "cmem \<Rightarrow> nat \<Rightarrow> redisReader \<Rightarrow> redisReader option res" where
  "process_items m 0 r = Inr None"
| "process_items m (Suc n) r =
     (if rd_ridx r \<ge> 0
      then bind_res (processItem m r) (\<lambda>(rc, r1).
             if rc \<noteq> REDIS_OK then Inr (Some r1) else process_items m n r1)
      else Inr (Some r))"

definition start_reply :: "redisReader \<Rightarrow> redisReader" where
  "start_reply r =
     (if rd_ridx r = -1
      then (r\<lparr>rd_rstack := (rd_rstack r)[0 := \<lparr>rt_type = -1, rt_elements = -1, rt_idx = -1,
              rt_obj = None, rt_parent = None\<rparr>], rd_ridx := 0\<rparr>)
      else r)"

definition discard_consumed :: "redisReader \<Rightarrow> redisReader res" where
  "discard_consumed r =
     (if rd_pos r \<ge> 1024
      then case rd_buf r of
          None \<Rightarrow> Inl NullDeref
        | Some s \<Rightarrow> bind_res (sdsrange s (i32 (int (rd_pos r))) (-1)) (\<lambda>s'.
            Inr (r\<lparr>rd_buf := Some s', rd_pos := 0, rd_len := sdslen s'\<rparr>))
      else Inr r)"

text \<open>The result is the return code, the reply, and the state; \<open>None\<close> for lack of fuel.\<close>

definition redisReaderGetReply ::
    "cmem \<Rightarrow> redisReader \<Rightarrow> (int \<times> addr option \<times> redisReader) option res" where
  "redisReaderGetReply m r =
     (if rd_err r \<noteq> 0 then Inr (Some (REDIS_ERR, None, r))
      else if rd_len r = 0 then Inr (Some (REDIS_OK, None, r))
      else
        bind_res (process_items m (rd_len r + 1) (start_reply r)) (\<lambda>o1.
          case o1 of
            None \<Rightarrow> Inr None
          | Some r1 \<Rightarrow>
              if rd_err r1 \<noteq> 0 then Inr (Some (REDIS_ERR, None, r1))
              else bind_res (discard_consumed r1) (\<lambda>r2.
                if rd_ridx r2 = -1 then Inr (Some (REDIS_OK, rd_reply r2, r2\<lparr>rd_reply := None\<rparr>))
                else Inr (Some (REDIS_OK, None, r2)))))"

end
