(* ===== verification/Context.thy ===== *)
theory Context
  imports Format Reader
begin

text \<open>
  The blocking client context (\<^verbatim>\<open>src/src/deps/hiredis/hiredis.c\<close>, lines 577 to 583 and 973 to
  1322).  The results of the system calls \<^verbatim>\<open>read\<close> and \<^verbatim>\<open>write\<close> are inputs: a list of what the
  successive calls return; the bytes that the socket accepted are an output.  \<open>None\<close> as the result
  of a loop says that the next system call has not returned yet.  The text of an error number and
  the connection set-up of \<^verbatim>\<open>net.c\<close> are parameters.
\<close>

abbreviation (input) REDIS_ERR_IO :: int where "REDIS_ERR_IO \<equiv> 1"
abbreviation (input) REDIS_ERR_OTHER :: int where "REDIS_ERR_OTHER \<equiv> 2"
abbreviation (input) REDIS_ERR_EOF :: int where "REDIS_ERR_EOF \<equiv> 3"
abbreviation (input) EINTR :: int where "EINTR \<equiv> 4"
abbreviation (input) EAGAIN :: int where "EAGAIN \<equiv> 11"

text \<open>The flags by the number of their bit.\<close>

abbreviation (input) REDIS_BLOCK :: nat where "REDIS_BLOCK \<equiv> 0"
abbreviation (input) REDIS_CONNECTED :: nat where "REDIS_CONNECTED \<equiv> 1"

record redisContext =
  rc_err :: int
  rc_errstr :: string
  rc_fd :: int
  rc_flags :: int
  rc_obuf :: "sds option"
  rc_reader :: "redisReader option"

definition has_flag :: "nat \<Rightarrow> redisContext \<Rightarrow> bool" where
  "has_flag n c = bit (rc_flags c) n"

text \<open>The answers of \<^verbatim>\<open>write\<close> and \<^verbatim>\<open>read\<close>.  The code reads into 16384 bytes; the model takes any number of bytes at once.\<close>

datatype sys_write = Wrote nat | WriteError int
datatype sys_read = Received "char list" | ReadError int

definition redisReaderFree :: "redisReader \<Rightarrow> heap" where
  "redisReaderFree r = (case rd_reply r of None \<Rightarrow> rd_heap r | Some a \<Rightarrow> freeReplyObject a (rd_heap r))"

text \<open>\<^verbatim>\<open>__redisSetError\<close>; \<open>None\<close> as text stands for NULL, \<open>errtext\<close> for the text of \<^verbatim>\<open>errno\<close>.\<close>

definition redisSetError :: "string \<Rightarrow> int \<Rightarrow> string option \<Rightarrow> redisContext \<Rightarrow> redisContext res" where
  "redisSetError errtext ty str c =
     (case str of
        Some s \<Rightarrow> Inr (c\<lparr>rc_err := ty, rc_errstr := take 127 (c_str s)\<rparr>)
      | None \<Rightarrow> check_res (ty = REDIS_ERR_IO) AssertFailed
          (Inr (c\<lparr>rc_err := ty, rc_errstr := take 127 errtext\<rparr>)))"

definition redisContextInit :: "cmem \<Rightarrow> redisContext option" where
  "redisContextInit m =
     (if mem_ok m 160
      then Some \<lparr>rc_err = 0, rc_errstr = [], rc_fd = 0, rc_flags = 0,
        rc_obuf = (case sdsempty m of Inl _ \<Rightarrow> None | Inr s \<Rightarrow> Some s), rc_reader = redisReaderCreate m\<rparr>
      else None)"

text \<open>The descriptor to close, and the heap of reply objects.\<close>

definition redisFree :: "redisContext \<Rightarrow> int option \<times> heap" where
  "redisFree c = (if rc_fd c > 0 then Some (rc_fd c) else None,
     case rc_reader c of None \<Rightarrow> [] | Some r \<Rightarrow> redisReaderFree r)"

text \<open>
  The constructors; \<open>connect\<close> is the effect of \<^verbatim>\<open>redisContextConnectTcp\<close> or
  \<^verbatim>\<open>redisContextConnectUnix\<close> on the context (theory \<open>Net\<close>).
\<close>

definition connect_blocking :: "cmem \<Rightarrow> (redisContext \<Rightarrow> redisContext) \<Rightarrow> redisContext option" where
  "connect_blocking m connect = map_option (\<lambda>c. connect (c\<lparr>rc_flags := set_bit REDIS_BLOCK (rc_flags c)\<rparr>)) (redisContextInit m)"

definition connect_nonblocking :: "cmem \<Rightarrow> (redisContext \<Rightarrow> redisContext) \<Rightarrow> redisContext option" where
  "connect_nonblocking m connect = map_option (\<lambda>c. connect (c\<lparr>rc_flags := unset_bit REDIS_BLOCK (rc_flags c)\<rparr>)) (redisContextInit m)"

definition redisConnect ::
    "cmem \<Rightarrow> (string \<Rightarrow> int \<Rightarrow> 't option \<Rightarrow> redisContext \<Rightarrow> redisContext) \<Rightarrow> string \<Rightarrow> int \<Rightarrow> redisContext option" where
  "redisConnect m tcp ip port = connect_blocking m (tcp ip port None)"

definition redisConnectWithTimeout ::
    "cmem \<Rightarrow> (string \<Rightarrow> int \<Rightarrow> 't option \<Rightarrow> redisContext \<Rightarrow> redisContext) \<Rightarrow> string \<Rightarrow> int \<Rightarrow> 't \<Rightarrow> redisContext option" where
  "redisConnectWithTimeout m tcp ip port tv = connect_blocking m (tcp ip port (Some tv))"

definition redisConnectNonBlock ::
    "cmem \<Rightarrow> (string \<Rightarrow> int \<Rightarrow> 't option \<Rightarrow> redisContext \<Rightarrow> redisContext) \<Rightarrow> string \<Rightarrow> int \<Rightarrow> redisContext option" where
  "redisConnectNonBlock m tcp ip port = connect_nonblocking m (tcp ip port None)"

definition redisConnectUnix ::
    "cmem \<Rightarrow> (string \<Rightarrow> 't option \<Rightarrow> redisContext \<Rightarrow> redisContext) \<Rightarrow> string \<Rightarrow> redisContext option" where
  "redisConnectUnix m unix path = connect_blocking m (unix path None)"

definition redisConnectUnixWithTimeout ::
    "cmem \<Rightarrow> (string \<Rightarrow> 't option \<Rightarrow> redisContext \<Rightarrow> redisContext) \<Rightarrow> string \<Rightarrow> 't \<Rightarrow> redisContext option" where
  "redisConnectUnixWithTimeout m unix path tv = connect_blocking m (unix path (Some tv))"

definition redisConnectUnixNonBlock ::
    "cmem \<Rightarrow> (string \<Rightarrow> 't option \<Rightarrow> redisContext \<Rightarrow> redisContext) \<Rightarrow> string \<Rightarrow> redisContext option" where
  "redisConnectUnixNonBlock m unix path = connect_nonblocking m (unix path None)"

definition redisSetTimeout :: "('t \<Rightarrow> redisContext \<Rightarrow> int \<times> redisContext) \<Rightarrow> 't \<Rightarrow> redisContext \<Rightarrow> int \<times> redisContext" where
  "redisSetTimeout set_timeout tv c = (if has_flag REDIS_BLOCK c then set_timeout tv c else (REDIS_ERR, c))"

definition redisEnableKeepAlive :: "(int \<Rightarrow> redisContext \<Rightarrow> int \<times> redisContext) \<Rightarrow> redisContext \<Rightarrow> int \<times> redisContext" where
  "redisEnableKeepAlive keep_alive c =
     (case keep_alive 15 c of (rc, c') \<Rightarrow> (if rc \<noteq> REDIS_OK then REDIS_ERR else REDIS_OK, c'))"

section \<open>Reading and writing\<close>

definition try_again :: "int \<Rightarrow> redisContext \<Rightarrow> bool" where
  "try_again errno c \<longleftrightarrow> (errno = EAGAIN \<and> \<not> has_flag REDIS_BLOCK c) \<or> errno = EINTR"

text \<open>\<^verbatim>\<open>redisBufferRead\<close> when \<^verbatim>\<open>read\<close> returns \<open>rd\<close>.  The reader's error text is a C string.\<close>

definition redisBufferRead ::
    "cmem \<Rightarrow> (int \<Rightarrow> string) \<Rightarrow> sys_read \<Rightarrow> redisContext \<Rightarrow> (int \<times> redisContext) res" where
  "redisBufferRead m strerror rd c =
     (if rc_err c \<noteq> 0 then Inr (REDIS_ERR, c)
      else case rd of
          ReadError errno \<Rightarrow>
            if try_again errno c then Inr (REDIS_OK, c)
            else bind_res (redisSetError (strerror errno) REDIS_ERR_IO None c) (\<lambda>c. Inr (REDIS_ERR, c))
        | Received bytes \<Rightarrow>
            if bytes = []
            then bind_res (redisSetError [] REDIS_ERR_EOF (Some ''Server closed the connection'') c)
                   (\<lambda>c. Inr (REDIS_ERR, c))
            else (case rc_reader c of
                None \<Rightarrow> Inl NullDeref
              | Some r \<Rightarrow>
                  bind_res (redisReaderFeed m (Some bytes) (length bytes) r) (\<lambda>(rc, r').
                    let c1 = c\<lparr>rc_reader := Some r'\<rparr> in
                    if rc \<noteq> REDIS_OK
                    then bind_res (redisSetError [] (rd_err r') (Some (rd_errstr r')) c1) (\<lambda>c. Inr (REDIS_ERR, c))
                    else Inr (REDIS_OK, c1))))"

text \<open>
  \<^verbatim>\<open>redisBufferWrite\<close> when \<^verbatim>\<open>write\<close> returns \<open>w\<close>: the return code, the value of \<^verbatim>\<open>*done\<close>, the
  bytes the socket took, and the context.
\<close>

definition redisBufferWrite ::
    "cmem \<Rightarrow> (int \<Rightarrow> string) \<Rightarrow> sys_write \<Rightarrow> redisContext \<Rightarrow> (int \<times> bool \<times> char list \<times> redisContext) res" where
  "redisBufferWrite m strerror w c =
     (if rc_err c \<noteq> 0 then Inr (REDIS_ERR, False, [], c)
      else case rc_obuf c of
          None \<Rightarrow> Inl NullDeref
        | Some obuf \<Rightarrow>
            let fin = (\<lambda>sent c. case rc_obuf c of
                         None \<Rightarrow> Inl NullDeref
                       | Some s \<Rightarrow> Inr (REDIS_OK, sdslen s = 0, sent, c))
            in if sdslen obuf > 0
               then (case w of
                   WriteError errno \<Rightarrow>
                     if try_again errno c then fin [] c
                     else bind_res (redisSetError (strerror errno) REDIS_ERR_IO None c)
                            (\<lambda>c. Inr (REDIS_ERR, False, [], c))
                 | Wrote n \<Rightarrow>
                     if n > 0
                     then if int n = i32 (int (sdslen obuf))
                          then fin (take n (sds_str obuf))
                                 (c\<lparr>rc_obuf := (case sdsempty m of Inl _ \<Rightarrow> None | Inr e \<Rightarrow> Some e)\<rparr>)
                          else bind_res (sdsrange obuf (int n) (-1))
                                 (\<lambda>s. fin (take n (sds_str obuf)) (c\<lparr>rc_obuf := Some s\<rparr>))
                     else fin [] c)
               else fin [] c)"

definition redisGetReplyFromReader ::
    "cmem \<Rightarrow> redisContext \<Rightarrow> (int \<times> addr option \<times> redisContext) option res" where
  "redisGetReplyFromReader m c =
     (case rc_reader c of
        None \<Rightarrow> Inl NullDeref
      | Some r \<Rightarrow>
          bind_res (redisReaderGetReply m r) (\<lambda>o1.
            case o1 of
              None \<Rightarrow> Inr None
            | Some (rc, reply, r') \<Rightarrow>
                let c1 = c\<lparr>rc_reader := Some r'\<rparr> in
                if rc = REDIS_ERR
                then bind_res (redisSetError [] (rd_err r') (Some (rd_errstr r')) c1)
                       (\<lambda>c. Inr (Some (REDIS_ERR, reply, c)))
                else Inr (Some (REDIS_OK, reply, c1))))"

text \<open>The loop that writes until the output buffer is empty; no system call is made when it is.\<close>

definition writes_now :: "redisContext \<Rightarrow> bool" where
  "writes_now c \<longleftrightarrow> rc_err c = 0 \<and> (case rc_obuf c of None \<Rightarrow> False | Some s \<Rightarrow> sdslen s > 0)"

fun write_loop ::
    "cmem \<Rightarrow> (int \<Rightarrow> string) \<Rightarrow> sys_write list \<Rightarrow> char list \<Rightarrow> redisContext \<Rightarrow>
       (int \<times> char list \<times> sys_write list \<times> redisContext) option res" where
  "write_loop m strerror [] sent c =
     (if writes_now c then Inr None
      else bind_res (redisBufferWrite m strerror (Wrote 0) c) (\<lambda>(rc, _, _, c). Inr (Some (rc, sent, [], c))))"
| "write_loop m strerror (w # ws) sent c =
     (if writes_now c
      then bind_res (redisBufferWrite m strerror w c) (\<lambda>(rc, wdone, bs, c).
             if rc = REDIS_ERR then Inr (Some (REDIS_ERR, sent @ bs, ws, c))
             else if \<not> wdone then write_loop m strerror ws (sent @ bs) c
             else Inr (Some (REDIS_OK, sent @ bs, ws, c)))
      else bind_res (redisBufferWrite m strerror (Wrote 0) c) (\<lambda>(rc, _, _, c). Inr (Some (rc, sent, w # ws, c))))"

text \<open>The loop that reads until there is a reply.\<close>

fun read_loop ::
    "cmem \<Rightarrow> (int \<Rightarrow> string) \<Rightarrow> sys_read list \<Rightarrow> redisContext \<Rightarrow>
       (int \<times> addr option \<times> sys_read list \<times> redisContext) option res" where
  "read_loop m strerror [] c = (if rc_err c \<noteq> 0 then Inr (Some (REDIS_ERR, None, [], c)) else Inr None)"
| "read_loop m strerror (rd # rds) c =
     bind_res (redisBufferRead m strerror rd c) (\<lambda>(rc, c1).
       if rc = REDIS_ERR then Inr (Some (REDIS_ERR, None, rds, c1))
       else bind_res (redisGetReplyFromReader m c1) (\<lambda>o1.
         case o1 of
           None \<Rightarrow> Inr None
         | Some (rc, aux, c2) \<Rightarrow>
             if rc = REDIS_ERR then Inr (Some (REDIS_ERR, None, rds, c2))
             else case aux of
                 None \<Rightarrow> read_loop m strerror rds c2
               | Some a \<Rightarrow> Inr (Some (REDIS_OK, Some a, rds, c2))))"

text \<open>The result of a client call: return code, reply, bytes sent, system calls left, context.\<close>

record call_result =
  cr_rc :: int
  cr_reply :: "addr option"
  cr_sent :: "char list"
  cr_writes :: "sys_write list"
  cr_reads :: "sys_read list"
  cr_ctx :: redisContext

definition redisGetReply ::
    "cmem \<Rightarrow> (int \<Rightarrow> string) \<Rightarrow> sys_write list \<Rightarrow> sys_read list \<Rightarrow> redisContext \<Rightarrow> call_result option res" where
  "redisGetReply m strerror ws rds c =
     bind_res (redisGetReplyFromReader m c) (\<lambda>o1.
       case o1 of
         None \<Rightarrow> Inr None
       | Some (rc, aux, c1) \<Rightarrow>
           let res = (\<lambda>rc aux sent ws rds c. Inr (Some \<lparr>cr_rc = rc, cr_reply = aux, cr_sent = sent,
                        cr_writes = ws, cr_reads = rds, cr_ctx = c\<rparr>)) in
           if rc = REDIS_ERR then res REDIS_ERR None [] ws rds c1
           else if aux = None \<and> has_flag REDIS_BLOCK c1
           then bind_res (write_loop m strerror ws [] c1) (\<lambda>o2.
                  case o2 of
                    None \<Rightarrow> Inr None
                  | Some (rc, sent, ws', c2) \<Rightarrow>
                      if rc = REDIS_ERR then res REDIS_ERR None sent ws' rds c2
                      else bind_res (read_loop m strerror rds c2) (\<lambda>o3.
                        case o3 of
                          None \<Rightarrow> Inr None
                        | Some (rc, aux, rds', c3) \<Rightarrow> res rc aux sent ws' rds' c3))
           else res REDIS_OK aux [] ws rds c1)"

section \<open>Commands\<close>

definition redisAppendFormatted :: "cmem \<Rightarrow> char list \<Rightarrow> nat \<Rightarrow> redisContext \<Rightarrow> (int \<times> redisContext) res" where
  "redisAppendFormatted m cmd len c =
     (case rc_obuf c of
        None \<Rightarrow> Inl NullDeref
      | Some s \<Rightarrow>
          (case sdscatlen m s cmd len of
             Inr newbuf \<Rightarrow> Inr (REDIS_OK, c\<lparr>rc_obuf := Some newbuf\<rparr>)
           | Inl e \<Rightarrow>
               if e = OutOfMemory
               then bind_res (redisSetError [] REDIS_ERR_OOM (Some ''Out of memory'') c) (\<lambda>c. Inr (REDIS_ERR, c))
               else Inl e))"

text \<open>What both ways of appending do with the formatted command.\<close>

definition append_result :: "cmem \<Rightarrow> int \<times> char list option \<Rightarrow> redisContext \<Rightarrow> (int \<times> redisContext) res" where
  "append_result m fmt c =
     (if fst fmt = -1
      then bind_res (redisSetError [] REDIS_ERR_OOM (Some ''Out of memory'') c) (\<lambda>c. Inr (REDIS_ERR, c))
      else case snd fmt of
          None \<Rightarrow> Inl NullDeref
        | Some cmd \<Rightarrow>
            bind_res (redisAppendFormatted m cmd (u64 (fst fmt)) c) (\<lambda>(rc, c).
              Inr (if rc \<noteq> REDIS_OK then REDIS_ERR else REDIS_OK, c)))"

definition redisvAppendCommand ::
    "cmem \<Rightarrow> (string \<Rightarrow> c_arg list \<Rightarrow> string) \<Rightarrow> char list \<Rightarrow> c_arg list \<Rightarrow> redisContext \<Rightarrow> (int \<times> redisContext) res" where
  "redisvAppendCommand m other format ap c =
     bind_res (redisvFormatCommand m other True format ap) (\<lambda>fmt. append_result m fmt c)"

definition redisAppendCommand ::
    "cmem \<Rightarrow> (string \<Rightarrow> c_arg list \<Rightarrow> string) \<Rightarrow> char list \<Rightarrow> c_arg list \<Rightarrow> redisContext \<Rightarrow> (int \<times> redisContext) res" where
  "redisAppendCommand m other format args c = redisvAppendCommand m other format args c"

definition redisAppendCommandArgv ::
    "cmem \<Rightarrow> int \<Rightarrow> char list list \<Rightarrow> nat list option \<Rightarrow> redisContext \<Rightarrow> (int \<times> redisContext) res" where
  "redisAppendCommandArgv m argc argv argvlen c =
     bind_res (redisFormatCommandArgv m argc argv argvlen) (\<lambda>fmt. append_result m fmt c)"

text \<open>\<^verbatim>\<open>__redisBlockForReply\<close>; the reply is \<open>None\<close> for NULL.\<close>

definition redisBlockForReply ::
    "cmem \<Rightarrow> (int \<Rightarrow> string) \<Rightarrow> sys_write list \<Rightarrow> sys_read list \<Rightarrow> redisContext \<Rightarrow> call_result option res" where
  "redisBlockForReply m strerror ws rds c =
     (if has_flag REDIS_BLOCK c
      then bind_res (redisGetReply m strerror ws rds c) (\<lambda>o1.
             Inr (map_option (\<lambda>res. if cr_rc res \<noteq> REDIS_OK then res\<lparr>cr_reply := None\<rparr> else res) o1))
      else Inr (Some \<lparr>cr_rc = REDIS_OK, cr_reply = None, cr_sent = [], cr_writes = ws, cr_reads = rds, cr_ctx = c\<rparr>))"

definition after_append ::
    "cmem \<Rightarrow> (int \<Rightarrow> string) \<Rightarrow> sys_write list \<Rightarrow> sys_read list \<Rightarrow> (int \<times> redisContext) res \<Rightarrow> call_result option res" where
  "after_append m strerror ws rds app =
     bind_res app (\<lambda>(rc, c).
       if rc \<noteq> REDIS_OK
       then Inr (Some \<lparr>cr_rc = rc, cr_reply = None, cr_sent = [], cr_writes = ws, cr_reads = rds, cr_ctx = c\<rparr>)
       else redisBlockForReply m strerror ws rds c)"

definition redisvCommand ::
    "cmem \<Rightarrow> (int \<Rightarrow> string) \<Rightarrow> (string \<Rightarrow> c_arg list \<Rightarrow> string) \<Rightarrow> sys_write list \<Rightarrow> sys_read list \<Rightarrow>
       char list \<Rightarrow> c_arg list \<Rightarrow> redisContext \<Rightarrow> call_result option res" where
  "redisvCommand m strerror other ws rds format ap c =
     after_append m strerror ws rds (redisvAppendCommand m other format ap c)"

definition redisCommand ::
    "cmem \<Rightarrow> (int \<Rightarrow> string) \<Rightarrow> (string \<Rightarrow> c_arg list \<Rightarrow> string) \<Rightarrow> sys_write list \<Rightarrow> sys_read list \<Rightarrow>
       char list \<Rightarrow> c_arg list \<Rightarrow> redisContext \<Rightarrow> call_result option res" where
  "redisCommand m strerror other ws rds format args c = redisvCommand m strerror other ws rds format args c"

definition redisCommandArgv ::
    "cmem \<Rightarrow> (int \<Rightarrow> string) \<Rightarrow> sys_write list \<Rightarrow> sys_read list \<Rightarrow>
       int \<Rightarrow> char list list \<Rightarrow> nat list option \<Rightarrow> redisContext \<Rightarrow> call_result option res" where
  "redisCommandArgv m strerror ws rds argc argv argvlen c =
     after_append m strerror ws rds (redisAppendCommandArgv m argc argv argvlen c)"

end
