(* ===== verification/Reader_Safe.thy ===== *)
theory Reader_Safe
  imports Reader
begin

text \<open>
  Memory safety and termination of the protocol parser on arbitrary input: an invariant of the
  reader, the proof that every item keeps it whatever the bytes are and whichever allocation
  fails, and that the loop over the items ends.
\<close>

section \<open>Scanning\<close>

text \<open>The specification of the search for the end of a line.\<close>

fun crlf_pos :: "char list \<Rightarrow> nat option" where
  "crlf_pos (c # d # cs) = (if c = CR \<and> d = LF then Some 0 else map_option Suc (crlf_pos (d # cs)))"
| "crlf_pos _ = None"

lemma crlf_pos_Some:
  "crlf_pos xs = Some n \<Longrightarrow> Suc n < length xs \<and> xs ! n = CR \<and> xs ! Suc n = LF"
proof (induction xs arbitrary: n rule: crlf_pos.induct)
  case (1 c d cs)
  then show ?case by (cases n) (auto split: if_splits)
qed auto

lemma crlf_pos_drop_cr:
  assumes "\<And>i. i < k \<Longrightarrow> xs ! i \<noteq> CR" "k < length xs"
  shows "crlf_pos xs = map_option ((+) k) (crlf_pos (drop k xs))"
  using assms
proof (induction k arbitrary: xs)
  case 0
  then show ?case by (cases "crlf_pos xs") simp_all
next
  case (Suc k)
  obtain c d cs where xs: "xs = c # d # cs"
    using Suc.prems(2) by (metis Suc_less_eq length_Cons length_0_conv list.exhaust not_less_zero)
  have "c \<noteq> CR" using Suc.prems(1) [of 0] xs by simp
  have "crlf_pos (d # cs) = map_option ((+) k) (crlf_pos (drop k (d # cs)))"
  proof (rule Suc.IH)
    show "(d # cs) ! i \<noteq> CR" if "i < k" for i using Suc.prems(1) [of "Suc i"] that by (simp add: xs)
  qed (use Suc.prems(2) in \<open>simp add: xs\<close>)
  with \<open>c \<noteq> CR\<close> show ?case by (simp add: xs option.map_comp comp_def)
qed

lemma seek_cr_correct:
  assumes "off + len \<le> length blk" "int pos < int len"
  shows "\<exists>q. seek_cr blk off pos (int len - 1) = Inr q \<and> pos \<le> q \<and> q < len \<and>
    (\<forall>i. pos \<le> i \<longrightarrow> i < q \<longrightarrow> blk ! (off + i) \<noteq> CR) \<and> (Suc q = len \<or> blk ! (off + q) = CR)"
  using assms(2)
proof (induction "len - pos" arbitrary: pos)
  case 0
  then show ?case by simp
next
  case (Suc k)
  show ?case
  proof (cases "Suc pos < len")
    case True
    have b: "byte_at blk (off + pos) = Inr (blk ! (off + pos))"
      using assms(1) Suc.prems by (simp add: byte_at_def)
    show ?thesis
    proof (cases "blk ! (off + pos) = CR")
      case True
      with b \<open>Suc pos < len\<close> show ?thesis by (subst seek_cr.simps) (auto intro!: exI [of _ pos])
    next
      case False
      have "k = len - Suc pos" using Suc.hyps(2) by simp
      with Suc.hyps(1) [of "Suc pos"] True obtain q where
        q: "seek_cr blk off (Suc pos) (int len - 1) = Inr q" "Suc pos \<le> q" "q < len"
        "\<forall>i. Suc pos \<le> i \<longrightarrow> i < q \<longrightarrow> blk ! (off + i) \<noteq> CR" "Suc q = len \<or> blk ! (off + q) = CR"
        by auto
      have "\<forall>i. pos \<le> i \<longrightarrow> i < q \<longrightarrow> blk ! (off + i) \<noteq> CR"
        using q(4) False by (metis Suc_leI le_neq_implies_less)
      with q b False True show ?thesis by (subst seek_cr.simps) (auto intro!: exI [of _ q])
    qed
  next
    case False
    with Suc.prems show ?thesis by (subst seek_cr.simps) (auto intro!: exI [of _ pos])
  qed
qed

text \<open>
  A carriage return in the last searched byte makes the code look at the byte behind it, which
  in a dynamic string is the terminator.
\<close>

lemma seek_loop_correct:
  assumes "off + len < length blk" "blk ! (off + len) = NUL"
  defines "xs \<equiv> take len (drop off blk)"
  shows "pos \<le> len \<Longrightarrow>
    seek_loop blk off pos (int len - 1) = Inr (map_option ((+) pos) (crlf_pos (drop pos xs)))"
proof (induction "len - pos" arbitrary: pos rule: less_induct)
  case less
  have len: "length xs = len" and nth: "\<And>i. i < len \<Longrightarrow> xs ! i = blk ! (off + i)"
    using assms(1) by (auto simp: xs_def)
  show ?case
  proof (cases "Suc pos < len")
    case True
    with seek_cr_correct [of off len blk pos] assms(1) obtain q where
      q: "seek_cr blk off pos (int len - 1) = Inr q" "pos \<le> q" "q < len"
      "\<forall>i. pos \<le> i \<longrightarrow> i < q \<longrightarrow> blk ! (off + i) \<noteq> CR" "Suc q = len \<or> blk ! (off + q) = CR" by auto
    have skip: "crlf_pos (drop pos xs) = map_option ((+) (q - pos)) (crlf_pos (drop q xs))"
      using crlf_pos_drop_cr [of "q - pos" "drop pos xs"] q(2,3,4) len nth by simp
    have bq: "byte_at blk (off + q) = Inr (xs ! q)" and b1: "byte_at blk (off + q + 1) = Inr (blk ! (off + q + 1))"
      using q(3) assms(1) nth by (simp_all add: byte_at_def)
    have step: "seek_loop blk off pos (int len - 1) =
        (if xs ! q \<noteq> CR then Inr None
         else if blk ! (off + q + 1) = LF then Inr (Some q) else seek_loop blk off (Suc q) (int len - 1))"
      using True q(1) bq b1 by (subst seek_loop.simps) auto
    have rec: "seek_loop blk off (Suc q) (int len - 1) = Inr (map_option ((+) (Suc q)) (crlf_pos (drop (Suc q) xs)))"
      using q(2,3) by (intro less.hyps) auto
    have dq: "drop q xs = xs ! q # drop (Suc q) xs" using q(3) len by (simp add: Cons_nth_drop_Suc)
    show ?thesis
    proof (cases "Suc q = len")
      case True
      then have "drop (Suc q) xs = []" "blk ! (off + q + 1) = NUL" using len assms(2) by auto
      then show ?thesis using step rec skip dq by simp
    next
      case False
      then have q': "xs ! q = CR" "Suc q < len" using q(3,5) nth by auto
      have dq1: "drop (Suc q) xs = xs ! Suc q # drop (Suc (Suc q)) xs" using q'(2) len by (simp add: Cons_nth_drop_Suc)
      have "blk ! (off + q + 1) = xs ! Suc q" using nth [OF q'(2)] by simp
      then show ?thesis
        using step rec skip q(2) q'(1) unfolding dq dq1
        by (cases "crlf_pos (xs ! Suc q # drop (Suc (Suc q)) xs)") auto
    qed
  next
    case False
    have "crlf_pos (drop pos xs) = None"
      using False less.prems len crlf_pos_Some [of "drop pos xs"] by (cases "crlf_pos (drop pos xs)") fastforce+
    with False show ?thesis by (subst seek_loop.simps) auto
  qed
qed

lemma seekNewline_correct:
  assumes "off + len < length blk" "blk ! (off + len) = NUL" "len \<le> 2147483647"
  shows "seekNewline blk off len = Inr (crlf_pos (take len (drop off blk)))"
proof (cases "len = 0")
  case True
  have "i32 (int (u64 (- 1))) = -1" by (simp add: u64_def i32_def)
  then show ?thesis by (simp add: True seekNewline_def seek_loop.simps)
next
  case False
  then have "u64 (int len - 1) = len - 1" using assms(3) by (simp add: u64_def of_nat_diff)
  then have "i32 (int (u64 (int len - 1))) = int len - 1" using False assms(3) by (simp add: i32_id of_nat_diff)
  then show ?thesis
    using seek_loop_correct [OF assms(1,2), of 0]
    by (cases "crlf_pos (take len (drop off blk))") (simp_all add: seekNewline_def)
qed

text \<open>A number that is followed by a carriage return inside the block is read without a failure.\<close>

lemma rll_loop_total:
  "off \<le> p \<Longrightarrow> p < length blk \<Longrightarrow> blk ! p = CR \<Longrightarrow> \<exists>v. rll_loop blk off v0 = Inr v"
proof (induction "p - off" arbitrary: off v0)
  case 0
  then show ?case by (subst rll_loop.simps) (simp add: byte_at_def)
next
  case (Suc n)
  then have "off < p" by simp
  then show ?case
    using Suc by (subst rll_loop.simps) (simp add: byte_at_def)
qed

lemma readLongLong_total:
  assumes "off \<le> p" "p < length blk" "blk ! p = CR"
  shows "\<exists>v. readLongLong blk off = Inr v"
proof -
  let ?off = "if blk ! off = CHR ''-'' \<or> blk ! off = CHR ''+'' then Suc off else off"
  have "?off \<le> p" using assms by (auto simp: le_less)
  from rll_loop_total [OF this assms(2,3), of 0] assms show ?thesis
    by (auto simp: readLongLong_def byte_at_def Let_def)
qed

section \<open>The invariant\<close>

text \<open>\<open>arr h a n\<close>: the cell at \<open>a\<close> is an array with \<open>n\<close> elements.\<close>

definition arr :: "heap \<Rightarrow> addr \<Rightarrow> nat \<Rightarrow> bool" where
  "arr h a n \<longleftrightarrow> a < length h \<and>
     (\<exists>r es. h ! a = Some r \<and> ro_type r = REPLY_ARRAY \<and> ro_element r = Some es \<and> length es = n)"

text \<open>
  The tasks below position \<open>k\<close> are arrays that are being read; the task above each of them is at
  one of its elements.
\<close>

definition link :: "redisReadTask list \<Rightarrow> heap \<Rightarrow> nat \<Rightarrow> bool" where
  "link stack h j \<longleftrightarrow> rt_type (stack ! j) = REPLY_ARRAY \<and>
     (\<exists>a n. rt_obj (stack ! j) = Some a \<and> rt_elements (stack ! j) = int n \<and> int n \<le> 2147483647 \<and> arr h a n) \<and>
     rt_parent (stack ! Suc j) = Some j \<and>
     0 \<le> rt_idx (stack ! Suc j) \<and> rt_idx (stack ! Suc j) < rt_elements (stack ! j)"

definition chain :: "redisReadTask list \<Rightarrow> heap \<Rightarrow> nat \<Rightarrow> bool" where
  "chain stack h k \<longleftrightarrow> length stack = 9 \<and> k \<le> 8 \<and> rt_parent (stack ! 0) = None \<and> (\<forall>j < k. link stack h j)"

definition buffer_ok :: "redisReader \<Rightarrow> bool" where
  "buffer_ok r \<longleftrightarrow> (\<exists>s. rd_buf r = Some s \<and> sds_wf s \<and> rd_len r = sdslen s \<and> rd_pos r \<le> rd_len r)"

definition stack_ok :: "redisReader \<Rightarrow> bool" where
  "stack_ok r \<longleftrightarrow> length (rd_rstack r) = 9 \<and>
     (rd_ridx r = -1 \<or>
      (\<exists>k. rd_ridx r = int k \<and> chain (rd_rstack r) (rd_heap r) k \<and>
         rt_type (rd_rstack r ! k) \<in> {-1, REPLY_STRING, REPLY_ARRAY, REPLY_INTEGER, REPLY_STATUS, REPLY_ERROR}))"

definition reader_wf :: "redisReader \<Rightarrow> bool" where
  "reader_wf r \<longleftrightarrow> (rd_err r \<noteq> 0 \<and> rd_ridx r = -1) \<or> (rd_err r = 0 \<and> buffer_ok r \<and> stack_ok r)"

lemma stack_okI:
  "chain st h k \<Longrightarrow> rt_type (st ! k) \<in> {-1, REPLY_STRING, REPLY_ARRAY, REPLY_INTEGER, REPLY_STATUS, REPLY_ERROR} \<Longrightarrow>
   rd_ridx r = int k \<Longrightarrow> rd_rstack r = st \<Longrightarrow> rd_heap r = h \<Longrightarrow> stack_ok r"
  unfolding stack_ok_def chain_def by blast

lemma linkD:
  assumes "chain stack h k" "j < k"
  shows "link stack h j" "j < 8" "length stack = 9"
  using assms by (auto simp: chain_def)

lemma arr_append [simp]: "arr h a n \<Longrightarrow> arr (h @ xs) a n"
  by (auto simp: arr_def nth_append)

lemma chain_heap:
  "chain stack h k \<Longrightarrow> (\<And>a n. arr h a n \<Longrightarrow> arr h' a n) \<Longrightarrow> chain stack h' k"
  unfolding chain_def link_def by blast

text \<open>The parent of the current task accepts the new object and stays an array of its size.\<close>

lemma store_in_parent_ok:
  assumes "chain stack h k" "task = stack ! k"
  shows "\<exists>h'. store_in_parent stack task a h = Inr h' \<and> length h' = length h \<and> (\<forall>x n. arr h x n \<longrightarrow> arr h' x n)"
proof (cases k)
  case 0
  with assms show ?thesis by (auto simp: store_in_parent_def chain_def)
next
  case (Suc j)
  then have l: "link stack h j" using assms(1) by (simp add: linkD)
  then obtain p n r es where p: "rt_obj (stack ! j) = Some p" "rt_elements (stack ! j) = int n" "p < length h"
    "h ! p = Some r" "ro_type r = REPLY_ARRAY" "ro_element r = Some es" "length es = n"
    by (auto simp: link_def arr_def)
  let ?h = "h[p := Some (r\<lparr>ro_element := Some (es[nat (rt_idx task) := Some a])\<rparr>)]"
  have "rt_parent task = Some j" "0 \<le> rt_idx task" "nat (rt_idx task) < length es"
    using l p assms(2) Suc by (auto simp: link_def)
  then have "store_in_parent stack task a h = Inr ?h" using p by (simp add: store_in_parent_def)
  moreover have "arr ?h x m" if "arr h x m" for x m
    using that p by (auto simp: arr_def nth_list_update)
  ultimately show ?thesis by auto
qed

text \<open>What a constructor gives: an object at a new address, or NULL.\<close>

definition created :: "heap \<Rightarrow> addr option \<times> heap \<Rightarrow> bool" where
  "created h o1 \<longleftrightarrow> (case o1 of (None, h') \<Rightarrow> True
     | (Some a, h') \<Rightarrow> a = length h \<and> length h' = Suc (length h) \<and> (\<forall>x n. arr h x n \<longrightarrow> arr h' x n))"

lemma store_new_ok:
  assumes "chain stack h k" "task = stack ! k"
  shows "\<exists>h'. store_in_parent stack task a (h @ [c]) = Inr h' \<and> length h' = Suc (length h) \<and>
    (\<forall>x n. arr (h @ [c]) x n \<longrightarrow> arr h' x n)"
  using store_in_parent_ok [OF chain_heap [OF assms(1)] assms(2), of "h @ [c]" a] by simp

lemma createString_ok:
  assumes "chain stack h k" "task = stack ! k" "rt_type task \<in> {REPLY_ERROR, REPLY_STATUS, REPLY_STRING}"
  shows "\<exists>o1. createStringObject m stack task str h = Inr o1 \<and> created h o1"
  using store_new_ok [OF assms(1,2), of "length h" "Some \<lparr>ro_type = rt_type task, ro_integer = 0,
      ro_len = i32 (int (length str)), ro_str = Some str, ro_elements = 0, ro_element = None\<rparr>"] assms(3)
  by (auto simp: createStringObject_def createReplyObject_def created_def)

lemma createInteger_ok:
  assumes "chain stack h k" "task = stack ! k"
  shows "\<exists>o1. createIntegerObject m stack task v h = Inr o1 \<and> created h o1"
  using store_new_ok [OF assms, of "length h" "Some \<lparr>ro_type = REPLY_INTEGER, ro_integer = v,
      ro_len = 0, ro_str = None, ro_elements = 0, ro_element = None\<rparr>"]
  by (auto simp: createIntegerObject_def createReplyObject_def created_def)

lemma createNil_ok:
  assumes "chain stack h k" "task = stack ! k"
  shows "\<exists>o1. createNilObject m stack task h = Inr o1 \<and> created h o1"
  using store_new_ok [OF assms, of "length h" "Some \<lparr>ro_type = REPLY_NIL, ro_integer = 0,
      ro_len = 0, ro_str = None, ro_elements = 0, ro_element = None\<rparr>"]
  by (auto simp: createNilObject_def createReplyObject_def created_def)

lemma createArray_ok:
  assumes "chain stack h k" "task = stack ! k"
  shows "\<exists>o1. createArrayObject m stack task n h = Inr o1 \<and> created h o1 \<and>
    (\<forall>a h'. o1 = (Some a, h') \<longrightarrow> n > 0 \<longrightarrow> arr h' a (nat n))"
proof -
  let ?c = "Some \<lparr>ro_type = REPLY_ARRAY, ro_integer = 0, ro_len = 0, ro_str = None, ro_elements = u64 n,
     ro_element = (if n > 0 then Some (replicate (nat n) None) else None)\<rparr>"
  have "arr (h @ [?c]) (length h) (nat n)" if "n > 0" using that by (simp add: arr_def)
  with store_new_ok [OF assms, of "length h" ?c] show ?thesis
    by (auto simp: createArrayObject_def createReplyObject_def created_def)
qed

section \<open>Items\<close>

text \<open>
  \<^verbatim>\<open>moveToNextTask\<close> after the last element of an array goes on as at the end of the array, after any
  other element it moves to the next one.
\<close>

lemma link_bounds:
  assumes "link st h k"
  shows "rt_type (st ! k) = REPLY_ARRAY" "rt_idx (st ! Suc k) < rt_elements (st ! k)"
    "0 \<le> rt_idx (st ! Suc k)" "rt_elements (st ! k) \<le> 2147483647"
    "i32 (rt_elements (st ! k) - 1) = rt_elements (st ! k) - 1"
    "i32 (rt_idx (st ! Suc k) + 1) = rt_idx (st ! Suc k) + 1"
  using assms by (auto simp: link_def i32_id)

lemma moveToNextTask_last:
  assumes "chain (rd_rstack r) (rd_heap r) (Suc k)" "rd_ridx r = int (Suc k)"
    and "rt_idx (rd_rstack r ! Suc k) = rt_elements (rd_rstack r ! k) - 1"
  shows "moveToNextTask r = moveToNextTask (r\<lparr>rd_ridx := int k\<rparr>)"
proof -
  have "link (rd_rstack r) (rd_heap r) k" using assms(1) by (simp add: chain_def)
  note b = link_bounds [OF this]
  show ?thesis using assms(2,3) b by (subst moveToNextTask.simps) (simp add: Let_def nat_add_distrib)
qed

definition next_task :: "nat \<Rightarrow> redisReadTask list \<Rightarrow> redisReadTask list" where
  "next_task k st = st[k := (st ! k)\<lparr>rt_type := -1, rt_elements := -1, rt_idx := rt_idx (st ! k) + 1\<rparr>]"

lemma moveToNextTask_next:
  assumes ch: "chain (rd_rstack r) (rd_heap r) (Suc k)" and ridx: "rd_ridx r = int (Suc k)"
    and idx: "rt_idx (rd_rstack r ! Suc k) \<noteq> rt_elements (rd_rstack r ! k) - 1"
  shows "moveToNextTask r = Inr (r\<lparr>rd_rstack := next_task (Suc k) (rd_rstack r)\<rparr>)"
    "chain (next_task (Suc k) (rd_rstack r)) (rd_heap r) (Suc k)"
    "rt_type (next_task (Suc k) (rd_rstack r) ! Suc k) = -1"
proof -
  let ?st = "rd_rstack r" and ?st' = "next_task (Suc k) (rd_rstack r)"
  have l: "link ?st (rd_heap r) k" "k < 8" "length ?st = 9" using ch by (auto simp: chain_def)
  note b = link_bounds [OF l(1)]
  show "moveToNextTask r = Inr (r\<lparr>rd_rstack := ?st'\<rparr>)"
    using idx b ridx
    by (subst moveToNextTask.simps) (simp add: Let_def set_cur_def next_task_def nat_add_distrib)
  show "rt_type (?st' ! Suc k) = -1" using l by (simp add: next_task_def)
  have "link ?st' (rd_heap r) j" if "j < Suc k" for j
  proof (cases "j = k")
    case True
    then show ?thesis using l b idx by (simp add: link_def next_task_def)
  next
    case False
    then have "link ?st (rd_heap r) j" using ch that by (simp add: chain_def)
    with False that show ?thesis by (simp add: link_def next_task_def)
  qed
  then show "chain ?st' (rd_heap r) (Suc k)" using ch by (simp add: chain_def next_task_def)
qed

lemma moveToNextTask_ok:
  assumes "chain (rd_rstack r) (rd_heap r) k" "rd_ridx r = int k"
  shows "\<exists>r'. moveToNextTask r = Inr r' \<and> stack_ok r' \<and> rd_err r' = rd_err r \<and> rd_buf r' = rd_buf r \<and>
    rd_pos r' = rd_pos r \<and> rd_len r' = rd_len r \<and> rd_heap r' = rd_heap r"
  using assms
proof (induction k arbitrary: r)
  case 0
  then show ?case by (subst moveToNextTask.simps) (simp add: stack_ok_def chain_def)
next
  case (Suc k)
  show ?case
  proof (cases "rt_idx (rd_rstack r ! Suc k) = rt_elements (rd_rstack r ! k) - 1")
    case True
    have "chain (rd_rstack r) (rd_heap r) k" using Suc.prems(1) by (auto simp: chain_def)
    with Suc.IH [of "r\<lparr>rd_ridx := int k\<rparr>"] moveToNextTask_last [OF Suc.prems True] show ?thesis by simp
  next
    case False
    note n = moveToNextTask_next [OF Suc.prems False]
    have "stack_ok (r\<lparr>rd_rstack := next_task (Suc k) (rd_rstack r)\<rparr>)"
      using n(2,3) Suc.prems(2) by (intro stack_okI [OF n(2)]) simp_all
    with n(1) show ?thesis by simp
  qed
qed

text \<open>The search for the next line in a reader.\<close>

lemma scan_ok:
  assumes "buffer_ok r"
  obtains blk where "rd_block r = Inr blk" "length blk > rd_len r" "rd_len r \<le> 2147483647" "rd_pos r \<le> rd_len r"
    "seekNewline blk (rd_pos r) (u64 (int (rd_len r) - int (rd_pos r))) =
       Inr (crlf_pos (take (rd_len r - rd_pos r) (drop (rd_pos r) blk)))"
    "\<forall>n. crlf_pos (take (rd_len r - rd_pos r) (drop (rd_pos r) blk)) = Some n \<longrightarrow>
       rd_pos r + n + 2 \<le> rd_len r \<and> blk ! (rd_pos r + n) = CR"
proof -
  from assms obtain s where s: "rd_buf r = Some s" "sds_wf s" "rd_len r = sdslen s" "rd_pos r \<le> rd_len r"
    by (auto simp: buffer_ok_def)
  note D = sds_wfD [OF s(2)]
  let ?blk = "sds_buf s" and ?n = "rd_len r - rd_pos r"
  have len: "length ?blk > rd_len r" "rd_len r \<le> 2147483647" "?blk ! (rd_pos r + ?n) = NUL"
    using D s(3,4) by simp_all
  have u: "u64 (int (rd_len r) - int (rd_pos r)) = ?n"
    using s(4) len(2) by (simp add: u64_id nat_diff_distrib)
  have "seekNewline ?blk (rd_pos r) ?n = Inr (crlf_pos (take ?n (drop (rd_pos r) ?blk)))"
    using len s(4) by (intro seekNewline_correct) simp_all
  moreover have "rd_pos r + n + 2 \<le> rd_len r \<and> ?blk ! (rd_pos r + n) = CR"
    if "crlf_pos (take ?n (drop (rd_pos r) ?blk)) = Some n" for n
    using crlf_pos_Some [OF that] len s(4) by auto
  ultimately show ?thesis
    using that [of ?blk] s len u by (simp add: rd_block_def)
qed

text \<open>
  The next item is the header of an array, and its count is positive as \<^verbatim>\<open>long long\<close> but not as \<^verbatim>\<open>int\<close>, into which
  the code converts it: the type byte is read before or is next in the buffer.
\<close>

definition wild_count :: "redisReader \<Rightarrow> bool" where
  "wild_count r \<longleftrightarrow> (case (rd_block r, cur_task r) of
     (Inr blk, Inr cur) \<Rightarrow>
       (rt_type cur = REPLY_ARRAY \<or> rt_type cur < 0 \<and> byte_at blk (rd_pos r) = Inr (CHR ''*'')) \<and>
       (case readLongLong blk (if rt_type cur < 0 then rd_pos r + 1 else rd_pos r) of Inr v \<Rightarrow> v > 0 \<and> i32 v \<le> 0 | Inl _ \<Rightarrow> False)
   | _ \<Rightarrow> False)"

text \<open>Whether the loop over the items comes to such a header.\<close>

fun meets_wild_count :: "cmem \<Rightarrow> nat \<Rightarrow> redisReader \<Rightarrow> bool" where
  "meets_wild_count m 0 r = False"
| "meets_wild_count m (Suc n) r = (rd_ridx r \<ge> 0 \<and> (wild_count r \<or>
     (case processItem m r of Inr (rc, r') \<Rightarrow> rc = REDIS_OK \<and> meets_wild_count m n r' | Inl _ \<Rightarrow> False)))"

definition item_ok :: "redisReader \<Rightarrow> (int \<times> redisReader) res \<Rightarrow> bool" where
  "item_ok r res \<longleftrightarrow> (\<exists>rc r'. res = Inr (rc, r') \<and> reader_wf r' \<and>
     (rc = REDIS_OK \<longrightarrow> rd_err r' = 0 \<and> rd_buf r' = rd_buf r \<and> rd_len r' = rd_len r \<and> rd_pos r < rd_pos r'))"

lemma SetError_wf: "ty \<noteq> 0 \<Longrightarrow> reader_wf (redisReaderSetError ty str r)"
  by (simp add: reader_wf_def redisReaderSetError_def Let_def)

lemma SetErrorOOM_wf: "reader_wf (redisReaderSetErrorOOM r)"
  by (simp add: redisReaderSetErrorOOM_def SetError_wf)

text \<open>The state an item is read in: no error, a valid buffer, and the current task at \<open>k\<close>.\<close>

definition at_task :: "redisReader \<Rightarrow> nat \<Rightarrow> bool" where
  "at_task r k \<longleftrightarrow> rd_err r = 0 \<and> buffer_ok r \<and> rd_ridx r = int k \<and> chain (rd_rstack r) (rd_heap r) k"

lemma at_task_cur: "at_task r k \<Longrightarrow> cur_task r = Inr (rd_rstack r ! k)"
  by (auto simp: at_task_def cur_task_def chain_def)

lemma finish_item_ok:
  assumes at: "at_task r k" and o1: "created (rd_heap r) o1" and pos: "p0 < pos" "pos \<le> rd_len r"
    and r0: "rd_buf r = rd_buf r0" "rd_len r = rd_len r0" "rd_pos r0 = p0"
  shows "item_ok r0 (finish_item pos o1 r)"
proof (cases "fst o1")
  case None
  then show ?thesis
    by (cases o1) (simp add: finish_item_def item_ok_def SetErrorOOM_wf)
next
  case (Some a)
  then obtain h where o: "o1 = (Some a, h)" by (cases o1) auto
  define r1 where "r1 = (if rd_ridx r = 0 then r\<lparr>rd_heap := h, rd_pos := pos, rd_reply := Some a\<rparr>
     else r\<lparr>rd_heap := h, rd_pos := pos\<rparr>)"
  have "chain (rd_rstack r1) (rd_heap r1) k" "rd_ridx r1 = int k"
    using at o1 chain_heap [of "rd_rstack r" "rd_heap r" k h]
    by (auto simp: at_task_def r1_def created_def o)
  from moveToNextTask_ok [OF this] obtain r2 where r2: "moveToNextTask r1 = Inr r2" "stack_ok r2"
    "rd_err r2 = rd_err r1" "rd_buf r2 = rd_buf r1" "rd_pos r2 = rd_pos r1" "rd_len r2 = rd_len r1" by blast
  have f: "rd_err r1 = 0" "rd_buf r1 = rd_buf r" "rd_pos r1 = pos" "rd_len r1 = rd_len r"
    using at by (auto simp: r1_def at_task_def)
  have "finish_item pos o1 r = Inr (REDIS_OK, r2)"
    using r2(1) by (simp add: finish_item_def o Let_def r1_def)
  moreover have "reader_wf r2"
    using r2 f at pos by (auto simp: reader_wf_def buffer_ok_def at_task_def)
  ultimately show ?thesis using r2 f pos r0 by (auto simp: item_ok_def)
qed

lemma readLine_ok:
  assumes "buffer_ok r"
  shows "readLine r = Inr (None, r) \<or>
    (\<exists>n blk. readLine r = Inr (Some (rd_pos r, n), r\<lparr>rd_pos := rd_pos r + n + 2\<rparr>) \<and> rd_block r = Inr blk \<and>
       rd_pos r + n + 2 \<le> rd_len r \<and> rd_len r < length blk \<and> blk ! (rd_pos r + n) = CR)"
proof -
  from scan_ok [OF assms] obtain blk where b: "rd_block r = Inr blk" "length blk > rd_len r" "rd_len r \<le> 2147483647"
    "rd_pos r \<le> rd_len r"
    "seekNewline blk (rd_pos r) (u64 (int (rd_len r) - int (rd_pos r))) =
       Inr (crlf_pos (take (rd_len r - rd_pos r) (drop (rd_pos r) blk)))"
    "\<forall>n. crlf_pos (take (rd_len r - rd_pos r) (drop (rd_pos r) blk)) = Some n \<longrightarrow>
       rd_pos r + n + 2 \<le> rd_len r \<and> blk ! (rd_pos r + n) = CR" .
  show ?thesis
  proof (cases "crlf_pos (take (rd_len r - rd_pos r) (drop (rd_pos r) blk))")
    case None
    then show ?thesis by (simp add: readLine_def b)
  next
    case (Some n)
    note n = b(6) [rule_format, OF Some]
    have "u64 (int (rd_pos r) + (i32 (int n) + 2)) = rd_pos r + n + 2"
      using n b(3) by (simp add: i32_id u64_id nat_add_distrib)
    then show ?thesis using n b(1,2,5) Some by (auto simp: readLine_def)
  qed
qed

lemma at_task_pos:
  "at_task r k \<Longrightarrow> pos \<le> rd_len r \<Longrightarrow> at_task (r\<lparr>rd_pos := pos\<rparr>) k"
  by (auto simp: at_task_def buffer_ok_def)

lemma processLineItem_ok:
  assumes at: "at_task r k" and ty: "rt_type (rd_rstack r ! k) \<in> {REPLY_INTEGER, REPLY_ERROR, REPLY_STATUS}"
  shows "item_ok r (processLineItem m r)"
proof -
  let ?cur = "rd_rstack r ! k"
  have buf: "buffer_ok r" and ch: "chain (rd_rstack r) (rd_heap r) k" using at by (auto simp: at_task_def)
  have wf: "reader_wf r" using at ty by (auto simp: reader_wf_def at_task_def stack_ok_def chain_def)
  from readLine_ok [OF buf] consider "readLine r = Inr (None, r)"
    | n blk where "readLine r = Inr (Some (rd_pos r, n), r\<lparr>rd_pos := rd_pos r + n + 2\<rparr>)" "rd_block r = Inr blk"
       "rd_pos r + n + 2 \<le> rd_len r" "rd_len r < length blk" "blk ! (rd_pos r + n) = CR" by blast
  then show ?thesis
  proof cases
    case 1
    then show ?thesis using wf by (simp add: processLineItem_def at_task_cur [OF at] item_ok_def)
  next
    case (2 n blk)
    define r1 where "r1 = r\<lparr>rd_pos := rd_pos r + n + 2\<rparr>"
    have at1: "at_task r1 k" unfolding r1_def by (rule at_task_pos [OF at 2(3)])
    have f: "rd_rstack r1 = rd_rstack r" "rd_heap r1 = rd_heap r" "rd_block r1 = Inr blk"
      "rd_pos r1 = rd_pos r + n + 2" "rd_buf r1 = rd_buf r" "rd_len r1 = rd_len r"
      using 2(2) by (simp_all add: r1_def rd_block_def)
    obtain v where v: "readLongLong blk (rd_pos r) = Inr v"
      using readLongLong_total [of "rd_pos r" "rd_pos r + n" blk] 2 by auto
    have pk: "peek blk (rd_pos r) n = Inr (take n (drop (rd_pos r) blk))" using 2 by (simp add: peek_def)
    have "\<exists>o1. (if rt_type ?cur = REPLY_INTEGER then createIntegerObject m (rd_rstack r) ?cur v (rd_heap r)
        else createStringObject m (rd_rstack r) ?cur (take n (drop (rd_pos r) blk)) (rd_heap r)) = Inr o1 \<and>
        created (rd_heap r) o1"
      using createInteger_ok [OF ch refl] createString_ok [OF ch refl] ty by auto
    then obtain o1 where o1: "processLineItem m r = finish_item (rd_pos r1) o1 r1" "created (rd_heap r) o1"
      unfolding processLineItem_def at_task_cur [OF at] 2(1) [folded r1_def]
      by (auto simp: f v pk split: if_splits)
    show ?thesis
      unfolding o1(1) by (rule finish_item_ok [OF at1, of o1 "rd_pos r"]) (use o1(2) 2(3) f in auto)
  qed
qed

lemma processBulkItem_ok:
  assumes at: "at_task r k" and ty: "rt_type (rd_rstack r ! k) = REPLY_STRING"
  shows "item_ok r (processBulkItem m r)"
proof -
  let ?cur = "rd_rstack r ! k"
  have buf: "buffer_ok r" and ch: "chain (rd_rstack r) (rd_heap r) k" using at by (auto simp: at_task_def)
  have wf: "reader_wf r" using at ty by (auto simp: reader_wf_def at_task_def stack_ok_def chain_def)
  from scan_ok [OF buf] obtain blk where b: "rd_block r = Inr blk" "length blk > rd_len r" "rd_len r \<le> 2147483647"
    "rd_pos r \<le> rd_len r"
    "seekNewline blk (rd_pos r) (u64 (int (rd_len r) - int (rd_pos r))) =
       Inr (crlf_pos (take (rd_len r - rd_pos r) (drop (rd_pos r) blk)))"
    "\<forall>n. crlf_pos (take (rd_len r - rd_pos r) (drop (rd_pos r) blk)) = Some n \<longrightarrow>
       rd_pos r + n + 2 \<le> rd_len r \<and> blk ! (rd_pos r + n) = CR" .
  note start = processBulkItem_def at_task_cur [OF at] b(1,5)
  show ?thesis
  proof (cases "crlf_pos (take (rd_len r - rd_pos r) (drop (rd_pos r) blk))")
    case None
    then show ?thesis using wf by (simp add: start item_ok_def)
  next
    case (Some n)
    note n = b(6) [rule_format, OF Some]
    obtain len where len: "readLongLong blk (rd_pos r) = Inr len"
      using readLongLong_total [of "rd_pos r" "rd_pos r + n" blk] n b(2) by auto
    show ?thesis
    proof (cases "len < 0")
      case True
      obtain o1 where o1: "createNilObject m (rd_rstack r) ?cur (rd_heap r) = Inr o1" "created (rd_heap r) o1"
        using createNil_ok [OF ch refl] by blast
      have "processBulkItem m r = finish_item (rd_pos r + (n + 2)) o1 r"
        using True by (simp add: start Some len o1(1))
      then show ?thesis using finish_item_ok [OF at o1(2), of "rd_pos r"] n by simp
    next
      case False
      have "len \<le> 9223372036854775807"
        using len by (auto simp: readLongLong_def bind_res_Inr Let_def i64_def split: option.splits)
      then have u: "u64 (int n + 2 + (len + 2)) = n + 4 + nat len"
        "u64 (int (rd_pos r) + int (n + 4 + nat len)) = rd_pos r + n + 4 + nat len"
        using False n b(3) by (simp_all add: u64_def nat_add_distrib nat_less_iff)
      show ?thesis
      proof (cases "rd_pos r + n + 4 + nat len \<le> rd_len r")
        case True
        have pk: "peek blk (rd_pos r + n + 2) (nat len) = Inr (take (nat len) (drop (rd_pos r + n + 2) blk))"
          using True b(2) by (simp add: peek_def)
        obtain o1 where o1: "createStringObject m (rd_rstack r) ?cur (take (nat len) (drop (rd_pos r + n + 2) blk)) (rd_heap r) = Inr o1"
          "created (rd_heap r) o1"
          using createString_ok [OF ch refl] ty by blast
        have "processBulkItem m r = finish_item (rd_pos r + n + 4 + nat len) o1 r"
          using True False u pk o1(1) by (simp add: start Some len Let_def)
        then show ?thesis using finish_item_ok [OF at o1(2), of "rd_pos r"] True by simp
      next
        case not_all: False
        then show ?thesis using False u wf by (simp add: start Some len Let_def item_ok_def)
      qed
    qed
  qed
qed

text \<open>Entering an array: the new task above it starts at its first element.\<close>

lemma push_task_ok:
  assumes ch: "chain stack h k" and k: "k < 8" and arr: "arr h a n" "0 < n" "int n \<le> 2147483647"
    and ty: "rt_type (stack ! k) = REPLY_ARRAY"
  defines "stack' \<equiv> stack[k := (stack ! k)\<lparr>rt_elements := int n, rt_obj := Some a\<rparr>,
      Suc k := \<lparr>rt_type = -1, rt_elements = -1, rt_idx = 0, rt_obj = None, rt_parent = Some k\<rparr>]"
  shows "chain stack' h (Suc k)" "rt_type (stack' ! Suc k) = -1"
proof -
  have len: "length stack = 9" using ch by (simp add: chain_def)
  then show "rt_type (stack' ! Suc k) = -1" using k by (simp add: stack'_def)
  have "link stack' h j" if "j < Suc k" for j
  proof (cases "j = k")
    case True
    then show ?thesis using len k arr ty by (auto simp: link_def stack'_def)
  next
    case False
    then have "link stack h j" using ch that by (simp add: chain_def)
    with False that len k show ?thesis
      by (cases "Suc j = k") (auto simp: link_def stack'_def nth_list_update)
  qed
  moreover have "rt_parent (stack' ! 0) = None"
    using ch k len by (cases "k = 0") (simp_all add: chain_def stack'_def)
  ultimately show "chain stack' h (Suc k)" using len k by (simp add: chain_def stack'_def)
qed

lemma processMultiBulkItem_ok:
  assumes at: "at_task r k" and ty: "rt_type (rd_rstack r ! k) = REPLY_ARRAY"
    and count: "\<And>blk v. rd_block r = Inr blk \<Longrightarrow> readLongLong blk (rd_pos r) = Inr v \<Longrightarrow> v > 0 \<Longrightarrow> i32 v > 0"
  shows "item_ok r (processMultiBulkItem m r)"
proof -
  let ?cur = "rd_rstack r ! k"
  have buf: "buffer_ok r" and ch: "chain (rd_rstack r) (rd_heap r) k" and ridx: "rd_ridx r = int k"
    using at by (auto simp: at_task_def)
  have wf: "reader_wf r" using at ty by (auto simp: reader_wf_def at_task_def stack_ok_def chain_def)
  show ?thesis
  proof (cases "k = 8")
    case True
    then show ?thesis
      using ridx by (simp add: processMultiBulkItem_def at_task_cur [OF at] item_ok_def SetError_wf)
  next
    case False
    then have k: "k < 8" "rd_ridx r \<noteq> 8" using ch ridx by (auto simp: chain_def)
    from readLine_ok [OF buf] consider "readLine r = Inr (None, r)"
      | n blk where "readLine r = Inr (Some (rd_pos r, n), r\<lparr>rd_pos := rd_pos r + n + 2\<rparr>)" "rd_block r = Inr blk"
         "rd_pos r + n + 2 \<le> rd_len r" "rd_len r < length blk" "blk ! (rd_pos r + n) = CR" by blast
    then show ?thesis
    proof cases
      case 1
      then show ?thesis using wf k by (simp add: processMultiBulkItem_def at_task_cur [OF at] item_ok_def)
    next
      case (2 n blk)
      define r1 where "r1 = r\<lparr>rd_pos := rd_pos r + n + 2\<rparr>"
      have at1: "at_task r1 k" unfolding r1_def by (rule at_task_pos [OF at 2(3)])
      have f: "rd_rstack r1 = rd_rstack r" "rd_heap r1 = rd_heap r" "rd_block r1 = Inr blk" "rd_ridx r1 = int k"
        "rd_pos r1 = rd_pos r + n + 2" "rd_buf r1 = rd_buf r" "rd_len r1 = rd_len r" "rd_err r1 = 0"
        using 2(2) at by (simp_all add: r1_def rd_block_def at_task_def)
      obtain v where v: "readLongLong blk (rd_pos r) = Inr v"
        using readLongLong_total [of "rd_pos r" "rd_pos r + n" blk] 2 by auto
      note start = processMultiBulkItem_def at_task_cur [OF at] 2(1) [folded r1_def] f(3) v
      have move: "item_ok r (bind_res (moveToNextTask (r1\<lparr>rd_heap := h\<rparr>)) (\<lambda>r2.
          Inr (REDIS_OK, if b then r2\<lparr>rd_reply := Some a\<rparr> else r2)))"
        if "\<forall>x n. arr (rd_heap r) x n \<longrightarrow> arr h x n" for h a b
      proof -
        have "chain (rd_rstack (r1\<lparr>rd_heap := h\<rparr>)) (rd_heap (r1\<lparr>rd_heap := h\<rparr>)) k"
          using chain_heap [OF ch] that f(1) by simp
        from moveToNextTask_ok [OF this] f(4) obtain r2 where r2: "moveToNextTask (r1\<lparr>rd_heap := h\<rparr>) = Inr r2"
          "stack_ok r2" "rd_err r2 = rd_err r1" "rd_buf r2 = rd_buf r1" "rd_pos r2 = rd_pos r1" "rd_len r2 = rd_len r1"
          by auto
        have "buffer_ok r2" using r2 at1 by (auto simp: buffer_ok_def at_task_def)
        with r2 f 2(3) show ?thesis
          by (auto simp: item_ok_def reader_wf_def stack_ok_def buffer_ok_def)
      qed
      show ?thesis
      proof (cases "v = -1")
        case True
        obtain o1 where o1: "createNilObject m (rd_rstack r) ?cur (rd_heap r) = Inr o1" "created (rd_heap r) o1"
          using createNil_ok [OF ch refl] by blast
        show ?thesis
        proof (cases "fst o1")
          case None
          with o1 True k show ?thesis
            by (cases o1) (simp add: start f Let_def item_ok_def SetErrorOOM_wf)
        next
          case (Some a)
          with o1 True k move [of "snd o1"] show ?thesis
            by (cases o1) (simp add: start f Let_def created_def)
        qed
      next
        case v1: False
        obtain o1 where o1: "createArrayObject m (rd_rstack r) ?cur (i32 v) (rd_heap r) = Inr o1" "created (rd_heap r) o1"
          "\<forall>a h'. o1 = (Some a, h') \<longrightarrow> i32 v > 0 \<longrightarrow> arr h' a (nat (i32 v))"
          using createArray_ok [OF ch refl] by blast
        show ?thesis
        proof (cases "fst o1")
          case None
          with o1 v1 k show ?thesis
            by (cases o1) (simp add: start f Let_def item_ok_def SetErrorOOM_wf)
        next
          case (Some a)
          then obtain h where o: "o1 = (Some a, h)" by (cases o1) auto
          have h: "\<forall>x n. arr (rd_heap r) x n \<longrightarrow> arr h x n" using o1(2) by (simp add: created_def o)
          show ?thesis
          proof (cases "v > 0")
            case False
            with o1(1) v1 k move [OF h, of "rd_ridx r1 = 0" a] show ?thesis
              by (simp add: start f Let_def o)
          next
            case True
            then have iv: "i32 v > 0" "i32 v \<le> 2147483647" using count [OF 2(2) v] by (simp_all add: i32_def)
            let ?st = "(rd_rstack r)[k := ?cur\<lparr>rt_elements := i32 v, rt_obj := Some a\<rparr>,
              Suc k := \<lparr>rt_type = -1, rt_elements = -1, rt_idx = 0, rt_obj = None, rt_parent = Some k\<rparr>]"
            have "arr h a (nat (i32 v))" using o1(3) o iv by simp
            from push_task_ok [OF chain_heap [OF ch] k(1) this] h iv ty
            have st: "chain ?st h (Suc k)" "rt_type (?st ! Suc k) = -1" by auto
            define r3 where "r3 = r1\<lparr>rd_heap := h, rd_rstack := ?st, rd_ridx := int (Suc k)\<rparr>"
            have res: "processMultiBulkItem m r = Inr (REDIS_OK, if k = 0 then r3\<lparr>rd_reply := Some a\<rparr> else r3)"
              using o1(1) v1 k True
              by (simp add: start f Let_def o set_cur_def r3_def nat_add_distrib add.commute)
            have "stack_ok r3" using st by (intro stack_okI [of ?st h "Suc k"]) (simp_all add: r3_def)
            moreover have "buffer_ok r3" using at1 by (auto simp: buffer_ok_def at_task_def r3_def)
            ultimately have "reader_wf (if k = 0 then r3\<lparr>rd_reply := Some a\<rparr> else r3)"
              using f(8) by (auto simp: reader_wf_def stack_ok_def buffer_ok_def r3_def)
            then show ?thesis using res f by (auto simp: item_ok_def r3_def)
          qed
        qed
      qed
    qed
  qed
qed

lemma process_typed_ok:
  assumes at: "at_task r k"
    and ty: "rt_type (rd_rstack r ! k) \<in> {REPLY_STRING, REPLY_ARRAY, REPLY_INTEGER, REPLY_STATUS, REPLY_ERROR}"
    and count: "\<And>blk v. rt_type (rd_rstack r ! k) = REPLY_ARRAY \<Longrightarrow> rd_block r = Inr blk \<Longrightarrow>
      readLongLong blk (rd_pos r) = Inr v \<Longrightarrow> v > 0 \<Longrightarrow> i32 v > 0"
  shows "item_ok r (process_typed m r)"
proof (cases "rt_type (rd_rstack r ! k) = REPLY_ARRAY")
  case True
  then have "item_ok r (processMultiBulkItem m r)" using processMultiBulkItem_ok [OF at True count] by simp
  with True show ?thesis by (simp add: process_typed_def at_task_cur [OF at])
next
  case False
  then show ?thesis using ty processLineItem_ok [OF at] processBulkItem_ok [OF at]
    by (auto simp: process_typed_def at_task_cur [OF at])
qed

lemma item_type_range:
  "item_type c = Some ty \<Longrightarrow> ty \<in> {REPLY_STRING, REPLY_ARRAY, REPLY_INTEGER, REPLY_STATUS, REPLY_ERROR}"
  by (auto simp: item_type_def split: if_splits)

lemma chain_set_type:
  assumes "chain stack h k"
  shows "chain (stack[k := (stack ! k)\<lparr>rt_type := ty\<rparr>]) h k"
proof -
  let ?st = "stack[k := (stack ! k)\<lparr>rt_type := ty\<rparr>]"
  have len: "length stack = 9" "k \<le> 8" using assms by (auto simp: chain_def)
  have "link ?st h j" if "j < k" for j
  proof -
    have "link stack h j" using assms that by (simp add: chain_def)
    then show ?thesis using that len by (cases "Suc j = k") (simp_all add: link_def)
  qed
  moreover have "rt_parent (?st ! 0) = None"
    using assms len by (cases "k = 0") (simp_all add: chain_def)
  ultimately show ?thesis using assms by (simp add: chain_def)
qed

lemma processItem_ok:
  assumes wf: "reader_wf r" and ridx: "rd_ridx r \<ge> 0"
    and tame: "\<not> wild_count r"
  shows "item_ok r (processItem m r)"
proof -
  from wf ridx obtain k where k: "rd_ridx r = int k" "chain (rd_rstack r) (rd_heap r) k" "rd_err r = 0" "buffer_ok r"
    "rt_type (rd_rstack r ! k) \<in> {-1, REPLY_STRING, REPLY_ARRAY, REPLY_INTEGER, REPLY_STATUS, REPLY_ERROR}"
    by (auto simp: reader_wf_def stack_ok_def)
  then have at: "at_task r k" by (simp add: at_task_def)
  show ?thesis
  proof (cases "rt_type (rd_rstack r ! k) < 0")
    case False
    then have "item_ok r (process_typed m r)"
      using k(5) tame by (intro process_typed_ok [OF at]) (auto simp: wild_count_def at_task_cur [OF at] not_le)
    with False show ?thesis by (simp add: processItem_def at_task_cur [OF at])
  next
    case True
    from k(4) obtain s where s: "rd_buf r = Some s" "sds_wf s" "rd_len r = sdslen s" "rd_pos r \<le> rd_len r"
      by (auto simp: buffer_ok_def)
    note D = sds_wfD [OF s(2)]
    have u: "u64 (int (rd_len r) - int (rd_pos r)) = rd_len r - rd_pos r"
      using s D(8) by (simp add: u64_id nat_diff_distrib)
    show ?thesis
    proof (cases "rd_pos r < rd_len r")
      case False
      then show ?thesis
        using True u wf by (simp add: processItem_def at_task_cur [OF at] readBytes_def item_ok_def)
    next
      case more: True
      define r1 where "r1 = r\<lparr>rd_pos := rd_pos r + 1\<rparr>"
      have b: "byte_at (sds_buf s) (rd_pos r) = Inr (sds_buf s ! rd_pos r)"
        using more s(3) D(3) by (simp add: byte_at_def)
      have start: "processItem m r = (case item_type (sds_buf s ! rd_pos r) of
          None \<Rightarrow> Inr (REDIS_ERR, redisReaderSetErrorProtocolByte (sds_buf s ! rd_pos r) r1)
        | Some ty \<Rightarrow> process_typed m (set_cur ((rd_rstack r ! k)\<lparr>rt_type := ty\<rparr>) r1))"
      proof -
        have "1 \<le> u64 (int (rd_len r) - int (rd_pos r))" using more u by simp
        then have "readBytes 1 r = (Some (rd_pos r), r1)" by (simp add: readBytes_def r1_def)
        moreover have "rd_block r1 = Inr (sds_buf s)" using s(1) by (simp add: rd_block_def r1_def)
        ultimately show ?thesis using True b by (simp add: processItem_def at_task_cur [OF at])
      qed
      show ?thesis
      proof (cases "item_type (sds_buf s ! rd_pos r)")
        case None
        then show ?thesis
          by (simp add: start item_ok_def redisReaderSetErrorProtocolByte_def SetError_wf)
      next
        case (Some ty)
        define r2 where "r2 = set_cur ((rd_rstack r ! k)\<lparr>rt_type := ty\<rparr>) r1"
        have st: "rd_rstack r2 = (rd_rstack r)[k := (rd_rstack r ! k)\<lparr>rt_type := ty\<rparr>]"
          using k(1) by (simp add: r2_def r1_def set_cur_def)
        have f: "rd_heap r2 = rd_heap r" "rd_buf r2 = rd_buf r" "rd_len r2 = rd_len r" "rd_pos r2 = rd_pos r + 1"
          "rd_err r2 = 0" "rd_ridx r2 = int k"
          using k by (simp_all add: r2_def r1_def set_cur_def)
        have "at_task r2 k"
          using chain_set_type [OF k(2)] more s f st by (auto simp: at_task_def buffer_ok_def)
        moreover have "rt_type (rd_rstack r2 ! k) = ty" using k(2) st by (simp add: chain_def)
        moreover have "i32 v > 0"
          if "rt_type (rd_rstack r2 ! k) = REPLY_ARRAY" "rd_block r2 = Inr blk" "readLongLong blk (rd_pos r2) = Inr v" "v > 0" for blk v
        proof -
          have "ty = REPLY_ARRAY" using that(1) k(2) st by (simp add: chain_def)
          then have "byte_at (sds_buf s) (rd_pos r) = Inr (CHR ''*'')" using Some b by (simp add: item_type_def split: if_splits)
          then show ?thesis using tame that(2-4) True f s(1) by (auto simp: wild_count_def at_task_cur [OF at] rd_block_def not_le)
        qed
        ultimately have "item_ok r2 (process_typed m r2)"
          using item_type_range [OF Some] by (intro process_typed_ok) auto
        then show ?thesis using Some f by (auto simp: start item_ok_def r2_def [symmetric])
      qed
    qed
  qed
qed

section \<open>The loop\<close>

lemma process_items_ok:
  assumes "reader_wf r" "rd_err r = 0" "rd_len r - rd_pos r < n"
    and "\<not> meets_wild_count m n r"
  shows "\<exists>r'. process_items m n r = Inr (Some r') \<and> reader_wf r'"
  using assms
proof (induction n arbitrary: r)
  case (Suc n)
  show ?case
  proof (cases "rd_ridx r \<ge> 0")
    case False
    with Suc.prems(1) show ?thesis by simp
  next
    case True
    have "\<not> wild_count r" using Suc.prems(4) True by simp
    from processItem_ok [OF Suc.prems(1) True this, of m] obtain rc r1 where
      r1: "processItem m r = Inr (rc, r1)" "reader_wf r1"
      "rc = REDIS_OK \<longrightarrow> rd_err r1 = 0 \<and> rd_buf r1 = rd_buf r \<and> rd_len r1 = rd_len r \<and> rd_pos r < rd_pos r1"
      by (auto simp: item_ok_def)
    show ?thesis
    proof (cases "rc = REDIS_OK")
      case False
      with r1 True show ?thesis by simp
    next
      case ok: True
      with r1(3) have f: "rd_err r1 = 0" "rd_buf r1 = rd_buf r" "rd_len r1 = rd_len r" "rd_pos r < rd_pos r1" by auto
      have "rd_pos r1 \<le> rd_len r1" using r1(2) f(1) by (auto simp: reader_wf_def buffer_ok_def)
      then have "rd_len r1 - rd_pos r1 < n" using Suc.prems(3) f by linarith
      moreover have "\<not> meets_wild_count m n r1" using Suc.prems(4) True ok r1(1) by simp
      ultimately show ?thesis using Suc.IH [OF r1(2) f(1)] r1(1) True ok by simp
    qed
  qed
qed simp

lemma start_reply_wf:
  assumes "reader_wf r" "rd_err r = 0"
  shows "reader_wf (start_reply r)" "rd_err (start_reply r) = 0" "rd_buf (start_reply r) = rd_buf r"
    "rd_len (start_reply r) = rd_len r" "rd_pos (start_reply r) = rd_pos r"
proof -
  show f: "rd_err (start_reply r) = 0" "rd_buf (start_reply r) = rd_buf r"
    "rd_len (start_reply r) = rd_len r" "rd_pos (start_reply r) = rd_pos r"
    using assms(2) by (simp_all add: start_reply_def)
  have b: "buffer_ok (start_reply r)" "stack_ok r" using assms f by (auto simp: reader_wf_def buffer_ok_def)
  have "stack_ok (start_reply r)"
  proof (cases "rd_ridx r = -1")
    case True
    have len: "length (rd_rstack r) = 9" using b(2) by (simp add: stack_ok_def)
    let ?st = "(rd_rstack r)[0 := \<lparr>rt_type = -1, rt_elements = -1, rt_idx = -1, rt_obj = None, rt_parent = None\<rparr>]"
    have "chain ?st (rd_heap r) 0" "rt_type (?st ! 0) = -1" using len by (simp_all add: chain_def)
    then show ?thesis using True by (intro stack_okI [of ?st "rd_heap r" 0]) (simp_all add: start_reply_def)
  next
    case False
    then show ?thesis using b(2) by (simp add: start_reply_def)
  qed
  then show "reader_wf (start_reply r)" using b(1) f(1) by (simp add: reader_wf_def)
qed

lemma discard_consumed_ok:
  assumes "reader_wf r" "rd_err r = 0"
  shows "\<exists>r'. discard_consumed r = Inr r' \<and> reader_wf r' \<and> rd_err r' = 0 \<and> rd_ridx r' = rd_ridx r \<and>
    rd_reply r' = rd_reply r \<and> rd_heap r' = rd_heap r"
proof (cases "rd_pos r \<ge> 1024")
  case True
  from assms obtain s where s: "rd_buf r = Some s" "sds_wf s" "rd_len r = sdslen s" "rd_pos r \<le> rd_len r" "stack_ok r"
    by (auto simp: reader_wf_def buffer_ok_def)
  note D = sds_wfD [OF s(2)]
  from sdsrange_drop [OF s(2), of "rd_pos r"] s(3,4) D(5) obtain s' where
    s': "sdsrange s (int (rd_pos r)) (-1) = Inr s'" "sds_wf s'" by auto
  have "i32 (int (rd_pos r)) = int (rd_pos r)" using s(3,4) D(8) by (simp add: i32_id)
  then have "discard_consumed r = Inr (r\<lparr>rd_buf := Some s', rd_pos := 0, rd_len := sdslen s'\<rparr>)"
    using True s(1) s'(1) by (simp add: discard_consumed_def)
  then show ?thesis using assms s(5) s'(2) by (auto simp: reader_wf_def buffer_ok_def stack_ok_def)
next
  case False
  then show ?thesis using assms by (simp add: discard_consumed_def)
qed

section \<open>Feeding\<close>

text \<open>The bytes that are fed and not read yet.\<close>

definition unread :: "redisReader \<Rightarrow> char list" where
  "unread r = (case rd_buf r of None \<Rightarrow> [] | Some s \<Rightarrow> drop (rd_pos r) (sds_str s))"

lemma sdsempty_ok: "mem_ok m 9 \<Longrightarrow> \<exists>e. sdsempty m = Inr e \<and> sds_wf e \<and> sds_str e = []"
  using sdsempty_yields [of m]
  by (cases "sdsempty m") (simp_all add: sdsempty_def sdsnewlen_def Let_def malloc_def SDSHDR_def u64_def poke_def)

lemma feed_buffer_ok:
  assumes "reader_wf r" "rd_err r = 0" "rd_buf r = Some s0" "mem_ok m 9"
  shows "\<exists>s r1. feed_buffer m s0 r = Inr (s, r1) \<and> reader_wf r1 \<and> rd_err r1 = 0 \<and> rd_buf r1 = Some s \<and>
    sds_wf s \<and> sds_str s = sds_str s0 \<and> rd_pos r1 = rd_pos r \<and> rd_ridx r1 = rd_ridx r"
proof -
  from assms have b: "sds_wf s0" "rd_len r = sdslen s0" "rd_pos r \<le> rd_len r" "stack_ok r"
    by (auto simp: reader_wf_def buffer_ok_def)
  from sdsempty_ok [OF assms(4)] obtain e where e: "sdsempty m = Inr e" "sds_wf e" "sds_str e = []" by blast
  have "sds_str s0 = []" if "rd_len r = 0" using that b(2) sds_wfD(5) [OF b(1)] by simp
  then show ?thesis using assms b e sds_wfD(5) [OF e(2)]
    by (auto simp: feed_buffer_def reader_wf_def buffer_ok_def stack_ok_def)
qed

section \<open>Sample states\<close>

definition mem_all :: cmem where
  "mem_all = \<lparr>mem_ok = (\<lambda>_. True), mem_junk = (\<lambda>_. NUL), mem_slack = (\<lambda>_. 0)\<rparr>"

text \<open>A reader with the given bytes in its buffer and, as clients may ask for, no limit on idle buffers.\<close>

definition reader_with :: "char list \<Rightarrow> redisReader" where
  "reader_with bytes = \<lparr>rd_err = 0, rd_errstr = [],
     rd_buf = Some \<lparr>sds_len = int (length bytes), sds_free = 0, sds_buf = bytes @ [NUL]\<rparr>,
     rd_pos = 0, rd_len = length bytes, rd_maxbuf = 0,
     rd_rstack = replicate 9 \<lparr>rt_type = 0, rt_elements = 0, rt_idx = 0, rt_obj = None, rt_parent = None\<rparr>,
     rd_ridx = -1, rd_reply = None, rd_heap = []\<rparr>"

lemma reader_with_wf: "length bytes \<le> 2147483647 \<Longrightarrow> reader_wf (reader_with bytes)"
  using sds_wfI [of "\<lparr>sds_len = int (length bytes), sds_free = 0, sds_buf = bytes @ [NUL]\<rparr>" "length bytes" 0]
  by (simp add: reader_wf_def buffer_ok_def stack_ok_def reader_with_def)

lemma unread_reader_with: "length bytes \<le> 2147483647 \<Longrightarrow> unread (reader_with bytes) = bytes"
  by (simp add: unread_def reader_with_def sds_str_def sdslen_def u64_id)

section \<open>Properties\<close>



text \<open>
  The condition on counts is needed: an element count of \<^verbatim>\<open>2^32\<close> is positive as
  \<^verbatim>\<open>long long\<close> and zero as \<^verbatim>\<open>int\<close>, so the array gets no element vector and a task for its first
  element, and the next item is stored through a NULL pointer.
\<close>

lemma reader_count_truncation:
  "redisReaderGetReply mem_all (reader_with (''*4294967296'' @ [CR, LF] @ ''+OK'' @ [CR, LF])) = Inl NullDeref"
  by code_simp

text \<open>
  Feeding the parser is safe and appends.  Under the invariant, with room for the bytes in the
  \<^verbatim>\<open>int\<close> fields of the buffer and the nine bytes of an empty string at hand, \<^verbatim>\<open>redisReaderFeed\<close>
  succeeds or reports that memory is exhausted, keeps the invariant, and on success the unread
  input is the old unread input followed by the new bytes.
\<close>

lemma reader_feed_appends:
  assumes "reader_wf r" "mem_ok m 9" "n \<le> length bytes" "2 * (rd_len r + n) \<le> 2147483647"
  shows "\<exists>rc r'. redisReaderFeed m (Some bytes) n r = Inr (rc, r') \<and> reader_wf r' \<and>
    (rc = REDIS_OK \<longrightarrow> unread r' = unread r @ take n bytes \<and> rd_ridx r' = rd_ridx r) \<and>
    (rc \<noteq> REDIS_OK \<longrightarrow> rd_err r \<noteq> 0 \<or> rd_err r' = REDIS_ERR_OOM)"
proof (cases "rd_err r \<noteq> 0 \<or> n < 1")
  case True
  then show ?thesis using assms(1) by (auto simp: redisReaderFeed_def)
next
  case False
  with assms(1) obtain s0 where s0: "rd_buf r = Some s0" "rd_err r = 0" "\<not> n < 1" "rd_len r = sdslen s0"
    "rd_pos r \<le> rd_len r" "sds_wf s0" by (auto simp: reader_wf_def buffer_ok_def)
  from feed_buffer_ok [OF assms(1) s0(2,1) assms(2)] obtain s r1 where
    f: "feed_buffer m s0 r = Inr (s, r1)" "reader_wf r1" "rd_err r1 = 0" "rd_buf r1 = Some s" "sds_wf s"
      "sds_str s = sds_str s0" "rd_pos r1 = rd_pos r" "rd_ridx r1 = rd_ridx r" by blast
  have len: "sdslen s = rd_len r" using f(5,6) s0(4,6) by (metis sds_wfD(5))
  have "sds_room s n" using assms(4) len by (simp add: sds_room_def)
  note cat = sdscatlen_yields [OF f(5) this assms(3), of m]
  show ?thesis
  proof (cases "sdscatlen m s bytes n")
    case (Inl e)
    with cat have "e = OutOfMemory" by (simp add: yields_def)
    then show ?thesis using Inl f(1) s0
      by (simp add: redisReaderFeed_def SetErrorOOM_wf) (simp add: redisReaderSetErrorOOM_def redisReaderSetError_def Let_def)
  next
    case (Inr s')
    with cat have s': "sds_wf s'" "sds_str s' = sds_str s @ take n bytes" by (simp_all add: yields_def)
    have "sdslen s' = rd_len r + n" using s' assms(3) f(5) len by (metis length_append length_take min.absorb2 sds_wfD(5))
    moreover have "rd_pos r \<le> length (sds_str s0)" using s0 by (simp add: sds_wfD(5))
    ultimately show ?thesis using Inr f s0 s'
      by (auto simp: redisReaderFeed_def reader_wf_def buffer_ok_def stack_ok_def unread_def)
  qed
qed

end
