(* ===== verification/Reader_Parse.thy ===== *)
theory Reader_Parse
  imports Reader_Safe
begin

text \<open>
  What the protocol parser computes: the wire format of a reply, the relation between a reply
  object in the heap and the reply it stands for, and the proof that parsing the wire format of a
  reply builds an object that stands for it and consumes exactly its bytes.
\<close>

section \<open>The wire format\<close>

fun encode :: "redisReply \<Rightarrow> char list" where
  "encode (ReplyString s) = CHR ''$'' # dec_nat (length s) @ [CR, LF] @ s @ [CR, LF]"
| "encode (ReplyArray ts) = CHR ''*'' # dec_nat (length ts) @ [CR, LF] @ concat (map encode ts)"
| "encode (ReplyInteger i) = CHR '':'' # dec_int i @ [CR, LF]"
| "encode ReplyNil = ''$-1'' @ [CR, LF]"
| "encode (ReplyStatus s) = CHR ''+'' # s @ [CR, LF]"
| "encode (ReplyError s) = CHR ''-'' # s @ [CR, LF]"

text \<open>The nesting of arrays, and the replies that the format can carry.\<close>

fun nesting :: "redisReply \<Rightarrow> nat" where
  "nesting (ReplyArray ts) = Suc (fold max (map nesting ts) 0)"
| "nesting _ = 0"

definition one_line :: "string \<Rightarrow> bool" where
  "one_line s \<longleftrightarrow> crlf_pos (s @ [CR]) = None"

fun encodable :: "redisReply \<Rightarrow> bool" where
  "encodable (ReplyArray ts) = list_all encodable ts"
| "encodable (ReplyInteger i) = (-9223372036854775808 \<le> i \<and> i \<le> 9223372036854775807)"
| "encodable (ReplyStatus s) = one_line s"
| "encodable (ReplyError s) = one_line s"
| "encodable _ = True"

lemma nesting_elem: "t \<in> set ts \<Longrightarrow> nesting t < nesting (ReplyArray ts)"
proof -
  assume "t \<in> set ts"
  then have "nesting t \<in> set (map nesting ts)" by simp
  moreover have "x \<le> fold max xs a \<and> a \<le> fold max xs a" if "x \<in> set xs" for x a and xs :: "nat list"
  proof -
    have ge: "a \<le> fold max ys a" for a and ys :: "nat list"
      by (induction ys arbitrary: a) (auto intro: order_trans [OF max.cobounded2])
    show ?thesis using that
    proof (induction xs arbitrary: a)
      case (Cons y ys)
      then show ?case using ge [of "max y a" ys] by (auto intro: order_trans [OF max.cobounded1] order_trans [OF max.cobounded2])
    qed simp
  qed
  ultimately show ?thesis by (simp add: less_Suc_eq_le)
qed

section \<open>Lines and numbers\<close>

lemma crlf_pos_line: "crlf_pos (s @ [CR]) = None \<Longrightarrow> crlf_pos (s @ CR # LF # rest) = Some (length s)"
  by (induction s rule: crlf_pos.induct) (auto split: if_splits)

lemma no_cr_one_line: "CR \<notin> set s \<Longrightarrow> one_line s"
  unfolding one_line_def
proof (induction s rule: crlf_pos.induct)
  case (1 c d cs)
  then show ?case by auto
qed auto

lemma dec_nat_one_line [simp]: "one_line (dec_nat n)" "one_line (dec_int i)"
proof -
  have "CR \<notin> set (dec_nat n)" for n using dec_nat_digits [of n] is_digit_not_special [of CR] by blast
  then show "one_line (dec_nat n)" "one_line (dec_int i)" by (auto intro!: no_cr_one_line simp: dec_int_def)
qed

lemma i64_mod: "i64 a mod 18446744073709551616 = a mod 18446744073709551616"
  unfolding i64_def by (simp add: mod_diff_left_eq)

lemma i64_cong: "a mod 18446744073709551616 = b mod 18446744073709551616 \<Longrightarrow> i64 a = i64 b"
  unfolding i64_def using mod_add_cong [of a 18446744073709551616 b] by force

lemma i64_step: "i64 (i64 (i64 a * 10) + d) = i64 (a * 10 + d)"
proof (rule i64_cong)
  have "(i64 a * 10) mod 18446744073709551616 = (a * 10) mod 18446744073709551616"
    by (rule mod_mult_cong [OF i64_mod refl])
  then show "(i64 (i64 a * 10) + d) mod 18446744073709551616 = (a * 10 + d) mod 18446744073709551616"
    by (intro mod_add_cong refl) (simp add: i64_mod)
qed

lemma i64_neg: "i64 (- i64 a) = i64 (- a)"
  by (intro i64_cong mod_minus_cong i64_mod)

lemma i64_i64 [simp]: "i64 (i64 a) = i64 a"
  by (simp add: i64_def)

text \<open>The loop over the digits.\<close>

definition add_digit :: "int \<Rightarrow> char \<Rightarrow> int" where
  "add_digit v c = i64 (i64 (v * 10) + (int (of_char c) - 48))"

lemma drop_ConsD:
  assumes "drop off blk = c # cs"
  shows "off < length blk" "blk ! off = c" "drop (Suc off) blk = cs"
proof -
  show "off < length blk" using assms by (cases "off < length blk") simp_all
  then show "blk ! off = c" "drop (Suc off) blk = cs"
    using assms Cons_nth_drop_Suc [of off blk] by simp_all
qed

lemma rll_loop_digits:
  assumes "drop off blk = ds @ CR # rest" "\<forall>c \<in> set ds. is_digit c"
  shows "rll_loop blk off v = Inr (Some (foldl add_digit v ds))"
  using assms
proof (induction ds arbitrary: off v)
  case Nil
  then have "off < length blk" "blk ! off = CR" by (simp_all add: drop_ConsD)
  then show ?case by (subst rll_loop.simps) (simp add: byte_at_def)
next
  case (Cons d ds)
  then have d: "off < length blk" "blk ! off = d" "drop (Suc off) blk = ds @ CR # rest"
    by (simp_all add: drop_ConsD)
  then show ?case
    using Cons.prems(2) is_digit_not_special [of d] Cons.IH [OF d(3)]
    by (subst rll_loop.simps) (simp add: byte_at_def flip: add_digit_def)
qed

lemma foldl_dec_nat: "foldl add_digit 0 (dec_nat n) = i64 (int n)"
proof (induction n rule: dec_nat.induct)
  case (1 n)
  show ?case
  proof (cases "n < 10")
    case True
    then show ?thesis by (simp add: dec_nat_eval(1) add_digit_def i64_id)
  next
    case False
    have n: "int (n div 10) * 10 + int (n mod 10) = int n" by presburger
    from False 1 have "foldl add_digit 0 (dec_nat n) = add_digit (i64 (int (n div 10))) (digit (n mod 10))"
      by (simp add: dec_nat_eval(2))
    also have "\<dots> = i64 (int (n div 10) * 10 + int (n mod 10))"
      by (simp add: add_digit_def i64_step)
    finally show ?thesis by (simp add: n)
  qed
qed

lemma readLongLong_dec_int:
  assumes "drop off blk = dec_int i @ CR # rest"
  shows "readLongLong blk off = Inr (i64 i)"
proof (cases "i < 0")
  case True
  then have d: "off < length blk" "blk ! off = CHR ''-''" "drop (Suc off) blk = dec_nat (nat (- i)) @ CR # rest"
    using assms by (simp_all add: dec_int_def drop_ConsD)
  have "rll_loop blk (Suc off) 0 = Inr (Some (i64 (- i)))"
    using rll_loop_digits [OF d(3)] dec_nat_digits True by (simp add: foldl_dec_nat)
  then show ?thesis using d by (simp add: readLongLong_def byte_at_def i64_neg)
next
  case False
  obtain c cs where c: "dec_nat (nat i) = c # cs" by (cases "dec_nat (nat i)") simp_all
  then have dig: "c \<noteq> CHR ''-''" "c \<noteq> CHR ''+''" using dec_nat_hd [of "nat i"] is_digit_not_special [of c] by simp_all
  have d: "off < length blk" "blk ! off = c"
    using assms False c by (simp_all add: dec_int_def drop_ConsD)
  have "rll_loop blk off 0 = Inr (Some (i64 i))"
    using rll_loop_digits [of off blk "dec_nat (nat i)" rest 0] assms False dec_nat_digits
    by (simp add: foldl_dec_nat dec_int_def)
  then show ?thesis using d dig by (simp add: readLongLong_def byte_at_def)
qed

section \<open>Objects and the replies they stand for\<close>

definition cell_of :: "redisReply \<Rightarrow> addr option list option \<Rightarrow> reply_obj" where
  "cell_of t es = \<lparr>ro_type = reply_type t, ro_integer = (case t of ReplyInteger i \<Rightarrow> i | _ \<Rightarrow> 0),
     ro_len = (case reply_str t of None \<Rightarrow> 0 | Some s \<Rightarrow> i32 (int (length s))), ro_str = reply_str t,
     ro_elements = (case t of ReplyArray ts \<Rightarrow> length ts | _ \<Rightarrow> 0), ro_element = es\<rparr>"

text \<open>
  \<open>rep lo h a t\<close>: the object at address \<open>a\<close> stands for the reply \<open>t\<close>, and all its parts live at
  addresses from \<open>lo\<close> on.
\<close>

inductive rep :: "addr \<Rightarrow> heap \<Rightarrow> addr \<Rightarrow> redisReply \<Rightarrow> bool" for lo h where
  leaf: "lo \<le> a \<Longrightarrow> a < length h \<Longrightarrow> h ! a = Some (cell_of t None) \<Longrightarrow> (\<forall>ts. t = ReplyArray ts \<longrightarrow> ts = []) \<Longrightarrow>
    rep lo h a t"
| array: "lo \<le> a \<Longrightarrow> a < length h \<Longrightarrow> h ! a = Some (cell_of (ReplyArray ts) (Some es)) \<Longrightarrow> ts \<noteq> [] \<Longrightarrow>
    list_all2 (\<lambda>e t. \<exists>b. e = Some b \<and> rep lo h b t) es ts \<Longrightarrow> rep lo h a (ReplyArray ts)"

inductive_cases rep_arrayE: "rep lo h a (ReplyArray ts)"

lemma rep_frame:
  assumes "rep lo h a t" "lo' \<le> lo" "length h \<le> length h'" "\<forall>x. lo \<le> x \<longrightarrow> x < length h \<longrightarrow> h' ! x = h ! x"
  shows "rep lo' h' a t"
  using assms
proof (induction rule: rep.induct)
  case (leaf a t)
  then show ?case by (intro rep.leaf) auto
next
  case (array a ts es)
  have "list_all2 (\<lambda>e t. \<exists>b. e = Some b \<and> rep lo' h' b t) es ts"
    using array.IH array.prems by (auto elim!: list_all2_mono)
  with array show ?case by (intro rep.array) auto
qed

text \<open>Storing into the parent leaves cells that are appended later alone.\<close>

lemma store_append:
  assumes "store_in_parent stack task a h = Inr hs"
  shows "store_in_parent stack task a (h @ cs) = Inr (hs @ cs)" "length hs = length h"
  using assms
  by (auto simp: store_in_parent_def nth_append list_update_append check_res_def split: option.splits if_splits)

section \<open>Parsing one reply\<close>

lemma unread_advance:
  assumes "unread r = xs @ ys" "rd_buf r' = rd_buf r" "rd_pos r' = rd_pos r + length xs"
  shows "unread r' = ys"
proof (cases "rd_buf r")
  case None
  then show ?thesis using assms by (simp add: unread_def)
next
  case (Some s)
  then have "drop (length xs) (drop (rd_pos r) (sds_str s)) = ys" using assms(1) by (simp add: unread_def)
  then show ?thesis using assms(2,3) Some by (simp add: unread_def add.commute)
qed

lemma unread_block:
  assumes "buffer_ok r" "unread r = cs"
  obtains blk where "rd_block r = Inr blk" "take (length cs) (drop (rd_pos r) blk) = cs"
    "rd_pos r + length cs = rd_len r" "rd_len r < length blk" "rd_len r \<le> 2147483647"
    "seekNewline blk (rd_pos r) (u64 (int (rd_len r) - int (rd_pos r))) = Inr (crlf_pos cs)"
proof -
  from assms(1) obtain s where s: "rd_buf r = Some s" "sds_wf s" "rd_len r = sdslen s" "rd_pos r \<le> rd_len r"
    by (auto simp: buffer_ok_def)
  note D = sds_wfD [OF s(2)]
  from scan_ok [OF assms(1)] obtain blk where b: "rd_block r = Inr blk"
    "seekNewline blk (rd_pos r) (u64 (int (rd_len r) - int (rd_pos r))) =
       Inr (crlf_pos (take (rd_len r - rd_pos r) (drop (rd_pos r) blk)))" .
  have blk: "blk = sds_buf s" using b(1) s(1) by (simp add: rd_block_def)
  have cs: "take (rd_len r - rd_pos r) (drop (rd_pos r) blk) = cs"
    using assms(2) s(1,3) by (simp add: blk unread_def sds_str_def drop_take)
  moreover have len: "length cs = rd_len r - rd_pos r"
    unfolding cs [symmetric] using s(3,4) D(3) by (simp add: min_def blk)
  moreover have "rd_len r < length blk" "rd_len r \<le> 2147483647" using s(3) D(3,8) by (simp_all add: blk)
  ultimately show ?thesis using that [of blk] s(4) b by simp
qed

lemma drop_of_take: "take (length (xs @ ys)) (drop p blk) = xs @ ys \<Longrightarrow> \<exists>zs. drop p blk = xs @ zs"
  by (metis append_assoc append_take_drop_id)

lemma readLine_unread:
  assumes "buffer_ok r" "unread r = s @ CR # LF # rest" "one_line s"
  obtains blk where "readLine r = Inr (Some (rd_pos r, length s), r\<lparr>rd_pos := rd_pos r + length s + 2\<rparr>)"
    "rd_block r = Inr blk" "peek blk (rd_pos r) (length s) = Inr s" "\<exists>zs. drop (rd_pos r) blk = s @ CR # zs"
    "rd_pos r + length s + 2 \<le> rd_len r"
proof -
  from unread_block [OF assms(1,2)] obtain blk where b: "rd_block r = Inr blk"
    "take (length (s @ CR # LF # rest)) (drop (rd_pos r) blk) = s @ CR # LF # rest"
    "rd_pos r + length (s @ CR # LF # rest) = rd_len r" "rd_len r < length blk" "rd_len r \<le> 2147483647"
    "seekNewline blk (rd_pos r) (u64 (int (rd_len r) - int (rd_pos r))) = Inr (crlf_pos (s @ CR # LF # rest))" .
  have "crlf_pos (s @ CR # LF # rest) = Some (length s)" using assms(3) by (simp add: one_line_def crlf_pos_line)
  then have "readLine r = Inr (Some (rd_pos r, length s), r\<lparr>rd_pos := rd_pos r + length s + 2\<rparr>)"
    using b by (simp add: readLine_def i32_id u64_id nat_add_distrib)
  moreover obtain zs where zs: "drop (rd_pos r) blk = (s @ [CR]) @ zs"
    using drop_of_take [of "s @ [CR]" "LF # rest" "rd_pos r" blk] b(2) by auto
  moreover have "peek blk (rd_pos r) (length s) = Inr s" using b(3,4) zs by (simp add: peek_def)
  ultimately show ?thesis using that b(1,3) by simp
qed

text \<open>The type byte of an item.\<close>

definition typed :: "nat \<Rightarrow> int \<Rightarrow> redisReader \<Rightarrow> redisReader" where
  "typed k ty r = r\<lparr>rd_pos := rd_pos r + 1, rd_rstack := (rd_rstack r)[k := (rd_rstack r ! k)\<lparr>rt_type := ty\<rparr>]\<rparr>"

lemma processItem_byte:
  assumes at: "at_task r k" "rt_type (rd_rstack r ! k) = -1" and c: "unread r = c # cs"
  shows "processItem m r = (case item_type c of
      None \<Rightarrow> Inr (REDIS_ERR, redisReaderSetErrorProtocolByte c (r\<lparr>rd_pos := rd_pos r + 1\<rparr>))
    | Some ty \<Rightarrow> process_typed m (typed k ty r))" "rd_pos r < rd_len r"
proof -
  have buf: "buffer_ok r" and ridx: "rd_ridx r = int k" using at by (auto simp: at_task_def)
  from unread_block [OF buf c] obtain blk where b: "rd_block r = Inr blk"
    "take (length (c # cs)) (drop (rd_pos r) blk) = c # cs" "rd_pos r + length (c # cs) = rd_len r"
    "rd_len r < length blk" "rd_len r \<le> 2147483647" .
  have "blk ! rd_pos r = c" using b(2,3,4) by (cases "drop (rd_pos r) blk") (simp_all add: drop_ConsD)
  then have byte: "byte_at blk (rd_pos r) = Inr c" using b by (simp add: byte_at_def)
  have "1 \<le> u64 (int (rd_len r) - int (rd_pos r))" using b(3,5) by (simp add: u64_id)
  then have "readBytes 1 r = (Some (rd_pos r), r\<lparr>rd_pos := rd_pos r + 1\<rparr>)" by (simp add: readBytes_def)
  moreover have "rd_block (r\<lparr>rd_pos := rd_pos r + 1\<rparr>) = Inr blk" using b(1) by (simp add: rd_block_def)
  ultimately show "processItem m r = (case item_type c of
      None \<Rightarrow> Inr (REDIS_ERR, redisReaderSetErrorProtocolByte c (r\<lparr>rd_pos := rd_pos r + 1\<rparr>))
    | Some ty \<Rightarrow> process_typed m (typed k ty r))"
    using at byte ridx by (simp add: processItem_def at_task_cur typed_def set_cur_def cong: option.case_cong)
  show "rd_pos r < rd_len r" using b(3) by simp
qed

lemma processItem_typed:
  assumes at: "at_task r k" "rt_type (rd_rstack r ! k) = -1" and c: "unread r = c # cs" "item_type c = Some ty"
  shows "processItem m r = process_typed m (typed k ty r)" "at_task (typed k ty r) k"
    "rt_type (rd_rstack (typed k ty r) ! k) = ty" "unread (typed k ty r) = cs"
proof -
  have buf: "buffer_ok r" and ch: "chain (rd_rstack r) (rd_heap r) k" and ridx: "rd_ridx r = int k" "rd_err r = 0"
    using at by (auto simp: at_task_def)
  note b = processItem_byte [OF at c(1)]
  show "processItem m r = process_typed m (typed k ty r)" using b(1) c(2) by simp
  have len: "length (rd_rstack r) = 9" "k \<le> 8" using ch by (auto simp: chain_def)
  show "at_task (typed k ty r) k"
    using chain_set_type [OF ch] buf ridx b(2) by (auto simp: at_task_def typed_def buffer_ok_def)
  show "rt_type (rd_rstack (typed k ty r) ! k) = ty" using len by (simp add: typed_def)
  show "unread (typed k ty r) = cs"
    using c(1) buf by (auto simp: unread_def typed_def buffer_ok_def drop_ConsD)
qed

text \<open>
  \<open>parsed r k t r1\<close>: from \<open>r\<close>, whose task \<open>k\<close> was waiting for an item, the reply \<open>t\<close> has been read
  and \<open>r1\<close> is about to move to the next task.  The object of \<open>t\<close> is at the first new address, the
  parent refers to it, and all other old cells are as before.
\<close>

definition parsed :: "redisReader \<Rightarrow> nat \<Rightarrow> redisReply \<Rightarrow> redisReader \<Rightarrow> bool" where
  "parsed r k t r1 \<longleftrightarrow> at_task r1 k \<and> rd_buf r1 = rd_buf r \<and> rd_len r1 = rd_len r \<and>
     rd_pos r1 = rd_pos r + length (encode t) \<and>
     (\<forall>j < k. rd_rstack r1 ! j = rd_rstack r ! j) \<and> rt_idx (rd_rstack r1 ! k) = rt_idx (rd_rstack r ! k) \<and>
     length (rd_heap r) \<le> length (rd_heap r1) \<and>
     rep (length (rd_heap r)) (rd_heap r1) (length (rd_heap r)) t \<and>
     store_in_parent (rd_rstack r) (rd_rstack r ! k) (length (rd_heap r)) (rd_heap r) =
       Inr (take (length (rd_heap r)) (rd_heap r1)) \<and>
     rd_reply r1 = (if k = 0 then Some (length (rd_heap r)) else rd_reply r)"

text \<open>The step from \<open>r\<close>: after some items, the loop moves on from a state that \<open>parsed\<close> describes.\<close>

definition parses :: "cmem \<Rightarrow> redisReader \<Rightarrow> nat \<Rightarrow> redisReply \<Rightarrow> bool" where
  "parses m r k t \<longleftrightarrow> (\<exists>n r1. n \<le> length (encode t) \<and> parsed r k t r1 \<and>
     (\<forall>f. process_items m (n + f) r = bind_res (moveToNextTask r1) (process_items m f)))"

lemma store_ok:
  assumes "at_task r k"
  obtains hs where "store_in_parent (rd_rstack r) (rd_rstack r ! k) a (rd_heap r) = Inr hs"
    "length hs = length (rd_heap r)" "\<forall>x n. arr (rd_heap r) x n \<longrightarrow> arr hs x n"
  using store_in_parent_ok [of "rd_rstack r" "rd_heap r" k "rd_rstack r ! k" a] assms
  by (auto simp: at_task_def)

text \<open>The task of an item after its type is known has the same parent and position.\<close>

lemma store_typed:
  assumes "at_task r k"
  shows "store_in_parent (rd_rstack (typed k ty r)) (rd_rstack (typed k ty r) ! k) a h =
    store_in_parent (rd_rstack r) (rd_rstack r ! k) a h"
proof -
  have len: "length (rd_rstack r) = 9" "k \<le> 8" using assms by (auto simp: at_task_def chain_def)
  show ?thesis
  proof (cases k)
    case 0
    then show ?thesis using assms len by (simp add: store_in_parent_def typed_def at_task_def chain_def)
  next
    case (Suc j)
    then have "rt_parent (rd_rstack r ! k) = Some j" using assms by (simp add: at_task_def chain_def link_def)
    then show ?thesis using len Suc by (simp add: store_in_parent_def typed_def cong: option.case_cong)
  qed
qed

text \<open>An item without elements, whose object is created by one of the constructors.\<close>

lemma leaf_parses:
  assumes at: "at_task r k" and ty: "at_task (typed k ty r) k"
    and item: "processItem m r = finish_item pos (Some (length (rd_heap r)), hs @ [Some (cell_of t None)])
        (typed k ty r\<lparr>rd_pos := pos'\<rparr>)"
    and hs: "store_in_parent (rd_rstack r) (rd_rstack r ! k) (length (rd_heap r)) (rd_heap r) = Inr hs"
    and pos: "pos = rd_pos r + length (encode t)" "pos \<le> rd_len r"
    and t: "\<forall>ts. t = ReplyArray ts \<longrightarrow> ts = []"
  shows "parses m r k t"
proof -
  let ?h = "hs @ [Some (cell_of t None)]" and ?a = "length (rd_heap r)"
  define r1 where "r1 = typed k ty r\<lparr>rd_heap := ?h, rd_pos := pos, rd_reply := if k = 0 then Some ?a else rd_reply r\<rparr>"
  have len: "length (rd_rstack r) = 9" "k \<le> 8" and k: "rd_ridx r = int k" using at by (auto simp: at_task_def chain_def)
  obtain hs' where "store_in_parent (rd_rstack r) (rd_rstack r ! k) ?a (rd_heap r) = Inr hs'"
    "length hs' = ?a" "\<forall>x n. arr (rd_heap r) x n \<longrightarrow> arr hs' x n" by (rule store_ok [OF at])
  then have h: "length hs = ?a" "\<forall>x n. arr (rd_heap r) x n \<longrightarrow> arr ?h x n" using hs by simp_all
  have "chain (rd_rstack (typed k ty r)) ?h k" using ty h(2) chain_heap by (auto simp: at_task_def typed_def)
  then have "at_task r1 k" using ty pos(2) by (auto simp: at_task_def r1_def buffer_ok_def typed_def)
  moreover have "rep ?a ?h ?a t" using h(1) t by (intro rep.leaf) (simp_all add: nth_append)
  ultimately have "parsed r k t r1"
    using h hs pos len by (simp add: parsed_def r1_def typed_def)
  moreover have "processItem m r = bind_res (moveToNextTask r1) (\<lambda>r2. Inr (REDIS_OK, r2))"
    unfolding item finish_item_def r1_def using k by (simp add: Let_def typed_def)
  then have "process_items m (1 + f) r = bind_res (moveToNextTask r1) (process_items m f)" for f
    using k by (cases "moveToNextTask r1") simp_all
  moreover have "1 \<le> length (encode t)" by (cases t) simp_all
  ultimately show ?thesis unfolding parses_def by blast
qed

text \<open>The constructors, when memory suffices.\<close>

lemma create_object:
  assumes "store_in_parent stack task (length h) h = Inr hs" "\<forall>n. mem_ok m n"
  shows "rt_type task = reply_type t \<Longrightarrow> reply_str t = Some s \<Longrightarrow>
      createStringObject m stack task s h = Inr (Some (length h), hs @ [Some (cell_of t None)])"
    "createIntegerObject m stack task i h = Inr (Some (length h), hs @ [Some (cell_of (ReplyInteger i) None)])"
    "createNilObject m stack task h = Inr (Some (length h), hs @ [Some (cell_of ReplyNil None)])"
    "int (length ts) \<le> 2147483647 \<Longrightarrow> createArrayObject m stack task (int (length ts)) h =
      Inr (Some (length h), hs @ [Some (cell_of (ReplyArray ts)
        (if ts = [] then None else Some (replicate (length ts) None)))])"
proof -
  have mem: "mem_ok m n" for n using assms(2) by simp
  note create = mem store_append(1) [OF assms(1)] createReplyObject_def list_update_append cell_of_def
  show "rt_type task = reply_type t \<Longrightarrow> reply_str t = Some s \<Longrightarrow>
      createStringObject m stack task s h = Inr (Some (length h), hs @ [Some (cell_of t None)])"
    by (cases t) (simp_all add: createStringObject_def create)
  show "createIntegerObject m stack task i h = Inr (Some (length h), hs @ [Some (cell_of (ReplyInteger i) None)])"
    by (simp add: createIntegerObject_def create)
  show "createNilObject m stack task h = Inr (Some (length h), hs @ [Some (cell_of ReplyNil None)])"
    by (simp add: createNilObject_def create)
  show "int (length ts) \<le> 2147483647 \<Longrightarrow> createArrayObject m stack task (int (length ts)) h =
      Inr (Some (length h), hs @ [Some (cell_of (ReplyArray ts)
        (if ts = [] then None else Some (replicate (length ts) None)))])"
    by (simp add: createArrayObject_def create u64_id)
qed

lemma line_parses:
  assumes at: "at_task r k" "rt_type (rd_rstack r ! k) = -1" and mem: "\<forall>n. mem_ok m n"
    and t: "t = ReplyStatus s \<or> t = ReplyError s \<or> (\<exists>i. t = ReplyInteger i \<and> s = dec_int i)"
    and s: "one_line s" "encodable t" and u: "unread r = encode t @ rest"
  shows "parses m r k t"
proof -
  define c where "c = (case t of ReplyStatus _ \<Rightarrow> CHR ''+'' | ReplyError _ \<Rightarrow> CHR ''-'' | _ \<Rightarrow> CHR '':'')"
  have c: "unread r = c # s @ CR # LF # rest" "item_type c = Some (reply_type t)" "encode t = c # s @ [CR, LF]"
    using t u by (auto simp: c_def item_type_def)
  note ty = processItem_typed [OF at c(1,2)]
  let ?r = "typed k (reply_type t) r"
  let ?r1 = "?r\<lparr>rd_pos := rd_pos ?r + length s + 2\<rparr>"
  have buf: "buffer_ok ?r" using ty(2) by (simp add: at_task_def)
  obtain hs where hs: "store_in_parent (rd_rstack r) (rd_rstack r ! k) (length (rd_heap r)) (rd_heap r) = Inr hs"
    by (rule store_ok [OF at(1)])
  from readLine_unread [OF buf ty(4) s(1)] obtain blk where
    b: "readLine ?r = Inr (Some (rd_pos ?r, length s), ?r1)" "rd_block ?r = Inr blk"
    "peek blk (rd_pos ?r) (length s) = Inr s" "\<exists>zs. drop (rd_pos ?r) blk = s @ CR # zs"
    "rd_pos ?r + length s + 2 \<le> rd_len ?r" by auto
  have f: "rd_heap ?r1 = rd_heap r" "rd_rstack ?r1 = rd_rstack ?r" "rd_len ?r = rd_len r" "rd_pos ?r = rd_pos r + 1"
    by (simp_all add: typed_def)
  let ?o = "(Some (length (rd_heap r)), hs @ [Some (cell_of t None)])"
  note create = create_object [of "rd_rstack ?r" "rd_rstack ?r ! k" "rd_heap r" hs m, OF _ mem]
  have "(if reply_type t = REPLY_INTEGER
         then bind_res (readLongLong blk (rd_pos ?r)) (\<lambda>v. createIntegerObject m (rd_rstack ?r) (rd_rstack ?r ! k) v (rd_heap r))
         else createStringObject m (rd_rstack ?r) (rd_rstack ?r ! k) s (rd_heap r)) = Inr ?o"
  proof (cases "\<exists>i. t = ReplyInteger i")
    case True
    then obtain i where i: "t = ReplyInteger i" "s = dec_int i" using t by auto
    then have "readLongLong blk (rd_pos ?r) = Inr i" using b(4) s(2) readLongLong_dec_int by (fastforce simp: i64_id)
    then show ?thesis using create(2) hs i by (simp add: store_typed [OF at(1)])
  next
    case False
    then show ?thesis using create(1) hs t ty(3) by (auto simp: store_typed [OF at(1)])
  qed
  moreover have "rd_block ?r1 = Inr blk" using b(2) by (simp add: rd_block_def)
  ultimately have "processLineItem m ?r = finish_item (rd_pos ?r + length s + 2) ?o ?r1"
    using b(1,3) ty(3) f(1,2) by (simp add: processLineItem_def at_task_cur [OF ty(2)] split: if_splits)
  moreover have "processItem m r = processLineItem m ?r"
    using ty(1,3) t by (auto simp: process_typed_def at_task_cur [OF ty(2)])
  ultimately show ?thesis
    by (intro leaf_parses [OF at(1) ty(2) _ hs]) (use b(5) f t c(3) in auto)
qed

lemma peek_part:
  assumes "take (length (xs @ ys @ zs)) (drop p blk) = xs @ ys @ zs" "p + length (xs @ ys @ zs) \<le> length blk"
  shows "peek blk (p + length xs) (length ys) = Inr ys"
proof -
  from assms(1) obtain ws where "drop p blk = xs @ ys @ ws"
    using drop_of_take [of "xs @ ys" zs p blk] by auto
  then have "drop (p + length xs) blk = ys @ ws" by (metis add.commute append_eq_conv_conj drop_drop)
  with assms(2) show ?thesis by (simp add: peek_def)
qed

lemma bulk_number:
  assumes "buffer_ok r" "unread r = dec_int i @ CR # LF # rest" "-9223372036854775808 \<le> i" "i \<le> 9223372036854775807"
  obtains blk where "rd_block r = Inr blk" "readLongLong blk (rd_pos r) = Inr i"
    "seekNewline blk (rd_pos r) (u64 (int (rd_len r) - int (rd_pos r))) = Inr (Some (length (dec_int i)))"
    "rd_pos r + length (dec_int i) + 2 + length rest = rd_len r" "rd_len r \<le> 2147483647" "rd_len r < length blk"
    "\<forall>s zs. rest = s @ zs \<longrightarrow> peek blk (rd_pos r + length (dec_int i) + 2) (length s) = Inr s"
proof -
  let ?cs = "dec_int i @ CR # LF # rest"
  from unread_block [OF assms(1,2)] obtain blk where b: "rd_block r = Inr blk"
    "take (length ?cs) (drop (rd_pos r) blk) = ?cs" "rd_pos r + length ?cs = rd_len r" "rd_len r < length blk"
    "rd_len r \<le> 2147483647"
    "seekNewline blk (rd_pos r) (u64 (int (rd_len r) - int (rd_pos r))) = Inr (crlf_pos ?cs)" .
  have "crlf_pos ?cs = Some (length (dec_int i))" using dec_nat_one_line by (simp add: one_line_def crlf_pos_line)
  moreover obtain zs where "drop (rd_pos r) blk = (dec_int i @ [CR]) @ zs"
    using drop_of_take [of "dec_int i @ [CR]" "LF # rest" "rd_pos r" blk] b(2) by auto
  then have "readLongLong blk (rd_pos r) = Inr i" using assms(3,4) by (simp add: readLongLong_dec_int i64_id)
  moreover have "peek blk (rd_pos r + length (dec_int i) + 2) (length s) = Inr s" if "rest = s @ zs" for s zs
    using peek_part [of "dec_int i @ [CR, LF]" s zs "rd_pos r" blk] b that by (simp add: add.assoc)
  ultimately show ?thesis using that [of blk] b by simp
qed

lemma bulk_parses:
  assumes at: "at_task r k" "rt_type (rd_rstack r ! k) = -1" and mem: "\<forall>n. mem_ok m n"
    and t: "t = ReplyString s \<or> t = ReplyNil" and u: "unread r = encode t @ rest"
  shows "parses m r k t"
proof -
  define i rest' where "i = (if t = ReplyNil then -1 else int (length s))"
    and "rest' = (if t = ReplyNil then rest else s @ [CR, LF] @ rest)"
  have enc: "encode t = CHR ''$'' # dec_int i @ [CR, LF] @ (if t = ReplyNil then [] else s @ [CR, LF])"
    using t by (auto simp: i_def dec_int_def dec_nat_eval digit_def char_of_def bit_0)
  have c: "unread r = CHR ''$'' # dec_int i @ CR # LF # rest'" "item_type (CHR ''$'') = Some REPLY_STRING"
    using u enc by (auto simp: rest'_def item_type_def)
  note ty = processItem_typed [OF at c]
  let ?r = "typed k REPLY_STRING r" and ?n = "length (dec_int i)"
  have buf: "buffer_ok ?r" using ty(2) by (simp add: at_task_def)
  have "int (length s) \<le> 2147483647" if "t \<noteq> ReplyNil"
    using unread_block [OF buf ty(4)] that by (fastforce simp: rest'_def)
  then have i: "-9223372036854775808 \<le> i" "i \<le> 9223372036854775807" by (auto simp: i_def)
  obtain hs where hs: "store_in_parent (rd_rstack r) (rd_rstack r ! k) (length (rd_heap r)) (rd_heap r) = Inr hs"
    by (rule store_ok [OF at(1)])
  from bulk_number [OF buf ty(4) i] obtain blk where b: "rd_block ?r = Inr blk" "readLongLong blk (rd_pos ?r) = Inr i"
    "seekNewline blk (rd_pos ?r) (u64 (int (rd_len ?r) - int (rd_pos ?r))) = Inr (Some ?n)"
    "rd_pos ?r + ?n + 2 + length rest' = rd_len ?r" "rd_len ?r \<le> 2147483647"
    "\<forall>s zs. rest' = s @ zs \<longrightarrow> peek blk (rd_pos ?r + ?n + 2) (length s) = Inr s" by metis
  let ?o = "(Some (length (rd_heap r)), hs @ [Some (cell_of t None)])"
  note create = create_object [of "rd_rstack ?r" "rd_rstack ?r ! k" "rd_heap r" hs m, OF _ mem]
  have f: "rd_heap ?r = rd_heap r" "rd_len ?r = rd_len r" "rd_pos ?r = rd_pos r + 1" by (simp_all add: typed_def)
  note start = processBulkItem_def at_task_cur [OF ty(2)] b(1,2,3) f(1)
  have "processBulkItem m ?r = finish_item (rd_pos r + length (encode t)) ?o ?r"
  proof (cases "t = ReplyNil")
    case True
    then have "createNilObject m (rd_rstack ?r) (rd_rstack ?r ! k) (rd_heap r) = Inr ?o"
      using create(3) hs by (simp add: store_typed [OF at(1)])
    moreover have "rd_pos r + length (encode t) = rd_pos ?r + (?n + 2)" "i < 0"
      using enc True f(3) by (simp_all add: i_def)
    ultimately show ?thesis by (simp add: start)
  next
    case False
    then have s: "t = ReplyString s" "i = int (length s)" "rest' = s @ [CR, LF] @ rest" using t by (auto simp: i_def rest'_def)
    have u: "u64 (int ?n + 2 + (i + 2)) = ?n + 4 + length s"
      "u64 (int (rd_pos ?r) + int (?n + 4 + length s)) = rd_pos ?r + ?n + 4 + length s"
      using b(4,5) s by (simp_all add: u64_id nat_add_distrib)
    have "createStringObject m (rd_rstack ?r) (rd_rstack ?r ! k) s (rd_heap r) = Inr ?o"
      by (rule create(1)) (use hs ty(3) s(1) in \<open>simp_all add: store_typed [OF at(1)]\<close>)
    moreover have "peek blk (rd_pos ?r + ?n + 2) (nat i) = Inr s" using b(6) s by simp
    moreover have "rd_pos ?r + ?n + 4 + length s \<le> rd_len ?r" using b(4) s(3) by simp
    moreover have "rd_pos r + length (encode t) = rd_pos ?r + ?n + 4 + length s" using enc False f(3) by simp
    ultimately show ?thesis using u s(2) by (simp add: start Let_def)
  qed
  moreover have "processItem m r = processBulkItem m ?r"
    using ty(1,3) by (simp add: process_typed_def at_task_cur [OF ty(2)])
  moreover have "?r\<lparr>rd_pos := rd_pos ?r\<rparr> = ?r" by simp
  ultimately have "processItem m r = finish_item (rd_pos r + length (encode t)) ?o (?r\<lparr>rd_pos := rd_pos ?r\<rparr>)" by metis
  then show ?thesis
    by (rule leaf_parses [OF at(1) ty(2) _ hs]) (use b(4) f t enc in \<open>auto simp: rest'_def\<close>)
qed

section \<open>Arrays\<close>

text \<open>\<^verbatim>\<open>moveToNextTask\<close> does not look at the reply.\<close>

lemma moveToNextTask_reply:
  "moveToNextTask (r\<lparr>rd_reply := a\<rparr>) = bind_res (moveToNextTask r) (\<lambda>r'. Inr (r'\<lparr>rd_reply := a\<rparr>))"
proof (induction r rule: moveToNextTask.induct)
  case (1 r)
  show ?case
  proof (cases "rd_ridx r > 0")
    case False
    then show ?thesis by (subst (1 2) moveToNextTask.simps) auto
  next
    case True
    show ?thesis
    proof (cases "rt_type (rd_rstack r ! (nat (rd_ridx r) - 1)) = REPLY_ARRAY")
      case True
      have upd: "r\<lparr>rd_reply := a, rd_ridx := i\<rparr> = r\<lparr>rd_ridx := i, rd_reply := a\<rparr>" for i by simp
      from True \<open>rd_ridx r > 0\<close> 1 [OF _ _ refl refl] show ?thesis
        by (subst (1 2) moveToNextTask.simps) (simp add: Let_def set_cur_def check_res_def upd)
    next
      case False
      with \<open>rd_ridx r > 0\<close> show ?thesis
        by (subst (1 2) moveToNextTask.simps) (simp add: Let_def check_res_def)
    qed
  qed
qed

text \<open>The header of an array.\<close>

lemma array_header:
  assumes at: "at_task r k" "rt_type (rd_rstack r ! k) = -1" and k: "k < 8"
    and u: "unread r = CHR ''*'' # dec_nat n @ CR # LF # rest" and n: "int n \<le> 2147483647"
  obtains blk where "processItem m r = processMultiBulkItem m (typed k REPLY_ARRAY r)"
    "at_task (typed k REPLY_ARRAY r) k" "rt_type (rd_rstack (typed k REPLY_ARRAY r) ! k) = REPLY_ARRAY"
    "readLine (typed k REPLY_ARRAY r) =
       Inr (Some (rd_pos r + 1, length (dec_nat n)), typed k REPLY_ARRAY r\<lparr>rd_pos := rd_pos r + length (dec_nat n) + 3\<rparr>)"
    "rd_block (typed k REPLY_ARRAY r) = Inr blk" "readLongLong blk (rd_pos r + 1) = Inr (int n)"
    "rd_pos r + length (dec_nat n) + 3 \<le> rd_len r"
proof -
  have c: "item_type (CHR ''*'') = Some REPLY_ARRAY" by (simp add: item_type_def)
  let ?r = "typed k REPLY_ARRAY r"
  note ty = processItem_typed [OF at u c]
  have buf: "buffer_ok ?r" using ty(2) by (simp add: at_task_def)
  have f: "rd_pos ?r = rd_pos r + 1" "rd_len ?r = rd_len r" by (simp_all add: typed_def)
  from readLine_unread [OF buf ty(4) dec_nat_one_line(1)] obtain blk where
    b: "readLine ?r = Inr (Some (rd_pos ?r, length (dec_nat n)), ?r\<lparr>rd_pos := rd_pos ?r + length (dec_nat n) + 2\<rparr>)"
    "rd_block ?r = Inr blk" "peek blk (rd_pos ?r) (length (dec_nat n)) = Inr (dec_nat n)"
    "\<exists>zs. drop (rd_pos ?r) blk = dec_nat n @ CR # zs" "rd_pos ?r + length (dec_nat n) + 2 \<le> rd_len ?r" .
  have "readLongLong blk (rd_pos ?r) = Inr (i64 (int n))"
    using b(4) readLongLong_dec_int [of _ _ "int n"] by (auto simp: dec_int_def)
  moreover have "processItem m r = processMultiBulkItem m ?r"
    using ty(1,3) by (simp add: process_typed_def at_task_cur [OF ty(2)])
  moreover have "rd_pos ?r + length (dec_nat n) + 2 = rd_pos r + length (dec_nat n) + 3" using f(1) by simp
  ultimately show ?thesis using n by (intro that [OF _ ty(2,3) _ b(2)]) (use b f in \<open>simp_all add: i64_id\<close>)
qed

lemma empty_array_parses:
  assumes at: "at_task r k" "rt_type (rd_rstack r ! k) = -1" and mem: "\<forall>n. mem_ok m n"
    and k: "k < 8" and u: "unread r = encode (ReplyArray []) @ rest"
  shows "parses m r k (ReplyArray [])"
proof -
  let ?r = "typed k REPLY_ARRAY r" and ?t = "ReplyArray []"
  have "unread r = CHR ''*'' # dec_nat 0 @ CR # LF # rest" using u by simp
  from array_header [OF at k this] obtain blk where
    b: "processItem m r = processMultiBulkItem m ?r" "at_task ?r k"
    "readLine ?r = Inr (Some (rd_pos r + 1, length (dec_nat 0)), ?r\<lparr>rd_pos := rd_pos r + length (dec_nat 0) + 3\<rparr>)"
    "rd_block ?r = Inr blk" "readLongLong blk (rd_pos r + 1) = Inr 0" "rd_pos r + length (dec_nat 0) + 3 \<le> rd_len r"
    by (metis int_ops(1) zero_le_numeral)
  obtain hs where hs: "store_in_parent (rd_rstack r) (rd_rstack r ! k) (length (rd_heap r)) (rd_heap r) = Inr hs"
    by (rule store_ok [OF at(1)])
  let ?pos = "rd_pos r + length (encode ?t)" and ?a = "Some (length (rd_heap r))" and ?h = "hs @ [Some (cell_of ?t None)]"
  have pos: "?pos = rd_pos r + length (dec_nat 0) + 3" by simp
  define r1 where "r1 = ?r\<lparr>rd_pos := ?pos\<rparr>"
  have upd: "r1\<lparr>rd_heap := ?h, rd_pos := ?pos\<rparr> = r1\<lparr>rd_heap := ?h\<rparr>" by (simp add: r1_def)
  have f: "rd_rstack r1 = rd_rstack ?r" "rd_heap r1 = rd_heap r" "rd_ridx r1 = int k" "rd_block r1 = Inr blk"
    "rd_ridx ?r = int k"
    using b(2,4) by (simp_all add: r1_def typed_def at_task_def rd_block_def)
  have "createArrayObject m (rd_rstack ?r) (rd_rstack ?r ! k) 0 (rd_heap r) = Inr (?a, ?h)"
    using create_object(4) [of "rd_rstack ?r" "rd_rstack ?r ! k" "rd_heap r" hs m "[]"] mem hs
    by (simp add: store_typed [OF at(1)])
  then have "processMultiBulkItem m ?r = bind_res (moveToNextTask (r1\<lparr>rd_heap := ?h\<rparr>)) (\<lambda>r2.
      Inr (REDIS_OK, if k = 0 then r2\<lparr>rd_reply := ?a\<rparr> else r2))"
    using k b(3,5) f unfolding pos [symmetric] r1_def [symmetric]
    by (simp add: processMultiBulkItem_def at_task_cur [OF b(2)] i32_id)
  also have "\<dots> = finish_item ?pos (?a, ?h) r1"
    using f(3) upd moveToNextTask_reply [of "?a" "r1\<lparr>rd_heap := ?h\<rparr>"]
    by (cases "moveToNextTask (r1\<lparr>rd_heap := ?h\<rparr>)") (auto simp: finish_item_def Let_def)
  finally have "processItem m r = finish_item ?pos (?a, ?h) (?r\<lparr>rd_pos := ?pos\<rparr>)" using b(1) by (simp add: r1_def)
  then show ?thesis by (rule leaf_parses [OF at(1) b(2) _ hs]) (use b(6) in simp_all)
qed

text \<open>
  The state between two elements of the array at address \<open>p\<close>: the elements \<open>ss\<close> are read, the task
  above the array is at the next one.
\<close>

definition in_array :: "redisReader \<Rightarrow> nat \<Rightarrow> addr \<Rightarrow> redisReply list \<Rightarrow> redisReply list \<Rightarrow> bool" where
  "in_array r k p ts ss \<longleftrightarrow> at_task r (Suc k) \<and> rt_type (rd_rstack r ! Suc k) = -1 \<and>
     rt_idx (rd_rstack r ! Suc k) = int (length ss) \<and> rt_obj (rd_rstack r ! k) = Some p \<and>
     rt_elements (rd_rstack r ! k) = int (length ts) \<and>
     (\<exists>es. p < length (rd_heap r) \<and> rd_heap r ! p = Some (cell_of (ReplyArray ts) (Some es)) \<and>
        length es = length ts \<and>
        list_all2 (\<lambda>e t. \<exists>b. e = Some b \<and> rep (Suc p) (rd_heap r) b t) (take (length ss) es) ss)"

text \<open>What stays the same while the elements are read.\<close>

definition same_below :: "nat \<Rightarrow> addr \<Rightarrow> redisReader \<Rightarrow> redisReader \<Rightarrow> bool" where
  "same_below k p r r1 \<longleftrightarrow> rd_buf r1 = rd_buf r \<and> rd_len r1 = rd_len r \<and> rd_reply r1 = rd_reply r \<and>
     (\<forall>j \<le> k. rd_rstack r1 ! j = rd_rstack r ! j) \<and> length (rd_heap r) \<le> length (rd_heap r1) \<and>
     take p (rd_heap r1) = take p (rd_heap r)"

lemma same_below_trans: "same_below k p r r1 \<Longrightarrow> same_below k p r1 r2 \<Longrightarrow> same_below k p r r2"
  by (simp add: same_below_def)

lemma at_task_SucD:
  assumes "at_task r (Suc k)"
  shows "link (rd_rstack r) (rd_heap r) k" "length (rd_rstack r) = 9" "k < 8" "rd_ridx r = int (Suc k)"
    "chain (rd_rstack r) (rd_heap r) (Suc k)" "chain (rd_rstack r) (rd_heap r) k"
  using assms by (auto simp: at_task_def chain_def)

lemma element_stored:
  assumes arr: "in_array r k p ts ss" and p: "parsed r (Suc k) u r1" and n: "length ss < length ts"
  shows "same_below k p r r1"
    "\<exists>es. p < length (rd_heap r1) \<and> rd_heap r1 ! p = Some (cell_of (ReplyArray ts) (Some es)) \<and>
        length es = length ts \<and>
        list_all2 (\<lambda>e t. \<exists>b. e = Some b \<and> rep (Suc p) (rd_heap r1) b t) (take (Suc (length ss)) es) (ss @ [u])"
proof -
  let ?h = "rd_heap r" and ?h1 = "rd_heap r1" and ?a = "length (rd_heap r)" and ?i = "length ss"
  from arr obtain es where es: "p < ?a" "?h ! p = Some (cell_of (ReplyArray ts) (Some es))" "length es = length ts"
    "list_all2 (\<lambda>e t. \<exists>b. e = Some b \<and> rep (Suc p) ?h b t) (take ?i es) ss"
    and at: "at_task r (Suc k)" "rt_idx (rd_rstack r ! Suc k) = int ?i" "rt_obj (rd_rstack r ! k) = Some p"
    by (auto simp: in_array_def)
  note l = at_task_SucD [OF at(1)]
  have par: "rt_parent (rd_rstack r ! Suc k) = Some k" using l(1) by (simp add: link_def)
  let ?es = "es[?i := Some ?a]"
  have "store_in_parent (rd_rstack r) (rd_rstack r ! Suc k) ?a ?h =
      Inr (?h[p := Some (cell_of (ReplyArray ts) (Some ?es))])"
    using es n par at by (simp add: store_in_parent_def cell_of_def)
  moreover have "store_in_parent (rd_rstack r) (rd_rstack r ! Suc k) ?a ?h = Inr (take ?a ?h1)"
    using p by (simp add: parsed_def)
  ultimately have h1: "take ?a ?h1 = ?h[p := Some (cell_of (ReplyArray ts) (Some ?es))]" by simp
  have len: "?a \<le> length ?h1" and rep_u: "rep ?a ?h1 ?a u" using p by (auto simp: parsed_def)
  have old: "?h1 ! x = ?h ! x" if "x < ?a" "x \<noteq> p" for x
    using that h1 by (metis nth_list_update_neq nth_take)
  have hp: "?h1 ! p = Some (cell_of (ReplyArray ts) (Some ?es))"
    using es(1) h1 by (metis nth_list_update_eq nth_take)
  have "take p ?h1 = take p ?h" using h1 es(1) by (metis less_imp_le_nat min.absorb4 min.commute take_take take_update_cancel order.refl)
  then show "same_below k p r r1" using p len by (auto simp: same_below_def parsed_def)
  have "list_all2 (\<lambda>e t. \<exists>b. e = Some b \<and> rep (Suc p) ?h1 b t) (take ?i es) ss"
    using es(4) by (rule list_all2_mono) (use len old in \<open>auto elim!: rep_frame\<close>)
  moreover have "rep (Suc p) ?h1 ?a u" using rep_u es(1) by (auto elim!: rep_frame)
  moreover have "take (Suc ?i) ?es = take ?i es @ [Some ?a]" using n es(3) by (simp add: take_Suc_conv_app_nth)
  ultimately show "\<exists>es. p < length ?h1 \<and> ?h1 ! p = Some (cell_of (ReplyArray ts) (Some es)) \<and>
        length es = length ts \<and>
        list_all2 (\<lambda>e t. \<exists>b. e = Some b \<and> rep (Suc p) ?h1 b t) (take (Suc ?i) es) (ss @ [u])"
    using hp es(1,3) len by (intro exI [of _ ?es]) (simp add: list_all2_appendI)
qed

text \<open>The induction hypothesis: the reply is parsed wherever an item is expected.\<close>

definition parsable :: "cmem \<Rightarrow> redisReply \<Rightarrow> bool" where
  "parsable m t \<longleftrightarrow> (\<forall>r k rest. at_task r k \<longrightarrow> rt_type (rd_rstack r ! k) = -1 \<longrightarrow> k + nesting t \<le> 8 \<longrightarrow>
     unread r = encode t @ rest \<longrightarrow> parses m r k t)"

lemma elements_parse:
  assumes IH: "\<forall>u \<in> set us. parsable m u"
    and "in_array r k p ts ss" "ts = ss @ us" "us \<noteq> []" "\<forall>u \<in> set us. Suc k + nesting u \<le> 8"
      "unread r = concat (map encode us) @ rest"
  shows "\<exists>n r1 es. n \<le> length (concat (map encode us)) \<and> at_task r1 k \<and> same_below k p r r1 \<and>
    rd_pos r1 = rd_pos r + length (concat (map encode us)) \<and> p < length (rd_heap r1) \<and>
    rd_heap r1 ! p = Some (cell_of (ReplyArray ts) (Some es)) \<and>
    list_all2 (\<lambda>e t. \<exists>b. e = Some b \<and> rep (Suc p) (rd_heap r1) b t) es ts \<and>
    (\<forall>f. process_items m (n + f) r = bind_res (moveToNextTask r1) (process_items m f))"
  using assms
proof (induction us arbitrary: r ss)
  case Nil
  then show ?case by simp
next
  case (Cons u us)
  have at: "at_task r (Suc k)" "rt_type (rd_rstack r ! Suc k) = -1" "rt_idx (rd_rstack r ! Suc k) = int (length ss)"
    "rt_elements (rd_rstack r ! k) = int (length ts)"
    using Cons.prems(2) by (auto simp: in_array_def)
  have "parses m r (Suc k) u"
    using Cons.prems(1,5,6) at(1,2) unfolding parsable_def by simp
  then obtain n1 r1 where r1: "n1 \<le> length (encode u)" "parsed r (Suc k) u r1"
    "\<forall>f. process_items m (n1 + f) r = bind_res (moveToNextTask r1) (process_items m f)" by (auto simp: parses_def)
  note st = element_stored [OF Cons.prems(2) r1(2)]
  have n: "length ss < length ts" using Cons.prems(3) by simp
  from st(2) [OF n] obtain es where es: "p < length (rd_heap r1)"
    "rd_heap r1 ! p = Some (cell_of (ReplyArray ts) (Some es))" "length es = length ts"
    "list_all2 (\<lambda>e t. \<exists>b. e = Some b \<and> rep (Suc p) (rd_heap r1) b t) (take (Suc (length ss)) es) (ss @ [u])" by blast
  have at1: "at_task r1 (Suc k)" and idx: "rt_idx (rd_rstack r1 ! Suc k) = int (length ss)"
    "rt_elements (rd_rstack r1 ! k) = int (length ts)" "rd_pos r1 = rd_pos r + length (encode u)"
    "rd_buf r1 = rd_buf r" "rt_obj (rd_rstack r1 ! k) = Some p"
    using r1(2) at Cons.prems(2) by (auto simp: parsed_def in_array_def)
  note l = at_task_SucD [OF at1]
  show ?case
  proof (cases "us = []")
    case True
    have "moveToNextTask r1 = moveToNextTask (r1\<lparr>rd_ridx := int k\<rparr>)"
      by (rule moveToNextTask_last [OF l(5,4)]) (use idx True Cons.prems(3) in simp)
    moreover have "at_task (r1\<lparr>rd_ridx := int k\<rparr>) k" using at1 l(6) by (auto simp: at_task_def buffer_ok_def)
    moreover have "same_below k p r (r1\<lparr>rd_ridx := int k\<rparr>)" using st(1) [OF n] by (simp add: same_below_def)
    ultimately show ?thesis
      using r1(1,3) es True Cons.prems(3) idx(3)
      by (intro exI [of _ n1] exI [of _ "r1\<lparr>rd_ridx := int k\<rparr>"] exI [of _ es]) simp
  next
    case False
    define r2 where "r2 = r1\<lparr>rd_rstack := next_task (Suc k) (rd_rstack r1)\<rparr>"
    have more: "rt_idx (rd_rstack r1 ! Suc k) \<noteq> rt_elements (rd_rstack r1 ! k) - 1"
      using idx False Cons.prems(3) by (cases us) auto
    note mv = moveToNextTask_next [OF l(5,4) more, folded r2_def]
    have st2: "rd_rstack r2 = next_task (Suc k) (rd_rstack r1)" "rd_heap r2 = rd_heap r1" "rd_pos r2 = rd_pos r1"
      "rd_buf r2 = rd_buf r1" by (simp_all add: r2_def)
    have at2: "at_task r2 (Suc k)" using at1 mv(2) by (auto simp: at_task_def buffer_ok_def r2_def)
    have "in_array r2 k p ts (ss @ [u])"
      using at2 mv(3) es l(2,3) idx(1,2,5) by (auto simp: in_array_def st2 next_task_def)
    moreover have "unread r2 = concat (map encode us) @ rest"
      using unread_advance [of r "encode u"] Cons.prems(6) idx(3,4) st2 by simp
    ultimately obtain n2 r3 es' where r3: "n2 \<le> length (concat (map encode us))" "at_task r3 k" "same_below k p r2 r3"
      "rd_pos r3 = rd_pos r2 + length (concat (map encode us))" "p < length (rd_heap r3)"
      "rd_heap r3 ! p = Some (cell_of (ReplyArray ts) (Some es'))"
      "list_all2 (\<lambda>e t. \<exists>b. e = Some b \<and> rep (Suc p) (rd_heap r3) b t) es' ts"
      "\<forall>f. process_items m (n2 + f) r2 = bind_res (moveToNextTask r3) (process_items m f)"
      using Cons.IH [of r2 "ss @ [u]"] Cons.prems(1,3,5) False by auto
    have "same_below k p r1 r2" using l(2) by (auto simp: same_below_def r2_def next_task_def)
    then have "same_below k p r r3" using st(1) [OF n] r3(3) same_below_trans by blast
    moreover have "process_items m (n1 + n2 + f) r = bind_res (moveToNextTask r3) (process_items m f)" for f
      using r1(3) [rule_format, of "n2 + f"] mv(1) r3(8) by (simp add: add.assoc)
    ultimately show ?thesis
      using r1(1) r3 idx(3) st2(3)
      by (intro exI [of _ "n1 + n2"] exI [of _ r3] exI [of _ es']) simp
  qed
qed

lemma array_parses:
  assumes at: "at_task r k" "rt_type (rd_rstack r ! k) = -1" and mem: "\<forall>n. mem_ok m n"
    and k: "k + nesting (ReplyArray ts) \<le> 8" and u: "unread r = encode (ReplyArray ts) @ rest" and ts: "ts \<noteq> []"
    and n: "int (length ts) \<le> 2147483647"
    and IH: "\<forall>u \<in> set ts. parsable m u"
  shows "parses m r k (ReplyArray ts)"
proof -
  let ?r = "typed k REPLY_ARRAY r" and ?n = "length ts" and ?a = "length (rd_heap r)"
  let ?d = "dec_nat ?n" and ?body = "concat (map encode ts)"
  have k8: "k < 8" using k by simp
  have "unread r = CHR ''*'' # ?d @ CR # LF # ?body @ rest" using u by simp
  from array_header [OF at k8 this n] obtain blk where
    b: "processItem m r = processMultiBulkItem m ?r" "at_task ?r k" "rt_type (rd_rstack ?r ! k) = REPLY_ARRAY"
    "readLine ?r = Inr (Some (rd_pos r + 1, length ?d), ?r\<lparr>rd_pos := rd_pos r + length ?d + 3\<rparr>)"
    "rd_block ?r = Inr blk" "readLongLong blk (rd_pos r + 1) = Inr (int ?n)" "rd_pos r + length ?d + 3 \<le> rd_len r"
    by metis
  obtain hs where hs: "store_in_parent (rd_rstack r) (rd_rstack r ! k) ?a (rd_heap r) = Inr hs"
    "length hs = ?a" "\<forall>x n. arr (rd_heap r) x n \<longrightarrow> arr hs x n" by (rule store_ok [OF at(1)])
  let ?h = "hs @ [Some (cell_of (ReplyArray ts) (Some (replicate ?n None)))]"
  have create: "createArrayObject m (rd_rstack ?r) (rd_rstack ?r ! k) (int ?n) (rd_heap r) = Inr (Some ?a, ?h)"
    using create_object(4) [of "rd_rstack ?r" "rd_rstack ?r ! k" "rd_heap r" hs m ts] mem hs(1) ts n
    by (simp add: store_typed [OF at(1)])
  let ?st = "(rd_rstack ?r)[k := (rd_rstack ?r ! k)\<lparr>rt_elements := int ?n, rt_obj := Some ?a\<rparr>,
      Suc k := \<lparr>rt_type = -1, rt_elements = -1, rt_idx = 0, rt_obj = None, rt_parent = Some k\<rparr>]"
  define r1 where "r1 = ?r\<lparr>rd_pos := rd_pos r + length ?d + 3\<rparr>"
  define r2' where "r2' = r1\<lparr>rd_heap := ?h, rd_rstack := ?st, rd_ridx := int (Suc k)\<rparr>"
  define r2 where "r2 = (if k = 0 then r2'\<lparr>rd_reply := Some ?a\<rparr> else r2')"
  have f: "rd_rstack r1 = rd_rstack ?r" "rd_heap r1 = rd_heap r" "rd_ridx r1 = int k" "rd_block r1 = Inr blk"
    "rd_ridx ?r = int k" "rd_reply r1 = rd_reply r" "length (rd_rstack ?r) = 9" "length (rd_rstack r) = 9"
    using b(2,5) at(1) by (simp_all add: r1_def typed_def at_task_def rd_block_def chain_def)
  have item: "processItem m r = Inr (REDIS_OK, r2)"
    unfolding b(1) r2_def using k8 b(4) [folded r1_def] b(6) f create ts n
    by (simp add: processMultiBulkItem_def at_task_cur [OF b(2)] i32_id set_cur_def r2'_def nat_add_distrib Let_def)
  have r2: "rd_heap r2 = ?h" "rd_rstack r2 = ?st" "rd_ridx r2 = int (Suc k)" "rd_buf r2 = rd_buf r" "rd_err r2 = rd_err r"
    "rd_pos r2 = rd_pos r + length ?d + 3" "rd_len r2 = rd_len r" "rd_reply r2 = (if k = 0 then Some ?a else rd_reply r)"
    by (simp_all add: r2_def r2'_def r1_def typed_def)
  have "arr ?h ?a ?n" using hs(2) by (simp add: arr_def cell_of_def nth_append)
  moreover have "chain (rd_rstack ?r) ?h k" using b(2) hs(3) chain_heap by (auto simp: at_task_def typed_def)
  ultimately have ch: "chain ?st ?h (Suc k)" "rt_type (?st ! Suc k) = -1"
    using push_task_ok [OF _ k8 _ _ n b(3)] ts by auto
  have "at_task r2 (Suc k)"
    using ch(1) b(7) at(1) by (auto simp: at_task_def r2 buffer_ok_def)
  then have arr: "in_array r2 k ?a ts []"
    using ch(2) f(7) k8 hs(2) by (auto simp: in_array_def r2 nth_append)
  have unr: "unread r2 = ?body @ rest"
    by (rule unread_advance [of r "CHR ''*'' # ?d @ [CR, LF]"]) (use u in \<open>simp_all add: r2\<close>)
  have nest: "\<forall>u \<in> set ts. Suc k + nesting u \<le> 8"
  proof
    fix u assume "u \<in> set ts"
    from nesting_elem [OF this] k show "Suc k + nesting u \<le> 8" by linarith
  qed
  note elems = elements_parse [OF IH arr append_Nil [symmetric] ts nest unr]
  obtain c r3 es where r3: "c \<le> length ?body" "at_task r3 k" "same_below k ?a r2 r3"
    "rd_pos r3 = rd_pos r2 + length ?body" "?a < length (rd_heap r3)"
    "rd_heap r3 ! ?a = Some (cell_of (ReplyArray ts) (Some es))"
    "list_all2 (\<lambda>e t. \<exists>b. e = Some b \<and> rep (Suc ?a) (rd_heap r3) b t) es ts"
    "\<forall>f. process_items m (c + f) r2 = bind_res (moveToNextTask r3) (process_items m f)"
    using elems by (elim exE conjE) (rule that; assumption)
  have "list_all2 (\<lambda>e t. \<exists>b. e = Some b \<and> rep ?a (rd_heap r3) b t) es ts"
    using r3(7) by (rule list_all2_mono) (auto elim!: rep_frame)
  then have "rep ?a (rd_heap r3) ?a (ReplyArray ts)" using r3(5,6) ts by (intro rep.array) auto
  moreover have "take ?a (rd_heap r3) = hs" using r3(3) hs(2) by (simp add: same_below_def r2)
  moreover have "rt_idx (rd_rstack r3 ! k) = rt_idx (rd_rstack r ! k)" "\<forall>j < k. rd_rstack r3 ! j = rd_rstack r ! j"
    using r3(3) k8 f(8) by (auto simp: same_below_def r2 typed_def)
  ultimately have "parsed r k (ReplyArray ts) r3"
    using r3 hs by (simp add: parsed_def same_below_def r2)
  moreover have "process_items m (Suc c + f) r = bind_res (moveToNextTask r3) (process_items m f)" for f
    using item r3(8) at(1) by (simp add: at_task_def)
  moreover have "Suc c \<le> length (encode (ReplyArray ts))" using r3(1) by simp
  ultimately show ?thesis unfolding parses_def by blast
qed

lemma parse_reply:
  assumes "\<forall>n. mem_ok m n"
  shows "at_task r k \<Longrightarrow> rt_type (rd_rstack r ! k) = -1 \<Longrightarrow> encodable t \<Longrightarrow> k + nesting t \<le> 8 \<Longrightarrow>
    unread r = encode t @ rest \<Longrightarrow> parses m r k t"
proof (induction t arbitrary: r k rest)
  case (ReplyString s)
  then show ?case using bulk_parses [OF _ _ assms] by blast
next
  case (ReplyArray ts)
  have "buffer_ok r" using ReplyArray.prems(1) by (simp add: at_task_def)
  from unread_block [OF this ReplyArray.prems(5)] obtain blk where
    "rd_pos r + length (encode (ReplyArray ts) @ rest) = rd_len r" "rd_len r \<le> 2147483647" .
  then have "length (concat (map encode ts)) \<le> 2147483647" by simp
  moreover have "length ts \<le> length (concat (map encode ts))"
  proof (induction ts)
    case (Cons t ts)
    have "1 \<le> length (encode t)" by (cases t) simp_all
    with Cons show ?case by simp
  qed simp
  ultimately have n: "int (length ts) \<le> 2147483647" by simp
  show ?case
  proof (cases "ts = []")
    case True
    then show ?thesis using ReplyArray.prems empty_array_parses [OF _ _ assms] by simp
  next
    case False
    show ?thesis
      by (rule array_parses [OF ReplyArray.prems(1,2) assms ReplyArray.prems(4,5) False n])
        (use ReplyArray.IH ReplyArray.prems(3) in \<open>auto simp: list_all_iff parsable_def\<close>)
  qed
next
  case (ReplyInteger i)
  then show ?case using line_parses [OF _ _ assms, of _ _ "ReplyInteger i" "dec_int i"] by simp
next
  case ReplyNil
  then show ?case using bulk_parses [OF _ _ assms] by blast
next
  case (ReplyStatus s)
  then show ?case using line_parses [OF _ _ assms, of _ _ "ReplyStatus s" s] by simp
next
  case (ReplyError s)
  then show ?case using line_parses [OF _ _ assms, of _ _ "ReplyError s" s] by simp
qed

lemma discard_consumed_unread:
  assumes "reader_wf r" "rd_err r = 0" "discard_consumed r = Inr r'"
  shows "unread r' = unread r"
proof -
  from assms(1,2) obtain s where s: "rd_buf r = Some s" "sds_wf s" "rd_len r = sdslen s" "rd_pos r \<le> rd_len r"
    by (auto simp: reader_wf_def buffer_ok_def)
  note D = sds_wfD [OF s(2)]
  from sdsrange_drop [OF s(2), of "rd_pos r"] s(3,4) D(5) obtain s' where
    s': "sdsrange s (int (rd_pos r)) (-1) = Inr s'" "sds_str s' = drop (rd_pos r) (sds_str s)" by auto
  have "i32 (int (rd_pos r)) = int (rd_pos r)" using s(3,4) D(8) by (simp add: i32_id)
  then show ?thesis using assms(3) s(1) s' by (auto simp: discard_consumed_def unread_def split: if_splits)
qed

lemma start_reply_at:
  assumes "reader_wf r" "rd_err r = 0" "rd_ridx r = -1"
  shows "at_task (start_reply r) 0" "rt_type (rd_rstack (start_reply r) ! 0) = -1" "unread (start_reply r) = unread r"
    "rd_ridx (start_reply r) = 0" "rd_heap (start_reply r) = rd_heap r"
    "rt_parent (rd_rstack (start_reply r) ! 0) = None"
proof -
  note st = start_reply_wf [OF assms(1,2)]
  show f: "rd_ridx (start_reply r) = 0" "rd_heap (start_reply r) = rd_heap r" "rt_type (rd_rstack (start_reply r) ! 0) = -1"
    "rt_parent (rd_rstack (start_reply r) ! 0) = None"
    using assms by (auto simp: start_reply_def reader_wf_def stack_ok_def)
  show "unread (start_reply r) = unread r" using st(3,5) by (simp add: unread_def cong: option.case_cong)
  show "at_task (start_reply r) 0" using st(1,2) f(1) by (auto simp: at_task_def reader_wf_def stack_ok_def)
qed

lemma length_chrtos: "length (chrtos c) \<le> 6"
  by (simp add: chrtos_def Let_def)

text \<open>A reply at the start of the input of an idle reader.\<close>

lemma parse_idle:
  assumes "reader_wf r" "rd_err r = 0" "rd_ridx r = -1" "unread r = encode t @ rest"
    and "encodable t" "nesting t \<le> 8" "\<forall>n. mem_ok m n"
  shows "\<exists>a r'. redisReaderGetReply m r = Inr (Some (REDIS_OK, Some a, r')) \<and>
    rep (length (rd_heap r)) (rd_heap r') a t \<and> take (length (rd_heap r)) (rd_heap r') = rd_heap r \<and>
    unread r' = rest \<and> reader_wf r' \<and> rd_err r' = 0 \<and> rd_ridx r' = -1"
proof -
  let ?r = "start_reply r" and ?a = "length (rd_heap r)"
  note st = start_reply_wf [OF assms(1,2)]
  note f = start_reply_at [OF assms(1-3)]
  have "unread ?r = encode t @ rest" using f(3) assms(4) by simp
  from parse_reply [OF assms(7) f(1,2) assms(5) _ this] assms(6) obtain n r1 where
    r1: "n \<le> length (encode t)" "parsed ?r 0 t r1"
    "\<forall>f. process_items m (n + f) ?r = bind_res (moveToNextTask r1) (process_items m f)" by (auto simp: parses_def)
  define r2 where "r2 = r1\<lparr>rd_ridx := -1\<rparr>"
  have p: "at_task r1 0" "rd_buf r1 = rd_buf r" "rd_pos r1 = rd_pos r + length (encode t)" "rd_reply r1 = Some ?a"
    "rep ?a (rd_heap r1) ?a t" "take ?a (rd_heap r1) = rd_heap r"
    using r1(2) st(3,5) f(5,6) by (auto simp: parsed_def store_in_parent_def)
  have mv: "moveToNextTask r1 = Inr r2" using p(1) by (subst moveToNextTask.simps) (simp add: at_task_def r2_def)
  have wf: "reader_wf r2" "rd_err r2 = 0"
    using p(1) by (auto simp: r2_def reader_wf_def at_task_def stack_ok_def buffer_ok_def chain_def)
  from assms(1,2) have "length (unread r) = rd_len r - rd_pos r" "rd_pos r \<le> rd_len r"
    by (auto simp: reader_wf_def buffer_ok_def unread_def dest: sds_wfD(5))
  then have "n \<le> rd_len r" and len: "rd_len r \<noteq> 0" using r1(1) assms(4) by (cases t; simp)+
  then have "process_items m (rd_len r + 1) ?r = process_items m (rd_len r + 1 - n) r2"
    using r1(3) [rule_format, of "rd_len r + 1 - n"] mv by simp
  also have "\<dots> = Inr (Some r2)" using \<open>n \<le> rd_len r\<close> by (cases "rd_len r + 1 - n") (simp_all add: r2_def)
  finally have items: "process_items m (rd_len r + 1) ?r = Inr (Some r2)" .
  from discard_consumed_ok [OF wf] obtain r3 where r3: "discard_consumed r2 = Inr r3" "reader_wf r3" "rd_err r3 = 0"
    "rd_ridx r3 = rd_ridx r2" "rd_reply r3 = rd_reply r2" "rd_heap r3 = rd_heap r2" by blast
  have "unread r2 = rest" by (rule unread_advance [OF assms(4)]) (use p(2,3) in \<open>simp_all add: r2_def\<close>)
  then have "unread r3 = rest" using discard_consumed_unread [OF wf r3(1)] by simp
  moreover have "redisReaderGetReply m r = Inr (Some (REDIS_OK, Some ?a, r3\<lparr>rd_reply := None\<rparr>))"
    using items r3 wf(2) p(4) assms(2) len by (simp add: redisReaderGetReply_def r2_def)
  ultimately show ?thesis
    using r3 p(5,6) by (intro exI [of _ ?a] exI [of _ "r3\<lparr>rd_reply := None\<rparr>"])
      (auto simp: r2_def unread_def reader_wf_def buffer_ok_def stack_ok_def)
qed

section \<open>Properties\<close>

text \<open>
  C5: The parser inverts the wire format.  If the unread input of an idle reader starts with the
  wire format of a reply whose arrays are nested at most eight deep, and memory suffices, then
  \<^verbatim>\<open>redisReaderGetReply\<close> returns an object that stands for this reply, built from new memory
  only, and the unread input is what follows; the reader is idle and well-formed again.
\<close>

theorem reader_parses_encoding:
  assumes "reader_wf r" "rd_err r = 0" "rd_ridx r = -1" "unread r = encode t @ rest"
    and "encodable t" "nesting t \<le> 8" "\<forall>n. mem_ok m n"
  shows "\<exists>a r'. redisReaderGetReply m r = Inr (Some (REDIS_OK, Some a, r')) \<and>
    rep (length (rd_heap r)) (rd_heap r') a t \<and> take (length (rd_heap r)) (rd_heap r') = rd_heap r \<and>
    unread r' = rest \<and> reader_wf r' \<and> rd_err r' = 0 \<and> rd_ridx r' = -1"
  using assms by (rule parse_idle)

theorem reader_parses_encoding_witness:
  "\<exists>a r'. redisReaderGetReply mem_all (reader_with (encode (ReplyArray [ReplyStatus ''OK'', ReplyString ''hi'']) @ ''+'')) =
     Inr (Some (REDIS_OK, Some a, r')) \<and> rep 0 (rd_heap r') a (ReplyArray [ReplyStatus ''OK'', ReplyString ''hi'']) \<and>
     take 0 (rd_heap r') = [] \<and> unread r' = ''+'' \<and> reader_wf r' \<and> rd_err r' = 0 \<and> rd_ridx r' = -1"
proof -
  let ?t = "ReplyArray [ReplyStatus ''OK'', ReplyString ''hi'']" and ?r = "reader_with (encode (ReplyArray [ReplyStatus ''OK'', ReplyString ''hi'']) @ ''+'')"
  have "reader_wf ?r" by (rule reader_with_wf) (simp add: dec_nat_eval)
  moreover have "unread ?r = encode ?t @ ''+''" by (rule unread_reader_with) (simp add: dec_nat_eval)
  moreover have "encodable ?t" by (simp add: no_cr_one_line)
  ultimately show ?thesis
    using reader_parses_encoding [of ?r ?t "''+''" mem_all] by (simp add: reader_with_def mem_all_def)
qed

text \<open>
  C30: A byte that starts no item is an error that stays.  The call reports a protocol error whose
  text shows the byte, the buffer is released, and every later call of \<^verbatim>\<open>redisReaderFeed\<close> and
  \<^verbatim>\<open>redisReaderGetReply\<close> fails and changes nothing.
\<close>

theorem reader_rejects_type_byte:
  assumes "reader_wf r" "rd_err r = 0" "rd_ridx r = -1" "unread r = c # cs" "c \<notin> set ''-+:$*''"
  shows "\<exists>r'. redisReaderGetReply m r = Inr (Some (REDIS_ERR, None, r')) \<and> rd_err r' = REDIS_ERR_PROTOCOL \<and>
    rd_errstr r' = ''Protocol error, got '' @ chrtos c @ '' as reply type byte'' \<and> rd_buf r' = None \<and>
    (\<forall>m bytes n. redisReaderFeed m bytes n r' = Inr (REDIS_ERR, r')) \<and>
    (\<forall>m. redisReaderGetReply m r' = Inr (Some (REDIS_ERR, None, r')))"
proof -
  let ?r = "start_reply r"
  note f = start_reply_at [OF assms(1-3)]
  define r' where "r' = redisReaderSetErrorProtocolByte c (?r\<lparr>rd_pos := rd_pos ?r + 1\<rparr>)"
  have "item_type c = None" using assms(5) by (simp add: item_type_def)
  then have item: "processItem m ?r = Inr (REDIS_ERR, r')"
    using processItem_byte(1) [OF f(1,2), of c cs m] f(3) assms(4) by (simp add: r'_def)
  have len: "rd_len r \<noteq> 0"
    using processItem_byte(2) [OF f(1,2), of c cs] f(3) assms(4) start_reply_wf(4) [OF assms(1,2)] by simp
  have e: "rd_err r' = REDIS_ERR_PROTOCOL" "rd_buf r' = None"
    "rd_errstr r' = ''Protocol error, got '' @ chrtos c @ '' as reply type byte''"
    using length_chrtos [of c] f(1)
    by (auto simp: r'_def redisReaderSetErrorProtocolByte_def redisReaderSetError_def Let_def at_task_def buffer_ok_def
        split: option.splits)
  have "redisReaderGetReply m r = Inr (Some (REDIS_ERR, None, r'))"
    using item f(4) e(1) assms(2) len by (simp add: redisReaderGetReply_def)
  with e show ?thesis by (simp add: redisReaderFeed_def redisReaderGetReply_def)
qed

theorem reader_rejects_type_byte_witness:
  "\<exists>r'. redisReaderGetReply mem_all (reader_with ''@foo'') = Inr (Some (REDIS_ERR, None, r')) \<and>
    rd_err r' = REDIS_ERR_PROTOCOL \<and>
    rd_errstr r' = ''Protocol error, got '' @ chrtos (CHR ''@'') @ '' as reply type byte'' \<and> rd_buf r' = None \<and>
    (\<forall>m bytes n. redisReaderFeed m bytes n r' = Inr (REDIS_ERR, r')) \<and>
    (\<forall>m. redisReaderGetReply m r' = Inr (Some (REDIS_ERR, None, r')))"
  using reader_rejects_type_byte [of "reader_with ''@foo''" "CHR ''@''" "''foo''" mem_all]
    reader_with_wf [of "''@foo''"] unread_reader_with [of "''@foo''"]
  by (simp add: reader_with_def)

end
