(* ===== verification/Reader_Chunks.thy ===== *)
theory Reader_Chunks
  imports Reader_Parse
begin

text \<open>
  The protocol parser does not depend on how its input is cut into pieces.  An abstract parser
  works on the unread bytes alone; the reader refines it; and the abstract parser, when it has to
  wait, goes on with more bytes as if it had them from the start.
\<close>

section \<open>The abstract parser\<close>

text \<open>
  The state is the unread input and a reader of which the buffer fields are not used.  \<open>Stop\<close> is a
  failure of the program, \<open>Bad\<close> an error of the reader, \<open>Wait\<close> lack of input.
\<close>

type_synonym pstate = "char list \<times> redisReader"

datatype step = Stop c_error | Bad | Wait pstate | Go pstate | NoFuel

definition number :: "string \<Rightarrow> int" where
  "number s = (case readLongLong (s @ [CR]) 0 of Inl _ \<Rightarrow> 0 | Inr v \<Rightarrow> v)"

definition a_finish :: "(addr option \<times> heap) res \<Rightarrow> char list \<Rightarrow> redisReader \<Rightarrow> step" where
  "a_finish objh cs q =
     (case objh of
        Inl e \<Rightarrow> Stop e
      | Inr (None, h) \<Rightarrow> Bad
      | Inr (Some a, h) \<Rightarrow>
          (case moveToNextTask (if rd_ridx q = 0 then q\<lparr>rd_heap := h, rd_reply := Some a\<rparr> else q\<lparr>rd_heap := h\<rparr>) of
             Inl e \<Rightarrow> Stop e
           | Inr q' \<Rightarrow> Go (cs, q')))"

definition line_object :: "cmem \<Rightarrow> redisReader \<Rightarrow> redisReadTask \<Rightarrow> string \<Rightarrow> (addr option \<times> heap) res" where
  "line_object m q cur s =
     (if rt_type cur = REPLY_INTEGER then createIntegerObject m (rd_rstack q) cur (number s) (rd_heap q)
      else createStringObject m (rd_rstack q) cur s (rd_heap q))"

definition a_line :: "cmem \<Rightarrow> redisReadTask \<Rightarrow> pstate \<Rightarrow> step" where
  "a_line m cur p = (case p of (cs, q) \<Rightarrow>
     (case crlf_pos cs of
        None \<Rightarrow> Wait (cs, q)
      | Some n \<Rightarrow> a_finish (line_object m q cur (take n cs)) (drop (n + 2) cs) q))"

definition a_bulk :: "cmem \<Rightarrow> redisReadTask \<Rightarrow> pstate \<Rightarrow> step" where
  "a_bulk m cur p = (case p of (cs, q) \<Rightarrow>
     (case crlf_pos cs of
        None \<Rightarrow> Wait (cs, q)
      | Some n \<Rightarrow>
          let len = number (take n cs) in
          if len < 0 then a_finish (createNilObject m (rd_rstack q) cur (rd_heap q)) (drop (n + 2) cs) q
          else if n + 4 + nat len \<le> length cs
          then a_finish (createStringObject m (rd_rstack q) cur (take (nat len) (drop (n + 2) cs)) (rd_heap q))
                 (drop (n + 4 + nat len) cs) q
          else Wait (cs, q)))"

text \<open>The current task becomes the array at \<open>a\<close>, and a task for its first element is put on top.\<close>

definition enter_array :: "redisReadTask \<Rightarrow> int \<Rightarrow> addr \<Rightarrow> redisReader \<Rightarrow> redisReader" where
  "enter_array cur n a q =
     (let q2 = set_cur (cur\<lparr>rt_elements := n, rt_obj := Some a\<rparr>) q;
          q3 = set_cur \<lparr>rt_type = -1, rt_elements = -1, rt_idx = 0, rt_obj = None, rt_parent = Some (nat (rd_ridx q2))\<rparr>
                 (q2\<lparr>rd_ridx := rd_ridx q2 + 1\<rparr>)
      in if rd_ridx q = 0 then q3\<lparr>rd_reply := Some a\<rparr> else q3)"

definition a_multi :: "cmem \<Rightarrow> redisReadTask \<Rightarrow> pstate \<Rightarrow> step" where
  "a_multi m cur p = (case p of (cs, q) \<Rightarrow>
     if rd_ridx q = 8 then Bad
     else case crlf_pos cs of
        None \<Rightarrow> Wait (cs, q)
      | Some n \<Rightarrow>
          let v = number (take n cs); cs' = drop (n + 2) cs in
          if v = -1 then a_finish (createNilObject m (rd_rstack q) cur (rd_heap q)) cs' q
          else let objh = createArrayObject m (rd_rstack q) cur (i32 v) (rd_heap q) in
            if v > 0
            then (case objh of
                    Inl e \<Rightarrow> Stop e
                  | Inr (None, h) \<Rightarrow> Bad
                  | Inr (Some a, h) \<Rightarrow> Go (cs', enter_array cur (i32 v) a (q\<lparr>rd_heap := h\<rparr>)))
            else a_finish objh cs' q)"

definition a_typed :: "cmem \<Rightarrow> pstate \<Rightarrow> step" where
  "a_typed m p =
     (let cur = rd_rstack (snd p) ! nat (rd_ridx (snd p)) in
      if rt_type cur \<in> {REPLY_ERROR, REPLY_STATUS, REPLY_INTEGER} then a_line m cur p
      else if rt_type cur = REPLY_STRING then a_bulk m cur p
      else if rt_type cur = REPLY_ARRAY then a_multi m cur p
      else Stop AssertFailed)"

definition a_item :: "cmem \<Rightarrow> pstate \<Rightarrow> step" where
  "a_item m p = (case p of (cs, q) \<Rightarrow>
     (let cur = rd_rstack q ! nat (rd_ridx q) in
      if rt_type cur < 0
      then case cs of
          [] \<Rightarrow> Wait (cs, q)
        | c # cs' \<Rightarrow> (case item_type c of None \<Rightarrow> Bad | Some ty \<Rightarrow> a_typed m (cs', set_cur (cur\<lparr>rt_type := ty\<rparr>) q))
      else a_typed m (cs, q)))"

fun a_items :: "cmem \<Rightarrow> nat \<Rightarrow> pstate \<Rightarrow> step" where
  "a_items m 0 p = NoFuel"
| "a_items m (Suc n) p =
     (if rd_ridx (snd p) \<ge> 0 then (case a_item m p of Go p' \<Rightarrow> a_items m n p' | x \<Rightarrow> x) else Go p)"

section \<open>More input\<close>

lemma crlf_pos_append: "crlf_pos cs = Some n \<Longrightarrow> crlf_pos (cs @ b) = Some n"
proof (induction cs arbitrary: n rule: crlf_pos.induct)
  case (1 c d cs)
  then show ?case by (auto split: if_splits)
qed simp_all

fun with_more :: "char list \<Rightarrow> step \<Rightarrow> step" where
  "with_more b (Go (cs, q)) = Go (cs @ b, q)"
| "with_more b x = x"

lemma with_more_finish: "n \<le> length cs \<Longrightarrow> a_finish objh (drop n (cs @ b)) q = with_more b (a_finish objh (drop n cs) q)"
  by (auto simp: a_finish_def split: sum.splits option.splits)

lemma a_finish_not_wait [simp]: "a_finish objh cs q \<noteq> Wait p" "a_finish objh cs q \<noteq> NoFuel"
  by (auto simp: a_finish_def split: sum.splits option.splits prod.splits)

lemma a_typed_more:
  "a_typed m (cs, q) = Wait (cs, q) \<or>
   a_typed m (cs @ b, q) = with_more b (a_typed m (cs, q)) \<and> (\<forall>p. a_typed m (cs, q) \<noteq> Wait p)"
proof (cases "crlf_pos cs")
  case None
  then show ?thesis by (auto simp: a_typed_def a_line_def a_bulk_def a_multi_def Let_def)
next
  case (Some n)
  have len: "n + 2 \<le> length cs" using crlf_pos_Some [OF Some] by simp
  note c = Some crlf_pos_append [OF Some, of b]
  have "a_line m cur (cs @ b, q) = with_more b (a_line m cur (cs, q)) \<and> (\<forall>p. a_line m cur (cs, q) \<noteq> Wait p)" for cur
    using len with_more_finish [of "n + 2" cs] by (simp add: a_line_def c)
  moreover have "a_bulk m cur (cs, q) = Wait (cs, q) \<or>
      a_bulk m cur (cs @ b, q) = with_more b (a_bulk m cur (cs, q)) \<and> (\<forall>p. a_bulk m cur (cs, q) \<noteq> Wait p)" for cur
    using len with_more_finish [of "n + 2" cs] with_more_finish [of "n + 4 + nat (number (take n cs))" cs]
    by (simp add: a_bulk_def c Let_def)
  moreover have "a_multi m cur (cs @ b, q) = with_more b (a_multi m cur (cs, q)) \<and> (\<forall>p. a_multi m cur (cs, q) \<noteq> Wait p)" for cur
    using len with_more_finish [of "n + 2" cs]
    by (cases "createArrayObject m (rd_rstack q) cur (i32 (number (take n cs))) (rd_heap q)")
      (auto simp: a_multi_def c Let_def split: option.splits)
  ultimately show ?thesis unfolding a_typed_def Let_def snd_conv by auto
qed

lemma a_typed_not_nofuel: "a_typed m p \<noteq> NoFuel"
  by (auto simp: a_typed_def a_line_def a_bulk_def a_multi_def Let_def split: option.splits sum.splits prod.splits)

text \<open>The state an item waits in, and that it goes on from there as if all input had been there.\<close>

lemma a_item_more:
  assumes "nat (rd_ridx q) < length (rd_rstack q)"
  shows "(\<exists>cs' q'. a_item m (cs, q) = Wait (cs', q') \<and> rd_ridx q' = rd_ridx q \<and>
      length (rd_rstack q') = length (rd_rstack q) \<and> a_item m (cs @ b, q) = a_item m (cs' @ b, q')) \<or>
    a_item m (cs @ b, q) = with_more b (a_item m (cs, q)) \<and> (\<forall>p. a_item m (cs, q) \<noteq> Wait p)"
proof (cases "rt_type (rd_rstack q ! nat (rd_ridx q)) < 0")
  case False
  then show ?thesis using a_typed_more [of m cs q b] by (auto simp: a_item_def Let_def)
next
  case True
  show ?thesis
  proof (cases cs)
    case Nil
    then have "a_item m (cs, q) = Wait (cs, q)" using True by (simp add: a_item_def Let_def)
    then show ?thesis by auto
  next
    case (Cons c cs')
    show ?thesis
    proof (cases "item_type c")
      case None
      then show ?thesis using True Cons by (simp add: a_item_def Let_def)
    next
      case (Some ty)
      define q' where "q' = set_cur ((rd_rstack q ! nat (rd_ridx q))\<lparr>rt_type := ty\<rparr>) q"
      have q': "rd_ridx q' = rd_ridx q" "length (rd_rstack q') = length (rd_rstack q)"
        "rt_type (rd_rstack q' ! nat (rd_ridx q')) = ty" "0 \<le> ty"
        using assms item_type_range [OF Some] by (auto simp: q'_def set_cur_def)
      have "a_item m (cs @ b, q) = a_typed m (cs' @ b, q')" "a_item m (cs, q) = a_typed m (cs', q')"
        "a_item m (cs' @ b, q') = a_typed m (cs' @ b, q')"
        using True Cons Some q' by (simp_all add: a_item_def Let_def q'_def [symmetric])
      then show ?thesis using a_typed_more [of m cs' q' b] q'(1,2) by auto
    qed
  qed
qed

text \<open>\<^verbatim>\<open>moveToNextTask\<close> reads and writes the stack and its index only.\<close>

lemma moveToNextTask_cong:
  "rd_rstack r' = rd_rstack r \<Longrightarrow> rd_ridx r' = rd_ridx r \<Longrightarrow>
   moveToNextTask r' = bind_res (moveToNextTask r) (\<lambda>x. Inr (r'\<lparr>rd_rstack := rd_rstack x, rd_ridx := rd_ridx x\<rparr>))"
proof (induction r arbitrary: r' rule: moveToNextTask.induct)
  case (1 r)
  show ?case
  proof (cases "rd_ridx r > 0")
    case False
    then show ?thesis using 1(2,3) by (subst (1 2) moveToNextTask.simps) auto
  next
    case ridx: True
    let ?cur = "rd_rstack r ! nat (rd_ridx r)" and ?prv = "rd_rstack r ! (nat (rd_ridx r) - 1)"
    show ?thesis
    proof (cases "rt_type ?prv = REPLY_ARRAY \<and> rt_idx ?cur = i32 (rt_elements ?prv - 1)")
      case True
      have "moveToNextTask (r'\<lparr>rd_ridx := rd_ridx r - 1\<rparr>) = bind_res (moveToNextTask (r\<lparr>rd_ridx := rd_ridx r - 1\<rparr>))
          (\<lambda>x. Inr (r'\<lparr>rd_ridx := rd_ridx r - 1, rd_rstack := rd_rstack x, rd_ridx := rd_ridx x\<rparr>))"
        by (rule 1(1) [OF _ _ refl refl]) (use ridx True 1(2,3) in simp_all)
      moreover have "r'\<lparr>rd_ridx := i, rd_rstack := st, rd_ridx := j\<rparr> = r'\<lparr>rd_rstack := st, rd_ridx := j\<rparr>" for i j st by simp
      ultimately show ?thesis
        using ridx True 1(2,3) by (subst (1 2) moveToNextTask.simps) (simp add: Let_def check_res_def)
    next
      case False
      then show ?thesis
        using ridx 1(2,3) by (subst (1 2) moveToNextTask.simps) (simp add: Let_def check_res_def set_cur_def)
    qed
  qed
qed

lemma moveToNextTask_frame:
  "moveToNextTask r = Inr x \<Longrightarrow> length (rd_rstack x) = length (rd_rstack r) \<and> rd_ridx x \<le> rd_ridx r \<and>
     (-1 \<le> rd_ridx r \<longrightarrow> -1 \<le> rd_ridx x)"
proof (induction r rule: moveToNextTask.induct)
  case (1 r)
  show ?case
  proof (cases "rd_ridx r > 0")
    case False
    then show ?thesis using 1(2) by (subst (asm) moveToNextTask.simps) (auto split: if_splits)
  next
    case True
    then show ?thesis
      using 1(2) 1(1) [OF _ _ refl refl] by (subst (asm) moveToNextTask.simps)
        (auto simp: Let_def check_res_def set_cur_def split: if_splits)
  qed
qed

definition a_ok :: "redisReader \<Rightarrow> bool" where
  "a_ok q \<longleftrightarrow> length (rd_rstack q) = 9 \<and> -1 \<le> rd_ridx q \<and> rd_ridx q \<le> 8"

lemma a_finish_Go: "a_ok q \<Longrightarrow> a_finish objh cs q = Go (cs', q') \<Longrightarrow> cs' = cs \<and> a_ok q'"
  by (auto simp: a_finish_def a_ok_def split: sum.splits option.splits if_splits dest!: moveToNextTask_frame)

lemma a_typed_Go:
  assumes "a_ok q" "0 \<le> rd_ridx q" "a_typed m (cs, q) = Go (cs', q')"
  shows "a_ok q' \<and> length cs' < length cs"
proof (cases "crlf_pos cs")
  case None
  then show ?thesis using assms(3) by (auto simp: a_typed_def a_line_def a_bulk_def a_multi_def Let_def split: if_splits)
next
  case (Some n)
  have len: "n + 2 \<le> length cs" using crlf_pos_Some [OF Some] by simp
  note fin = a_finish_Go [OF assms(1)]
  have "a_line m cur (cs, q) = Go (cs', q') \<Longrightarrow> ?thesis" for cur
    using len by (auto simp: a_line_def Some dest!: fin)
  moreover have "a_bulk m cur (cs, q) = Go (cs', q') \<Longrightarrow> ?thesis" for cur
    using len by (auto simp: a_bulk_def Some Let_def split: if_splits dest!: fin)
  moreover have "a_multi m cur (cs, q) = Go (cs', q') \<Longrightarrow> ?thesis" for cur
    using len assms(1,2)
    by (auto simp: a_multi_def Some Let_def enter_array_def set_cur_def a_ok_def split: if_splits sum.splits option.splits
        dest!: fin)
  ultimately show ?thesis using assms(3) unfolding a_typed_def Let_def snd_conv by (auto split: if_splits)
qed

lemma a_item_Go:
  assumes "a_ok q" "0 \<le> rd_ridx q" "a_item m (cs, q) = Go (cs', q')"
  shows "a_ok q' \<and> length cs' < length cs"
proof -
  have "a_ok (set_cur t q)" "rd_ridx (set_cur t q) = rd_ridx q" for t using assms(1) by (simp_all add: a_ok_def set_cur_def)
  then show ?thesis
    using assms a_typed_Go [of q m] a_typed_Go [of "set_cur t q" m for t]
    by (auto simp: a_item_def Let_def split: if_splits list.splits option.splits) force
qed

lemma a_item_not_nofuel: "a_item m p \<noteq> NoFuel"
  using a_typed_not_nofuel by (auto simp: a_item_def Let_def split: prod.splits list.splits option.splits)

lemma a_items_fuel: "a_ok q \<Longrightarrow> length cs < n \<Longrightarrow> a_items m n (cs, q) \<noteq> NoFuel"
proof (induction n arbitrary: cs q)
  case (Suc n)
  show ?case
  proof (cases "rd_ridx q \<ge> 0")
    case True
    show ?thesis
    proof (cases "a_item m (cs, q)")
      case (Go p)
      obtain cs' q' where p: "p = (cs', q')" by (cases p)
      have "a_ok q'" "length cs' < n" using a_item_Go [OF Suc.prems(1) True Go [unfolded p]] Suc.prems(2) by auto
      then show ?thesis using Suc.IH True Go p by simp
    qed (use True a_item_not_nofuel in auto)
  qed simp
qed simp

lemma a_items_mono: "a_items m n p \<noteq> NoFuel \<Longrightarrow> a_items m (n + k) p = a_items m n p"
proof (induction n arbitrary: p)
  case (Suc n)
  then show ?case by (cases "a_item m p") auto
qed simp

lemma a_items_more:
  assumes "a_ok q" "a_items m n (cs, q) \<noteq> NoFuel"
  shows "(\<exists>cs' q' j. a_items m n (cs, q) = Wait (cs', q') \<and> a_ok q' \<and> 0 \<le> rd_ridx q' \<and>
      (\<forall>f. a_items m (j + Suc f) (cs @ b, q) = a_items m (Suc f) (cs' @ b, q'))) \<or>
    a_items m n (cs @ b, q) = with_more b (a_items m n (cs, q)) \<and> (\<forall>p. a_items m n (cs, q) \<noteq> Wait p)"
  using assms
proof (induction n arbitrary: cs q)
  case (Suc n)
  show ?case
  proof (cases "rd_ridx q \<ge> 0")
    case False
    then show ?thesis by simp
  next
    case True
    have "nat (rd_ridx q) < length (rd_rstack q)" using Suc.prems(1) True by (auto simp: a_ok_def nat_less_iff)
    from a_item_more [OF this, of m cs b] show ?thesis
    proof (elim disjE exE conjE)
      fix cs' q'
      assume w: "a_item m (cs, q) = Wait (cs', q')" "rd_ridx q' = rd_ridx q" "length (rd_rstack q') = length (rd_rstack q)"
        "a_item m (cs @ b, q) = a_item m (cs' @ b, q')"
      then have "a_items m (0 + Suc f) (cs @ b, q) = a_items m (Suc f) (cs' @ b, q')" for f using True by simp
      moreover have "a_ok q'" using w Suc.prems(1) by (simp add: a_ok_def)
      ultimately show ?thesis using w(1,2) True by (intro disjI1 exI [of _ cs'] exI [of _ q'] exI [of _ 0]) simp
    next
      assume e: "a_item m (cs @ b, q) = with_more b (a_item m (cs, q))" "\<forall>p. a_item m (cs, q) \<noteq> Wait p"
      show ?thesis
      proof (cases "a_item m (cs, q)")
        case (Go p)
        obtain cs1 q1 where p: "p = (cs1, q1)" by (cases p)
        have q1: "a_ok q1" using a_item_Go [OF Suc.prems(1) True Go [unfolded p]] by simp
        have go: "a_items m (Suc k) (cs, q) = a_items m k (cs1, q1)" "a_items m (Suc k) (cs @ b, q) = a_items m k (cs1 @ b, q1)" for k
          using True Go e(1) p by simp_all
        have "a_items m n (cs1, q1) \<noteq> NoFuel" using Suc.prems(2) go(1) by simp
        from Suc.IH [OF q1 this] show ?thesis
        proof (elim disjE exE conjE)
          fix cs' q' j
          assume w: "a_items m n (cs1, q1) = Wait (cs', q')" "a_ok q'" "0 \<le> rd_ridx q'"
            "\<forall>f. a_items m (j + Suc f) (cs1 @ b, q1) = a_items m (Suc f) (cs' @ b, q')"
          then have "a_items m (Suc j + Suc f) (cs @ b, q) = a_items m (Suc f) (cs' @ b, q')" for f
            using go(2) [of "j + Suc f"] by simp
          then show ?thesis using w go(1)
            by (intro disjI1 exI [of _ cs'] exI [of _ q'] exI [of _ "Suc j"]) simp
        qed (use go in auto)
      qed (use True e a_item_not_nofuel in auto)
    qed
  qed
qed simp

section \<open>The reader refines the abstract parser\<close>

text \<open>The part of a reader that the abstract parser uses.\<close>

definition core :: "redisReader \<Rightarrow> redisReader" where
  "core r = r\<lparr>rd_err := 0, rd_errstr := [], rd_buf := None, rd_pos := 0, rd_len := 0, rd_maxbuf := 0\<rparr>"

lemma core_simps [simp]:
  "rd_rstack (core r) = rd_rstack r" "rd_ridx (core r) = rd_ridx r" "rd_reply (core r) = rd_reply r"
  "rd_heap (core r) = rd_heap r"
  by (simp_all add: core_def)

lemma core_eqI:
  "rd_rstack r = rd_rstack r' \<Longrightarrow> rd_ridx r = rd_ridx r' \<Longrightarrow> rd_reply r = rd_reply r' \<Longrightarrow> rd_heap r = rd_heap r' \<Longrightarrow> core r = core r'"
  by (simp add: core_def)

definition refines :: "redisReader \<Rightarrow> (int \<times> redisReader) res \<Rightarrow> step \<Rightarrow> bool" where
  "refines r res x \<longleftrightarrow> (case x of
       Stop e \<Rightarrow> res = Inl e
     | Bad \<Rightarrow> \<exists>r'. res = Inr (REDIS_ERR, r') \<and> rd_err r' \<noteq> 0
     | Wait p \<Rightarrow> \<exists>r'. res = Inr (REDIS_ERR, r') \<and> rd_err r' = 0 \<and> buffer_ok r' \<and> p = (unread r', core r') \<and> rd_len r' = rd_len r
     | Go p \<Rightarrow> \<exists>r'. res = Inr (REDIS_OK, r') \<and> rd_err r' = 0 \<and> buffer_ok r' \<and> p = (unread r', core r') \<and> rd_len r' = rd_len r
     | NoFuel \<Rightarrow> False)"

lemma move_refines:
  assumes "rd_rstack q = rd_rstack r" "rd_ridx q = rd_ridx r"
  shows "moveToNextTask q = Inl e \<longleftrightarrow> moveToNextTask r = Inl e"
    "moveToNextTask q = Inr q' \<Longrightarrow> moveToNextTask r = Inr (r\<lparr>rd_rstack := rd_rstack q', rd_ridx := rd_ridx q'\<rparr>)"
  using moveToNextTask_cong [of r q] assms by (cases "moveToNextTask q"; simp)+

lemma unread_drop:
  assumes "buffer_ok r" "k \<le> length (unread r)"
  shows "unread (r\<lparr>rd_pos := rd_pos r + k\<rparr>) = drop k (unread r)" "buffer_ok (r\<lparr>rd_pos := rd_pos r + k\<rparr>)"
  using assms by (auto simp: unread_def buffer_ok_def add.commute sds_wfD(5))

lemma finish_refines:
  assumes "buffer_ok r" "rd_err r = 0" "k \<le> length (unread r)" "rd_len r0 = rd_len r"
  shows "refines r0 (bind_res objh (\<lambda>o1. finish_item (rd_pos r + k) o1 r)) (a_finish objh (drop k (unread r)) (core r))"
proof (cases objh)
  case (Inl e)
  then show ?thesis by (simp add: a_finish_def refines_def)
next
  case (Inr o1)
  obtain ao h where o1: "o1 = (ao, h)" by (cases o1)
  show ?thesis
  proof (cases ao)
    case None
    then show ?thesis using Inr o1
      by (simp add: a_finish_def refines_def finish_item_def redisReaderSetErrorOOM_def redisReaderSetError_def Let_def)
  next
    case (Some a)
    define r1 where "r1 = (if rd_ridx r = 0 then r\<lparr>rd_heap := h, rd_pos := rd_pos r + k, rd_reply := Some a\<rparr>
      else r\<lparr>rd_heap := h, rd_pos := rd_pos r + k\<rparr>)"
    let ?q = "if rd_ridx (core r) = 0 then (core r)\<lparr>rd_heap := h, rd_reply := Some a\<rparr> else (core r)\<lparr>rd_heap := h\<rparr>"
    have fin: "finish_item (rd_pos r + k) o1 r = bind_res (moveToNextTask r1) (\<lambda>r3. Inr (REDIS_OK, r3))"
      by (simp add: finish_item_def o1 Some r1_def Let_def)
    have q: "rd_rstack ?q = rd_rstack r1" "rd_ridx ?q = rd_ridx r1" "rd_reply ?q = rd_reply r1" "rd_heap ?q = rd_heap r1"
      by (auto simp: r1_def)
    have r1: "rd_err r1 = 0" "buffer_ok r1" "unread r1 = drop k (unread r)" "rd_len r1 = rd_len r"
      using assms(2) unread_drop [OF assms(1,3)] by (auto simp: r1_def buffer_ok_def unread_def cong: option.case_cong)
    note mv = move_refines [OF q(1,2)]
    show ?thesis
    proof (cases "moveToNextTask ?q")
      case (Inl e)
      then have "moveToNextTask r1 = Inl e" using mv(1) by blast
      then show ?thesis using Inl fin Inr o1 Some by (simp add: a_finish_def refines_def)
    next
      case mq: (Inr q')
      define r2 where "r2 = r1\<lparr>rd_rstack := rd_rstack q', rd_ridx := rd_ridx q'\<rparr>"
      have "?q\<lparr>rd_rstack := rd_rstack q', rd_ridx := rd_ridx q'\<rparr> = q'"
        using moveToNextTask_cong [of ?q ?q] mq by simp
      moreover have "?q\<lparr>rd_rstack := rd_rstack q', rd_ridx := rd_ridx q'\<rparr> = core r2"
        by (simp add: core_def r2_def r1_def)
      ultimately have "q' = core r2" by simp
      moreover have "rd_err r2 = 0" "buffer_ok r2" "unread r2 = drop k (unread r)" "rd_len r2 = rd_len r"
        using r1 by (auto simp: r2_def buffer_ok_def unread_def cong: option.case_cong)
      ultimately show ?thesis
        using mv(2) [OF mq] fin Inr o1 Some mq assms(4) by (simp add: a_finish_def refines_def r2_def)
    qed
  qed
qed

text \<open>A number depends on its line only.\<close>

lemma rll_loop_line:
  assumes "drop off blk = xs @ CR # zs" "drop off' blk' = xs @ CR # zs'"
  shows "rll_loop blk off v = rll_loop blk' off' v"
  using assms
proof (induction xs arbitrary: off off' v)
  case Nil
  then have "byte_at blk off = Inr CR" "byte_at blk' off' = Inr CR" by (simp_all add: byte_at_def drop_ConsD)
  then show ?case by (subst (1 2) rll_loop.simps) simp
next
  case (Cons x xs)
  have "byte_at blk off = Inr x" "byte_at blk' off' = Inr x" "drop (Suc off) blk = xs @ CR # zs" "drop (Suc off') blk' = xs @ CR # zs'"
    using Cons.prems by (simp_all add: byte_at_def drop_ConsD)
  then show ?case using Cons.IH by (subst (1 2) rll_loop.simps) simp
qed

lemma readLongLong_line:
  assumes "drop off blk = s @ CR # zs"
  shows "readLongLong blk off = Inr (number s)"
proof -
  have d0: "drop 0 (s @ [CR]) = s @ CR # []" by simp
  have eq: "readLongLong blk off = readLongLong (s @ [CR]) 0"
  proof (cases s)
    case Nil
    then have "byte_at blk off = Inr CR" "byte_at (s @ [CR]) 0 = Inr CR" using assms by (simp_all add: byte_at_def drop_ConsD)
    then show ?thesis using rll_loop_line [OF assms d0] by (simp add: readLongLong_def)
  next
    case (Cons x xs)
    have b: "byte_at blk off = Inr x" "byte_at (s @ [CR]) 0 = Inr x" using assms Cons by (simp_all add: byte_at_def drop_ConsD)
    have "drop (Suc off) blk = xs @ CR # zs" "drop (Suc 0) (s @ [CR]) = xs @ CR # []" using assms Cons by (simp_all add: drop_ConsD)
    from rll_loop_line [OF this] rll_loop_line [OF assms d0] b show ?thesis by (simp add: readLongLong_def)
  qed
  have "\<exists>v. readLongLong (s @ [CR]) 0 = Inr v" by (rule readLongLong_total [of 0 "length s"]) simp_all
  then show ?thesis using eq by (auto simp: number_def)
qed

lemma number_range: "number s \<le> 9223372036854775807"
proof -
  obtain v where v: "readLongLong (s @ [CR]) 0 = Inr v" using readLongLong_line [of 0 "s @ [CR]" s "[]"] by simp
  have "i64 x \<le> 9223372036854775807" for x by (simp add: i64_def)
  then show ?thesis using v by (auto simp: number_def readLongLong_def bind_res_Inr Let_def split: option.splits)
qed

text \<open>What a reader sees of its next line.\<close>

lemma next_line:
  assumes "buffer_ok r"
  obtains blk where "rd_block r = Inr blk"
    "seekNewline blk (rd_pos r) (u64 (int (rd_len r) - int (rd_pos r))) = Inr (crlf_pos (unread r))"
    "rd_pos r + length (unread r) = rd_len r" "rd_len r < length blk" "rd_len r \<le> 2147483647"
    "\<forall>n. crlf_pos (unread r) = Some n \<longrightarrow> n + 2 \<le> length (unread r) \<and>
       readLongLong blk (rd_pos r) = Inr (number (take n (unread r))) \<and> peek blk (rd_pos r) n = Inr (take n (unread r))"
    "\<forall>n k. n + k \<le> length (unread r) \<longrightarrow> peek blk (rd_pos r + n) k = Inr (take k (drop n (unread r)))"
proof -
  let ?cs = "unread r"
  from unread_block [OF assms refl] obtain blk where b: "rd_block r = Inr blk"
    "take (length ?cs) (drop (rd_pos r) blk) = ?cs" "rd_pos r + length ?cs = rd_len r" "rd_len r < length blk"
    "rd_len r \<le> 2147483647" "seekNewline blk (rd_pos r) (u64 (int (rd_len r) - int (rd_pos r))) = Inr (crlf_pos ?cs)" .
  have part: "peek blk (rd_pos r + n) k = Inr (take k (drop n ?cs))" if "n + k \<le> length ?cs" for n k
  proof -
    define xs ys zs where x_def: "xs = take n ?cs" "ys = take k (drop n ?cs)" "zs = drop k (drop n ?cs)"
    have x: "?cs = xs @ ys @ zs" unfolding x_def append_take_drop_id by simp
    have l: "length xs = n" "length ys = k" using that by (simp_all add: x_def)
    have "peek blk (rd_pos r + length xs) (length ys) = Inr ys"
      by (rule peek_part [of _ _ zs]) (use b x in simp_all)
    then show ?thesis using l x_def(2) by simp
  qed
  have "n + 2 \<le> length ?cs \<and> readLongLong blk (rd_pos r) = Inr (number (take n ?cs)) \<and> peek blk (rd_pos r) n = Inr (take n ?cs)"
    if n: "crlf_pos ?cs = Some n" for n
  proof -
    have len: "n + 2 \<le> length ?cs" "?cs ! n = CR" using crlf_pos_Some [OF n] by simp_all
    then have "?cs = (take n ?cs @ [CR]) @ drop (Suc n) ?cs" using id_take_nth_drop [of n ?cs] by simp
    then obtain zs where "drop (rd_pos r) blk = (take n ?cs @ [CR]) @ zs" using drop_of_take [of "take n ?cs @ [CR]" "drop (Suc n) ?cs"] b(2) by metis
    then have "readLongLong blk (rd_pos r) = Inr (number (take n ?cs))" by (intro readLongLong_line) simp
    then show ?thesis using len part [of 0 n] by simp
  qed
  with that b part show ?thesis by blast
qed

lemma line_refines:
  assumes "buffer_ok r" "rd_err r = 0" "cur_task r = Inr cur"
  shows "refines r (processLineItem m r) (a_line m cur (unread r, core r))"
proof -
  from next_line [OF assms(1)] obtain blk where b: "rd_block r = Inr blk"
    "seekNewline blk (rd_pos r) (u64 (int (rd_len r) - int (rd_pos r))) = Inr (crlf_pos (unread r))"
    "rd_pos r + length (unread r) = rd_len r" "rd_len r < length blk" "rd_len r \<le> 2147483647"
    "\<forall>n. crlf_pos (unread r) = Some n \<longrightarrow> n + 2 \<le> length (unread r) \<and>
       readLongLong blk (rd_pos r) = Inr (number (take n (unread r))) \<and> peek blk (rd_pos r) n = Inr (take n (unread r))" by metis
  show ?thesis
  proof (cases "crlf_pos (unread r)")
    case None
    then show ?thesis using assms b by (simp add: processLineItem_def readLine_def a_line_def refines_def)
  next
    case (Some n)
    note n = b(6) [rule_format, OF Some]
    define r1 where "r1 = r\<lparr>rd_pos := rd_pos r + (n + 2)\<rparr>"
    have r1: "unread r1 = drop (n + 2) (unread r)" "buffer_ok r1" "rd_err r1 = 0" "rd_len r1 = rd_len r" "core r1 = core r"
      "rd_block r1 = Inr blk" "rd_rstack r1 = rd_rstack r" "rd_heap r1 = rd_heap r"
      using unread_drop [OF assms(1), of "n + 2"] n assms(2) b(1) by (simp_all add: r1_def core_def rd_block_def)
    have "u64 (int (rd_pos r) + (i32 (int n) + 2)) = rd_pos r + (n + 2)"
      using n b(3,5) by (simp add: i32_id u64_id nat_add_distrib)
    then have "readLine r = Inr (Some (rd_pos r, n), r1)" using b(1,2) Some by (simp add: readLine_def r1_def)
    then have "processLineItem m r = bind_res (line_object m (core r) cur (take n (unread r))) (\<lambda>o1. finish_item (rd_pos r1) o1 r1)"
      using assms(3) n r1 by (simp add: processLineItem_def line_object_def)
    moreover have "refines r (bind_res objh (\<lambda>o1. finish_item (rd_pos r1) o1 r1)) (a_finish objh (unread r1) (core r))" for objh
      using finish_refines [OF r1(2,3), of 0 r objh] r1(4,5) by simp
    ultimately show ?thesis using Some r1(1) by (simp add: a_line_def)
  qed
qed

lemma bulk_refines:
  assumes "buffer_ok r" "rd_err r = 0" "cur_task r = Inr cur"
  shows "refines r (processBulkItem m r) (a_bulk m cur (unread r, core r))"
proof -
  from next_line [OF assms(1)] obtain blk where b: "rd_block r = Inr blk"
    "seekNewline blk (rd_pos r) (u64 (int (rd_len r) - int (rd_pos r))) = Inr (crlf_pos (unread r))"
    "rd_pos r + length (unread r) = rd_len r" "rd_len r < length blk" "rd_len r \<le> 2147483647"
    "\<forall>n. crlf_pos (unread r) = Some n \<longrightarrow> n + 2 \<le> length (unread r) \<and>
       readLongLong blk (rd_pos r) = Inr (number (take n (unread r))) \<and> peek blk (rd_pos r) n = Inr (take n (unread r))"
    "\<forall>n k. n + k \<le> length (unread r) \<longrightarrow> peek blk (rd_pos r + n) k = Inr (take k (drop n (unread r)))" by metis
  note start = processBulkItem_def assms(3) b(1,2)
  show ?thesis
  proof (cases "crlf_pos (unread r)")
    case None
    then show ?thesis using assms by (simp add: start a_bulk_def refines_def)
  next
    case (Some n)
    note n = b(6) [rule_format, OF Some]
    let ?len = "number (take n (unread r))"
    have fin: "refines r (bind_res objh (\<lambda>o1. finish_item (rd_pos r + k) o1 r)) (a_finish objh (drop k (unread r)) (core r))"
      if "k \<le> length (unread r)" for objh k using finish_refines [OF assms(1,2) that] by simp
    show ?thesis
    proof (cases "?len < 0")
      case True
      then show ?thesis using fin [of "n + 2"] n Some by (simp add: start a_bulk_def)
    next
      case False
      then have u: "u64 (int n + 2 + (?len + 2)) = n + 4 + nat ?len"
        "u64 (int (rd_pos r) + int (n + 4 + nat ?len)) = rd_pos r + (n + 4 + nat ?len)"
        using n b(3,5) number_range [of "take n (unread r)"] by (simp_all add: u64_def nat_add_distrib nat_less_iff)
      have iff: "rd_pos r + (n + 4 + nat ?len) \<le> rd_len r \<longleftrightarrow> n + 4 + nat ?len \<le> length (unread r)" using b(3) by linarith
      show ?thesis
      proof (cases "n + 4 + nat ?len \<le> length (unread r)")
        case True
        have "peek blk (rd_pos r + n + 2) (nat ?len) = Inr (take (nat ?len) (drop (n + 2) (unread r)))"
          using b(7) [rule_format, of "n + 2" "nat ?len"] True by (simp add: add.assoc)
        then show ?thesis using fin [OF True] False True n Some u iff by (simp add: start a_bulk_def Let_def)
      next
        case short: False
        then show ?thesis using False n Some u iff assms by (simp add: start a_bulk_def Let_def refines_def)
      qed
    qed
  qed
qed

text \<open>The reply is set after the move to the next task instead of before it.\<close>

lemma finish_after_move:
  "(\<lambda>(ao, h). case ao of
      None \<Rightarrow> Inr (REDIS_ERR, redisReaderSetErrorOOM (r\<lparr>rd_heap := h\<rparr>))
    | Some a \<Rightarrow> bind_res (moveToNextTask (r\<lparr>rd_heap := h\<rparr>)) (\<lambda>r2.
        Inr (REDIS_OK, if rd_ridx r = 0 then r2\<lparr>rd_reply := Some a\<rparr> else r2))) = (\<lambda>o1. finish_item (rd_pos r) o1 r)"
proof
  fix o1
  have "moveToNextTask (r\<lparr>rd_heap := h, rd_pos := rd_pos r\<rparr>) = moveToNextTask (r\<lparr>rd_heap := h\<rparr>)" for h by simp
  moreover have "moveToNextTask (r\<lparr>rd_heap := h, rd_reply := Some a\<rparr>) =
      bind_res (moveToNextTask (r\<lparr>rd_heap := h\<rparr>)) (\<lambda>r'. Inr (r'\<lparr>rd_reply := Some a\<rparr>))" for a h
    by (rule moveToNextTask_reply)
  moreover have "r\<lparr>rd_heap := h, rd_pos := rd_pos r, rd_reply := x\<rparr> = r\<lparr>rd_heap := h, rd_reply := x\<rparr>" for h x by simp
  ultimately show "(case o1 of (ao, h) \<Rightarrow> case ao of
      None \<Rightarrow> Inr (REDIS_ERR, redisReaderSetErrorOOM (r\<lparr>rd_heap := h\<rparr>))
    | Some a \<Rightarrow> bind_res (moveToNextTask (r\<lparr>rd_heap := h\<rparr>)) (\<lambda>r2.
        Inr (REDIS_OK, if rd_ridx r = 0 then r2\<lparr>rd_reply := Some a\<rparr> else r2))) = finish_item (rd_pos r) o1 r"
    by (cases "moveToNextTask (r\<lparr>rd_heap := snd o1\<rparr>)")
      (auto simp: finish_item_def Let_def split: prod.splits option.splits)
qed

lemma multi_refines:
  assumes "buffer_ok r" "rd_err r = 0" "cur_task r = Inr cur"
  shows "refines r (processMultiBulkItem m r) (a_multi m cur (unread r, core r))"
proof (cases "rd_ridx r = 8")
  case True
  then show ?thesis using assms(3)
    by (simp add: processMultiBulkItem_def a_multi_def refines_def redisReaderSetError_def Let_def)
next
  case ridx: False
  from next_line [OF assms(1)] obtain blk where b: "rd_block r = Inr blk"
    "seekNewline blk (rd_pos r) (u64 (int (rd_len r) - int (rd_pos r))) = Inr (crlf_pos (unread r))"
    "rd_pos r + length (unread r) = rd_len r" "rd_len r < length blk" "rd_len r \<le> 2147483647"
    "\<forall>n. crlf_pos (unread r) = Some n \<longrightarrow> n + 2 \<le> length (unread r) \<and>
       readLongLong blk (rd_pos r) = Inr (number (take n (unread r))) \<and> peek blk (rd_pos r) n = Inr (take n (unread r))" by metis
  show ?thesis
  proof (cases "crlf_pos (unread r)")
    case None
    then show ?thesis using assms b ridx by (simp add: processMultiBulkItem_def readLine_def a_multi_def refines_def)
  next
    case (Some n)
    note n = b(6) [rule_format, OF Some]
    let ?v = "number (take n (unread r))"
    define r1 where "r1 = r\<lparr>rd_pos := rd_pos r + (n + 2)\<rparr>"
    have r1: "unread r1 = drop (n + 2) (unread r)" "buffer_ok r1" "rd_err r1 = 0" "rd_len r1 = rd_len r" "core r1 = core r"
      "rd_block r1 = Inr blk" "rd_rstack r1 = rd_rstack r" "rd_heap r1 = rd_heap r" "rd_ridx r1 = rd_ridx r"
      using unread_drop [OF assms(1), of "n + 2"] n assms(2) b(1) by (simp_all add: r1_def core_def rd_block_def)
    have "u64 (int (rd_pos r) + (i32 (int n) + 2)) = rd_pos r + (n + 2)"
      using n b(3,5) by (simp add: i32_id u64_id nat_add_distrib)
    then have line: "readLine r = Inr (Some (rd_pos r, n), r1)" using b(1,2) Some by (simp add: readLine_def r1_def)
    have fin: "refines r (bind_res objh (\<lambda>o1. finish_item (rd_pos r1) o1 r1)) (a_finish objh (drop (n + 2) (unread r)) (core r))" for objh
      using finish_refines [OF r1(2,3), of 0 r objh] r1(1,4,5) by simp
    note start = processMultiBulkItem_def a_multi_def
    consider "?v = -1" | "?v \<noteq> -1" "\<not> ?v > 0" | "?v > 0" by linarith
    then show ?thesis
    proof cases
      case 1
      then show ?thesis using fin assms(3) ridx line n r1 Some finish_after_move [of r1, unfolded r1(9)]
        by (simp add: start)
    next
      case 2
      then show ?thesis using fin assms(3) ridx line n r1 Some finish_after_move [of r1, unfolded r1(9)]
        by (simp add: start cong: option.case_cong)
    next
      case 3
      show ?thesis
      proof (cases "createArrayObject m (rd_rstack r) cur (i32 ?v) (rd_heap r)")
        case (Inl e)
        then show ?thesis using 3 assms(3) ridx line n r1 Some by (simp add: start refines_def)
      next
        case (Inr o1)
        obtain ao h where o1: "o1 = (ao, h)" by (cases o1)
        show ?thesis
        proof (cases ao)
          case None
          then show ?thesis using 3 assms(3) ridx line n r1 Some Inr o1
            by (simp add: start refines_def redisReaderSetErrorOOM_def redisReaderSetError_def Let_def)
        next
          case a: (Some a)
          define r2 where "r2 = enter_array cur (i32 ?v) a (r1\<lparr>rd_heap := h\<rparr>)"
          have "processMultiBulkItem m r = Inr (REDIS_OK, r2)"
            using 3 assms(3) ridx line n r1 Some Inr o1 a by (simp add: start enter_array_def Let_def r2_def)
          moreover have "rd_err r2 = 0" "buffer_ok r2" "unread r2 = unread r1" "rd_len r2 = rd_len r"
            using r1 by (auto simp: r2_def enter_array_def set_cur_def Let_def buffer_ok_def unread_def cong: option.case_cong)
          moreover have "core r2 = enter_array cur (i32 ?v) a ((core r)\<lparr>rd_heap := h\<rparr>)"
            by (simp add: core_def r2_def r1_def enter_array_def set_cur_def Let_def)
          ultimately show ?thesis using 3 ridx Some Inr o1 a r1(1) by (simp add: a_multi_def Let_def refines_def)
        qed
      qed
    qed
  qed
qed

lemma typed_refines:
  assumes "buffer_ok r" "rd_err r = 0" "0 \<le> rd_ridx r" "a_ok r"
  shows "refines r (process_typed m r) (a_typed m (unread r, core r))"
proof -
  let ?cur = "rd_rstack r ! nat (rd_ridx r)"
  have cur: "cur_task r = Inr ?cur" using assms(3,4) by (simp add: cur_task_def a_ok_def nat_less_iff)
  have "refines r (Inl AssertFailed) (Stop AssertFailed)" by (simp add: refines_def)
  then show ?thesis
    using line_refines [OF assms(1,2) cur] bulk_refines [OF assms(1,2) cur] multi_refines [OF assms(1,2) cur]
    by (simp add: process_typed_def a_typed_def cur Let_def)
qed

lemma refines_len: "refines r res x \<Longrightarrow> rd_len r' = rd_len r \<Longrightarrow> refines r' res x"
  by (cases x) (simp_all add: refines_def)

lemma item_refines:
  assumes "buffer_ok r" "rd_err r = 0" "0 \<le> rd_ridx r" "a_ok r"
  shows "refines r (processItem m r) (a_item m (unread r, core r))"
proof -
  let ?cur = "rd_rstack r ! nat (rd_ridx r)"
  have cur: "cur_task r = Inr ?cur" using assms(3,4) by (simp add: cur_task_def a_ok_def nat_less_iff)
  from next_line [OF assms(1)] obtain blk where b: "rd_block r = Inr blk"
    "rd_pos r + length (unread r) = rd_len r" "rd_len r < length blk" "rd_len r \<le> 2147483647"
    "\<forall>n k. n + k \<le> length (unread r) \<longrightarrow> peek blk (rd_pos r + n) k = Inr (take k (drop n (unread r)))" by metis
  have u: "u64 (int (rd_len r) - int (rd_pos r)) = length (unread r)" using b(2,4) by (simp add: u64_id)
  show ?thesis
  proof (cases "rt_type ?cur < 0")
    case False
    then show ?thesis using typed_refines [OF assms] cur by (simp add: processItem_def a_item_def Let_def)
  next
    case new: True
    show ?thesis
    proof (cases "unread r")
      case Nil
      then show ?thesis using new cur assms u by (simp add: processItem_def readBytes_def a_item_def Let_def refines_def)
    next
      case (Cons c cs)
      let ?r1 = "r\<lparr>rd_pos := rd_pos r + 1\<rparr>"
      have pos: "rd_pos r < length blk" using b(2,3) by linarith
      have "peek blk (rd_pos r) 1 = Inr [c]" using b(5) [rule_format, of 0 1] Cons by simp
      then have "take 1 (drop (rd_pos r) blk) = [c]" by (simp add: peek_def split: if_splits)
      then have "blk ! rd_pos r = c" using pos by (simp add: Cons_nth_drop_Suc [symmetric])
      then have "byte_at blk (rd_pos r) = Inr c" using pos by (simp add: byte_at_def)
      then have p: "processItem m r = (case item_type c of
            None \<Rightarrow> Inr (REDIS_ERR, redisReaderSetErrorProtocolByte c ?r1)
          | Some ty \<Rightarrow> process_typed m (set_cur (?cur\<lparr>rt_type := ty\<rparr>) ?r1))"
        using new cur u Cons b(1) by (simp add: processItem_def readBytes_def rd_block_def cong: option.case_cong)
      show ?thesis
      proof (cases "item_type c")
        case None
        then show ?thesis using p new Cons
          by (simp add: a_item_def Let_def refines_def redisReaderSetErrorProtocolByte_def redisReaderSetError_def)
      next
        case (Some ty)
        define r2 where "r2 = set_cur (?cur\<lparr>rt_type := ty\<rparr>) ?r1"
        have r1: "unread ?r1 = cs" "buffer_ok ?r1" using unread_drop [OF assms(1), of 1] Cons by simp_all
        then have "unread r2 = cs" "buffer_ok r2" "rd_err r2 = 0" "0 \<le> rd_ridx r2" "a_ok r2" "rd_len r2 = rd_len r"
          "core r2 = set_cur (?cur\<lparr>rt_type := ty\<rparr>) (core r)"
          using assms by (auto simp: r2_def set_cur_def buffer_ok_def unread_def a_ok_def core_def cong: option.case_cong)
        then have "refines r (process_typed m r2) (a_typed m (cs, set_cur (?cur\<lparr>rt_type := ty\<rparr>) (core r)))"
          using typed_refines [of r2 m] refines_len by metis
        then show ?thesis using p Some new Cons by (simp add: r2_def a_item_def Let_def)
      qed
    qed
  qed
qed

section \<open>Runs\<close>

definition ready :: "redisReader \<Rightarrow> bool" where
  "ready r \<longleftrightarrow> rd_err r = 0 \<and> buffer_ok r \<and> a_ok r"

definition run_refines :: "redisReader \<Rightarrow> redisReader option res \<Rightarrow> step \<Rightarrow> bool" where
  "run_refines r res x \<longleftrightarrow> (case x of
       Stop e \<Rightarrow> res = Inl e
     | Bad \<Rightarrow> \<exists>r'. res = Inr (Some r') \<and> rd_err r' \<noteq> 0
     | Wait p \<Rightarrow> \<exists>r'. res = Inr (Some r') \<and> ready r' \<and> 0 \<le> rd_ridx r' \<and> p = (unread r', core r') \<and> rd_len r' = rd_len r
     | Go p \<Rightarrow> \<exists>r'. res = Inr (Some r') \<and> ready r' \<and> rd_ridx r' = -1 \<and> p = (unread r', core r') \<and> rd_len r' = rd_len r
     | NoFuel \<Rightarrow> res = Inr None)"

lemma a_ok_core [simp]: "a_ok (core r) = a_ok r"
  by (simp add: a_ok_def)

lemma items_refines:
  assumes "ready r"
  shows "run_refines r (process_items m n r) (a_items m n (unread r, core r))"
  using assms
proof (induction n arbitrary: r)
  case 0
  then show ?case by (simp add: run_refines_def)
next
  case (Suc n)
  then have r: "rd_err r = 0" "buffer_ok r" "a_ok r" by (simp_all add: ready_def)
  show ?case
  proof (cases "0 \<le> rd_ridx r")
    case False
    then have "rd_ridx r = -1" using r(3) by (simp add: a_ok_def)
    then show ?thesis using Suc.prems by (simp add: run_refines_def)
  next
    case True
    note ref = item_refines [OF r(2,1) True r(3), of m]
    show ?thesis
    proof (cases "a_item m (unread r, core r)")
      case (Go p)
      from ref Go obtain r' where r': "processItem m r = Inr (REDIS_OK, r')" "rd_err r' = 0" "buffer_ok r'"
        "p = (unread r', core r')" "rd_len r' = rd_len r" by (auto simp: refines_def)
      have "a_ok r'" using a_item_Go [of "core r" m "unread r" "unread r'" "core r'"] Go r' r(3) True by simp
      then have "ready r'" using r' by (simp add: ready_def)
      from Suc.IH [OF this] show ?thesis using True Go r'
        by (cases "a_items m n (unread r', core r')") (auto simp: run_refines_def)
    next
      case (Wait p)
      from ref Wait obtain r' where r': "processItem m r = Inr (REDIS_ERR, r')" "rd_err r' = 0" "buffer_ok r'"
        "p = (unread r', core r')" "rd_len r' = rd_len r" by (auto simp: refines_def)
      have "nat (rd_ridx r) < length (rd_rstack r)" using r(3) True by (simp add: a_ok_def nat_less_iff)
      then have "rd_ridx r' = rd_ridx r" "length (rd_rstack r') = length (rd_rstack r)"
        using a_item_more [of "core r" m "unread r" "[]"] Wait r'(4) by auto
      then show ?thesis using True Wait r' r(3) by (auto simp: run_refines_def ready_def a_ok_def)
    qed (use ref True in \<open>auto simp: refines_def run_refines_def\<close>)
  qed
qed

end
