(* ===== verification/Reader_Stream.thy ===== *)
theory Reader_Stream
  imports Reader_Chunks
begin

text \<open>
  Feeding the protocol parser a stream in pieces.  \<open>expects\<close> is the invariant between two calls: with
  the bytes that are still to come the abstract parser would complete the reply.  Each call of
  \<^verbatim>\<open>redisReaderGetReply\<close> keeps it or returns that reply, and the bytes that are to come can not run
  out before.
\<close>

definition expects :: "cmem \<Rightarrow> redisReader \<Rightarrow> char list \<Rightarrow> char list \<Rightarrow> redisReader \<Rightarrow> bool" where
  "expects m r todo rest q \<longleftrightarrow> (\<exists>n. a_items m n (unread r @ todo, core (start_reply r)) = Go (rest, q))"

lemma core_start_reply: "core (start_reply r) = start_reply (core r)"
  by (simp add: start_reply_def core_def)

lemma core_core [simp]: "core (core r) = core r"
  by (simp add: core_def)

lemma start_reply_cong: "core r = core r' \<Longrightarrow> core (start_reply r) = core (start_reply r')"
  by (metis core_start_reply)

lemma a_ok_start: "a_ok r \<Longrightarrow> a_ok (start_reply r) \<and> 0 \<le> rd_ridx (start_reply r)"
  by (auto simp: a_ok_def start_reply_def)

lemma ready_start: "ready r \<Longrightarrow> ready (start_reply r) \<and> unread (start_reply r) = unread r"
  using a_ok_start [of r] by (auto simp: ready_def start_reply_def buffer_ok_def unread_def cong: option.case_cong)

lemma discard_keeps:
  assumes "ready r"
  shows "\<exists>r'. discard_consumed r = Inr r' \<and> ready r' \<and> unread r' = unread r \<and> core r' = core r \<and> rd_len r' \<le> rd_len r"
proof (cases "rd_pos r \<ge> 1024")
  case True
  from assms obtain s where s: "rd_buf r = Some s" "sds_wf s" "rd_len r = sdslen s" "rd_pos r \<le> rd_len r"
    by (auto simp: ready_def buffer_ok_def)
  note D = sds_wfD [OF s(2)]
  from sdsrange_drop [OF s(2), of "rd_pos r"] s(3,4) D(5) obtain s' where
    s': "sdsrange s (int (rd_pos r)) (-1) = Inr s'" "sds_wf s'" "sds_str s' = drop (rd_pos r) (sds_str s)" by auto
  have "i32 (int (rd_pos r)) = int (rd_pos r)" using s(3,4) D(8) by (simp add: i32_id)
  then have "discard_consumed r = Inr (r\<lparr>rd_buf := Some s', rd_pos := 0, rd_len := sdslen s'\<rparr>)"
    using True s(1) s'(1) by (simp add: discard_consumed_def)
  moreover have "sdslen s' \<le> sdslen s" using s'(3) D(5) sds_wfD(5) [OF s'(2)] by simp
  ultimately show ?thesis using assms s s' by (auto simp: ready_def buffer_ok_def unread_def a_ok_def core_def)
next
  case False
  then show ?thesis using assms by (simp add: discard_consumed_def)
qed

text \<open>Appending bytes to the buffer.\<close>

lemma feed_ready:
  assumes "ready r" "\<forall>n. mem_ok m n" "bytes \<noteq> []" "2 * (rd_len r + length bytes) \<le> 2147483647"
  shows "\<exists>r'. redisReaderFeed m (Some bytes) (length bytes) r = Inr (REDIS_OK, r') \<and> ready r' \<and>
    unread r' = unread r @ bytes \<and> core r' = core r \<and> rd_len r' = rd_len r + length bytes"
proof -
  from assms(1) obtain s0 where s0: "rd_buf r = Some s0" "rd_err r = 0" "rd_len r = sdslen s0"
    "rd_pos r \<le> rd_len r" "sds_wf s0" by (auto simp: ready_def buffer_ok_def)
  have empty: "sds_wf e \<and> sds_str e = []" if "sdsempty m = Inr e" for e
    using sdsempty_yields [of m] that by (simp add: yields_def)
  obtain s r1 where f: "feed_buffer m s0 r = Inr (s, r1)" "sds_wf s" "sds_str s = sds_str s0" "rd_pos r1 = rd_pos r"
      "core r1 = core r" "rd_err r1 = 0" "a_ok r1" 
  proof (cases "rd_len r = 0 \<and> rd_maxbuf r \<noteq> 0 \<and> sdsavail s0 > rd_maxbuf r")
    case True
    have "sds_str s0 = []" using True s0(3,5) sds_wfD(5) [of s0] by simp
    moreover obtain e where e: "sdsempty m = Inr e"
      using sdsempty_yields [of m] assms(2) by (cases "sdsempty m") (auto simp: yields_def)
    ultimately show ?thesis
      using that [of e "r\<lparr>rd_buf := Some e, rd_pos := 0\<rparr>"] True s0 empty [OF e] assms(1)
      by (simp add: feed_buffer_def core_def ready_def a_ok_def)
  next
    case False
    then show ?thesis using that [of s0 r] s0 assms(1) by (auto simp: feed_buffer_def ready_def)
  qed
  have len: "sdslen s = rd_len r" using f(2,3) s0(3,5) by (metis sds_wfD(5))
  have "sds_room s (length bytes)" using assms(4) len by (simp add: sds_room_def)
  note cat = sdscatlen_yields [OF f(2) this order_refl, of m]
  then obtain s' where s': "sdscatlen m s bytes (length bytes) = Inr s'" "sds_wf s'" "sds_str s' = sds_str s @ bytes"
    using assms(2) by (cases "sdscatlen m s bytes (length bytes)") (auto simp: yields_def)
  let ?r = "r1\<lparr>rd_buf := Some s', rd_len := sdslen s'\<rparr>"
  have l': "sdslen s' = rd_len r + length bytes" using s' f(2) len by (metis length_append sds_wfD(5))
  have "rd_pos r \<le> length (sds_str s0)" using s0 by (simp add: sds_wfD(5))
  then have "unread ?r = unread r @ bytes" using s0 s' f by (simp add: unread_def)
  moreover have "redisReaderFeed m (Some bytes) (length bytes) r = Inr (REDIS_OK, ?r)"
    using s0 assms(3) f(1) s'(1) by (simp add: redisReaderFeed_def Suc_le_eq)
  moreover have "ready ?r" using f(4,6,7) s' l' s0(4) by (simp add: ready_def buffer_ok_def a_ok_def)
  moreover have "core ?r = core r" using f(5) by (simp add: core_def)
  ultimately show ?thesis using l' by auto
qed

lemma expects_feed:
  assumes "expects m r (b @ todo) rest q" "unread r' = unread r @ b" "core r' = core r"
  shows "expects m r' todo rest q"
  using assms start_reply_cong [OF assms(3)] by (simp add: expects_def)

text \<open>One call.\<close>

lemma getreply_expects:
  assumes "ready r" "rd_len r > 0" "expects m r todo rest q"
  shows "(\<exists>r'. redisReaderGetReply m r = Inr (Some (REDIS_OK, None, r')) \<and> ready r' \<and> rd_len r' \<le> rd_len r \<and>
        expects m r' todo rest q \<and> todo \<noteq> []) \<or>
    (\<exists>r'. redisReaderGetReply m r = Inr (Some (REDIS_OK, rd_reply q, r')) \<and> ready r' \<and> rd_ridx r' = -1 \<and>
        rest = unread r' @ todo \<and> rd_heap r' = rd_heap q \<and> rd_len r' \<le> rd_len r)"
proof -
  let ?r = "start_reply r" and ?n = "length (unread r) + 1"
  let ?x = "a_items m ?n (unread r, core ?r)"
  have st: "ready ?r" "unread ?r = unread r" "a_ok (core ?r)" "rd_err r = 0" "rd_len ?r = rd_len r"
    using ready_start [OF assms(1)] assms(1) by (auto simp: ready_def start_reply_def)
  have fuel: "?x \<noteq> NoFuel" by (rule a_items_fuel) (use st(3) in simp_all)
  from assms(3) obtain N where N: "a_items m N (unread r @ todo, core ?r) = Go (rest, q)" by (auto simp: expects_def)
  then have Nk: "a_items m (N + k) (unread r @ todo, core ?r) = Go (rest, q)" for k using a_items_mono by force
  obtain k where k: "rd_len r + 1 = ?n + k"
    using assms(1) by (metis ready_def next_line add.commute le_add2 le_Suc_ex add.assoc)
  have run: "run_refines ?r (process_items m (rd_len r + 1) ?r) ?x"
    using items_refines [OF st(1), of m "rd_len r + 1"] unfolding st(2) k a_items_mono [OF fuel, of k] .
  from a_items_more [OF st(3) fuel, of todo] show ?thesis
  proof (elim disjE exE conjE)
    fix cs' q' j
    assume w: "?x = Wait (cs', q')" "a_ok q'" "0 \<le> rd_ridx q'"
      "\<forall>f. a_items m (j + Suc f) (unread r @ todo, core ?r) = a_items m (Suc f) (cs' @ todo, q')"
    from run w(1) obtain r1 where r1: "process_items m (rd_len r + 1) ?r = Inr (Some r1)" "ready r1" "0 \<le> rd_ridx r1"
      "cs' = unread r1" "q' = core r1" "rd_len r1 = rd_len r" using st(5) by (auto simp: run_refines_def)
    from discard_keeps [OF r1(2)] obtain r2 where r2: "discard_consumed r1 = Inr r2" "ready r2" "unread r2 = unread r1"
      "core r2 = core r1" "rd_len r2 \<le> rd_len r1" by blast
    have ridx: "0 \<le> rd_ridx r2" using r1(3) r2(4) by (metis core_simps(2))
    then have "start_reply r2 = r2" by (simp add: start_reply_def)
    moreover have "a_items m (Suc N) (cs' @ todo, q') = Go (rest, q)" using w(4) Nk [of "j + 1"] by (metis add.commute add_Suc_right Suc_eq_plus1 add.assoc)
    ultimately have "expects m r2 todo rest q" using r1(4,5) r2(3,4) unfolding expects_def by metis
    moreover have "todo \<noteq> []"
    proof
      assume "todo = []"
      then have "a_items m (N + ?n) (unread r, core ?r) = Go (rest, q)" using Nk [of ?n] by (simp only: append_Nil2)
      then show False using a_items_mono [OF fuel, of N] w(1) by (simp only: add.commute) simp
    qed
    moreover have "redisReaderGetReply m r = Inr (Some (REDIS_OK, None, r2))"
      using r1(1,2) r2(1) ridx st(4) assms(2) by (simp add: redisReaderGetReply_def ready_def)
    ultimately show ?thesis using r2(2,5) r1(6) by auto
  next
    assume e: "a_items m ?n (unread r @ todo, core ?r) = with_more todo ?x" "\<forall>p. ?x \<noteq> Wait p"
    have "a_items m ?n (unread r @ todo, core ?r) \<noteq> NoFuel" using e fuel by (cases ?x) auto
    then have "with_more todo ?x = Go (rest, q)" using a_items_mono [of m ?n _ N] Nk [of ?n] e(1) by (metis add.commute)
    then obtain cs where x: "?x = Go (cs, q)" "rest = cs @ todo" by (cases ?x) auto
    from run x(1) obtain r1 where r1: "process_items m (rd_len r + 1) ?r = Inr (Some r1)" "ready r1" "rd_ridx r1 = -1"
      "cs = unread r1" "q = core r1" "rd_len r1 = rd_len r" using st(5) by (auto simp: run_refines_def)
    from discard_keeps [OF r1(2)] obtain r2 where r2: "discard_consumed r1 = Inr r2" "ready r2" "unread r2 = unread r1"
      "core r2 = core r1" "rd_len r2 \<le> rd_len r1" by blast
    have f: "rd_ridx r2 = -1" "rd_reply r2 = rd_reply q" "rd_heap r2 = rd_heap q"
      using r1(3,5) r2(4) by (metis core_simps)+
    then have "redisReaderGetReply m r = Inr (Some (REDIS_OK, rd_reply q, r2\<lparr>rd_reply := None\<rparr>))"
      using r1(1,2) r2(1) st(4) assms(2) by (simp add: redisReaderGetReply_def ready_def)
    moreover have "ready (r2\<lparr>rd_reply := None\<rparr>)" "unread (r2\<lparr>rd_reply := None\<rparr>) = unread r2"
      using r2(2) by (auto simp: ready_def buffer_ok_def a_ok_def unread_def cong: option.case_cong)
    ultimately show ?thesis using x(2) r1(4,6) r2(3,5) f by auto
  qed
qed

text \<open>At the start of a reply.\<close>

lemma expects_idle:
  assumes "reader_wf r" "rd_err r = 0" "rd_ridx r = -1" "unread r @ todo = encode t @ rest"
    and "encodable t" "nesting t \<le> 8" "\<forall>n. mem_ok m n" "length (encode t @ rest) \<le> 2147483647"
  shows "\<exists>q a. expects m r todo rest q \<and> rd_reply q = Some a \<and> rep (length (rd_heap r)) (rd_heap q) a t \<and>
    take (length (rd_heap r)) (rd_heap q) = rd_heap r"
proof -
  let ?w = "reader_with (encode t @ rest)"
  define r0 where "r0 = r\<lparr>rd_buf := rd_buf ?w, rd_pos := 0, rd_len := rd_len ?w\<rparr>"
  have "buffer_ok ?w" using reader_with_wf [OF assms(8)] by (simp add: reader_wf_def reader_with_def)
  then obtain s where "rd_buf ?w = Some s" "sds_wf s" "rd_len ?w = sdslen s" by (auto simp: buffer_ok_def)
  then have wf: "reader_wf r0" "rd_err r0 = 0" "rd_ridx r0 = -1" "core r0 = core r" "rd_heap r0 = rd_heap r"
    using assms(1,2,3) by (auto simp: r0_def reader_wf_def buffer_ok_def stack_ok_def core_def)
  have u0: "unread r0 = encode t @ rest" using unread_reader_with [OF assms(8)] by (simp add: r0_def unread_def reader_with_def)
  from parse_idle [OF wf(1,2,3) u0 assms(5,6,7)] obtain a r' where
    g: "redisReaderGetReply m r0 = Inr (Some (REDIS_OK, Some a, r'))" "rep (length (rd_heap r)) (rd_heap r') a t"
      "take (length (rd_heap r)) (rd_heap r') = rd_heap r" "unread r' = rest" using wf(5) by auto
  let ?x = "a_items m (rd_len r0 + 1) (unread r0, core (start_reply r0))"
  have "encode t \<noteq> []" by (cases t) simp_all
  then have rdy: "ready r0" "rd_len r0 > 0"
    using wf(1,2,3) by (auto simp: ready_def reader_wf_def stack_ok_def a_ok_def r0_def reader_with_def)
  have "run_refines (start_reply r0) (process_items m (rd_len r0 + 1) (start_reply r0)) ?x"
    using items_refines [of "start_reply r0" m "rd_len r0 + 1"] ready_start [OF rdy(1)] by simp
  then show ?thesis
  proof (cases ?x)
    case (Go p)
    assume "run_refines (start_reply r0) (process_items m (rd_len r0 + 1) (start_reply r0)) ?x"
    with Go obtain r1 where r1: "process_items m (rd_len r0 + 1) (start_reply r0) = Inr (Some r1)" "ready r1"
      "rd_ridx r1 = -1" "p = (unread r1, core r1)" by (auto simp: run_refines_def)
    from discard_keeps [OF r1(2)] obtain r2 where r2: "discard_consumed r1 = Inr r2" "ready r2" "unread r2 = unread r1"
      "core r2 = core r1" by blast
    have "rd_ridx r2 = -1" "rd_reply r2 = rd_reply r1" "rd_heap r2 = rd_heap r1" using r1(3) r2(4) by (metis core_simps)+
    then have "rd_reply r1 = Some a" "r' = r2\<lparr>rd_reply := None\<rparr>"
      using g(1) r1(1,2) r2(1) wf(2) rdy(2) by (simp_all add: redisReaderGetReply_def ready_def)
    moreover from this have "unread r1 = rest" "rd_heap r' = rd_heap r1"
      using g(4) r2(3) \<open>rd_heap r2 = rd_heap r1\<close> by (simp_all add: unread_def cong: option.case_cong)
    moreover have "expects m r todo rest (core r1)"
      using Go r1(4) u0 assms(4) start_reply_cong [OF wf(4)] \<open>unread r1 = rest\<close> unfolding expects_def by metis
    ultimately show ?thesis using g(2,3) by (intro exI [of _ "core r1"] exI [of _ a]) simp
  next
    case (Wait p)
    assume "run_refines (start_reply r0) (process_items m (rd_len r0 + 1) (start_reply r0)) ?x"
    with Wait obtain r1 where r1: "process_items m (rd_len r0 + 1) (start_reply r0) = Inr (Some r1)" "ready r1"
      "0 \<le> rd_ridx r1" by (auto simp: run_refines_def)
    from discard_keeps [OF r1(2)] obtain r2 where r2: "discard_consumed r1 = Inr r2" "core r2 = core r1" by blast
    have "rd_ridx r2 = rd_ridx r1" using r2(2) by (metis core_simps(2))
    then have False using g(1) r1 r2(1) wf(2) rdy(2) by (simp add: redisReaderGetReply_def ready_def)
    then show ?thesis ..
  qed (use g(1) wf(2) rdy(2) in \<open>auto simp: run_refines_def redisReaderGetReply_def\<close>)
qed

end
