(* ===== verification/Format_Props.thy ===== *)
theory Format_Props
  imports Format Reader_Parse
begin

text \<open>
  Correctness of the command formatter: the buffer is allocated with exactly the size of the
  command, nothing is written outside it, and what is written is the wire format of the array of
  the arguments.
\<close>

section \<open>Lengths\<close>

lemma intlen_loop_length: "0 \<le> i \<Longrightarrow> intlen_loop i = int (length (dec_nat (nat i)))"
proof (induction i rule: intlen_loop.induct)
  case (1 i)
  show ?case
  proof (cases "i < 10")
    case True
    then show ?thesis using 1(2) by (subst intlen_loop.simps) (simp add: tdiv10_def dec_nat_eval)
  next
    case False
    then have t: "tdiv10 i = i div 10" "tdiv10 i \<noteq> 0" "nat (i div 10) = nat i div 10" by (auto simp: tdiv10_def nat_div_distrib)
    have "intlen_loop i = 1 + intlen_loop (tdiv10 i)" using t by (subst intlen_loop.simps) simp
    also have "\<dots> = 1 + int (length (dec_nat (nat i div 10)))" using 1(1) [OF t(2)] t False by simp
    finally show ?thesis using False by (simp add: dec_nat_eval(2))
  qed
qed

lemma intlen_length: "intlen (int n) = int (length (dec_nat n))"
  by (simp add: intlen_def intlen_loop_length)

text \<open>An argument on the wire, and a command.\<close>

abbreviation bulk :: "string \<Rightarrow> char list" where
  "bulk s \<equiv> encode (ReplyString s)"

abbreviation command :: "string list \<Rightarrow> char list" where
  "command args \<equiv> encode (ReplyArray (map ReplyString args))"

lemma bulklen_length: "length s \<le> 2147483647 \<Longrightarrow> bulklen (length s) = length (bulk s)"
proof -
  assume len: "length s \<le> 2147483647"
  have "length (dec_nat n) \<le> n + 1" for n
  proof (induction n rule: dec_nat.induct)
    case (1 n)
    show ?case
    proof (cases "n < 10")
      case False
      have "n div 10 < n" using False by simp
      then show ?thesis using 1 [OF False] False dec_nat_eval(2) [of n] by simp
    qed (simp add: dec_nat_eval(1))
  qed
  then have "length (dec_nat (length s)) \<le> length s + 1" .
  then have "1 + int (length (dec_nat (length s))) + 2 + int (length s) + 2 \<le> 18446744073709551615" using len by linarith
  then show ?thesis using len by (simp add: bulklen_def i32_id intlen_length u64_id nat_add_distrib)
qed

section \<open>Writing\<close>

lemma poke_extend:
  assumes "take (length d) cmd = d" "length d + length bs \<le> length cmd"
  shows "\<exists>cmd'. poke cmd (length d) bs = Inr cmd' \<and> length cmd' = length cmd \<and>
    take (length (d @ bs)) cmd' = d @ bs"
  using assms by (simp add: poke_def)

lemma poke_int_extend:
  assumes "take (length d) cmd = d" "length d + length bs \<le> length cmd"
  shows "\<exists>cmd'. poke_int cmd (int (length d)) bs = Inr cmd' \<and> length cmd' = length cmd \<and>
    take (length (d @ bs)) cmd' = d @ bs"
  using poke_extend [OF assms] by (simp add: poke_int_def)

lemma print_at_extend:
  assumes "take (length d) cmd = d" "length d + length txt + 1 \<le> length cmd" "length cmd \<le> 2147483648"
  shows "\<exists>cmd'. print_at cmd (int (length d)) txt = Inr (cmd', int (length (d @ txt))) \<and>
    length cmd' = length cmd \<and> take (length (d @ txt)) cmd' = d @ txt"
proof -
  from poke_int_extend [OF assms(1), of "txt @ [NUL]"] assms(2) obtain cmd' where
    c: "poke_int cmd (int (length d)) (txt @ [NUL]) = Inr cmd'" "length cmd' = length cmd"
    "take (length (d @ txt @ [NUL])) cmd' = d @ txt @ [NUL]" by auto
  from c(3) have "take (length (d @ txt)) (take (length (d @ txt @ [NUL])) cmd') = take (length (d @ txt)) (d @ txt @ [NUL])"
    by simp
  then have "take (length (d @ txt)) cmd' = d @ txt" by (simp add: min_def)
  with c assms(2,3) show ?thesis by (simp add: print_at_def i32_id)
qed

lemma write_bulk_extend:
  assumes "take (length d) cmd = d" "len \<le> length blk" "s = take len blk"
    and "length d + length (bulk s) + 1 \<le> length cmd" "length cmd \<le> 2147483648"
  shows "\<exists>cmd'. write_bulk (blk, len) (cmd, int (length d)) = Inr (cmd', int (length (d @ bulk s))) \<and>
    length cmd' = length cmd \<and> take (length (d @ bulk s)) cmd' = d @ bulk s"
proof -
  let ?t = "''$'' @ dec_nat len @ [CR, LF]"
  have len: "length s = len" using assms(2,3) by simp
  have b: "d @ bulk s = ((d @ ?t) @ s @ [CR]) @ [LF]" using len by simp
  have room: "length d + length ?t + len + 3 \<le> length cmd" using assms(4) len by simp
  obtain c1 where c1: "print_at cmd (int (length d)) ?t = Inr (c1, int (length (d @ ?t)))" "length c1 = length cmd"
    "take (length (d @ ?t)) c1 = d @ ?t"
    using print_at_extend [OF assms(1) _ assms(5), of ?t] room by auto
  obtain c2 where c2: "poke_int c1 (int (length (d @ ?t))) s = Inr c2" "length c2 = length cmd"
    "take (length ((d @ ?t) @ s)) c2 = (d @ ?t) @ s"
    using poke_int_extend [OF c1(3), of s] room c1(2) len by auto
  obtain c3 where c3: "poke_int c2 (int (length ((d @ ?t) @ s))) [CR] = Inr c3" "length c3 = length cmd"
    "take (length (((d @ ?t) @ s) @ [CR])) c3 = ((d @ ?t) @ s) @ [CR]"
    using poke_int_extend [OF c2(3), of "[CR]"] room c2(2) len by auto
  obtain c4 where c4: "poke_int c3 (int (length (((d @ ?t) @ s) @ [CR]))) [LF] = Inr c4" "length c4 = length cmd"
    "take (length ((((d @ ?t) @ s) @ [CR]) @ [LF])) c4 = (((d @ ?t) @ s) @ [CR]) @ [LF]"
    using poke_int_extend [OF c3(3), of "[LF]"] room c3(2) len by auto
  have pk: "peek blk 0 len = Inr s" using assms(2,3) by (simp add: peek_def)
  have pos: "i32 (int (length (d @ ?t)) + int len) = int (length ((d @ ?t) @ s))"
    "i32 (int (length ((d @ ?t) @ s)) + 1) = int (length (((d @ ?t) @ s) @ [CR]))"
    "i32 (int (length (((d @ ?t) @ s) @ [CR])) + 1) = int (length (d @ bulk s))"
    using room assms(5) len by (simp_all add: i32_id)
  have "write_bulk (blk, len) (cmd, int (length d)) = Inr (c4, int (length (d @ bulk s)))"
    unfolding write_bulk_def prod.case c1(1) bind_res_simps pk c2(1) Let_def pos(1) c3(1) pos(2) c4(1) pos(3) by simp
  then show ?thesis using c4(2,3) b by auto
qed

lemma write_bulks_extend:
  assumes "take (length d) cmd = d" "\<forall>(blk, len) \<in> set bulks. len \<le> length blk"
    and "length d + length (concat (map (\<lambda>(blk, len). bulk (take len blk)) bulks)) + 1 \<le> length cmd"
      "length cmd \<le> 2147483648"
  shows "\<exists>cmd'. fold_res write_bulk bulks (cmd, int (length d)) =
      Inr (cmd', int (length (d @ concat (map (\<lambda>(blk, len). bulk (take len blk)) bulks)))) \<and>
    length cmd' = length cmd \<and>
    take (length (d @ concat (map (\<lambda>(blk, len). bulk (take len blk)) bulks))) cmd' =
      d @ concat (map (\<lambda>(blk, len). bulk (take len blk)) bulks)"
  using assms
proof (induction bulks arbitrary: d cmd)
  case (Cons b bs)
  obtain blk len where b: "b = (blk, len)" by (cases b)
  let ?s = "bulk (take len blk)" and ?rest = "concat (map (\<lambda>(blk, len). bulk (take len blk)) bs)"
  have "length (concat (map (\<lambda>(blk, len). bulk (take len blk)) (b # bs))) = length ?s + length ?rest"
    by (simp only: b list.map concat.simps prod.case length_append)
  then have room: "length d + (length ?s + length ?rest) + 1 \<le> length cmd" using Cons.prems(3) by simp
  obtain c1 where c1: "write_bulk b (cmd, int (length d)) = Inr (c1, int (length (d @ ?s)))" "length c1 = length cmd"
    "take (length (d @ ?s)) c1 = d @ ?s"
    using write_bulk_extend [OF Cons.prems(1) _ refl _ Cons.prems(4), of len blk] Cons.prems(2) room b by auto
  have "length (d @ ?s) + length ?rest + 1 \<le> length c1" using room c1(2) by (simp only: length_append)
  from Cons.IH [OF c1(3) _ this] Cons.prems(2,4) c1(2) obtain c2 where
    "fold_res write_bulk bs (c1, int (length (d @ ?s))) = Inr (c2, int (length ((d @ ?s) @ ?rest)))"
    "length c2 = length cmd" "take (length ((d @ ?s) @ ?rest)) c2 = (d @ ?s) @ ?rest" by auto
  with c1(1) show ?case by (auto simp only: fold_res.simps bind_res_simps b list.map concat.simps prod.case append_assoc)
qed simp

text \<open>The command is exactly the wire format, and its block has exactly its size.\<close>

lemma build_command_correct:
  assumes bulks: "\<forall>(blk, len) \<in> set bulks. len \<le> length blk" and args: "args = map (\<lambda>(blk, len). take len blk) bulks"
    and small: "length (command args) \<le> 2147483646" and n: "n = length bulks" and tot: "tot = int (length (command args))"
  shows "build_command m (int n) tot bulks =
    (if mem_ok m (length (command args) + 1) then Inr (tot, Some (command args @ [NUL])) else Inr (-1, None))"
proof -
  define out h body where "out = command args" and "h = ''*'' @ dec_int (int n) @ [CR, LF]"
    and body: "body = concat (map (\<lambda>(blk, len). bulk (take len blk)) bulks)"
  have out: "out = h @ body"
    by (simp add: out_def body h_def args n dec_int_def comp_def case_prod_unfold)
  note small = small [folded out_def] and tot = tot [folded out_def]
  have u: "u64 (tot + 1) = length out + 1" using small tot by (simp add: u64_id nat_add_distrib)
  have "build_command m (int n) tot bulks =
    (if mem_ok m (length out + 1) then Inr (tot, Some (out @ [NUL])) else Inr (-1, None))"
  proof (cases "mem_ok m (length out + 1)")
    case False
    then show ?thesis unfolding build_command_def u malloc_def by simp
  next
    case True
    define cmd where "cmd = map (mem_junk m) [0..<length out + 1]"
    have cmd: "malloc m (u64 (tot + 1)) = Some cmd" "length cmd = length out + 1"
      using True by (simp_all add: u malloc_def cmd_def)
    have small': "length cmd \<le> 2147483648" using cmd(2) small by simp
    obtain c1 where c1: "print_at cmd 0 h = Inr (c1, int (length h))" "length c1 = length cmd" "take (length h) c1 = h"
      using print_at_extend [of "[]" cmd h] cmd(2) small' by (auto simp: out)
    have "length h + length body + 1 \<le> length c1" using c1(2) cmd(2) by (simp add: out)
    from write_bulks_extend [OF c1(3) bulks, folded body, OF this] small' c1(2) obtain c2 where
      c2: "fold_res write_bulk bulks (c1, int (length h)) = Inr (c2, int (length out))" "length c2 = length out + 1"
        "take (length out) c2 = out"
      by (auto simp: cmd(2) out)
    have "poke_int c2 (int (length out)) [NUL] = Inr (out @ [NUL])"
      using c2(2,3) by (simp add: poke_int_def poke_def)
    then show ?thesis
      using True cmd(1) c1(1) c2(1) tot by (simp add: build_command_def h_def)
  qed
  then show ?thesis by (simp only: out_def)
qed

section \<open>Argument vectors\<close>

lemma concat_bulk_length: "s \<in> set args \<Longrightarrow> length s \<le> length (concat (map bulk args))"
  by (induction args) auto

lemma command_length:
  "length (command args) = 1 + length (dec_nat (length args)) + 2 + length (concat (map bulk args))"
  by (simp add: comp_def)

declare encode.simps(2) [simp del]

lemma argv_lengths:
  assumes "list_all2 (\<lambda>blk len. len \<le> length blk) argv lens" "j \<le> length argv"
    and "args = map2 (\<lambda>blk len. take len blk) argv lens" "length (command args) \<le> 2147483646"
  shows "fold_res (\<lambda>j (totlen, bulks).
           bind_res (arg_at argv (Some lens) j) (\<lambda>(blk, len).
             Inr (i32 (totlen + int (bulklen len)), bulks @ [(blk, len)])))
         [0..<j] (1 + intlen (int (length argv)) + 2, []) =
    Inr (int (1 + length (dec_nat (length argv)) + 2 + length (concat (map bulk (take j args)))), take j (zip argv lens))"
  using assms(2)
proof (induction j)
  case 0
  then show ?case by (simp add: intlen_length)
next
  case (Suc j)
  have len: "length lens = length argv" "length args = length argv" using assms(1,3) by (auto dest: list_all2_lengthD)
  then have j: "j < length argv" "j < length lens" "j < length args" using Suc.prems by auto
  have arg: "args ! j = take (lens ! j) (argv ! j)" "lens ! j \<le> length (argv ! j)"
    using assms(1,3) j by (auto simp: list_all2_conv_all_nth)
  have split: "length (concat (map bulk args)) = length (concat (map bulk (take (Suc j) args))) + length (concat (map bulk (drop (Suc j) args)))"
    by (metis append_take_drop_id concat_append length_append map_append)
  have tk: "take (Suc j) args = take j args @ [args ! j]" using j by (simp add: take_Suc_conv_app_nth)
  have small: "3 + length (dec_nat (length argv)) + length (concat (map bulk (take (Suc j) args))) \<le> 2147483646"
    using assms(4) split len unfolding command_length by simp
  have "length (args ! j) = lens ! j" using arg by simp
  then have "bulklen (lens ! j) = length (bulk (args ! j))"
    using bulklen_length [of "args ! j"] small tk by (simp del: encode.simps) (simp)
  moreover have "arg_at argv (Some lens) j = Inr (argv ! j, lens ! j)" using j by (simp add: arg_at_def)
  ultimately show ?case
    using Suc j small tk arg by (simp add: fold_res_append i32_id take_Suc_conv_app_nth del: encode.simps)
qed

lemma FormatCommandArgv_correct:
  assumes "list_all2 (\<lambda>blk len. len \<le> length blk) argv lens" "args = map2 (\<lambda>blk len. take len blk) argv lens"
    and "length (command args) \<le> 2147483646"
  shows "redisFormatCommandArgv m (int (length argv)) argv (Some lens) =
    (if mem_ok m (length (command args) + 1)
     then Inr (int (length (command args)), Some (command args @ [NUL])) else Inr (-1, None))"
proof -
  have len: "length lens = length argv" "length args = length argv" using assms(1,2) by (auto dest: list_all2_lengthD)
  have tot: "int (1 + length (dec_nat (length argv)) + 2 + length (concat (map bulk args))) = int (length (command args))"
    unfolding command_length len by simp
  have "\<forall>(blk, len) \<in> set (zip argv lens). len \<le> length blk"
    using assms(1) by (auto simp: list_all2_iff)
  then have build: "build_command m (int (length argv)) (int (length (command args))) (zip argv lens) =
    (if mem_ok m (length (command args) + 1)
     then Inr (int (length (command args)), Some (command args @ [NUL])) else Inr (-1, None))"
    by (rule build_command_correct) (use assms(2,3) len in simp_all)
  have "take (length argv) args = args" "take (length argv) (zip argv lens) = zip argv lens" using len by simp_all
  note fold = argv_lengths [OF assms(1) order.refl assms(2,3), unfolded this tot]
  show ?thesis unfolding redisFormatCommandArgv_def nat_int fold bind_res_simps prod.case by (rule build)
qed

section \<open>Format strings\<close>

text \<open>
  A format string as a list of pieces: a literal character, a blank that ends an argument, a
  string, a binary string, a percent sign and a number.
\<close>

datatype piece = Lit char | Blank | Str string | Bin string | Percent | Num int

fun piece_fmt :: "piece \<Rightarrow> string" where
  "piece_fmt (Lit c) = [c]"
| "piece_fmt Blank = '' ''"
| "piece_fmt (Str s) = ''%s''"
| "piece_fmt (Bin s) = ''%b''"
| "piece_fmt Percent = ''%%''"
| "piece_fmt (Num i) = ''%i''"

fun piece_args :: "piece \<Rightarrow> c_arg list" where
  "piece_args (Str s) = [ArgPtr (Some (s @ [NUL]))]"
| "piece_args (Bin s) = [ArgPtr (Some s), ArgNum (int (length s))]"
| "piece_args (Num i) = [ArgNum i]"
| "piece_args _ = []"

fun piece_text :: "piece \<Rightarrow> string" where
  "piece_text (Lit c) = [c]"
| "piece_text Blank = []"
| "piece_text (Str s) = s"
| "piece_text (Bin s) = s"
| "piece_text Percent = ''%''"
| "piece_text (Num i) = dec_int (i32 i)"

fun piece_ok :: "piece \<Rightarrow> bool" where
  "piece_ok (Lit c) \<longleftrightarrow> c \<notin> {CHR ''%'', CHR '' '', NUL}"
| "piece_ok (Str s) \<longleftrightarrow> no_nul s"
| "piece_ok _ \<longleftrightarrow> True"

text \<open>
  The arguments of the command, given the argument that is being built and whether it was touched.
  Blanks inside strings do not separate, and an empty string makes an empty argument.
\<close>

fun words :: "piece list \<Rightarrow> string \<Rightarrow> bool \<Rightarrow> string list" where
  "words [] cur touched = (if touched then [cur] else [])"
| "words (p # ps) cur touched =
     (if p = Blank then if touched then cur # words ps [] False else words ps cur False
      else words ps (cur @ piece_text p) True)"

lemma words_cur: "touched \<Longrightarrow> length cur \<le> length (concat (map bulk (words ps cur touched)))"
proof (induction ps arbitrary: cur touched)
  case (Cons p ps)
  show ?case
  proof (cases "p = Blank")
    case False
    then show ?thesis using Cons.IH [of True "cur @ piece_text p"] by simp
  qed (use Cons.prems in simp)
qed simp

text \<open>The outcome of an operation that may jump to \<^verbatim>\<open>err\<close>, which it does only when memory is short.\<close>

definition ok_or_err :: "cmem \<Rightarrow> ('a \<Rightarrow> bool) \<Rightarrow> 'a option res \<Rightarrow> bool" where
  "ok_or_err m P x = (case x of Inl e \<Rightarrow> False | Inr None \<Rightarrow> \<exists>n. \<not> mem_ok m n | Inr (Some y) \<Rightarrow> P y)"

lemma ok_or_err_simps [simp]:
  "ok_or_err m P (Inr (Some y)) = P y" "ok_or_err m P (Inr None) \<longleftrightarrow> (\<exists>n. \<not> mem_ok m n)"
  by (simp_all add: ok_or_err_def)

lemma ok_or_err_yields:
  assumes "yields m x P" "\<And>s. P s \<Longrightarrow> Q (f s)"
  shows "ok_or_err m Q (bind_res (or_err x) (\<lambda>o1. Inr (map_option f o1)))"
  using assms by (cases x) (auto simp: or_err_def yields_def)

lemma ok_or_err_bind:
  assumes "ok_or_err m P x" "\<And>y. P y \<Longrightarrow> ok_or_err m Q (f y)"
  shows "ok_or_err m Q (bind_res x (\<lambda>o1. case o1 of None \<Rightarrow> Inr None | Some y \<Rightarrow> f y))"
proof (cases x)
  case (Inl e)
  then show ?thesis using assms(1) by (simp add: ok_or_err_def)
next
  case (Inr o1)
  then show ?thesis using assms by (cases o1) simp_all
qed

lemma bind_res_assoc: "bind_res (bind_res x f) g = bind_res x (\<lambda>y. bind_res (f y) g)"
  by (cases x) simp_all

lemma ok_or_err_map:
  assumes "ok_or_err m P x" "\<And>y. P y \<Longrightarrow> Q (f y)"
  shows "ok_or_err m Q (bind_res x (\<lambda>o1. Inr (map_option f o1)))"
  using assms by (auto simp: ok_or_err_def split: sum.splits option.splits)

text \<open>The state after the arguments \<open>done\<close> with the current argument \<open>cur\<close>.\<close>

definition fmt_rel :: "fmt_state \<Rightarrow> string list \<Rightarrow> string \<Rightarrow> bool \<Rightarrow> c_arg list \<Rightarrow> bool" where
  "fmt_rel st args cur touched ap \<longleftrightarrow> sds_wf (fs_curarg st) \<and> sds_str (fs_curarg st) = cur \<and>
     fs_touched st = touched \<and> (touched \<or> cur = []) \<and> list_all sds_wf (fs_argv st) \<and>
     map sds_str (fs_argv st) = args \<and> fs_totlen st = int (length (concat (map bulk args))) \<and> fs_ap st = ap"

lemma push_arg_ok:
  assumes "fmt_rel st args cur True ap" "length (concat (map bulk (args @ [cur]))) \<le> 2147483646"
  shows "push_arg m st = None \<and> (\<exists>n. \<not> mem_ok m n) \<or>
    (\<exists>st'. push_arg m st = Some st' \<and> fs_argv st' = fs_argv st @ [fs_curarg st] \<and> fs_ap st' = ap \<and>
       fs_totlen st' = int (length (concat (map bulk (args @ [cur])))))"
proof -
  have "sdslen (fs_curarg st) = length cur" using assms(1) sds_wfD(5) [of "fs_curarg st"] by (auto simp: fmt_rel_def)
  moreover have "length cur \<le> 2147483647" using assms(2) by simp
  ultimately have "bulklen (sdslen (fs_curarg st)) = length (bulk cur)" by (simp only: bulklen_length)
  then show ?thesis using assms by (auto simp: push_arg_def fmt_rel_def i32_id)
qed

lemma blank_step:
  assumes "fmt_rel st args cur touched ap" "length (concat (map bulk (args @ (if touched then [cur] else [])))) \<le> 2147483646"
  shows "ok_or_err m (\<lambda>st'. fmt_rel st' (args @ (if touched then [cur] else [])) [] False ap) (fmt_literal m (CHR '' '') st)"
proof (cases touched)
  case False
  then show ?thesis using assms(1) by (auto simp: fmt_literal_def fmt_rel_def)
next
  case True
  from push_arg_ok [of st args cur ap m] assms True
  consider "push_arg m st = None" "\<exists>n. \<not> mem_ok m n"
    | st1 where "push_arg m st = Some st1" "fs_argv st1 = fs_argv st @ [fs_curarg st]" "fs_ap st1 = ap"
       "fs_totlen st1 = int (length (concat (map bulk (args @ [cur]))))" by auto
  then show ?thesis
  proof cases
    case 1
    then show ?thesis using assms(1) True by (simp add: fmt_literal_def fmt_rel_def)
  next
    case (2 st1)
    have "ok_or_err m (\<lambda>st'. fmt_rel st' (args @ [cur]) [] False ap)
      (bind_res (or_err (sdsempty m)) (\<lambda>e. Inr (map_option (\<lambda>s. st1\<lparr>fs_curarg := s, fs_touched := False\<rparr>) e)))"
      by (rule ok_or_err_yields [OF sdsempty_yields]) (use 2 assms(1) True in \<open>auto simp: fmt_rel_def\<close>)
    then show ?thesis using 2 assms(1) True by (simp add: fmt_literal_def fmt_rel_def)
  qed
qed

text \<open>Appending to the current argument.\<close>

lemma fmt_rel_append:
  assumes "fmt_rel st args cur touched ap" "sds_wf s \<and> sds_str s = cur @ t"
  shows "fmt_rel (st\<lparr>fs_ap := ap', fs_curarg := s, fs_touched := True\<rparr>) args (cur @ t) True ap'"
  using assms by (auto simp: fmt_rel_def)

lemma fmt_rel_room:
  assumes "fmt_rel st args cur touched ap" "2 * (length cur + n) \<le> 2147483647"
  shows "sds_room (fs_curarg st) n" "sds_wf (fs_curarg st)" "sds_str (fs_curarg st) = cur"
  using assms by (auto simp: fmt_rel_def sds_room_def sds_wfD(5) [symmetric])

lemma byte_at_append: "byte_at (pre @ c # rest) (length pre) = Inr c" "byte_at (pre @ c # d # rest) (Suc (length pre)) = Inr d"
  by (simp_all add: byte_at_def nth_append)

lemma cat_bytes_ok:
  assumes rel: "fmt_rel st args cur touched ap" and n: "n \<le> length blk" "2 * (length cur + n) \<le> 2147483647"
  shows "ok_or_err m (\<lambda>st'. fmt_rel st' args (cur @ take n blk) True ap') (cat_bytes m (st\<lparr>fs_ap := ap'\<rparr>) (Some blk) n)"
proof (cases "n > 0")
  case False
  then show ?thesis using rel by (simp add: cat_bytes_def fmt_rel_def)
next
  case True
  note r = fmt_rel_room [OF rel n(2)]
  have "ok_or_err m (\<lambda>st'. fmt_rel st' args (cur @ take n blk) True ap') (bind_res (or_err (sdscatlen m (fs_curarg st) blk n))
      (\<lambda>o1. Inr (map_option (\<lambda>s. st\<lparr>fs_ap := ap', fs_curarg := s, fs_touched := True\<rparr>) o1)))"
    by (rule ok_or_err_yields [OF sdscatlen_yields [OF r(2,1) n(1)]]) (use rel r(3) in \<open>auto intro!: fmt_rel_append\<close>)
  then show ?thesis using True by (simp add: cat_bytes_def set_curarg_def)
qed

lemma scan_spec_plain:
  assumes "byte_at fmt p = Inr (CHR ''i'')"
  shows "scan_spec fmt p = Inr (Some (p, False))"
  using assms
  by (simp add: scan_spec_def skip_flags_def skip_flag_def skip_digits.simps is_digit_def skip_precision_def
      scan_conversion_def in_cset_def c_str_def)

text \<open>One piece.\<close>

lemma piece_step:
  assumes fmt: "fmt = pre @ piece_fmt p @ rest" and ok: "piece_ok p" and p: "p \<noteq> Blank"
    and rel: "fmt_rel st args cur touched (piece_args p @ ap)" and c: "c = hd (piece_fmt p)"
    and len: "2 * (length cur + length (piece_text p)) \<le> 2147483647"
  shows "ok_or_err m (\<lambda>(j, st'). j = length (pre @ piece_fmt p) \<and> fmt_rel st' args (cur @ piece_text p) True ap)
    (fmt_step m other fmt (length pre) c st)"
proof -
  let ?P = "\<lambda>st'. fmt_rel st' args (cur @ piece_text p) True ap"
  let ?Q = "\<lambda>(j, st'). j = length (pre @ piece_fmt p) \<and> ?P st'"
  have out: "ok_or_err m ?Q (bind_res x (\<lambda>o1. Inr (map_option (Pair (length (pre @ piece_fmt p))) o1)))"
    if "ok_or_err m ?P x" for x using that by (rule ok_or_err_map) simp
  note room = fmt_rel_room [OF rel len]
  have app: "ok_or_err m ?P (bind_res (or_err x) (\<lambda>o1. Inr (set_curarg (st\<lparr>fs_ap := ap\<rparr>) o1)))"
    if "yields m x (\<lambda>s. sds_wf s \<and> sds_str s = sds_str (fs_curarg st) @ piece_text p)" for x
    unfolding set_curarg_def
    by (rule ok_or_err_yields [OF that]) (use rel room(3) in \<open>auto intro!: fmt_rel_append\<close>)
  have aps: "fs_ap st = piece_args p @ ap" using rel by (simp add: fmt_rel_def)
  have st: "st\<lparr>fs_ap := ap\<rparr> = st" if "piece_args p = []" using rel that by (simp add: fmt_rel_def)
  show ?thesis
  proof (cases p)
    case (Lit x)
    have "yields m (sdscatlen m (fs_curarg st) [x] 1) (\<lambda>s. sds_wf s \<and> sds_str s = sds_str (fs_curarg st) @ piece_text p)"
      using sdscatlen_yields [OF room(2,1), of "[x]" m] Lit by simp
    from out [OF app [OF this]] show ?thesis
      using ok c Lit st by (simp add: fmt_step_def fmt_literal_def comp_def bind_res_assoc)
  next
    case (Str s)
    have "ok_or_err m ?P (cat_bytes m (st\<lparr>fs_ap := ap\<rparr>) (Some (s @ [NUL])) (length s))"
      using cat_bytes_ok [OF rel, of "length s" "s @ [NUL]"] len Str by simp
    from out [OF this] show ?thesis
      using ok c Str aps byte_at_append(2) [of pre _ "CHR ''s''"] fmt
      by (simp add: fmt_step_def fmt_conversion_def va_ptr_def c_str_id)
  next
    case (Bin s)
    have "ok_or_err m ?P (cat_bytes m (st\<lparr>fs_ap := ap\<rparr>) (Some s) (length s))"
      using cat_bytes_ok [OF rel, of "length s" s] len Bin by simp
    moreover have "u64 (int (length s)) = length s" using len Bin by (simp add: u64_id)
    ultimately show ?thesis
      using out [of "cat_bytes m (st\<lparr>fs_ap := ap\<rparr>) (Some s) (length s)"] c Bin aps byte_at_append(2) [of pre _ "CHR ''b''"] fmt
      by (simp add: fmt_step_def fmt_conversion_def va_ptr_def va_size_def)
  next
    case Percent
    have "yields m (sdscat m (fs_curarg st) (''%'' @ [NUL])) (\<lambda>s. sds_wf s \<and> sds_str s = sds_str (fs_curarg st) @ piece_text p)"
      using sdscatlen_yields [OF room(2,1), of "''%'' @ [NUL]" m] Percent by (simp add: sdscat_def c_strlen_def c_str_def)
    from out [OF app [OF this]] show ?thesis
      using c Percent st byte_at_append(2) [of pre _ "CHR ''%''"] fmt
      by (simp add: fmt_step_def fmt_conversion_def comp_def bind_res_assoc)
  next
    case (Num i)
    let ?t = "dec_int (i32 i)"
    have b: "byte_at fmt (Suc (length pre)) = Inr (CHR ''i'')" using fmt Num byte_at_append(2) by simp
    have pk: "peek fmt (length pre) 2 = Inr ''%i''" using fmt Num by (simp add: peek_def)
    obtain sp where sp: "parse_spec ''i'' = Some sp" using parse_spec_plain [of "CHR ''i''"] by simp
    have nul: "no_nul ?t" using dec_nat_digits is_digit_not_special by (fastforce simp: dec_int_def no_nul_def)
    then have "yields m (sdscatvprintf m (fs_curarg st) ?t) (\<lambda>s. sds_wf s \<and> sds_str s = sds_str (fs_curarg st) @ piece_text p)"
      using sdscatvprintf_yields [OF room(2), of ?t m] room(1) Num by (simp add: c_str_id)
    from out [OF app [OF this]] show ?thesis
      using c Num aps b pk scan_spec_plain [OF b] sp format_int_plain [OF _ sp, of i]
      by (simp add: fmt_step_def fmt_conversion_def fmt_printf_def va_skip_def printf_text_def c_str_def comp_def Let_def bind_res_assoc)
  qed (use p in simp)
qed

lemma words_split_length:
  assumes "args' = args @ words ps cur touched" "length (command args') \<le> 1073741823"
  shows "length (concat (map bulk args)) + length (concat (map bulk (words ps cur touched))) \<le> 1073741820"
    "touched \<longrightarrow> length cur \<le> 1073741820"
  using assms words_cur [of touched cur ps] unfolding command_length by auto

text \<open>The state at the end of the format.\<close>

definition fmt_done :: "fmt_state \<Rightarrow> string list \<Rightarrow> bool" where
  "fmt_done st args' \<longleftrightarrow> (\<exists>args cur touched. fmt_rel st args cur touched [] \<and> args' = args @ words [] cur touched)"

lemma fmt_loop_pieces:
  assumes "fmt = pre @ concat (map piece_fmt ps) @ [NUL]" "list_all piece_ok ps"
    and "fmt_rel st args cur touched (concat (map piece_args ps))"
    and "args' = args @ words ps cur touched" "length (command args') \<le> 1073741823"
  shows "ok_or_err m (\<lambda>st'. fmt_done st' args')
    (fmt_loop m other fmt (length pre) st)"
  using assms
proof (induction ps arbitrary: pre st args cur touched)
  case Nil
  have "byte_at fmt (length pre) = Inr NUL" using Nil.prems(1) by (simp add: byte_at_append)
  moreover have "fmt_rel st args cur touched []" using Nil.prems(3) by simp
  with Nil.prems(4) have "fmt_done st args'" unfolding fmt_done_def by blast
  ultimately show ?case by (subst fmt_loop.simps) simp
next
  case (Cons p ps)
  define c where "c = hd (piece_fmt p)"
  have c: "piece_fmt p = c # tl (piece_fmt p)" "c \<noteq> NUL" using Cons.prems(2) by (cases p; auto simp: c_def)+
  have "fmt = pre @ c # tl (piece_fmt p) @ concat (map piece_fmt ps) @ [NUL]" using Cons.prems(1) c(1) by (simp flip: append_Cons)
  then have b: "byte_at fmt (length pre) = Inr c" by (simp add: byte_at_append)
  have fmt: "fmt = pre @ piece_fmt p @ concat (map piece_fmt ps) @ [NUL]"
    "fmt = (pre @ piece_fmt p) @ concat (map piece_fmt ps) @ [NUL]" using Cons.prems(1) by simp_all
  note len = words_split_length [OF Cons.prems(4,5)]
  define args1 cur1 touched1 where "args1 = (if p = Blank \<and> touched then args @ [cur] else args)"
    and "cur1 = (if p = Blank then [] else cur @ piece_text p)" and "touched1 = (p \<noteq> Blank)"
  have cur: "touched \<or> cur = []" using Cons.prems(3) by (auto simp: fmt_rel_def)
  then have args': "args' = args1 @ words ps cur1 touched1"
    using Cons.prems(4) by (auto simp: args1_def cur1_def touched1_def)
  have step: "ok_or_err m (\<lambda>(j, st'). j = length (pre @ piece_fmt p) \<and> fmt_rel st' args1 cur1 touched1 (concat (map piece_args ps)))
    (fmt_step m other fmt (length pre) c st)"
  proof (cases "p = Blank")
    case True
    have rel: "fmt_rel st args cur touched (concat (map piece_args ps))" using Cons.prems(3) True by simp
    have "length (concat (map bulk (args @ (if touched then [cur] else [])))) \<le> 2147483646" using len(1) True by auto
    from blank_step [OF rel this]
    have "ok_or_err m (\<lambda>st'. fmt_rel st' args1 cur1 touched1 (concat (map piece_args ps))) (fmt_literal m (CHR '' '') st)"
      using True by (simp add: args1_def cur1_def touched1_def if_distrib cong: if_cong)
    from ok_or_err_map [OF this, of "\<lambda>(j, st'). j = length (pre @ piece_fmt p) \<and> fmt_rel st' args1 cur1 touched1 (concat (map piece_args ps))"
        "Pair (Suc (length pre))"]
    show ?thesis using True by (simp add: fmt_step_def c_def)
  next
    case False
    have "length (cur @ piece_text p) \<le> 1073741820"
      using words_split_length(2) [OF args' Cons.prems(5)] False by (simp add: cur1_def touched1_def)
    then have "2 * (length cur + length (piece_text p)) \<le> 2147483647" by simp
    from piece_step [OF fmt(1) _ False _ c_def this] Cons.prems(2,3) False show ?thesis
      by (simp add: args1_def cur1_def touched1_def)
  qed
  have "ok_or_err m (\<lambda>st'. fmt_done st' args')
    (bind_res (fmt_step m other fmt (length pre) c st) (\<lambda>o1.
       case o1 of None \<Rightarrow> Inr None | Some y \<Rightarrow> (case y of (j, st') \<Rightarrow> fmt_loop m other fmt j st')))"
    by (rule ok_or_err_bind [OF step]) (use Cons.IH [OF fmt(2) _ _ args' Cons.prems(5)] Cons.prems(2) in auto)
  then show ?case using b c(2) by (subst fmt_loop.simps) simp
qed

lemma finish_format_correct:
  assumes fin: "fmt_done st args'" and small: "length (command args') \<le> 1073741823"
  shows "finish_format m st = Inr (int (length (command args')), Some (command args' @ [NUL])) \<or>
    finish_format m st = Inr (-1, None) \<and> (\<exists>n. \<not> mem_ok m n)"
proof -
  from fin obtain args cur touched where rel: "fmt_rel st args cur touched []"
    and args': "args' = args @ words [] cur touched" by (auto simp: fmt_done_def simp del: words.simps)
  have build: "build_command m (int (length argv)) (i32 (int (length (concat (map bulk args'))) + (1 + intlen (int (length argv)) + 2)))
      (map (\<lambda>s. (sds_buf s, sdslen s)) argv) =
    (if mem_ok m (length (command args') + 1)
     then Inr (int (length (command args')), Some (command args' @ [NUL])) else Inr (-1, None))"
    if argv: "map sds_str argv = args'" "list_all sds_wf argv" for argv
  proof -
    have n: "length argv = length args'" using argv(1) by (metis length_map)
    have tot: "i32 (int (length (concat (map bulk args'))) + (1 + intlen (int (length argv)) + 2)) = int (length (command args'))"
      using small unfolding command_length n intlen_length by (simp add: i32_id)
    have "\<forall>(blk, len) \<in> set (map (\<lambda>s. (sds_buf s, sdslen s)) argv). len \<le> length blk"
      using argv(2) by (auto simp: list_all_iff dest!: sds_wfD(3))
    moreover have "args' = map (\<lambda>(blk, len). take len blk) (map (\<lambda>s. (sds_buf s, sdslen s)) argv)"
      using argv(1) by (auto simp: sds_str_def)
    ultimately show ?thesis unfolding tot by (rule build_command_correct) (use small in simp_all)
  qed
  show ?thesis
  proof (cases touched)
    case False
    with rel args' have "map sds_str (fs_argv st) = args'" "list_all sds_wf (fs_argv st)"
      "fs_totlen st = int (length (concat (map bulk args')))" "\<not> fs_touched st" by (auto simp: fmt_rel_def)
    with build [OF this(1,2)] show ?thesis by (auto simp: finish_format_def)
  next
    case True
    have "length (concat (map bulk (args @ [cur]))) \<le> 2147483646"
      using small args' True unfolding command_length by simp
    moreover have "fmt_rel st args cur True []" using rel True by simp
    ultimately consider "push_arg m st = None" "\<exists>n. \<not> mem_ok m n"
      | st1 where "push_arg m st = Some st1" "fs_argv st1 = fs_argv st @ [fs_curarg st]"
        "fs_totlen st1 = int (length (concat (map bulk args')))" using push_arg_ok [of st args cur "[]" m] args' True by auto
    then show ?thesis
    proof cases
      case 1
      then show ?thesis using rel True by (auto simp: finish_format_def fmt_rel_def)
    next
      case (2 st1)
      have "map sds_str (fs_argv st1) = args'" "list_all sds_wf (fs_argv st1)" using rel 2(2) args' True by (auto simp: fmt_rel_def)
      from build [OF this] 2 rel True show ?thesis by (auto simp: finish_format_def fmt_rel_def)
    qed
  qed
qed

lemma vFormatCommand_correct:
  assumes "list_all piece_ok ps" "args = words ps [] False" "length (command args) \<le> 1073741823"
  shows "redisvFormatCommand m other True (concat (map piece_fmt ps) @ [NUL]) (concat (map piece_args ps)) =
      Inr (int (length (command args)), Some (command args @ [NUL])) \<or>
    redisvFormatCommand m other True (concat (map piece_fmt ps) @ [NUL]) (concat (map piece_args ps)) = Inr (-1, None) \<and>
      (\<exists>n. \<not> mem_ok m n)"
proof (cases "sdsempty m")
  case (Inl e)
  then show ?thesis using sdsempty_yields [of m] by (simp add: redisvFormatCommand_def or_err_def yields_def)
next
  case (Inr s)
  define fmt st where "fmt = concat (map piece_fmt ps) @ [NUL]"
    and "st = \<lparr>fs_curarg = s, fs_touched = False, fs_argv = [], fs_totlen = 0, fs_ap = concat (map piece_args ps)\<rparr>"
  have "fmt_rel st [] [] False (concat (map piece_args ps))"
    using Inr sdsempty_yields [of m] by (simp add: st_def fmt_rel_def)
  from fmt_loop_pieces [of fmt "[]" ps, OF _ assms(1) this _ assms(3)] assms(2)
  have "ok_or_err m (\<lambda>st'. fmt_done st' args)
    (fmt_loop m other fmt 0 st)" by (simp add: fmt_def)
  moreover have "redisvFormatCommand m other True fmt (concat (map piece_args ps)) =
    bind_res (fmt_loop m other fmt 0 st) (\<lambda>o1. case o1 of None \<Rightarrow> Inr (-1, None) | Some st \<Rightarrow> finish_format m st)"
    using Inr by (simp add: redisvFormatCommand_def or_err_def st_def)
  ultimately show ?thesis
    unfolding fmt_def [symmetric] using finish_format_correct [OF _ assms(3)]
    by (auto simp: ok_or_err_def split: sum.splits option.splits)
qed

lemma command_nesting: "nesting (ReplyArray (map ReplyString args)) = 1" "encodable (ReplyArray (map ReplyString args))"
proof -
  have "fold max (map nesting (map ReplyString args)) 0 = 0" by (induction args) simp_all
  then show "nesting (ReplyArray (map ReplyString args)) = 1" by simp
  show "encodable (ReplyArray (map ReplyString args))" by (simp add: list_all_iff)
qed

section \<open>Properties\<close>

text \<open>
  C8: \<^verbatim>\<open>redisFormatCommand\<close> produces exactly the wire format.  For a format of literal characters,
  blanks, \<^verbatim>\<open>%s\<close>, \<^verbatim>\<open>%b\<close>, \<^verbatim>\<open>%%\<close> and \<^verbatim>\<open>%i\<close> and the arguments it asks for, the result is the
  array of the arguments that the blanks of the format separate (blanks inside interpolated
  strings do not), with its exact length, and nothing is written outside the buffer; it is
  \<^verbatim>\<open>-1\<close> only when an allocation fails.
\<close>

theorem format_command_encodes:
  assumes "list_all piece_ok ps" "args = words ps [] False" "length (command args) \<le> 1073741823"
  shows "redisFormatCommand m other True (concat (map piece_fmt ps) @ [NUL]) (concat (map piece_args ps)) =
      Inr (int (length (command args)), Some (command args @ [NUL])) \<or>
    redisFormatCommand m other True (concat (map piece_fmt ps) @ [NUL]) (concat (map piece_args ps)) = Inr (-1, None) \<and>
      (\<exists>n. \<not> mem_ok m n)"
  unfolding redisFormatCommand_def using assms by (rule vFormatCommand_correct)

theorem format_command_encodes_witness:
  "redisFormatCommand mem_all (\<lambda>_ _. []) True (''SET %s %b'' @ [NUL])
     [ArgPtr (Some (''k'' @ [NUL])), ArgPtr (Some ''a b''), ArgNum 3] =
   Inr (int (length (command [''SET'', ''k'', ''a b''])), Some (command [''SET'', ''k'', ''a b''] @ [NUL]))"
proof -
  have "length (command [''SET'', ''k'', ''a b'']) \<le> 1073741823" by (simp add: encode.simps(2) dec_nat_eval)
  then show ?thesis
    using format_command_encodes [of "map Lit ''SET'' @ [Blank, Str ''k'', Blank, Bin ''a b'']" "[''SET'', ''k'', ''a b'']"
        mem_all "\<lambda>_ _. []"]
    by (simp add: mem_all_def no_nul_def)
qed

text \<open>
  C32: A command made by \<^verbatim>\<open>redisFormatCommandArgv\<close> is read back by the protocol parser as the array
  of its arguments, whatever bytes the arguments consist of.
\<close>

theorem formatted_command_parses:
  assumes "list_all2 (\<lambda>blk len. len \<le> length blk) argv lens" "args = map2 (\<lambda>blk len. take len blk) argv lens"
    and "length (command args) \<le> 2147483646" "\<forall>n. mem_ok m n"
    and "reader_wf r" "rd_err r = 0" "rd_ridx r = -1"
  shows "\<exists>n cmd. redisFormatCommandArgv m (int (length argv)) argv (Some lens) = Inr (int n, Some cmd) \<and>
    n + 1 = length cmd \<and>
    (\<forall>rest. unread r = take n cmd @ rest \<longrightarrow>
      (\<exists>a r'. redisReaderGetReply m r = Inr (Some (REDIS_OK, Some a, r')) \<and>
         rep (length (rd_heap r)) (rd_heap r') a (ReplyArray (map ReplyString args)) \<and> unread r' = rest))"
proof -
  have "redisFormatCommandArgv m (int (length argv)) argv (Some lens) =
      Inr (int (length (command args)), Some (command args @ [NUL]))"
    using FormatCommandArgv_correct [OF assms(1-3)] assms(4) by simp
  moreover have "\<exists>a r'. redisReaderGetReply m r = Inr (Some (REDIS_OK, Some a, r')) \<and>
      rep (length (rd_heap r)) (rd_heap r') a (ReplyArray (map ReplyString args)) \<and> unread r' = rest"
    if "unread r = command args @ rest" for rest
    using parse_idle [OF assms(5-7) that command_nesting(2) _ assms(4)] command_nesting(1) by fastforce
  ultimately show ?thesis by (intro exI [of _ "length (command args)"] exI [of _ "command args @ [NUL]"]) simp
qed

theorem formatted_command_parses_witness:
  "\<exists>n cmd. redisFormatCommandArgv mem_all 2 [''GET'', ''key''] (Some [3, 3]) = Inr (int n, Some cmd) \<and>
    n + 1 = length cmd \<and>
    (\<forall>rest. unread (reader_with (command [''GET'', ''key''])) = take n cmd @ rest \<longrightarrow>
      (\<exists>a r'. redisReaderGetReply mem_all (reader_with (command [''GET'', ''key''])) = Inr (Some (REDIS_OK, Some a, r')) \<and>
         rep 0 (rd_heap r') a (ReplyArray [ReplyString ''GET'', ReplyString ''key'']) \<and> unread r' = rest))"
proof -
  have len: "length (command [''GET'', ''key'']) \<le> 2147483646" by (simp add: encode.simps(2) dec_nat_eval)
  then have "reader_wf (reader_with (command [''GET'', ''key'']))" by (intro reader_with_wf) simp
  then show ?thesis
    using len formatted_command_parses [of "[''GET'', ''key'']" "[3, 3]" "[''GET'', ''key'']" mem_all
        "reader_with (command [''GET'', ''key''])"]
    by (simp add: mem_all_def reader_with_def)
qed

text \<open>
  A format that ends inside a conversion is read beyond its end: \<^verbatim>\<open>strchr\<close> finds the terminator
  in the list of conversion characters, and the position moves over it.
\<close>

lemma format_reads_past_end:
  "redisFormatCommand mem_all (\<lambda>fmt _. fmt) True (''INCRBY k %0'' @ [NUL]) [ArgNum 1] = Inl OutOfBounds"
  by code_simp

end
