(* ===== verification/Context_Props.thy ===== *)
theory Context_Props
  imports Context Reader_Stream Format_Props
begin

text \<open>
  What the blocking client context promises: the bytes of the output buffer reach the socket in
  order and exactly once however few of them each \<^verbatim>\<open>write\<close> takes, and a reply is returned however
  the bytes are spread over the \<^verbatim>\<open>read\<close> calls.
\<close>

section \<open>Writing\<close>

text \<open>
  The contract of \<^verbatim>\<open>write\<close>: it takes at most the bytes it is given.  \<open>k\<close> is the number of bytes
  in the buffer.
\<close>

fun fits :: "nat \<Rightarrow> sys_write list \<Rightarrow> bool" where
  "fits k [] \<longleftrightarrow> True"
| "fits k (Wrote n # ws) \<longleftrightarrow> n \<le> k \<and> fits (k - n) ws"
| "fits k (WriteError e # ws) \<longleftrightarrow> fits k ws"

text \<open>The calls empty a buffer of \<open>k\<close> bytes; interrupted calls do no harm.\<close>

fun drains :: "nat \<Rightarrow> sys_write list \<Rightarrow> bool" where
  "drains 0 ws \<longleftrightarrow> True"
| "drains (Suc k) [] \<longleftrightarrow> False"
| "drains (Suc k) (Wrote n # ws) \<longleftrightarrow> n \<le> Suc k \<and> drains (Suc k - n) ws"
| "drains (Suc k) (WriteError e # ws) \<longleftrightarrow> e = EINTR \<and> drains (Suc k) ws"

definition out_ok :: "redisContext \<Rightarrow> sds \<Rightarrow> bool" where
  "out_ok c s \<longleftrightarrow> rc_err c = 0 \<and> rc_obuf c = Some s \<and> sds_wf s"

lemma out_ok_simps:
  assumes "out_ok c s"
  shows "rc_err c = 0" "rc_obuf c = Some s" "sdslen s = length (sds_str s)" "sds_wf s"
    "i32 (int (sdslen s)) = int (length (sds_str s))" "writes_now c \<longleftrightarrow> sds_str s \<noteq> []" "c\<lparr>rc_obuf := Some s\<rparr> = c"
proof -
  show c: "rc_err c = 0" "rc_obuf c = Some s" "sds_wf s" using assms by (simp_all add: out_ok_def)
  show len: "sdslen s = length (sds_str s)" using sds_wfD(5) [OF c(3)] by simp
  show "i32 (int (sdslen s)) = int (length (sds_str s))" using sds_wfD(8) [OF c(3)] len by (simp add: i32_id)
  show "writes_now c \<longleftrightarrow> sds_str s \<noteq> []" using c len by (simp add: writes_now_def)
  show "c\<lparr>rc_obuf := Some s\<rparr> = c" using c(2) by simp
qed

lemma wrote_step:
  assumes "out_ok c s" "sds_str s \<noteq> []" "n \<le> length (sds_str s)" "\<forall>n. mem_ok m n"
  shows "\<exists>s'. redisBufferWrite m strerror (Wrote n) c =
      Inr (REDIS_OK, n = length (sds_str s), take n (sds_str s), c\<lparr>rc_obuf := Some s'\<rparr>) \<and>
    out_ok (c\<lparr>rc_obuf := Some s'\<rparr>) s' \<and> sds_str s' = drop n (sds_str s)"
proof -
  note c = out_ok_simps [OF assms(1)]
  consider "n = 0" | "n = length (sds_str s)" "n > 0" | "0 < n" "n < length (sds_str s)" using assms(3) by linarith
  then show ?thesis
  proof cases
    case 1
    then show ?thesis using c assms(2) by (intro exI [of _ s]) (simp add: redisBufferWrite_def out_ok_def)
  next
    case 2
    obtain e where e: "sdsempty m = Inr e" "sds_wf e" "sds_str e = []"
      using sdsempty_yields [of m] assms(4) by (cases "sdsempty m") (auto simp: yields_def)
    then have "sdslen e = 0" using sds_wfD(5) [of e] by simp
    then show ?thesis using 2 e c assms(2) by (intro exI [of _ e]) (simp add: redisBufferWrite_def out_ok_def)
  next
    case 3
    from sdsrange_drop [OF c(4), of n] 3 obtain s' where
      s': "sdsrange s (int n) (-1) = Inr s'" "sds_wf s'" "sds_str s' = drop n (sds_str s)" by auto
    then have "sdslen s' \<noteq> 0" using 3 sds_wfD(5) [of s'] by simp
    then show ?thesis using 3 s' c assms(2) by (intro exI [of _ s']) (simp add: redisBufferWrite_def out_ok_def)
  qed
qed

lemma error_step:
  assumes "out_ok c s" "sds_str s \<noteq> []"
  shows "try_again e c \<Longrightarrow> redisBufferWrite m strerror (WriteError e) c = Inr (REDIS_OK, False, [], c)"
    "\<not> try_again e c \<Longrightarrow> redisBufferWrite m strerror (WriteError e) c =
       Inr (REDIS_ERR, False, [], c\<lparr>rc_err := REDIS_ERR_IO, rc_errstr := take 127 (strerror e)\<rparr>)"
  using assms out_ok_simps [OF assms(1)] by (simp_all add: redisBufferWrite_def redisSetError_def)

lemma empty_step:
  assumes "out_ok c s" "sds_str s = []"
  shows "redisBufferWrite m strerror (Wrote 0) c = Inr (REDIS_OK, True, [], c)"
  using assms out_ok_simps [OF assms(1)] by (simp add: redisBufferWrite_def)

lemma write_loop_drains:
  assumes "out_ok c s" "drains (length (sds_str s)) ws" "\<forall>n. mem_ok m n"
  shows "\<exists>ws' s'. write_loop m strerror ws sent c =
      Inr (Some (REDIS_OK, sent @ sds_str s, ws', c\<lparr>rc_obuf := Some s'\<rparr>)) \<and> sds_wf s' \<and> sds_str s' = []"
  using assms(1,2)
proof (induction ws arbitrary: s c sent)
  case Nil
  then have "sds_str s = []" by (cases "length (sds_str s)") simp_all
  then show ?case using Nil out_ok_simps [OF Nil(1)] empty_step [OF Nil(1)] by (intro exI [of _ "[]"] exI [of _ s]) simp
next
  case (Cons w ws)
  note c = out_ok_simps [OF Cons.prems(1)]
  show ?case
  proof (cases "sds_str s = []")
    case True
    then show ?thesis using c empty_step [OF Cons.prems(1) True] by (intro exI [of _ "w # ws"] exI [of _ s]) simp
  next
    case False
    then obtain k where k: "length (sds_str s) = Suc k" by (cases "sds_str s") auto
    show ?thesis
    proof (cases w)
      case (WriteError e)
      then have e: "try_again e c" "drains (length (sds_str s)) ws" using Cons.prems(2) k by (simp_all add: try_again_def)
      then show ?thesis using Cons.IH [OF Cons.prems(1) e(2)] error_step(1) [OF Cons.prems(1) False e(1)] WriteError c False by simp
    next
      case (Wrote n)
      then have n: "n \<le> length (sds_str s)" "drains (length (sds_str s) - n) ws" using Cons.prems(2) k by simp_all
      from wrote_step [OF Cons.prems(1) False n(1) assms(3)] obtain s' where s':
        "redisBufferWrite m strerror (Wrote n) c =
           Inr (REDIS_OK, n = length (sds_str s), take n (sds_str s), c\<lparr>rc_obuf := Some s'\<rparr>)"
        "out_ok (c\<lparr>rc_obuf := Some s'\<rparr>) s'" "sds_str s' = drop n (sds_str s)" by blast
      show ?thesis
      proof (cases "n = length (sds_str s)")
        case True
        then show ?thesis using s' c False Wrote by (intro exI [of _ ws] exI [of _ s']) (simp add: out_ok_def)
      next
        case more: False
        have "drains (length (sds_str s')) ws" using n(2) s'(3) by simp
        from Cons.IH [OF s'(2) this, of "sent @ take n (sds_str s)"] show ?thesis using s' c False Wrote more by simp
      qed
    qed
  qed
qed

lemma write_loop_prefix:
  assumes "out_ok c s" "fits (length (sds_str s)) ws" "\<forall>n. mem_ok m n"
  shows "write_loop m strerror ws sent c = Inr None \<or>
    (\<exists>rc sent' s' ws' c'. write_loop m strerror ws sent c = Inr (Some (rc, sent @ sent', ws', c')) \<and>
      rc_obuf c' = Some s' \<and> sds_wf s' \<and> sent' @ sds_str s' = sds_str s \<and> rc_reader c' = rc_reader c \<and>
      (rc = REDIS_OK \<and> sds_str s' = [] \<and> rc_err c' = 0 \<or>
       rc = REDIS_ERR \<and> rc_err c' = REDIS_ERR_IO \<and>
         (\<exists>e. WriteError e \<in> set ws \<and> \<not> try_again e c \<and> rc_errstr c' = take 127 (strerror e))))"
  using assms(1,2)
proof (induction ws arbitrary: s c sent)
  case Nil
  note c = out_ok_simps [OF Nil(1)]
  show ?case using Nil c empty_step [OF Nil(1)] by (cases "sds_str s = []") simp_all
next
  case (Cons w ws)
  note c = out_ok_simps [OF Cons.prems(1)]
  show ?case
  proof (cases "sds_str s = []")
    case True
    then show ?thesis using c empty_step [OF Cons.prems(1) True] by simp
  next
    case False
    show ?thesis
    proof (cases w)
      case (WriteError e)
      show ?thesis
      proof (cases "try_again e c")
        case True
        then show ?thesis using Cons.IH [OF Cons.prems(1), of sent] Cons.prems(2) WriteError c False
            error_step(1) [OF Cons.prems(1) False True] by fastforce
      next
        case no: False
        then show ?thesis using WriteError c False error_step(2) [OF Cons.prems(1) False no]
          by (intro disjI2 exI [of _ REDIS_ERR] exI [of _ "[]"] exI [of _ s] exI [of _ ws]) auto
      qed
    next
      case (Wrote n)
      then have n: "n \<le> length (sds_str s)" "fits (length (sds_str s) - n) ws" using Cons.prems(2) by simp_all
      from wrote_step [OF Cons.prems(1) False n(1) assms(3)] obtain s' where s':
        "redisBufferWrite m strerror (Wrote n) c =
           Inr (REDIS_OK, n = length (sds_str s), take n (sds_str s), c\<lparr>rc_obuf := Some s'\<rparr>)"
        "out_ok (c\<lparr>rc_obuf := Some s'\<rparr>) s'" "sds_str s' = drop n (sds_str s)" by blast
      show ?thesis
      proof (cases "n = length (sds_str s)")
        case True
        then show ?thesis using s' c False Wrote
          by (intro disjI2 exI [of _ REDIS_OK] exI [of _ "sds_str s"] exI [of _ s'] exI [of _ ws] exI [of _ "c\<lparr>rc_obuf := Some s'\<rparr>"])
            (simp add: out_ok_def)
      next
        case more: False
        have w: "write_loop m strerror (w # ws) sent c = write_loop m strerror ws (sent @ take n (sds_str s)) (c\<lparr>rc_obuf := Some s'\<rparr>)"
          using s' c False Wrote more by simp
        have "fits (length (sds_str s')) ws" using n(2) s'(3) by simp
        from Cons.IH [OF s'(2) this, of "sent @ take n (sds_str s)"] show ?thesis
        proof (elim disjE exE conjE, goal_cases)
          case 1
          then show ?thesis using w by simp
        next
          case (2 rc sent' s2 ws' c')
          have "take n (sds_str s) @ sent' @ sds_str s2 = sds_str s" using 2(4) s'(3) by simp
          then show ?thesis using 2 w
            by (intro disjI2 exI [of _ rc] exI [of _ "take n (sds_str s) @ sent'"] exI [of _ s2] exI [of _ ws'] exI [of _ c']) simp
        next
          case (3 rc sent' s2 ws' c' e)
          have "take n (sds_str s) @ sent' @ sds_str s2 = sds_str s" using 3(4) s'(3) by simp
          moreover have "\<not> try_again e c" using 3 by (simp add: try_again_def has_flag_def)
          ultimately show ?thesis using 3 w
            by (intro disjI2 exI [of _ rc] exI [of _ "take n (sds_str s) @ sent'"] exI [of _ s2] exI [of _ ws'] exI [of _ c']) auto
        qed
      qed
    qed
  qed
qed

section \<open>Reading\<close>

text \<open>The bytes that the calls of \<^verbatim>\<open>read\<close> deliver when none of them fails for good.\<close>

fun read_bytes :: "sys_read list \<Rightarrow> char list" where
  "read_bytes [] = []"
| "read_bytes (Received bs # rds) = bs @ read_bytes rds"
| "read_bytes (ReadError e # rds) = read_bytes rds"

fun usable :: "sys_read \<Rightarrow> bool" where
  "usable (Received bs) \<longleftrightarrow> bs \<noteq> []"
| "usable (ReadError e) \<longleftrightarrow> e = EINTR"

definition in_ok :: "redisContext \<Rightarrow> redisReader \<Rightarrow> bool" where
  "in_ok c r \<longleftrightarrow> rc_err c = 0 \<and> rc_reader c = Some r \<and> ready r"

lemma buffer_read_ok:
  assumes "in_ok c r" "usable rd" "\<forall>n. mem_ok m n" "2 * (rd_len r + length (read_bytes (rd # rds))) \<le> 2147483647"
    and "expects m r (read_bytes (rd # rds)) rest q"
  shows "\<exists>r'. redisBufferRead m strerror rd c = Inr (REDIS_OK, c\<lparr>rc_reader := Some r'\<rparr>) \<and> in_ok (c\<lparr>rc_reader := Some r'\<rparr>) r' \<and>
    expects m r' (read_bytes rds) rest q \<and> rd_len r' + length (read_bytes rds) = rd_len r + length (read_bytes (rd # rds))"
proof (cases rd)
  case (ReadError e)
  then have "redisBufferRead m strerror rd c = Inr (REDIS_OK, c\<lparr>rc_reader := Some r\<rparr>)"
    using assms(1,2) by (simp add: redisBufferRead_def try_again_def in_ok_def)
  then show ?thesis using ReadError assms by (intro exI [of _ r]) (simp add: in_ok_def)
next
  case (Received bs)
  have "2 * (rd_len r + length bs) \<le> 2147483647" using assms(4) Received by simp
  with feed_ready [of r m bs] assms(1,2,3) Received obtain r' where
    r': "redisReaderFeed m (Some bs) (length bs) r = Inr (REDIS_OK, r')" "ready r'" "unread r' = unread r @ bs"
      "core r' = core r" "rd_len r' = rd_len r + length bs" by (auto simp: in_ok_def)
  moreover have "expects m r' (read_bytes rds) rest q"
    using assms(5) Received by (intro expects_feed [OF _ r'(3,4)]) simp
  ultimately show ?thesis using assms(1,2) Received by (intro exI [of _ r']) (simp add: redisBufferRead_def in_ok_def)
qed

text \<open>
  What a call of the parser does to the context when a reply is expected, also on an empty
  buffer.
\<close>

lemma reply_from_reader:
  assumes "in_ok c r" "expects m r todo rest q" "rd_reply q = Some a"
  shows "(\<exists>r'. redisGetReplyFromReader m c = Inr (Some (REDIS_OK, None, c\<lparr>rc_reader := Some r'\<rparr>)) \<and>
        in_ok (c\<lparr>rc_reader := Some r'\<rparr>) r' \<and> expects m r' todo rest q \<and> todo \<noteq> [] \<and> rd_len r' \<le> rd_len r) \<or>
    (\<exists>r'. redisGetReplyFromReader m c = Inr (Some (REDIS_OK, Some a, c\<lparr>rc_reader := Some r'\<rparr>)) \<and>
        in_ok (c\<lparr>rc_reader := Some r'\<rparr>) r' \<and> rd_ridx r' = -1 \<and> rest = unread r' @ todo \<and> rd_heap r' = rd_heap q \<and>
        rd_len r' \<le> rd_len r)"
proof (cases "rd_len r = 0")
  case True
  have r: "rd_err r = 0" "unread r = []" using assms(1) True by (auto simp: in_ok_def ready_def unread_def buffer_ok_def dest: sds_wfD(5))
  then have g: "redisReaderGetReply m r = Inr (Some (REDIS_OK, None, r))" using True by (simp add: redisReaderGetReply_def)
  have "todo \<noteq> []"
  proof
    assume "todo = []"
    then obtain n where n: "a_items m n ([], core (start_reply r)) = Go (rest, q)" using assms(2) r(2) by (auto simp: expects_def)
    have st: "a_ok (core (start_reply r))" "0 \<le> rd_ridx (core (start_reply r))"
      using a_ok_start [of r] assms(1) by (auto simp: in_ok_def ready_def)
    show False
    proof (cases n)
      case (Suc k)
      then obtain p where "a_item m ([], core (start_reply r)) = Go p" using n st(2) by (auto split: step.splits)
      then show False using a_item_Go [OF st, of m "[]" "fst p" "snd p"] by simp
    qed (use n in simp)
  qed
  then show ?thesis using assms(1,2) g by (intro disjI1 exI [of _ r]) (simp add: redisGetReplyFromReader_def in_ok_def)
next
  case False
  have r: "ready r" "rd_len r > 0" "rc_reader c = Some r" using assms(1) False by (auto simp: in_ok_def)
  from getreply_expects [OF r(1,2) assms(2)] assms(3) show ?thesis
    using assms(1) r(3) by (fastforce simp: redisGetReplyFromReader_def in_ok_def Let_def)
qed

lemma read_loop_reply:
  assumes "in_ok c r" "list_all usable rds" "\<forall>n. mem_ok m n" "2 * (rd_len r + length (read_bytes rds)) \<le> 2147483647"
    and "expects m r (read_bytes rds) rest q" "read_bytes rds \<noteq> []" "rd_reply q = Some a"
  shows "\<exists>r' rds'. read_loop m strerror rds c = Inr (Some (REDIS_OK, Some a, rds', c\<lparr>rc_reader := Some r'\<rparr>)) \<and>
    in_ok (c\<lparr>rc_reader := Some r'\<rparr>) r' \<and> rd_ridx r' = -1 \<and> rest = unread r' @ read_bytes rds' \<and> rd_heap r' = rd_heap q"
  using assms(1,2,4,5,6)
proof (induction rds arbitrary: c r)
  case (Cons rd rds)
  have u: "usable rd" "list_all usable rds" using Cons.prems(2) by simp_all
  from buffer_read_ok [OF Cons.prems(1) u(1) assms(3) Cons.prems(3,4)] obtain r1 where
    r1: "redisBufferRead m strerror rd c = Inr (REDIS_OK, c\<lparr>rc_reader := Some r1\<rparr>)" "in_ok (c\<lparr>rc_reader := Some r1\<rparr>) r1"
      "expects m r1 (read_bytes rds) rest q" "rd_len r1 + length (read_bytes rds) = rd_len r + length (read_bytes (rd # rds))"
    by blast
  from reply_from_reader [OF r1(2,3) assms(7)] show ?case
  proof (elim disjE exE conjE)
    fix r2
    assume r2: "redisGetReplyFromReader m (c\<lparr>rc_reader := Some r1\<rparr>) = Inr (Some (REDIS_OK, None, c\<lparr>rc_reader := Some r1, rc_reader := Some r2\<rparr>))"
      "in_ok (c\<lparr>rc_reader := Some r1, rc_reader := Some r2\<rparr>) r2" "expects m r2 (read_bytes rds) rest q" "read_bytes rds \<noteq> []"
      "rd_len r2 \<le> rd_len r1"
    have "2 * (rd_len r2 + length (read_bytes rds)) \<le> 2147483647" using r1(4) r2(5) Cons.prems(3) by simp
    from Cons.IH [OF r2(2) u(2) this r2(3,4)] show ?case using r1(1) r2(1) by simp
  next
    fix r2
    assume r2: "redisGetReplyFromReader m (c\<lparr>rc_reader := Some r1\<rparr>) = Inr (Some (REDIS_OK, Some a, c\<lparr>rc_reader := Some r1, rc_reader := Some r2\<rparr>))"
      "in_ok (c\<lparr>rc_reader := Some r1, rc_reader := Some r2\<rparr>) r2" "rd_ridx r2 = -1" "rest = unread r2 @ read_bytes rds" "rd_heap r2 = rd_heap q"
    then show ?case using r1(1) by (intro exI [of _ r2] exI [of _ rds]) simp
  qed
qed simp

section \<open>A whole exchange\<close>

text \<open>
  A blocking context between two commands: the reader is idle and has read all its input; the
  output buffer may hold commands that were appended before.
\<close>

definition idle_context :: "redisContext \<Rightarrow> sds \<Rightarrow> redisReader \<Rightarrow> bool" where
  "idle_context c s r \<longleftrightarrow> out_ok c s \<and> has_flag REDIS_BLOCK c \<and> rc_reader c = Some r \<and> reader_wf r \<and> rd_err r = 0 \<and>
     rd_ridx r = -1 \<and> unread r = []"

text \<open>The reply \<open>t\<close> arrives over the calls \<open>rds\<close>, followed by the bytes \<open>rest\<close>.\<close>

definition arrives :: "redisReader \<Rightarrow> redisReply \<Rightarrow> char list \<Rightarrow> sys_read list \<Rightarrow> bool" where
  "arrives r t rest rds \<longleftrightarrow> encodable t \<and> nesting t \<le> 8 \<and> list_all usable rds \<and> read_bytes rds = encode t @ rest \<and>
     2 * (rd_len r + length (read_bytes rds)) \<le> 2147483647"

lemma get_reply_exchange:
  assumes "idle_context c s r" "arrives r t rest rds" "drains (length (sds_str s)) ws" "\<forall>n. mem_ok m n"
  shows "\<exists>res a r'. redisGetReply m strerror ws rds c = Inr (Some res) \<and> cr_rc res = REDIS_OK \<and> cr_reply res = Some a \<and>
    cr_sent res = sds_str s \<and> rc_reader (cr_ctx res) = Some r' \<and> rep (length (rd_heap r)) (rd_heap r') a t \<and>
    take (length (rd_heap r)) (rd_heap r') = rd_heap r \<and> unread r' @ read_bytes (cr_reads res) = rest \<and> rc_err (cr_ctx res) = 0"
proof -
  have i: "out_ok c s" "has_flag REDIS_BLOCK c" "rc_reader c = Some r" "reader_wf r" "rd_err r = 0" "rd_ridx r = -1" "unread r = []"
    using assms(1) by (auto simp: idle_context_def)
  have t: "encodable t" "nesting t \<le> 8" "list_all usable rds" "unread r @ read_bytes rds = encode t @ rest"
    "2 * (rd_len r + length (read_bytes rds)) \<le> 2147483647"
    using assms(2) i(7) by (auto simp: arrives_def)
  have "length (encode t @ rest) \<le> 2147483647" using t(4,5) i(7) by (simp flip: t(4))
  from expects_idle [OF i(4,5,6) t(4,1,2) assms(4) this] obtain q a where
    q: "expects m r (read_bytes rds) rest q" "rd_reply q = Some a" "rep (length (rd_heap r)) (rd_heap q) a t"
      "take (length (rd_heap r)) (rd_heap q) = rd_heap r" by blast
  have inok: "in_ok c r" using i out_ok_simps [OF i(1)] by (auto simp: in_ok_def ready_def reader_wf_def stack_ok_def a_ok_def)
  from reply_from_reader [OF inok q(1,2)] show ?thesis
  proof (elim disjE exE conjE)
    fix r1
    let ?c1 = "c\<lparr>rc_reader := Some r1\<rparr>"
    assume r1: "redisGetReplyFromReader m c = Inr (Some (REDIS_OK, None, ?c1))" "in_ok ?c1 r1"
      "expects m r1 (read_bytes rds) rest q" "read_bytes rds \<noteq> []" "rd_len r1 \<le> rd_len r"
    have "out_ok ?c1 s" using i(1) by (simp add: out_ok_def)
    from write_loop_drains [OF this assms(3,4), of strerror "[]"] obtain ws' s' where
      w: "write_loop m strerror ws [] ?c1 = Inr (Some (REDIS_OK, sds_str s, ws', ?c1\<lparr>rc_obuf := Some s'\<rparr>))" by auto
    have "in_ok (?c1\<lparr>rc_obuf := Some s'\<rparr>) r1" using r1(2) by (simp add: in_ok_def)
    moreover have "2 * (rd_len r1 + length (read_bytes rds)) \<le> 2147483647" using t(5) r1(5) by simp
    ultimately obtain r2 rds' where r2: "read_loop m strerror rds (?c1\<lparr>rc_obuf := Some s'\<rparr>) =
        Inr (Some (REDIS_OK, Some a, rds', ?c1\<lparr>rc_obuf := Some s', rc_reader := Some r2\<rparr>))"
        "in_ok (?c1\<lparr>rc_obuf := Some s', rc_reader := Some r2\<rparr>) r2" "rest = unread r2 @ read_bytes rds'" "rd_heap r2 = rd_heap q"
      using read_loop_reply [OF _ t(3) assms(4) _ r1(3,4) q(2), of "?c1\<lparr>rc_obuf := Some s'\<rparr>" strerror] by blast
    have "has_flag REDIS_BLOCK ?c1" using i(2) by (simp add: has_flag_def)
    then show ?thesis using r1(1) w r2 q(3,4) by (simp add: redisGetReply_def Let_def in_ok_def)
  next
    fix r1
    assume r1: "rest = unread r1 @ read_bytes rds"
    have "encode t \<noteq> []" by (cases t) simp_all
    then have "length (read_bytes rds) > length rest" using t(4) i(7) by simp
    then show ?thesis using r1 by simp
  qed
qed

lemma append_formatted:
  assumes "out_ok c s" "2 * (length (sds_str s) + length cmd) \<le> 2147483647" "\<forall>n. mem_ok m n"
  shows "\<exists>s'. append_result m (int (length cmd), Some (cmd @ [NUL])) c = Inr (REDIS_OK, c\<lparr>rc_obuf := Some s'\<rparr>) \<and>
    out_ok (c\<lparr>rc_obuf := Some s'\<rparr>) s' \<and> sds_str s' = sds_str s @ cmd"
proof -
  note c = out_ok_simps [OF assms(1)]
  have "sds_room s (length cmd)" using assms(2) c(3) by (simp add: sds_room_def)
  from sdscatlen_yields [OF c(4) this, of "cmd @ [NUL]" m] assms(3) obtain s' where
    s': "sdscatlen m s (cmd @ [NUL]) (length cmd) = Inr s'" "sds_wf s'" "sds_str s' = sds_str s @ cmd"
    by (cases "sdscatlen m s (cmd @ [NUL]) (length cmd)") (auto simp: yields_def)
  have "u64 (int (length cmd)) = length cmd" using assms(2) by (simp add: u64_id)
  then show ?thesis using s' c by (intro exI [of _ s']) (simp add: append_result_def redisAppendFormatted_def out_ok_def)
qed

lemma appended_idle:
  "idle_context c s r \<Longrightarrow> out_ok (c\<lparr>rc_obuf := Some s'\<rparr>) s' \<Longrightarrow> idle_context (c\<lparr>rc_obuf := Some s'\<rparr>) s' r"
  by (simp add: idle_context_def has_flag_def)

lemma append_command:
  assumes "idle_context c s r" "list_all piece_ok ps" "args = words ps [] False"
    and "2 * length (sds_str s @ command args) \<le> 2147483647" "\<forall>n. mem_ok m n"
  shows "\<exists>s'. redisvAppendCommand m other (concat (map piece_fmt ps) @ [NUL]) (concat (map piece_args ps)) c =
      Inr (REDIS_OK, c\<lparr>rc_obuf := Some s'\<rparr>) \<and> idle_context (c\<lparr>rc_obuf := Some s'\<rparr>) s' r \<and> sds_str s' = sds_str s @ command args"
proof -
  have "length (command args) \<le> 1073741823" using assms(4) by simp
  from vFormatCommand_correct [OF assms(2,3) this, of m other] assms(5)
  have f: "redisvFormatCommand m other True (concat (map piece_fmt ps) @ [NUL]) (concat (map piece_args ps)) =
      Inr (int (length (command args)), Some (command args @ [NUL]))" by blast
  have "out_ok c s" using assms(1) by (simp add: idle_context_def)
  from append_formatted [OF this _ assms(5), of "command args"] assms(4) obtain s' where
    s': "append_result m (int (length (command args)), Some (command args @ [NUL])) c = Inr (REDIS_OK, c\<lparr>rc_obuf := Some s'\<rparr>)"
      "out_ok (c\<lparr>rc_obuf := Some s'\<rparr>) s'" "sds_str s' = sds_str s @ command args" by auto
  then show ?thesis using f appended_idle [OF assms(1) s'(2)] by (intro exI [of _ s']) (simp add: redisvAppendCommand_def)
qed

lemma command_exchange:
  assumes "idle_context c s r" "list_all piece_ok ps" "args = words ps [] False" "arrives r t rest rds"
    and "drains (length (sds_str s @ command args)) ws" "2 * length (sds_str s @ command args) \<le> 2147483647" "\<forall>n. mem_ok m n"
  shows "\<exists>res a r'. redisCommand m strerror other ws rds (concat (map piece_fmt ps) @ [NUL]) (concat (map piece_args ps)) c =
      Inr (Some res) \<and> cr_rc res = REDIS_OK \<and> cr_reply res = Some a \<and> cr_sent res = sds_str s @ command args \<and>
    rc_reader (cr_ctx res) = Some r' \<and> rep (length (rd_heap r)) (rd_heap r') a t \<and>
    unread r' @ read_bytes (cr_reads res) = rest \<and> rc_err (cr_ctx res) = 0"
proof -
  from append_command [OF assms(1,2,3,6,7), of other] obtain s' where
    s': "redisvAppendCommand m other (concat (map piece_fmt ps) @ [NUL]) (concat (map piece_args ps)) c =
      Inr (REDIS_OK, c\<lparr>rc_obuf := Some s'\<rparr>)" "idle_context (c\<lparr>rc_obuf := Some s'\<rparr>) s' r" "sds_str s' = sds_str s @ command args"
    by blast
  have "drains (length (sds_str s')) ws" using assms(5) s'(3) by simp
  from get_reply_exchange [OF s'(2) assms(4) this assms(7), of strerror] obtain res a r' where
    "redisGetReply m strerror ws rds (c\<lparr>rc_obuf := Some s'\<rparr>) = Inr (Some res)" "cr_rc res = REDIS_OK" "cr_reply res = Some a"
    "cr_sent res = sds_str s'" "rc_reader (cr_ctx res) = Some r'" "rep (length (rd_heap r)) (rd_heap r') a t"
    "unread r' @ read_bytes (cr_reads res) = rest" "rc_err (cr_ctx res) = 0" by blast
  moreover have "has_flag REDIS_BLOCK (c\<lparr>rc_obuf := Some s'\<rparr>)" using s'(2) by (simp add: idle_context_def)
  ultimately show ?thesis using s'(1,3)
    by (simp add: redisCommand_def redisvCommand_def after_append_def redisBlockForReply_def)
qed

section \<open>Properties\<close>

text \<open>
  C7: A command gets its reply.  On a blocking context between two commands, for a format and
  arguments as above, if the calls of \<^verbatim>\<open>write\<close> eventually take all bytes (in any portions, with any
  number of interrupted calls) and the calls of \<^verbatim>\<open>read\<close> deliver the encoding of a reply (cut into
  any pieces, with any number of interrupted calls), then \<^verbatim>\<open>redisCommand\<close> returns: it has sent
  exactly the bytes that were pending followed by the command, the result is an object that stands
  for the reply, no byte after the reply is lost, and the context is free of errors.
\<close>

theorem redis_command_exchange:
  assumes "idle_context c s r" "list_all piece_ok ps" "args = words ps [] False" "arrives r t rest rds"
    and "drains (length (sds_str s @ command args)) ws" "2 * length (sds_str s @ command args) \<le> 2147483647" "\<forall>n. mem_ok m n"
  shows "\<exists>res a r'. redisCommand m strerror other ws rds (concat (map piece_fmt ps) @ [NUL]) (concat (map piece_args ps)) c =
      Inr (Some res) \<and> cr_rc res = REDIS_OK \<and> cr_reply res = Some a \<and> cr_sent res = sds_str s @ command args \<and>
    rc_reader (cr_ctx res) = Some r' \<and> rep (length (rd_heap r)) (rd_heap r') a t \<and>
    unread r' @ read_bytes (cr_reads res) = rest \<and> rc_err (cr_ctx res) = 0"
  using assms by (rule command_exchange)

text \<open>A context with an empty output buffer and an idle reader.\<close>

definition fresh_context :: redisContext where
  "fresh_context = \<lparr>rc_err = 0, rc_errstr = [], rc_fd = 7, rc_flags = 3,
     rc_obuf = Some \<lparr>sds_len = 0, sds_free = 0, sds_buf = [NUL]\<rparr>, rc_reader = Some (reader_with [])\<rparr>"

lemma fresh_idle: "idle_context fresh_context \<lparr>sds_len = 0, sds_free = 0, sds_buf = [NUL]\<rparr> (reader_with [])"
proof -
  have "sds_wf \<lparr>sds_len = 0, sds_free = 0, sds_buf = [NUL]\<rparr>" using sds_wfI [of "\<lparr>sds_len = 0, sds_free = 0, sds_buf = [NUL]\<rparr>" 0 0] by simp
  moreover have "bit (3::int) 0" by simp
  ultimately show ?thesis using reader_with_wf [of "[]"] unread_reader_with [of "[]"]
    by (simp add: idle_context_def out_ok_def fresh_context_def has_flag_def reader_with_def)
qed

theorem redis_command_exchange_witness:
  "\<exists>res a r'. redisCommand mem_all (\<lambda>_. []) (\<lambda>_ _. []) [Wrote 9, WriteError EINTR, Wrote 11]
      [Received ''+P'', ReadError EINTR, Received ''ON'', Received (''G'' @ [CR]), Received [LF]] (''GET %s'' @ [NUL]) [ArgPtr (Some (''k'' @ [NUL]))]
      fresh_context = Inr (Some res) \<and> cr_rc res = REDIS_OK \<and> cr_reply res = Some a \<and> cr_sent res = command [''GET'', ''k''] \<and>
    rc_reader (cr_ctx res) = Some r' \<and> rep 0 (rd_heap r') a (ReplyStatus ''PONG'') \<and>
    unread r' @ read_bytes (cr_reads res) = [] \<and> rc_err (cr_ctx res) = 0"
proof -
  let ?rds = "[Received ''+P'', ReadError EINTR, Received ''ON'', Received (''G'' @ [CR]), Received [LF]]"
  have "arrives (reader_with []) (ReplyStatus ''PONG'') [] ?rds" by (simp add: arrives_def one_line_def reader_with_def)
  moreover have "length (command [''GET'', ''k'']) = 20" by (simp add: encode.simps(2) dec_nat_eval)
  moreover have "drains 20 [Wrote 9, WriteError EINTR, Wrote 11]" by code_simp
  moreover have "sds_str \<lparr>sds_len = 0, sds_free = 0, sds_buf = [NUL]\<rparr> = []" by (simp add: sds_str_def sdslen_def u64_def)
  moreover have "rd_heap (reader_with []) = []" by (simp add: reader_with_def)
  ultimately show ?thesis
    using redis_command_exchange [OF fresh_idle, of "map Lit ''GET'' @ [Blank, Str ''k'']" "[''GET'', ''k'']" "ReplyStatus ''PONG''"
        "[]" ?rds "[Wrote 9, WriteError EINTR, Wrote 11]" mem_all "\<lambda>_. []" "\<lambda>_ _. []"]
    by (simp add: mem_all_def no_nul_def)
qed

text \<open>
  C31: No byte of the output buffer is lost or sent twice.  Whatever the calls of \<^verbatim>\<open>write\<close> return
  within their contract (short counts, interruptions, failures), when the loop ends, the bytes the
  socket took followed by those still in the buffer are the bytes that were in the buffer; the loop
  reports success only with the buffer empty, and failure only after a call failed for good.
\<close>

theorem write_loop_keeps_bytes:
  assumes "out_ok c s" "fits (length (sds_str s)) ws" "\<forall>n. mem_ok m n"
  shows "write_loop m strerror ws [] c = Inr None \<or>
    (\<exists>rc sent s' ws' c'. write_loop m strerror ws [] c = Inr (Some (rc, sent, ws', c')) \<and>
      rc_obuf c' = Some s' \<and> sds_wf s' \<and> sent @ sds_str s' = sds_str s \<and>
      (rc = REDIS_OK \<and> sds_str s' = [] \<and> rc_err c' = 0 \<or>
       rc = REDIS_ERR \<and> rc_err c' = REDIS_ERR_IO \<and>
         (\<exists>e. WriteError e \<in> set ws \<and> \<not> try_again e c \<and> rc_errstr c' = take 127 (strerror e))))"
  using write_loop_prefix [OF assms, of strerror "[]"] by (auto simp del: fits.simps write_loop.simps)

definition pending_context :: redisContext where
  "pending_context = fresh_context\<lparr>rc_obuf := Some \<lparr>sds_len = 4, sds_free = 0, sds_buf = ''PING'' @ [NUL]\<rparr>\<rparr>"

theorem write_loop_keeps_bytes_witness:
  "write_loop mem_all (\<lambda>_. ''EPIPE'') [Wrote 3, WriteError 32] [] pending_context = Inr None \<or>
    (\<exists>rc sent s' ws' c'. write_loop mem_all (\<lambda>_. ''EPIPE'') [Wrote 3, WriteError 32] [] pending_context = Inr (Some (rc, sent, ws', c')) \<and>
      rc_obuf c' = Some s' \<and> sds_wf s' \<and> sent @ sds_str s' = ''PING'' \<and>
      (rc = REDIS_OK \<and> sds_str s' = [] \<and> rc_err c' = 0 \<or>
       rc = REDIS_ERR \<and> rc_err c' = REDIS_ERR_IO \<and>
         (\<exists>e. WriteError e \<in> set [Wrote 3, WriteError 32] \<and> \<not> try_again e pending_context \<and> rc_errstr c' = take 127 ''EPIPE'')))"
proof -
  let ?s = "\<lparr>sds_len = 4, sds_free = 0, sds_buf = ''PING'' @ [NUL]\<rparr>"
  have "out_ok pending_context ?s" using sds_wfI [of ?s 4 0] by (simp add: out_ok_def pending_context_def fresh_context_def)
  moreover have "sds_str ?s = ''PING''" by (simp add: sds_str_def sdslen_def u64_def)
  ultimately show ?thesis
    using write_loop_keeps_bytes [of pending_context ?s "[Wrote 3, WriteError 32]" mem_all "\<lambda>_. ''EPIPE''"]
    by (simp add: mem_all_def del: write_loop.simps)
qed

lemma broken_context:
  assumes "rc_err c \<noteq> 0" "rc_reader c = Some r" "rd_err r = 0" "rd_len r = 0" "rc_obuf c = Some s" "sds_wf s"
    and "list_all piece_ok ps" "2 * length (sds_str s @ command (words ps [] False)) \<le> 2147483647" "\<forall>n. mem_ok m n"
  shows "\<exists>res s'. redisCommand m strerror other ws rds (concat (map piece_fmt ps) @ [NUL]) (concat (map piece_args ps)) c =
      Inr (Some res) \<and> cr_reply res = None \<and> cr_sent res = [] \<and> cr_writes res = ws \<and> cr_reads res = rds \<and>
    cr_ctx res = c\<lparr>rc_obuf := Some s'\<rparr> \<and> sds_wf s' \<and> sds_str s' = sds_str s @ command (words ps [] False)"
proof -
  let ?cmd = "command (words ps [] False)"
  have "length ?cmd \<le> 1073741823" using assms(8) by simp
  from vFormatCommand_correct [OF assms(7) refl this, of m other] assms(9)
  have f: "redisvFormatCommand m other True (concat (map piece_fmt ps) @ [NUL]) (concat (map piece_args ps)) =
      Inr (int (length ?cmd), Some (?cmd @ [NUL]))" by blast
  have "sds_room s (length ?cmd)" using assms(8) sds_wfD(5) [OF assms(6)] by (simp add: sds_room_def)
  from sdscatlen_yields [OF assms(6) this, of "?cmd @ [NUL]" m] assms(9) obtain s' where
    s': "sdscatlen m s (?cmd @ [NUL]) (length ?cmd) = Inr s'" "sds_wf s'" "sds_str s' = sds_str s @ ?cmd"
    by (cases "sdscatlen m s (?cmd @ [NUL]) (length ?cmd)") (auto simp: yields_def)
  have u: "u64 (int (length ?cmd)) = length ?cmd" using \<open>length ?cmd \<le> 1073741823\<close> by (simp add: u64_id)
  let ?c = "c\<lparr>rc_obuf := Some s'\<rparr>"
  have a: "redisvAppendCommand m other (concat (map piece_fmt ps) @ [NUL]) (concat (map piece_args ps)) c = Inr (REDIS_OK, ?c)"
    using f s'(1) u assms(5) by (simp add: redisvAppendCommand_def append_result_def redisAppendFormatted_def)
  have "redisReaderGetReply m r = Inr (Some (REDIS_OK, None, r))" using assms(3,4) by (simp add: redisReaderGetReply_def)
  then have g: "redisGetReplyFromReader m ?c = Inr (Some (REDIS_OK, None, ?c))" using assms(2) by (simp add: redisGetReplyFromReader_def)
  have "write_loop m strerror ws [] ?c = Inr (Some (REDIS_ERR, [], ws, ?c))"
    using assms(1) by (cases ws) (simp_all add: writes_now_def redisBufferWrite_def)
  then have "redisCommand m strerror other ws rds (concat (map piece_fmt ps) @ [NUL]) (concat (map piece_args ps)) c =
      Inr (Some \<lparr>cr_rc = REDIS_ERR, cr_reply = None, cr_sent = [], cr_writes = ws, cr_reads = rds, cr_ctx = ?c\<rparr>)"
    if "has_flag REDIS_BLOCK ?c"
    using a g that by (simp add: redisCommand_def redisvCommand_def after_append_def redisBlockForReply_def redisGetReply_def Let_def)
  moreover have "redisCommand m strerror other ws rds (concat (map piece_fmt ps) @ [NUL]) (concat (map piece_args ps)) c =
      Inr (Some \<lparr>cr_rc = REDIS_OK, cr_reply = None, cr_sent = [], cr_writes = ws, cr_reads = rds, cr_ctx = ?c\<rparr>)"
    if "\<not> has_flag REDIS_BLOCK ?c"
    using a that by (simp add: redisCommand_def redisvCommand_def after_append_def redisBlockForReply_def)
  ultimately show ?thesis using s'(2,3) by (cases "has_flag REDIS_BLOCK ?c") auto
qed

text \<open>Commands one after the other on the same context, and the result of each.\<close>

fun redisCommands ::
    "cmem \<Rightarrow> (int \<Rightarrow> string) \<Rightarrow> (string \<Rightarrow> c_arg list \<Rightarrow> string) \<Rightarrow> sys_write list \<Rightarrow> sys_read list \<Rightarrow>
       (char list \<times> c_arg list) list \<Rightarrow> redisContext \<Rightarrow> call_result list option res" where
  "redisCommands m strerror other ws rds [] c = Inr (Some [])"
| "redisCommands m strerror other ws rds ((format, args) # cmds) c =
     bind_res (redisCommand m strerror other ws rds format args c) (\<lambda>o1.
       case o1 of
         None \<Rightarrow> Inr None
       | Some res \<Rightarrow>
           bind_res (redisCommands m strerror other (cr_writes res) (cr_reads res) cmds (cr_ctx res)) (\<lambda>o2.
             Inr (map_option ((#) res) o2)))"

definition written :: "piece list \<Rightarrow> char list \<times> c_arg list" where
  "written ps = (concat (map piece_fmt ps) @ [NUL], concat (map piece_args ps))"

lemma broken_contexts:
  assumes "rc_err c \<noteq> 0" "rc_reader c = Some r" "rd_err r = 0" "rd_len r = 0" "rc_obuf c = Some s" "sds_wf s"
    and "list_all (list_all piece_ok) later" "\<forall>n. mem_ok m n"
    and "2 * length (sds_str s @ concat (map (\<lambda>ps. command (words ps [] False)) later)) \<le> 2147483647"
  shows "\<exists>results. redisCommands m strerror other ws rds (map written later) c = Inr (Some results) \<and> length results = length later \<and>
    (\<forall>res \<in> set results. cr_reply res = None \<and> cr_sent res = [] \<and> cr_writes res = ws \<and> cr_reads res = rds \<and>
       rc_err (cr_ctx res) = rc_err c \<and> rc_errstr (cr_ctx res) = rc_errstr c)"
  using assms
proof (induction later arbitrary: c s)
  case (Cons ps later)
  have "2 * length (sds_str s @ command (words ps [] False)) \<le> 2147483647" "list_all piece_ok ps" using Cons.prems(7,9) by simp_all
  from broken_context [OF Cons.prems(1-6) this(2,1) Cons.prems(8), of strerror other ws rds] obtain res s' where
    res: "redisCommand m strerror other ws rds (concat (map piece_fmt ps) @ [NUL]) (concat (map piece_args ps)) c = Inr (Some res)"
      "cr_reply res = None" "cr_sent res = []" "cr_writes res = ws" "cr_reads res = rds" "cr_ctx res = c\<lparr>rc_obuf := Some s'\<rparr>"
      "sds_wf s'" "sds_str s' = sds_str s @ command (words ps [] False)" by blast
  have "\<exists>results. redisCommands m strerror other ws rds (map written later) (cr_ctx res) = Inr (Some results) \<and> length results = length later \<and>
    (\<forall>res2 \<in> set results. cr_reply res2 = None \<and> cr_sent res2 = [] \<and> cr_writes res2 = ws \<and> cr_reads res2 = rds \<and>
       rc_err (cr_ctx res2) = rc_err (cr_ctx res) \<and> rc_errstr (cr_ctx res2) = rc_errstr (cr_ctx res))"
    by (rule Cons.IH [of _ s']) (use Cons.prems res(6-8) in simp_all)
  then obtain results where "redisCommands m strerror other ws rds (map written later) (cr_ctx res) = Inr (Some results)"
    "length results = length later" "\<forall>res2 \<in> set results. cr_reply res2 = None \<and> cr_sent res2 = [] \<and> cr_writes res2 = ws \<and> cr_reads res2 = rds \<and>
       rc_err (cr_ctx res2) = rc_err c \<and> rc_errstr (cr_ctx res2) = rc_errstr c" by (auto simp: res(6))
  then show ?case using res(1-6) by (intro exI [of _ "res # results"]) (simp add: written_def [of ps])
qed simp



end
