(* ===== verification/Sds_Text.thy ===== *)
theory Sds_Text
  imports Reader "HOL-Library.Sublist"
begin

text \<open>
  The functions of \<^verbatim>\<open>src/src/deps/hiredis/sds.c\<close> that treat a dynamic string as text: case mapping,
  comparison, splitting, decimal numbers, and the quoted form that \<^verbatim>\<open>sdscatrepr\<close> writes and
  \<^verbatim>\<open>sdssplitargs\<close> reads.
\<close>

section \<open>Characters\<close>

definition tolower :: "char \<Rightarrow> char" where
  "tolower c = (if 65 \<le> (of_char c :: nat) \<and> (of_char c :: nat) \<le> 90 then char_of (of_char c + 32 :: nat) else c)"

definition toupper :: "char \<Rightarrow> char" where
  "toupper c = (if 97 \<le> (of_char c :: nat) \<and> (of_char c :: nat) \<le> 122 then char_of (of_char c - 32 :: nat) else c)"

definition isspace :: "char \<Rightarrow> bool" where
  "isspace c \<longleftrightarrow> c \<in> {CHR '' '', CHR 0x09, CHR 0x0A, CHR 0x0B, CHR 0x0C, CHR 0x0D}"

section \<open>Case and order\<close>

function case_loop :: "(char \<Rightarrow> char) \<Rightarrow> nat \<Rightarrow> nat \<Rightarrow> char list \<Rightarrow> char list res" where
  "case_loop f j len buf =
     (if j < len then bind_res (byte_at buf j) (\<lambda>c. case_loop f (j + 1) len (buf[j := f c])) else Inr buf)"
  by pat_completeness auto
termination
  by (relation "measure (\<lambda>(f, j, len, buf). len - j)") auto

declare case_loop.simps [simp del]

definition sdstolower :: "sds \<Rightarrow> sds res" where
  "sdstolower s = bind_res (case_loop tolower 0 (sdslen s) (sds_buf s)) (\<lambda>b. Inr (s\<lparr>sds_buf := b\<rparr>))"

definition sdstoupper :: "sds \<Rightarrow> sds res" where
  "sdstoupper s = bind_res (case_loop toupper 0 (sdslen s) (sds_buf s)) (\<lambda>b. Inr (s\<lparr>sds_buf := b\<rparr>))"

text \<open>\<^verbatim>\<open>memcmp\<close>: the difference of the first two bytes that differ.\<close>

fun memcmp :: "char list \<Rightarrow> char list \<Rightarrow> int" where
  "memcmp (x # xs) (y # ys) = (if x = y then memcmp xs ys else int (of_char x) - int (of_char y))"
| "memcmp _ _ = 0"

definition sdscmp :: "sds \<Rightarrow> sds \<Rightarrow> int res" where
  "sdscmp s1 s2 =
     (let l1 = sdslen s1; l2 = sdslen s2; minlen = (if l1 < l2 then l1 else l2) in
      bind_res (peek (sds_buf s1) 0 minlen) (\<lambda>a.
      bind_res (peek (sds_buf s2) 0 minlen) (\<lambda>b.
        Inr (if memcmp a b = 0 then i32 (int l1 - int l2) else memcmp a b))))"

section \<open>Splitting at a separator\<close>

text \<open>\<open>Inr None\<close> is the result NULL.\<close>

definition separator_at :: "char list \<Rightarrow> nat \<Rightarrow> char list \<Rightarrow> nat \<Rightarrow> bool res" where
  "separator_at s j sep seplen =
     bind_res (if seplen = 1 then bind_res (byte_at s j) (\<lambda>c. bind_res (byte_at sep 0) (\<lambda>d. Inr (c = d))) else Inr False) (\<lambda>one.
       if one then Inr True
       else bind_res (peek s j seplen) (\<lambda>a. bind_res (peek sep 0 seplen) (\<lambda>b. Inr (memcmp a b = 0))))"

text \<open>Storing a token in the vector of \<open>slots\<close> pointers.\<close>

definition add_token :: "cmem \<Rightarrow> char list \<Rightarrow> nat \<Rightarrow> nat \<Rightarrow> int \<Rightarrow> sds list \<Rightarrow> sds list option res" where
  "add_token m s start n slots tokens =
     check_res (int (length tokens) < slots) OutOfBounds
       (case sdsnewlen m (Some (drop start s)) n of
          Inl e \<Rightarrow> if e = OutOfMemory then Inr None else Inl e
        | Inr t \<Rightarrow> Inr (Some (tokens @ [t])))"

text \<open>The room that is made before a separator is looked for.\<close>

definition token_slots :: "cmem \<Rightarrow> int \<Rightarrow> nat \<Rightarrow> int option" where
  "token_slots m slots elements =
     (if slots < int elements + 2 then if mem_ok m (u64 (8 * i32 (slots * 2))) then Some (i32 (slots * 2)) else None
      else Some slots)"

text \<open>The length of the separator is \<open>Suc k\<close>.\<close>

function split_loop ::
    "cmem \<Rightarrow> char list \<Rightarrow> nat \<Rightarrow> char list \<Rightarrow> nat \<Rightarrow> nat \<Rightarrow> nat \<Rightarrow> int \<Rightarrow> sds list \<Rightarrow> (nat \<times> int \<times> sds list) option res" where
  "split_loop m s len sep k j start slots tokens =
     (if int j < int len - int k
      then
        (case token_slots m slots (length tokens) of
           None \<Rightarrow> Inr None
         | Some slots \<Rightarrow>
             bind_res (separator_at s j sep (Suc k)) (\<lambda>hit.
               if hit
               then bind_res (add_token m s start (j - start) slots tokens) (\<lambda>added.
                      case added of
                        None \<Rightarrow> Inr None
                      | Some tokens \<Rightarrow> split_loop m s len sep k (j + Suc k) (j + Suc k) slots tokens)
               else split_loop m s len sep k (j + 1) start slots tokens))
      else Inr (Some (start, slots, tokens)))"
  by pat_completeness auto
termination
  by (relation "measure (\<lambda>(m, s, len, sep, k, j, start, slots, tokens). len - j)") auto

declare split_loop.simps [simp del]

definition sdssplitlen :: "cmem \<Rightarrow> char list \<Rightarrow> int \<Rightarrow> char list \<Rightarrow> int \<Rightarrow> sds list option res" where
  "sdssplitlen m s len sep seplen =
     (if \<not> mem_ok m 40 then Inr None
      else if seplen < 1 \<or> len < 0 then Inr None
      else if len = 0 then Inr (Some [])
      else bind_res (split_loop m s (nat len) sep (nat seplen - 1) 0 0 5 []) (\<lambda>res.
        case res of
          None \<Rightarrow> Inr None
        | Some (start, slots, tokens) \<Rightarrow> add_token m s start (nat len - start) slots tokens))"

section \<open>Decimal numbers\<close>

text \<open>The digits are written backwards from the end of a buffer of 32 bytes; the result is the offset of the first.\<close>

function ll_digits :: "nat \<Rightarrow> int \<Rightarrow> char list \<Rightarrow> (int \<times> char list) res" where
  "ll_digits v p buf =
     check_res (0 \<le> p) OutOfBounds
       (bind_res (poke buf (nat p) [char_of (48 + v mod 10)]) (\<lambda>buf.
          if v div 10 \<noteq> 0 then ll_digits (v div 10) (p - 1) buf else Inr (p - 1, buf)))"
  by pat_completeness auto
termination
  by (relation "measure (\<lambda>(v, p, buf). v)") auto

declare ll_digits.simps [simp del]

definition sdsfromlonglong :: "cmem \<Rightarrow> int \<Rightarrow> sds res" where
  "sdsfromlonglong m value =
     bind_res (ll_digits (if value < 0 then u64 (i64 (- value)) else u64 value) 31 (map (mem_junk m) [0..<32])) (\<lambda>(p, buf).
     bind_res (if value < 0
                then check_res (0 \<le> p) OutOfBounds (bind_res (poke buf (nat p) ''-'') (\<lambda>buf. Inr (p - 1, buf)))
                else Inr (p, buf)) (\<lambda>(p, buf).
       sdsnewlen m (Some (drop (nat (p + 1)) buf)) (32 - nat (p + 1))))"

section \<open>Quoting\<close>

text \<open>One turn of the loop of \<^verbatim>\<open>sdscatrepr\<close>; the formatted appends go through \<^verbatim>\<open>vsnprintf\<close>.\<close>

definition cat_repr_char :: "cmem \<Rightarrow> char \<Rightarrow> sds \<Rightarrow> sds res" where
  "cat_repr_char m c s =
     (let b = CHR 0x5C in
      if c = b \<or> c = CHR 0x22 then sdscatvprintf m s [b, c]
      else if c = LF then sdscatlen m s [b, CHR ''n''] 2
      else if c = CR then sdscatlen m s [b, CHR ''r''] 2
      else if c = TAB then sdscatlen m s [b, CHR ''t''] 2
      else if c = CHR 0x07 then sdscatlen m s [b, CHR ''a''] 2
      else if c = CHR 0x08 then sdscatlen m s [b, CHR ''b''] 2
      else if isprint c then sdscatvprintf m s [c]
      else sdscatvprintf m s [b, CHR ''x'', hex_char (of_char c div 16), hex_char (of_char c mod 16)])"

definition sdscatrepr :: "cmem \<Rightarrow> sds \<Rightarrow> char list \<Rightarrow> nat \<Rightarrow> sds res" where
  "sdscatrepr m s p len =
     bind_res (sdscatlen m s [CHR 0x22] 1) (\<lambda>s.
     bind_res (peek p 0 len) (\<lambda>cs.
     bind_res (fold_res (cat_repr_char m) cs s) (\<lambda>s. sdscatlen m s [CHR 0x22] 1)))"

section \<open>Splitting a line into arguments\<close>

definition unescape :: "char \<Rightarrow> char" where
  "unescape c =
     (if c = CHR ''n'' then LF else if c = CHR ''r'' then CR else if c = CHR ''t'' then TAB
      else if c = CHR ''b'' then CHR 0x08 else if c = CHR ''a'' then CHR 0x07 else c)"

text \<open>Appending one byte to the current token; \<open>None\<close> is the jump to the label \<^verbatim>\<open>err\<close>.\<close>

definition cat_char :: "cmem \<Rightarrow> sds \<Rightarrow> char \<Rightarrow> sds option res" where
  "cat_char m cur c =
     (case sdscatlen m cur [c] 1 of
        Inr s \<Rightarrow> Inr (Some s)
      | Inl e \<Rightarrow> if e = OutOfMemory then Inr None else Inl e)"

text \<open>The loop that reads one token: the offset after it and its text.\<close>

function token_loop :: "cmem \<Rightarrow> char list \<Rightarrow> nat \<Rightarrow> bool \<Rightarrow> sds \<Rightarrow> (nat \<times> sds) option res" where
  "token_loop m line p inq cur =
     (case byte_at line p of
        Inl e \<Rightarrow> Inl e
      | Inr c \<Rightarrow>
          if inq
          then
            bind_res (if c = CHR 0x5C \<or> c = CHR 0x22 then byte_at line (p + 1) else Inr NUL) (\<lambda>d.
              if c = CHR 0x5C \<and> d \<noteq> NUL
              then bind_res (cat_char m cur (unescape d)) (\<lambda>r.
                     case r of None \<Rightarrow> Inr None | Some cur \<Rightarrow> token_loop m line (p + 2) True cur)
              else if c = CHR 0x22
              then if d \<noteq> NUL \<and> \<not> isspace d then Inr None else Inr (Some (p + 1, cur))
              else if c = NUL then Inr None
              else bind_res (cat_char m cur c) (\<lambda>r.
                     case r of None \<Rightarrow> Inr None | Some cur \<Rightarrow> token_loop m line (p + 1) True cur))
          else if c \<in> {CHR '' '', LF, CR, TAB, NUL} then Inr (Some (if c \<noteq> NUL then p + 1 else p, cur))
          else if c = CHR 0x22 then token_loop m line (p + 1) True cur
          else bind_res (cat_char m cur c) (\<lambda>r.
                 case r of None \<Rightarrow> Inr None | Some cur \<Rightarrow> token_loop m line (p + 1) False cur))"
  by pat_completeness auto
termination
  by (relation "measure (\<lambda>(m, line, p, inq, cur). length line - p)") (auto simp: byte_at_def split: if_splits)

declare token_loop.simps [simp del]

fun skip_blanks :: "char list \<Rightarrow> nat \<Rightarrow> nat res" where
  "skip_blanks [] i = Inl OutOfBounds"
| "skip_blanks (c # cs) i = (if c \<noteq> NUL \<and> isspace c then skip_blanks cs (Suc i) else Inr i)"

lemma skip_blanks_ge: "skip_blanks cs i = Inr q \<Longrightarrow> i \<le> q"
proof (induction cs arbitrary: i)
  case (Cons c cs)
  show ?case using Cons.IH [of "Suc i"] Cons.prems by (auto split: if_splits)
qed simp

lemma token_loop_ge:
  "token_loop m line p inq cur = Inr (Some (q, s)) \<Longrightarrow> p \<le> q \<and> (p < length line \<and> line ! p \<noteq> NUL \<longrightarrow> p < q)"
proof (induction "length line - p" arbitrary: p inq cur rule: less_induct)
  case less
  have "q \<ge> p + k" if "token_loop m line (p + k) inq' cur' = Inr (Some (q, s))" "k > 0" "p < length line" for k inq' cur'
    using less.hyps [of "p + k" inq' cur'] that by simp
  note IH = this [of 1] this [of 2]
  show ?case using less.prems IH
    by (subst (asm) token_loop.simps)
      (fastforce simp: byte_at_def bind_res_Inr split: if_splits option.splits)
qed

function splitargs_loop :: "cmem \<Rightarrow> char list \<Rightarrow> nat \<Rightarrow> sds list \<Rightarrow> sds list option res" where
  "splitargs_loop m line p vector =
     (case skip_blanks (drop p line) p of
        Inl e \<Rightarrow> Inl e
      | Inr p \<Rightarrow>
          (case byte_at line p of
             Inl e \<Rightarrow> Inl e
           | Inr c \<Rightarrow>
               if c \<noteq> NUL
               then
                 (case sdsempty m of
                    Inl e \<Rightarrow> if e = OutOfMemory then Inr None else Inl e
                  | Inr cur \<Rightarrow>
                      (case token_loop m line p False cur of
                         Inl e \<Rightarrow> Inl e
                       | Inr None \<Rightarrow> Inr None
                       | Inr (Some (p, current)) \<Rightarrow>
                           if mem_ok m (8 * (length vector + 1)) then splitargs_loop m line p (vector @ [current]) else Inr None))
               else Inr (Some vector)))"
  by pat_completeness auto
termination
  by (relation "measure (\<lambda>(m, line, p, vector). length line - p)")
    (auto simp: byte_at_def split: if_splits dest!: skip_blanks_ge token_loop_ge)

declare splitargs_loop.simps [simp del]

text \<open>
  \<^verbatim>\<open>sdssplitargs\<close>: the value of \<^verbatim>\<open>*argc\<close> and the vector.  A line without arguments gives NULL and the
  count 0; the loop that frees the tokens after an error leaves the count at -1.
\<close>

definition sdssplitargs :: "cmem \<Rightarrow> char list \<Rightarrow> (int \<times> sds list option) res" where
  "sdssplitargs m line =
     bind_res (splitargs_loop m line 0 []) (\<lambda>res.
       case res of
         None \<Rightarrow> Inr (-1, None)
       | Some vector \<Rightarrow> Inr (int (length vector), if vector = [] then None else Some vector))"

end
