(* ===== verification/Sds_Text_Props.thy ===== *)
theory Sds_Text_Props
  imports Sds_Text Reader_Safe
begin

text \<open>
  What the text functions on dynamic strings compute: lexicographic order, a splitting that can be
  joined again, decimal notation, and what quoted arguments are read back as.
\<close>

section \<open>Case and order\<close>

lemma case_loop_eq:
  "j \<le> len \<Longrightarrow> len \<le> length buf \<Longrightarrow>
    case_loop f j len buf = Inr (take j buf @ map f (drop j (take len buf)) @ drop len buf)"
proof (induction "len - j" arbitrary: j buf)
  case 0
  then show ?case by (subst case_loop.simps) simp
next
  case (Suc n)
  then have j: "j < len" "j < length buf" by simp_all
  have "case_loop f (j + 1) len (buf[j := f (buf ! j)]) =
      Inr (take (j + 1) (buf[j := f (buf ! j)]) @ map f (drop (j + 1) (take len (buf[j := f (buf ! j)]))) @ drop len (buf[j := f (buf ! j)]))"
    using Suc by (intro Suc.hyps(1)) simp_all
  moreover have "drop j (take len buf) = buf ! j # drop (j + 1) (take len buf)"
    using j by (metis Cons_nth_drop_Suc Suc_eq_plus1 length_take min_less_iff_conj nth_take)
  ultimately show ?case using j
    by (subst case_loop.simps) (simp add: byte_at_def take_update_swap take_Suc_conv_app_nth drop_take list_update_append)
qed

lemma map_case_correct:
  assumes "sds_wf s"
  shows "\<exists>b. case_loop f 0 (sdslen s) (sds_buf s) = Inr b \<and> sds_wf (s\<lparr>sds_buf := b\<rparr>) \<and> sds_str (s\<lparr>sds_buf := b\<rparr>) = map f (sds_str s)"
proof -
  note D = sds_wfD [OF assms]
  let ?b = "map f (take (sdslen s) (sds_buf s)) @ drop (sdslen s) (sds_buf s)"
  have "case_loop f 0 (sdslen s) (sds_buf s) = Inr ?b" using case_loop_eq [of 0 "sdslen s" "sds_buf s" f] D(3) by simp
  moreover have "length ?b = length (sds_buf s)" "?b ! sdslen s = NUL" using D(3,4) by (simp_all add: nth_append)
  then have "sds_wf (s\<lparr>sds_buf := ?b\<rparr>)" using assms D(1) by (simp add: sds_wf_def)
  moreover have "sds_str (s\<lparr>sds_buf := ?b\<rparr>) = map f (sds_str s)" using D(3) by (simp add: sds_str_def sdslen_def)
  ultimately show ?thesis by blast
qed

text \<open>The order of strings by their bytes.\<close>

abbreviation byte_less :: "(char \<times> char) set" where
  "byte_less \<equiv> {(a, b). (of_char a :: nat) < of_char b}"

lemma memcmp_eq: "length a = length b \<Longrightarrow> memcmp a b = 0 \<longleftrightarrow> a = b"
  by (induction a b rule: memcmp.induct) auto

lemma memcmp_lexord:
  "memcmp (take (min (length a) (length b)) a) (take (min (length a) (length b)) b) \<noteq> 0 \<Longrightarrow>
    (memcmp (take (min (length a) (length b)) a) (take (min (length a) (length b)) b) < 0) \<longleftrightarrow> (a, b) \<in> lexord byte_less"
  by (induction a b rule: memcmp.induct) (auto split: if_splits)

lemma lexord_prefix:
  "take (min (length a) (length b)) a = take (min (length a) (length b)) b \<Longrightarrow> (a, b) \<in> lexord byte_less \<longleftrightarrow> length a < length b"
  by (induction a b rule: memcmp.induct) (auto simp: neq_Nil_conv)

lemma sdscmp_correct:
  assumes "sds_wf s1" "sds_wf s2"
  shows "\<exists>r. sdscmp s1 s2 = Inr r \<and> (r = 0 \<longleftrightarrow> sds_str s1 = sds_str s2) \<and> (r < 0 \<longleftrightarrow> (sds_str s1, sds_str s2) \<in> lexord byte_less)"
proof -
  note D1 = sds_wfD [OF assms(1)] and D2 = sds_wfD [OF assms(2)]
  let ?n = "min (length (sds_str s1)) (length (sds_str s2))"
  let ?a = "take ?n (sds_str s1)" and ?b = "take ?n (sds_str s2)"
  have n: "(if sdslen s1 < sdslen s2 then sdslen s1 else sdslen s2) = ?n" using D1(5) D2(5) by simp
  have "take ?n (sds_buf s1) = ?a" "take ?n (sds_buf s2) = ?b" by (simp_all add: sds_str_def min.assoc min.commute)
  moreover have "?n \<le> length (sds_buf s1)" "?n \<le> length (sds_buf s2)" using D1(3,5) D2(3,5) by linarith+
  ultimately have pk: "peek (sds_buf s1) 0 ?n = Inr ?a" "peek (sds_buf s2) 0 ?n = Inr ?b" by (simp_all add: peek_def)
  have "sdscmp s1 s2 = Inr (if memcmp ?a ?b = 0 then i32 (int (sdslen s1) - int (sdslen s2)) else memcmp ?a ?b)"
    unfolding sdscmp_def Let_def n using pk by simp
  moreover have "i32 (int (sdslen s1) - int (sdslen s2)) = int (length (sds_str s1)) - int (length (sds_str s2))"
    using D1(5,8) D2(5,8) by (simp add: i32_id)
  ultimately show ?thesis
    using memcmp_eq [of ?a ?b] memcmp_lexord [of "sds_str s1" "sds_str s2"] lexord_prefix [of "sds_str s1" "sds_str s2"]
    by (cases "?a = ?b") auto
qed

section \<open>Splitting at a separator\<close>

fun join_with :: "char list \<Rightarrow> char list list \<Rightarrow> char list" where
  "join_with sep [] = []"
| "join_with sep [t] = t"
| "join_with sep (t # ts) = t @ sep @ join_with sep ts"

lemma join_with_snoc: "join_with sep (ts @ [t]) = concat (map (\<lambda>x. x @ sep) ts) @ t"
  by (induction sep ts rule: join_with.induct) simp_all

lemma separator_at_eq:
  assumes "j + Suc k \<le> len" "len \<le> length s" "Suc k \<le> length sep"
  shows "separator_at s j sep (Suc k) = Inr (prefix (take (Suc k) sep) (drop j (take len s)))"
proof -
  let ?a = "take (Suc k) (drop j s)" and ?b = "take (Suc k) sep"
  have l: "length ?a = Suc k" "length ?b = Suc k" using assms by simp_all
  have "prefix ?b (drop j (take len s)) \<longleftrightarrow> take (Suc k) (drop j (take len s)) = ?b"
    using l(2) by (metis append_eq_conv_conj prefix_def take_is_prefix)
  also have "take (Suc k) (drop j (take len s)) = ?a" using assms by (simp add: drop_take min_absorb1)
  finally have p: "prefix ?b (drop j (take len s)) \<longleftrightarrow> ?a = ?b" .
  have "?a = ?b" if "k = 0" "s ! j = sep ! 0" using that assms by (cases sep) (simp_all add: take_Suc_conv_app_nth)
  moreover have "memcmp ?a ?b = 0 \<longleftrightarrow> ?a = ?b" using l by (simp add: memcmp_eq)
  moreover have "peek s j (Suc k) = Inr ?a" "peek sep 0 (Suc k) = Inr ?b" using assms by (simp_all add: peek_def)
  moreover have "byte_at s j = Inr (s ! j)" "byte_at sep 0 = Inr (sep ! 0)" using assms by (auto simp: byte_at_def)
  ultimately show ?thesis unfolding p by (auto simp: separator_at_def)
qed

lemma no_separator:
  assumes "\<forall>i. start \<le> i \<and> i < j \<longrightarrow> \<not> prefix sp (drop i S)" "sp \<noteq> []" "n \<le> j - start \<or> j + length sp > length S"
  shows "\<not> sublist sp (take n (drop start S))"
proof
  assume "sublist sp (take n (drop start S))"
  then obtain xs ys where e: "take n (drop start S) = xs @ sp @ ys" by (auto simp: sublist_def)
  then have "min (length S - start) n = length xs + (length sp + length ys)" by (metis length_append length_drop length_take)
  then have len: "length xs + length sp \<le> n" "length xs + length sp \<le> length S - start" by linarith+
  have "drop start S = xs @ sp @ ys @ drop n (drop start S)" using e by (metis append_assoc append_take_drop_id)
  then have "prefix sp (drop (length xs) (drop start S))" by simp
  then have "prefix sp (drop (start + length xs) S)" by (simp add: add.commute)
  moreover have "start + length xs < j" using assms(2,3) len by (cases sp) auto
  ultimately show False using assms(1) by simp
qed

lemma add_token_ok:
  assumes "\<forall>n. mem_ok m n" "start + n \<le> len" "len \<le> length s" "len \<le> 2147483647" "int (length tokens) < slots"
  shows "\<exists>t. add_token m s start n slots tokens = Inr (Some (tokens @ [t])) \<and> sds_wf t \<and> sds_str t = take n (drop start (take len s))"
proof -
  have "n \<le> 2147483647" "n \<le> length (drop start s)" using assms(2,3,4) by simp_all
  with sdsnewlen_yields [of n "Some (drop start s)" m] assms(1) obtain t where
    "sdsnewlen m (Some (drop start s)) n = Inr t" "sds_wf t" "sds_str t = take n (drop start s)"
    by (cases "sdsnewlen m (Some (drop start s)) n") (auto simp: yields_def)
  moreover have "take n (drop start (take len s)) = take n (drop start s)" using assms(2) by (simp add: drop_take min_absorb1)
  ultimately show ?thesis using assms(5) by (simp add: add_token_def check_res_def)
qed

text \<open>What the loop keeps: the tokens so far and the rest of the input make up the input.\<close>

definition split_inv :: "char list \<Rightarrow> char list \<Rightarrow> nat \<Rightarrow> nat \<Rightarrow> int \<Rightarrow> sds list \<Rightarrow> bool" where
  "split_inv S sp j start slots tokens \<longleftrightarrow> start \<le> j \<and> start \<le> length S \<and> length tokens \<le> j \<and>
     int (length tokens) < slots \<and> 5 \<le> slots \<and> list_all sds_wf tokens \<and>
     (\<forall>i. start \<le> i \<and> i < j \<longrightarrow> \<not> prefix sp (drop i S)) \<and> (\<forall>t \<in> set tokens. \<not> sublist sp (sds_str t)) \<and>
     concat (map (\<lambda>t. sds_str t @ sp) tokens) @ drop start S = S"

lemma split_loop_ok:
  assumes "\<forall>n. mem_ok m n" "len \<le> length s" "len \<le> 1073741820" "Suc k \<le> length sep" "S = take len s" "sp = take (Suc k) sep"
  shows "split_inv S sp j start slots tokens \<Longrightarrow>
    \<exists>start' slots' tokens' j'. split_loop m s len sep k j start slots tokens = Inr (Some (start', slots', tokens')) \<and>
      split_inv S sp j' start' slots' tokens' \<and> len < j' + length sp"
proof (induction "len - j" arbitrary: j start slots tokens rule: less_induct)
  case less
  have S: "length S = len" "length sp = Suc k" "sp \<noteq> []" using assms by auto
  show ?case
  proof (cases "int j < int len - int k")
    case False
    then have "split_loop m s len sep k j start slots tokens = Inr (Some (start, slots, tokens))" by (subst split_loop.simps) simp
    then show ?thesis using less.prems False S(2) by (intro exI conjI) (assumption, assumption, linarith)
  next
    case True
    then have j: "j + Suc k \<le> len" "j < len" by linarith+
    define slots2 where "slots2 = (if slots < int (length tokens) + 2 then slots * 2 else slots)"
    have i: "start \<le> j" "length tokens \<le> j" "int (length tokens) < slots" "5 \<le> slots" using less.prems by (simp_all add: split_inv_def)
    have "slots < int (length tokens) + 2 \<Longrightarrow> i32 (slots * 2) = slots * 2" using i j(2) assms(3) by (intro i32_id) linarith+
    then have ts: "token_slots m slots (length tokens) = Some slots2" using assms(1) by (simp add: token_slots_def slots2_def)
    have s2: "int (length tokens) + 1 < slots2" "5 \<le> slots2" using i(3,4) by (auto simp: slots2_def)
    note sep = separator_at_eq [OF j(1) assms(2,4), folded assms(5,6)]
    show ?thesis
    proof (cases "prefix sp (drop j S)")
      case False
      then have "split_inv S sp (j + 1) start slots2 tokens" using less.prems s2 j by (auto simp: split_inv_def less_Suc_eq)
      from less.hyps [OF _ this] j show ?thesis using True False sep ts by (subst split_loop.simps) simp
    next
      case hit: True
      have l: "start + (j - start) \<le> len" "len \<le> 2147483647" "int (length tokens) < slots2" using i(1) j assms(3) s2(1) by simp_all
      from add_token_ok [OF assms(1) l(1) assms(2) l(2,3)] obtain t where
        t: "add_token m s start (j - start) slots2 tokens = Inr (Some (tokens @ [t]))" "sds_wf t" "sds_str t = take (j - start) (drop start S)"
        using assms(5) by blast
      have nosep: "\<not> sublist sp (sds_str t)" unfolding t(3)
        by (rule no_separator [of start j]) (use less.prems S(3) in \<open>auto simp: split_inv_def\<close>)
      obtain z where z: "drop j S = sp @ z" using hit by (auto simp: prefix_def)
      then have "z = drop (j + Suc k) S" using S(2) by (metis add.commute append_eq_conv_conj drop_drop)
      then have "drop start S = sds_str t @ sp @ drop (j + Suc k) S"
        using z i(1) t(3) by (metis append_take_drop_id drop_drop le_add_diff_inverse2)
      then have "split_inv S sp (j + Suc k) (j + Suc k) slots2 (tokens @ [t])"
        using less.prems s2 t(2) nosep j S(1) by (auto simp: split_inv_def)
      from less.hyps [OF _ this] j show ?thesis using True hit sep ts t(1) by (subst split_loop.simps) simp
    qed
  qed
qed

lemma splitlen_correct:
  assumes "\<forall>n. mem_ok m n" "0 < len" "nat len \<le> length s" "len \<le> 1073741820" "1 \<le> seplen" "nat seplen \<le> length sep"
  shows "\<exists>tokens. sdssplitlen m s len sep seplen = Inr (Some tokens) \<and> list_all sds_wf tokens \<and>
    join_with (take (nat seplen) sep) (map sds_str tokens) = take (nat len) s \<and>
    (\<forall>t \<in> set tokens. \<not> sublist (take (nat seplen) sep) (sds_str t))"
proof -
  obtain k where k: "nat seplen = Suc k" using assms(5) by (cases "nat seplen") auto
  let ?S = "take (nat len) s" and ?sp = "take (Suc k) sep"
  have "split_inv ?S ?sp 0 0 5 []" "nat len \<le> 1073741820" using assms(4) by (simp_all add: split_inv_def)
  from split_loop_ok [OF assms(1,3) this(2) _ refl refl this(1)] assms(6) k obtain start slots tokens j where
    l: "split_loop m s (nat len) sep k 0 0 5 [] = Inr (Some (start, slots, tokens))" "split_inv ?S ?sp j start slots tokens"
      "nat len < j + length ?sp" by auto
  have i: "start + (nat len - start) \<le> nat len" "int (length tokens) < slots" "nat len \<le> 2147483647" "list_all sds_wf tokens"
    "\<forall>t \<in> set tokens. \<not> sublist ?sp (sds_str t)" "concat (map (\<lambda>t. sds_str t @ ?sp) tokens) @ drop start ?S = ?S"
    using l(2) assms(3,4) by (auto simp: split_inv_def)
  from add_token_ok [OF assms(1) i(1) assms(3) i(3,2)] obtain t where
    t: "add_token m s start (nat len - start) slots tokens = Inr (Some (tokens @ [t]))" "sds_wf t" "sds_str t = take (nat len - start) (drop start ?S)"
    by blast
  have "\<not> sublist ?sp (sds_str t)" unfolding t(3)
    by (rule no_separator [of start j]) (use l(2,3) assms(3,6) k in \<open>auto simp: split_inv_def\<close>)
  moreover have "sds_str t = drop start ?S" using t(3) by simp
  then have "join_with ?sp (map sds_str (tokens @ [t])) = ?S"
    using i(6) by (simp add: join_with_snoc comp_def)
  moreover have "sdssplitlen m s len sep seplen = Inr (Some (tokens @ [t]))"
    using assms(1,2,5) l(1) t(1) k by (simp add: sdssplitlen_def)
  ultimately show ?thesis using t(2) i(4,5) k by (intro exI [of _ "tokens @ [t]"]) auto
qed

section \<open>Decimal numbers\<close>

lemma dec_nat_length: "v < 10 ^ Suc n \<Longrightarrow> length (dec_nat v) \<le> Suc n"
proof (induction n arbitrary: v)
  case 0
  then show ?case by (simp add: dec_nat_eval(1))
next
  case (Suc n)
  show ?case
  proof (cases "v < 10")
    case False
    have "v div 10 < 10 ^ Suc n" using Suc.prems by (simp add: less_mult_imp_div_less)
    from Suc.IH [OF this] show ?thesis using False by (simp add: dec_nat_eval(2))
  qed (simp add: dec_nat_eval(1))
qed

lemma ll_digits_ok:
  "int (length (dec_nat v)) \<le> p + 1 \<Longrightarrow> nat p < length buf \<Longrightarrow>
    ll_digits v p buf = Inr (p - int (length (dec_nat v)), take (nat p + 1 - length (dec_nat v)) buf @ dec_nat v @ drop (nat p + 1) buf)"
proof (induction v p buf rule: ll_digits.induct)
  case (1 v p buf)
  have p: "0 \<le> p" using 1(2) dec_nat_nonempty [of v] by (cases "dec_nat v") auto
  let ?b = "take (nat p) buf @ [digit (v mod 10)] @ drop (nat p + 1) buf"
  have poke: "poke buf (nat p) [char_of (48 + v mod 10)] = Inr ?b" using 1(3) by (simp add: poke_def digit_def)
  show ?case
  proof (cases "v div 10 = 0")
    case True
    then have "v < 10" by simp
    then show ?thesis using poke p by (subst ll_digits.simps) (simp add: dec_nat_eval(1) check_res_def)
  next
    case False
    then have d: "dec_nat v = dec_nat (v div 10) @ [digit (v mod 10)]" by (simp add: dec_nat_eval(2))
    then have l: "int (length (dec_nat (v div 10))) \<le> p - 1 + 1" "nat (p - 1) < length ?b" using 1(2,3) p by simp_all
    have p1: "1 \<le> p" using l(1) dec_nat_nonempty [of "v div 10"] by (cases "dec_nat (v div 10)") auto
    then have np: "nat (p - 1) + 1 = nat p" by simp
    have "ll_digits (v div 10) (p - 1) ?b = Inr (p - 1 - int (length (dec_nat (v div 10))),
        take (nat (p - 1) + 1 - length (dec_nat (v div 10))) ?b @ dec_nat (v div 10) @ drop (nat (p - 1) + 1) ?b)"
      by (rule 1(1) [OF poke False l])
    then show ?thesis using False poke p d 1(3) unfolding np by (subst ll_digits.simps) (simp add: check_res_def)
  qed
qed

lemma fromlonglong_yields:
  assumes "-9223372036854775808 \<le> value" "value \<le> 9223372036854775807"
  shows "yields m (sdsfromlonglong m value) (\<lambda>s. sds_wf s \<and> sds_str s = dec_int value)"
proof -
  let ?v = "if value < 0 then u64 (i64 (- value)) else u64 value" and ?buf = "map (mem_junk m) [0..<32]"
  have "u64 (i64 (- value)) = nat ((- value) mod 18446744073709551616)" by (simp add: u64_def i64_def mod_simps)
  then have v: "?v = nat \<bar>value\<bar>" using assms by (simp add: u64_def)
  have "nat \<bar>value\<bar> < 10 ^ Suc 18" using assms by simp
  then have len: "length (dec_nat ?v) \<le> 19" using dec_nat_length [of ?v 18] v by simp
  define b where "b = take (32 - length (dec_nat ?v)) ?buf @ dec_nat ?v"
  have d: "ll_digits ?v 31 ?buf = Inr (31 - int (length (dec_nat ?v)), b)"
    using ll_digits_ok [of ?v 31 ?buf] len by (simp add: b_def)
  have lb: "length b = 32" using len by (simp add: b_def)
  have "length (dec_int value) \<le> 2147483647" using v len by (auto simp: dec_int_def split: if_splits)
  then have res: "yields m (sdsnewlen m (Some (dec_int value)) (length (dec_int value))) (\<lambda>s. sds_wf s \<and> sds_str s = dec_int value)"
    using sdsnewlen_yields [of "length (dec_int value)" "Some (dec_int value)" m] by (auto elim: yields_mono)
  show ?thesis
  proof (cases "value < 0")
    case True
    let ?p = "31 - length (dec_nat ?v)"
    have p: "nat (31 - int (length (dec_nat ?v))) = ?p" "0 \<le> 31 - int (length (dec_nat ?v))" using len by simp_all
    let ?b = "take ?p b @ ''-'' @ drop (?p + 1) b"
    have "poke b ?p ''-'' = Inr ?b" using lb len by (simp add: poke_def)
    moreover have "drop (?p + 1) b = dec_nat ?v" using len by (simp add: b_def Suc_diff_le)
    moreover have "nat (31 - int (length (dec_nat ?v)) - 1 + 1) = ?p" using p by simp
    ultimately have e: "sdsfromlonglong m value = sdsnewlen m (Some (drop ?p ?b)) (32 - ?p)"
      using d True p by (simp add: sdsfromlonglong_def check_res_def)
    have "drop ?p ?b = dec_int value" using lb True v \<open>drop (?p + 1) b = dec_nat ?v\<close> by (simp add: dec_int_def)
    moreover have "length (dec_int value) = 32 - ?p" using True v len by (simp add: dec_int_def)
    ultimately show ?thesis using e res by simp
  next
    case False
    let ?p = "32 - length (dec_nat ?v)"
    have "nat (31 - int (length (dec_nat ?v)) + 1) = ?p" using len by simp
    then have e: "sdsfromlonglong m value = sdsnewlen m (Some (drop ?p b)) (32 - ?p)"
      using d False by (simp add: sdsfromlonglong_def)
    have "drop ?p b = dec_int value" using False v len by (simp add: b_def dec_int_def)
    moreover have "length (dec_int value) = 32 - ?p" using False v len by (simp add: dec_int_def)
    ultimately show ?thesis using e res by simp
  qed
qed

section \<open>Quoting\<close>

definition quote_char :: "char \<Rightarrow> string" where
  "quote_char c =
     (let b = CHR 0x5C in
      if c = b \<or> c = CHR 0x22 then [b, c]
      else if c = LF then [b, CHR ''n''] else if c = CR then [b, CHR ''r''] else if c = TAB then [b, CHR ''t'']
      else if c = CHR 0x07 then [b, CHR ''a''] else if c = CHR 0x08 then [b, CHR ''b'']
      else if isprint c then [c] else [b, CHR ''x'', hex_char (of_char c div 16), hex_char (of_char c mod 16)])"

definition quoted :: "string \<Rightarrow> string" where
  "quoted a = CHR 0x22 # concat (map quote_char a) @ [CHR 0x22]"

lemma hex_char_not_special:
  assumes "d < 16"
  shows "hex_char d \<notin> {NUL, CHR 0x22, CHR 0x5C}"
proof -
  have "(of_char (hex_char d) :: nat) = (if d < 10 then 48 + d else 87 + d)" using assms by (simp add: hex_char_def of_char_of)
  then have "(of_char (hex_char d) :: nat) \<notin> of_char ` {NUL, CHR 0x22, CHR 0x5C}" using assms by (cases "d < 10") simp_all
  then show ?thesis by blast
qed

lemma hex_digits_of_char:
  fixes c :: char
  shows "hex_char (of_char c div 16) \<notin> {NUL, CHR 0x22, CHR 0x5C}" "hex_char (of_char c mod 16) \<notin> {NUL, CHR 0x22, CHR 0x5C}"
proof -
  have "(of_char c :: nat) < 256" by simp
  then have "(of_char c :: nat) div 16 < 16" by (intro less_mult_imp_div_less) simp
  then show "hex_char (of_char c div 16) \<notin> {NUL, CHR 0x22, CHR 0x5C}" "hex_char (of_char c mod 16) \<notin> {NUL, CHR 0x22, CHR 0x5C}"
    by (intro hex_char_not_special; simp)+
qed

lemma cat_repr_char_yields:
  assumes "sds_wf s" "sds_room s (length (quote_char c))"
  shows "yields m (cat_repr_char m c s) (\<lambda>s'. sds_wf s' \<and> sds_str s' = sds_str s @ quote_char c)"
proof -
  have "hex_char (of_char c div 16) \<noteq> NUL" "hex_char (of_char c mod 16) \<noteq> NUL" using hex_digits_of_char [of c] by simp_all
  moreover have "c \<noteq> NUL" if "isprint c" using that by (auto simp: isprint_def)
  ultimately have "c_str (quote_char c) = quote_char c" by (auto simp: quote_char_def c_str_def Let_def)
  moreover have "yields m (sdscatvprintf m s (quote_char c)) (\<lambda>s'. sds_wf s' \<and> sds_str s' = sds_str s @ c_str (quote_char c))"
    using assms calculation by (intro sdscatvprintf_yields) simp_all
  moreover have "yields m (sdscatlen m s (quote_char c) (length (quote_char c))) (\<lambda>s'. sds_wf s' \<and> sds_str s' = sds_str s @ quote_char c)"
    using sdscatlen_yields [OF assms order_refl, of m] by simp
  ultimately show ?thesis
    by (auto simp: cat_repr_char_def quote_char_def Let_def numeral_2_eq_2 split: if_splits)
qed

lemma repr_chars_yield:
  "sds_wf s \<Longrightarrow> sds_room s (length (concat (map quote_char cs))) \<Longrightarrow>
    yields m (fold_res (cat_repr_char m) cs s) (\<lambda>s'. sds_wf s' \<and> sds_str s' = sds_str s @ concat (map quote_char cs))"
proof (induction cs arbitrary: s)
  case (Cons c cs)
  have "sds_room s (length (quote_char c))" using Cons.prems(2) by (simp add: sds_room_def)
  note one = cat_repr_char_yields [OF Cons.prems(1) this, of m]
  have "yields m (fold_res (cat_repr_char m) cs s1) (\<lambda>s'. sds_wf s' \<and> sds_str s' = sds_str s @ concat (map quote_char (c # cs)))"
    if s1: "sds_wf s1 \<and> sds_str s1 = sds_str s @ quote_char c" for s1
  proof -
    have "sdslen s1 = sdslen s + length (quote_char c)" using s1 sds_wfD(5) [of s1] sds_wfD(5) [OF Cons.prems(1)] by simp
    then have "sds_room s1 (length (concat (map quote_char cs)))" using Cons.prems(2) by (simp add: sds_room_def)
    from Cons.IH [OF _ this] s1 show ?thesis by (auto elim: yields_mono)
  qed
  from yields_bind [OF one this] show ?case by simp
qed simp

lemma catrepr_yields:
  assumes "sds_wf s" "sds_room s (length (quoted cs))"
  shows "yields m (sdscatrepr m s cs (length cs)) (\<lambda>s'. sds_wf s' \<and> sds_str s' = sds_str s @ quoted cs)"
proof -
  let ?q = "[CHR 0x22]"
  note len = sds_wfD(5) [OF assms(1)]
  have "sds_room s 1" using assms(2) by (simp add: sds_room_def quoted_def)
  note one = sdscatlen_yields [OF assms(1) this, of ?q m]
  have close: "yields m (sdscatlen m s2 ?q 1) (\<lambda>s'. sds_wf s' \<and> sds_str s' = sds_str s @ quoted cs)"
    if "sds_wf s2 \<and> sds_str s2 = sds_str s @ CHR 0x22 # concat (map quote_char cs)" for s2
  proof -
    have "sds_room s2 1" using that assms(2) len sds_wfD(5) [of s2] by (simp add: sds_room_def quoted_def)
    from sdscatlen_yields [OF _ this, of ?q m] that show ?thesis by (auto elim: yields_mono simp: quoted_def)
  qed
  have mid: "yields m (fold_res (cat_repr_char m) cs s1) (\<lambda>s2. sds_wf s2 \<and> sds_str s2 = sds_str s @ CHR 0x22 # concat (map quote_char cs))"
    if s1: "sds_wf s1 \<and> sds_str s1 = sds_str s @ take 1 ?q" for s1
  proof -
    have "sds_room s1 (length (concat (map quote_char cs)))" using s1 assms(2) len sds_wfD(5) [of s1] by (simp add: sds_room_def quoted_def)
    from repr_chars_yield [OF _ this, of m] s1 show ?thesis by (auto elim: yields_mono)
  qed
  show ?thesis unfolding sdscatrepr_def using yields_bind [OF one yields_bind [OF mid close]] by (simp add: peek_def)
qed

section \<open>Reading quoted arguments\<close>

text \<open>
  The characters that have a quoted form which is read back.  The others are written as a backslash, an \<^verbatim>\<open>x\<close> and two
  digits, of which the reader takes the letters.
\<close>

definition plain :: "char \<Rightarrow> bool" where
  "plain c \<longleftrightarrow> isprint c \<or> c \<in> {LF, CR, TAB, CHR 0x07, CHR 0x08}"

definition reread :: "char \<Rightarrow> string" where
  "reread c = (if plain c then [c] else [CHR ''x'', hex_char (of_char c div 16), hex_char (of_char c mod 16)])"

lemma quote_char_cases:
  assumes "plain c"
  shows "(\<exists>e. quote_char c = [CHR 0x5C, e] \<and> e \<noteq> NUL \<and> unescape e = c) \<or>
    (quote_char c = [c] \<and> c \<noteq> CHR 0x5C \<and> c \<noteq> CHR 0x22 \<and> c \<noteq> NUL)"
  using assms by (auto simp: plain_def quote_char_def unescape_def isprint_def Let_def)

lemma quote_char_hex:
  assumes "\<not> plain c"
  shows "quote_char c = [CHR 0x5C, CHR ''x'', hex_char (of_char c div 16), hex_char (of_char c mod 16)]"
proof -
  have "plain (CHR 0x5C)" "plain (CHR 0x22)" by (simp_all add: plain_def isprint_def)
  with assms have "c \<noteq> CHR 0x5C" "c \<noteq> CHR 0x22" by blast+
  then show ?thesis using assms by (simp add: plain_def quote_char_def)
qed

lemma length_reread: "1 \<le> length (reread c)" "length (reread c) \<le> length (quote_char c)"
proof -
  have "1 \<le> length (quote_char c)" by (simp add: quote_char_def Let_def)
  then show "length (reread c) \<le> length (quote_char c)" by (cases "plain c") (simp_all add: reread_def quote_char_hex)
qed (simp add: reread_def)

lemma length_reread_all:
  "length (concat (map reread cs)) \<le> length (concat (map quote_char cs))" "length cs \<le> length (concat (map reread cs))"
proof (induction cs)
  case (Cons c cs)
  { case 1 show ?case using length_reread(2) [of c] Cons.IH(1) by simp }
  { case 2 show ?case using length_reread(1) [of c] Cons.IH(2) by simp }
qed simp_all

lemma reread_same: "concat (map reread cs) = cs \<longleftrightarrow> list_all plain cs"
proof (induction cs)
  case (Cons c cs)
  show ?case
  proof (cases "plain c")
    case True
    with Cons show ?thesis by (simp add: reread_def)
  next
    case False
    then have "length (concat (map reread (c # cs))) > length (c # cs)"
      using length_reread_all(2) [of cs] by (simp add: reread_def)
    then have "concat (map reread (c # cs)) \<noteq> c # cs" by (metis less_irrefl)
    with False show ?thesis by simp
  qed
qed simp

lemma cat_char_ok:
  assumes "\<forall>n. mem_ok m n" "sds_wf cur" "sds_room cur 1"
  shows "\<exists>s. cat_char m cur c = Inr (Some s) \<and> sds_wf s \<and> sds_str s = sds_str cur @ [c]"
  using sdscatlen_yields [OF assms(2,3), of "[c]" m] assms(1)
  by (cases "sdscatlen m cur [c] 1") (auto simp: cat_char_def yields_def)

text \<open>The two kinds of steps inside quotes: an escape, and any other character.\<close>

lemma token_escape:
  assumes "\<forall>n. mem_ok m n" "sds_wf cur" "sds_room cur 1" "e \<noteq> NUL"
  shows "\<exists>s. token_loop m (pre @ CHR 0x5C # e # rest) (length pre) True cur =
      token_loop m (pre @ CHR 0x5C # e # rest) (length pre + 2) True s \<and> sds_wf s \<and> sds_str s = sds_str cur @ [unescape e]"
proof -
  from cat_char_ok [OF assms(1-3), of "unescape e"] obtain s where
    "cat_char m cur (unescape e) = Inr (Some s)" "sds_wf s" "sds_str s = sds_str cur @ [unescape e]" by blast
  moreover have "byte_at (pre @ CHR 0x5C # e # rest) (length pre) = Inr (CHR 0x5C)" "byte_at (pre @ CHR 0x5C # e # rest) (length pre + 1) = Inr e"
    by (simp_all add: byte_at_def nth_append)
  ultimately show ?thesis using assms(4) by (intro exI [of _ s]) (subst token_loop.simps, simp)
qed

lemma token_letter:
  assumes "\<forall>n. mem_ok m n" "sds_wf cur" "sds_room cur 1" "c \<notin> {NUL, CHR 0x22, CHR 0x5C}"
  shows "\<exists>s. token_loop m (pre @ c # rest) (length pre) True cur = token_loop m (pre @ c # rest) (length pre + 1) True s \<and>
      sds_wf s \<and> sds_str s = sds_str cur @ [c]"
proof -
  from cat_char_ok [OF assms(1-3), of c] obtain s where
    "cat_char m cur c = Inr (Some s)" "sds_wf s" "sds_str s = sds_str cur @ [c]" by blast
  moreover have "byte_at (pre @ c # rest) (length pre) = Inr c" by (simp add: byte_at_def)
  ultimately show ?thesis using assms(4) by (intro exI [of _ s]) (subst token_loop.simps, simp)
qed

lemma room_after: "sds_wf s \<Longrightarrow> sds_wf t \<Longrightarrow> sds_str t = sds_str s @ xs \<Longrightarrow> sds_room s (length xs + n) \<Longrightarrow> sds_room t n"
  using sds_wfD(5) [of s] sds_wfD(5) [of t] by (simp add: sds_room_def)

lemma token_quote_char:
  assumes "\<forall>n. mem_ok m n" "sds_wf cur" "sds_room cur (length (reread c) + k)"
  shows "\<exists>s. token_loop m (pre @ quote_char c @ rest) (length pre) True cur =
      token_loop m (pre @ quote_char c @ rest) (length (pre @ quote_char c)) True s \<and> sds_wf s \<and> sds_str s = sds_str cur @ reread c"
proof (cases "plain c")
  case True
  have room: "sds_room cur 1" using assms(3) True by (simp add: reread_def sds_room_def)
  from quote_char_cases [OF True] show ?thesis
  proof (elim disjE exE conjE)
    fix e assume "quote_char c = [CHR 0x5C, e]" "e \<noteq> NUL" "unescape e = c"
    then show ?thesis using token_escape [OF assms(1,2) room, of e pre rest] True by (simp add: reread_def)
  next
    assume "quote_char c = [c]" "c \<noteq> CHR 0x5C" "c \<noteq> CHR 0x22" "c \<noteq> NUL"
    then show ?thesis using token_letter [OF assms(1,2) room, of c pre rest] True by (simp add: reread_def)
  qed
next
  case False
  define h l where "h = hex_char (of_char c div 16)" and "l = hex_char (of_char c mod 16)"
  have q: "quote_char c = [CHR 0x5C, CHR ''x'', h, l]" "reread c = [CHR ''x'', h, l]"
    using False quote_char_hex by (simp_all add: reread_def h_def l_def)
  note hl = hex_digits_of_char [of c, folded h_def l_def]
  have room: "sds_room cur (length ''x'' + (length [h] + 1))" using assms(3) by (simp add: q(2) sds_room_def)
  then have "sds_room cur 1" by (simp add: sds_room_def)
  from token_escape [OF assms(1,2) this, of "CHR ''x''" pre "h # l # rest"] obtain s1 where
    s1: "token_loop m (pre @ quote_char c @ rest) (length pre) True cur = token_loop m (pre @ quote_char c @ rest) (length pre + 2) True s1"
      "sds_wf s1" "sds_str s1 = sds_str cur @ ''x''" by (auto simp: q(1) unescape_def)
  have r1: "sds_room s1 (length [h] + 1)" using room_after [OF assms(2) s1(2,3) room] .
  then have "sds_room s1 1" by (simp add: sds_room_def)
  from token_letter [OF assms(1) s1(2) this hl(1), of "pre @ [CHR 0x5C, CHR ''x'']" "l # rest"] obtain s2 where
    s2: "token_loop m (pre @ quote_char c @ rest) (length pre + 2) True s1 = token_loop m (pre @ quote_char c @ rest) (length pre + 3) True s2"
      "sds_wf s2" "sds_str s2 = sds_str s1 @ [h]" by (auto simp: q(1) numeral_3_eq_3)
  have "sds_room s2 1" using room_after [OF s1(2) s2(2,3) r1] .
  from token_letter [OF assms(1) s2(2) this hl(2), of "pre @ [CHR 0x5C, CHR ''x'', h]" rest] obtain s3 where
    "token_loop m (pre @ quote_char c @ rest) (length pre + 3) True s2 = token_loop m (pre @ quote_char c @ rest) (length pre + 1 + 1 + 1 + 1) True s3"
      "sds_wf s3" "sds_str s3 = sds_str s2 @ [l]" by (auto simp: q(1) eval_nat_numeral)
  then show ?thesis using s1 s2 by (intro exI [of _ s3]) (simp add: q eval_nat_numeral)
qed

lemma token_quoted:
  assumes "\<forall>n. mem_ok m n" "d = NUL \<or> isspace d"
  shows "sds_wf cur \<Longrightarrow> sds_room cur (length (concat (map reread cs))) \<Longrightarrow>
    \<exists>cur'. token_loop m (pre @ concat (map quote_char cs) @ CHR 0x22 # d # rest) (length pre) True cur =
        Inr (Some (length pre + length (concat (map quote_char cs)) + 1, cur')) \<and> sds_wf cur' \<and> sds_str cur' = sds_str cur @ concat (map reread cs)"
proof (induction cs arbitrary: pre cur)
  case Nil
  then show ?case using assms(2) by (intro exI [of _ cur]) (subst token_loop.simps, auto simp: byte_at_def nth_append)
next
  case (Cons c cs)
  let ?rest = "concat (map quote_char cs) @ CHR 0x22 # d # rest"
  have room: "sds_room cur (length (reread c) + length (concat (map reread cs)))" using Cons.prems(2) by simp
  from token_quote_char [OF assms(1) Cons.prems(1) room, of pre ?rest] obtain cur1 where
    cur1: "token_loop m (pre @ quote_char c @ ?rest) (length pre) True cur =
      token_loop m (pre @ quote_char c @ ?rest) (length (pre @ quote_char c)) True cur1" "sds_wf cur1" "sds_str cur1 = sds_str cur @ reread c" by blast
  from Cons.IH [OF cur1(2) room_after [OF Cons.prems(1) cur1(2,3) room], of "pre @ quote_char c"] obtain cur2 where
    "token_loop m (pre @ quote_char c @ ?rest) (length (pre @ quote_char c)) True cur1 =
        Inr (Some (length (pre @ quote_char c) + length (concat (map quote_char cs)) + 1, cur2))"
      "sds_wf cur2" "sds_str cur2 = sds_str cur @ concat (map reread (c # cs))" using cur1(3) by auto
  then show ?case using cur1(1) by (intro exI [of _ cur2]) simp
qed

text \<open>A line of quoted arguments, each after a space, and the bytes behind its terminator.\<close>

definition arg_line :: "string list \<Rightarrow> char list \<Rightarrow> char list" where
  "arg_line args slack = concat (map (\<lambda>a. CHR '' '' # quoted a) args) @ NUL # slack"

lemma splitargs_quoted:
  assumes "\<forall>n. mem_ok m n"
  shows "list_all (\<lambda>a. 2 * length (concat (map reread a)) \<le> 2147483647) args \<Longrightarrow>
    \<exists>toks. splitargs_loop m (pre @ arg_line args slack) (length pre) vec = Inr (Some (vec @ toks)) \<and>
      map sds_str toks = map (\<lambda>a. concat (map reread a)) args \<and> list_all sds_wf toks"
proof (induction args arbitrary: pre vec)
  case Nil
  then show ?case
    by (intro exI [of _ "[]"]) (subst splitargs_loop.simps, simp add: arg_line_def byte_at_def nth_append)
next
  case (Cons a args)
  let ?line = "pre @ arg_line (a # args) slack" and ?q = "CHR 0x22"
  obtain d rest where d: "arg_line args slack = d # rest" "d = NUL \<or> isspace d"
    by (cases args) (auto simp: arg_line_def isspace_def)
  have line: "?line = (pre @ [CHR '' '', ?q]) @ concat (map quote_char a) @ ?q # d # rest"
    using d(1) by (simp add: arg_line_def quoted_def)
  have dr: "drop (length pre) ?line = CHR '' '' # ?q # concat (map quote_char a) @ ?q # d # rest" unfolding line by simp
  have sk: "skip_blanks (drop (length pre) ?line) (length pre) = Inr (length pre + 1)" unfolding dr by (simp add: isspace_def)
  have by1: "byte_at ?line (length pre + 1) = Inr ?q" unfolding line by (simp add: byte_at_def nth_append)
  obtain s0 where s0: "sdsempty m = Inr s0" "sds_wf s0" "sds_str s0 = []"
    using sdsempty_yields [of m] assms by (cases "sdsempty m") (auto simp: yields_def)
  then have "sds_room s0 (length (concat (map reread a)))" using Cons.prems sds_wfD(5) [OF s0(2)] by (simp add: sds_room_def)
  from token_quoted [OF assms d(2) s0(2) this, of "pre @ [CHR '' '', ?q]" rest] s0(3) obtain t where
    t: "token_loop m ?line (length pre + 2) True s0 = Inr (Some (length pre + 2 + length (concat (map quote_char a)) + 1, t))"
      "sds_wf t" "sds_str t = concat (map reread a)" unfolding line by auto
  have "token_loop m ?line (length pre + 1) False s0 = token_loop m ?line (length pre + 2) True s0"
    using by1 by (subst token_loop.simps) simp
  moreover have "length pre + 2 + length (concat (map quote_char a)) + 1 = length (pre @ CHR '' '' # quoted a)" by (simp add: quoted_def)
  ultimately have "token_loop m ?line (length pre + 1) False s0 = Inr (Some (length (pre @ CHR '' '' # quoted a), t))" using t(1) by metis
  then have step: "splitargs_loop m ?line (length pre) vec = splitargs_loop m ?line (length (pre @ CHR '' '' # quoted a)) (vec @ [t])"
    using sk by1 s0(1) assms by (subst splitargs_loop.simps) simp
  have "?line = (pre @ CHR '' '' # quoted a) @ arg_line args slack" by (simp add: arg_line_def)
  with Cons.IH [of "pre @ CHR '' '' # quoted a" "vec @ [t]"] Cons.prems obtain toks where
    "splitargs_loop m ?line (length (pre @ CHR '' '' # quoted a)) (vec @ [t]) = Inr (Some (vec @ [t] @ toks))"
    "map sds_str toks = map (\<lambda>a. concat (map reread a)) args" "list_all sds_wf toks" by auto
  then show ?case using step t(2,3) by (intro exI [of _ "t # toks"]) simp
qed

text \<open>Quoting a list of arguments with \<^verbatim>\<open>sdscatrepr\<close>.\<close>

definition repr_args :: "cmem \<Rightarrow> string list \<Rightarrow> sds \<Rightarrow> sds res" where
  "repr_args m args s = fold_res (\<lambda>a s. bind_res (sdscatlen m s '' '' 1) (\<lambda>s. sdscatrepr m s a (length a))) args s"

lemma repr_args_yields:
  "sds_wf s \<Longrightarrow> sds_room s (length (concat (map (\<lambda>a. CHR '' '' # quoted a) args))) \<Longrightarrow>
    yields m (repr_args m args s) (\<lambda>s'. sds_wf s' \<and> sds_str s' = sds_str s @ concat (map (\<lambda>a. CHR '' '' # quoted a) args))"
proof (induction args arbitrary: s)
  case (Cons a args)
  note len = sds_wfD(5) [OF Cons.prems(1)]
  have "sds_room s 1" using Cons.prems(2) by (simp add: sds_room_def)
  note one = sdscatlen_yields [OF Cons.prems(1) this, of "'' ''" m]
  have two: "yields m (sdscatrepr m s1 a (length a)) (\<lambda>s'. sds_wf s' \<and> sds_str s' = sds_str s @ CHR '' '' # quoted a)"
    if "sds_wf s1 \<and> sds_str s1 = sds_str s @ take 1 '' ''" for s1
  proof -
    have "sds_room s1 (length (quoted a))" using that Cons.prems(2) len sds_wfD(5) [of s1] by (simp add: sds_room_def)
    from catrepr_yields [OF _ this, of m] that show ?thesis by (auto elim: yields_mono)
  qed
  have three: "yields m (repr_args m args s2) (\<lambda>s'. sds_wf s' \<and> sds_str s' = sds_str s @ concat (map (\<lambda>a. CHR '' '' # quoted a) (a # args)))"
    if "sds_wf s2 \<and> sds_str s2 = sds_str s @ CHR '' '' # quoted a" for s2
  proof -
    have "sds_room s2 (length (concat (map (\<lambda>a. CHR '' '' # quoted a) args)))"
      using that Cons.prems(2) len sds_wfD(5) [of s2] by (simp add: sds_room_def)
    from Cons.IH [OF _ this] that show ?thesis by (auto elim: yields_mono)
  qed
  from yields_bind [OF yields_bind [OF one two] three] show ?case by (simp add: repr_args_def)
qed (simp add: repr_args_def)

section \<open>Safety of the line parser\<close>

text \<open>\<open>z\<close> is the offset of the terminator of the line.\<close>

definition line_end :: "char list \<Rightarrow> nat \<Rightarrow> bool" where
  "line_end line z \<longleftrightarrow> z < length line \<and> line ! z = NUL \<and> (\<forall>i < z. line ! i \<noteq> NUL)"

lemma line_end_at:
  assumes "line_end line z" "p \<le> z"
  shows "p < length line" "byte_at line p = Inr (line ! p)" "line ! p = NUL \<longleftrightarrow> p = z"
proof -
  show "p < length line" "byte_at line p = Inr (line ! p)" using assms by (simp_all add: line_end_def byte_at_def)
  show "line ! p = NUL \<longleftrightarrow> p = z" using assms by (cases "p = z") (simp_all add: line_end_def)
qed

lemma cat_char_cases:
  assumes "sds_wf cur" "sds_room cur 1"
  shows "cat_char m cur c = Inr None \<or> (\<exists>s. cat_char m cur c = Inr (Some s) \<and> sds_wf s \<and> sdslen s = sdslen cur + 1)"
proof (cases "sdscatlen m cur [c] 1")
  case (Inr s)
  then have "sds_wf s" "sds_str s = sds_str cur @ [c]" using sdscatlen_yields [OF assms, of "[c]" m] by (auto simp: yields_def)
  then have "sdslen s = sdslen cur + 1" using sds_wfD(5) [of s] sds_wfD(5) [OF assms(1)] by simp
  then show ?thesis using Inr \<open>sds_wf s\<close> by (simp add: cat_char_def)
next
  case (Inl e)
  then show ?thesis using sdscatlen_yields [OF assms, of "[c]" m] by (simp add: cat_char_def yields_def)
qed

definition token_ok :: "nat \<Rightarrow> (nat \<times> sds) option res \<Rightarrow> bool" where
  "token_ok z r \<longleftrightarrow> r = Inr None \<or> (\<exists>q s. r = Inr (Some (q, s)) \<and> q \<le> z \<and> sds_wf s)"

lemma token_loop_safe:
  assumes "line_end line z"
  shows "p \<le> z \<Longrightarrow> sds_wf cur \<Longrightarrow> sds_room cur (z - p) \<Longrightarrow>
    token_ok z (token_loop m line p inq cur)"
proof (induction "z - p" arbitrary: p inq cur rule: less_induct)
  case less
  let ?c = "line ! p"
  note z = line_end_at [OF assms less.prems(1)]
  show ?case
  proof (cases "?c = NUL")
    case True
    then show ?thesis using z less.prems(1,2) by (subst token_loop.simps) (auto simp: token_ok_def)
  next
    case False
    then have pz: "p < z" using z(3) less.prems(1) by auto
    then have d: "byte_at line (p + 1) = Inr (line ! (p + 1))" "line ! (p + 1) = NUL \<longleftrightarrow> p + 1 = z"
      using line_end_at [OF assms, of "p + 1"] by simp_all
    have "sds_room cur 1" using less.prems(3) pz by (simp add: sds_room_def)
    note cat = cat_char_cases [OF less.prems(2) this, of m]
    have go: "token_ok z (token_loop m line (p + k) inq' cur')"
      if "0 < k" "p + k \<le> z" "sds_wf cur'" "sdslen cur' \<le> sdslen cur + 1" for k inq' cur'
      using that less.prems(3) pz by (intro less.hyps) (auto simp: sds_room_def)
    have more: "token_ok z (bind_res (cat_char m cur c) (\<lambda>r. case r of None \<Rightarrow> Inr None | Some cur \<Rightarrow> token_loop m line (p + k) inq' cur))"
      if "0 < k" "p + k \<le> z" for c k inq'
      using cat [of c] go [OF that, of _ inq'] by (auto simp: token_ok_def [of _ "Inr None"])
    consider "inq" "?c = CHR 0x5C" "p + 1 \<noteq> z" | "inq" "?c = CHR 0x22" | "inq" "?c \<noteq> CHR 0x22" "?c = CHR 0x5C \<longrightarrow> p + 1 = z"
      | "\<not> inq" "?c \<in> {CHR '' '', LF, CR, TAB}" | "\<not> inq" "?c = CHR 0x22"
      | "\<not> inq" "?c \<noteq> CHR 0x22" "?c \<notin> {CHR '' '', LF, CR, TAB}" by blast
    then show ?thesis
    proof cases
      case 1
      then show ?thesis using more [of 2 "unescape (line ! (p + 1))" True] pz d z(2) by (subst token_loop.simps) simp
    next
      case 2
      then show ?thesis using z(2) d(1) pz less.prems(2) by (subst token_loop.simps) (auto simp: token_ok_def)
    next
      case 3
      then show ?thesis using more [of 1 ?c True] pz d z(2) False by (subst token_loop.simps) auto
    next
      case 4
      then show ?thesis using z(2) pz less.prems(2) False by (subst token_loop.simps) (auto simp: token_ok_def)
    next
      case 5
      then show ?thesis using z(2) pz go [of 1 cur True] less.prems(2) by (subst token_loop.simps) auto
    next
      case 6
      then show ?thesis using more [of 1 ?c False] pz z(2) False by (subst token_loop.simps) auto
    qed
  qed
qed

lemma skip_blanks_safe:
  assumes "line_end line z"
  shows "p \<le> z \<Longrightarrow> \<exists>q. skip_blanks (drop p line) p = Inr q \<and> p \<le> q \<and> q \<le> z"
proof (induction "z - p" arbitrary: p rule: less_induct)
  case less
  have p: "p < length line" "drop p line = line ! p # drop (Suc p) line"
    using assms less.prems by (simp_all add: line_end_def Cons_nth_drop_Suc)
  show ?case
  proof (cases "line ! p \<noteq> NUL \<and> isspace (line ! p)")
    case True
    then have "p < z" using assms less.prems by (auto simp: line_end_def le_less)
    then show ?thesis using less.hyps [of "Suc p"] True p(2) by fastforce
  next
    case False
    then show ?thesis using p(2) less.prems by auto
  qed
qed

lemma splitargs_safe:
  assumes "line_end line z" "2 * z \<le> 2147483647"
  shows "p \<le> z \<Longrightarrow> list_all sds_wf vec \<Longrightarrow>
    splitargs_loop m line p vec = Inr None \<or> (\<exists>toks. splitargs_loop m line p vec = Inr (Some toks) \<and> list_all sds_wf toks)"
proof (induction "z - p" arbitrary: p vec rule: less_induct)
  case less
  from skip_blanks_safe [OF assms(1) less.prems(1)] obtain q where q: "skip_blanks (drop p line) p = Inr q" "p \<le> q" "q \<le> z" by blast
  note b = line_end_at(2,3) [OF assms(1) q(3)]
  show ?case
  proof (cases "q = z")
    case True
    then show ?thesis using q(1) b less.prems(2) by (subst (1 2) splitargs_loop.simps) auto
  next
    case False
    show ?thesis
    proof (cases "sdsempty m")
      case (Inl e)
      then have "e = OutOfMemory" using sdsempty_yields [of m] by (simp add: yields_def)
      then show ?thesis using q(1) b False Inl by (subst splitargs_loop.simps) auto
    next
      case (Inr s0)
      then have "sds_wf s0" "sds_str s0 = []" using sdsempty_yields [of m] by (simp_all add: yields_def)
      then have "sds_wf s0" "sds_room s0 (z - q)" using assms(2) sds_wfD(5) [of s0] by (simp_all add: sds_room_def)
      from token_loop_safe [OF assms(1) q(3) this, of m False] show ?thesis unfolding token_ok_def
      proof (elim disjE exE conjE)
        assume "token_loop m line q False s0 = Inr None"
        then show ?thesis using q(1) b False Inr by (subst splitargs_loop.simps) auto
      next
        fix q' t assume t: "token_loop m line q False s0 = Inr (Some (q', t))" "q' \<le> z" "sds_wf t"
        have "q < q'" using token_loop_ge [OF t(1)] b False q(3) assms(1) by (auto simp: line_end_def)
        then have "splitargs_loop m line q' (vec @ [t]) = Inr None \<or>
            (\<exists>toks. splitargs_loop m line q' (vec @ [t]) = Inr (Some toks) \<and> list_all sds_wf toks)"
          using q(2) t(2,3) less.prems by (intro less.hyps) auto
        then show ?thesis using q(1) b False Inr t(1) by (subst (1 2) splitargs_loop.simps) auto
      qed
    qed
  qed
qed

section \<open>Properties\<close>

text \<open>
  C25: How quoted arguments are read back.  Quote any list of arguments, of any bytes: append to an empty
  string, for each argument, a space and what \<^verbatim>\<open>sdscatrepr\<close> makes of it.  Then \<^verbatim>\<open>sdssplitargs\<close> on the
  resulting string returns as many well-formed strings as there were arguments, and they are the arguments except that
  each byte which is neither printable nor one of the five control characters with an escape of their own has turned
  into an \<^verbatim>\<open>x\<close> and its two hexadecimal digits.  So the arguments are read back exactly when they have no such byte.
\<close>

theorem repr_splitargs_roundtrip:
  assumes "args \<noteq> []" "sdsempty m = Inr s0"
    and "2 * length (concat (map (\<lambda>a. CHR '' '' # quoted a) args)) \<le> 2147483647" "\<forall>n. mem_ok m n"
  shows "\<exists>s toks. repr_args m args s0 = Inr s \<and> sdssplitargs m (sds_buf s) = Inr (int (length args), Some toks) \<and>
    list_all sds_wf toks \<and> map sds_str toks = map (\<lambda>a. concat (map reread a)) args \<and>
    (map sds_str toks = args \<longleftrightarrow> list_all (list_all plain) args)"
proof -
  let ?text = "concat (map (\<lambda>a. CHR '' '' # quoted a) args)"
  have s0: "sds_wf s0" "sds_str s0 = []" using sdsempty_yields [of m] assms(2) by (simp_all add: yields_def)
  then have "sds_room s0 (length ?text)" using assms(3) sds_wfD(5) [of s0] by (simp add: sds_room_def)
  from repr_args_yields [OF s0(1) this, of m] assms(4) s0(2) obtain s where
    s: "repr_args m args s0 = Inr s" "sds_wf s" "sds_str s = ?text"
    by (cases "repr_args m args s0") (auto simp: yields_def)
  note D = sds_wfD [OF s(2)]
  have "drop (sdslen s) (sds_buf s) = NUL # drop (Suc (sdslen s)) (sds_buf s)" using D(3,4) by (metis Cons_nth_drop_Suc less_add_Suc1 Suc_eq_plus1)
  then have buf: "sds_buf s = arg_line args (drop (Suc (sdslen s)) (sds_buf s))"
    using s(3) by (metis append_take_drop_id arg_line_def sds_str_def)
  have "length (concat (map reread a)) \<le> length ?text" if "a \<in> set args" for a
  proof -
    have "length (concat (map reread a)) \<le> length (CHR '' '' # quoted a)" using length_reread_all(1) [of a] by (simp add: quoted_def)
    also have "\<dots> \<le> length ?text" using that by (auto simp: length_concat intro!: member_le_sum_list)
    finally show ?thesis .
  qed
  then have "list_all (\<lambda>a. 2 * length (concat (map reread a)) \<le> 2147483647) args" using assms(3) by (fastforce simp: list_all_iff)
  from splitargs_quoted [OF assms(4) this, of "[]" "drop (Suc (sdslen s)) (sds_buf s)" "[]"] obtain toks where
    t: "splitargs_loop m (sds_buf s) 0 [] = Inr (Some toks)" "map sds_str toks = map (\<lambda>a. concat (map reread a)) args" "list_all sds_wf toks"
    using buf by auto
  moreover have "toks \<noteq> []" "length toks = length args" using t(2) assms(1) map_eq_imp_length_eq [OF t(2)] by auto
  moreover have "map (\<lambda>a. concat (map reread a)) args = args \<longleftrightarrow> list_all (list_all plain) args"
    using reread_same by (induction args) simp_all
  ultimately show ?thesis using s(1) by (intro exI [of _ s] exI [of _ toks]) (simp add: sdssplitargs_def)
qed

lemma mem_all_sdsempty: "sdsempty mem_all = Inr \<lparr>sds_len = 0, sds_free = 0, sds_buf = [NUL]\<rparr>"
  by (simp add: sdsempty_def sdsnewlen_def malloc_def mem_all_def poke_def SDSHDR_def width_simps)

theorem repr_splitargs_roundtrip_witness:
  "\<exists>s toks. repr_args mem_all [''a b'', [CHR 0x22, LF], [CHR 0x01]] \<lparr>sds_len = 0, sds_free = 0, sds_buf = [NUL]\<rparr> = Inr s \<and>
    sdssplitargs mem_all (sds_buf s) = Inr (3, Some toks) \<and> map sds_str toks = [''a b'', [CHR 0x22, LF], ''x01''] \<and> list_all sds_wf toks"
proof -
  let ?args = "[''a b'', [CHR 0x22, LF], [CHR 0x01]]"
  have "length (concat (map (\<lambda>a. CHR '' '' # quoted a) ?args)) = 20" by code_simp
  moreover have "map (\<lambda>a. concat (map reread a)) ?args = [''a b'', [CHR 0x22, LF], ''x01'']" by code_simp
  moreover have "\<forall>n. mem_ok mem_all n" by (simp add: mem_all_def)
  ultimately obtain s toks where "repr_args mem_all ?args \<lparr>sds_len = 0, sds_free = 0, sds_buf = [NUL]\<rparr> = Inr s"
    "sdssplitargs mem_all (sds_buf s) = Inr (int (length ?args), Some toks)" "list_all sds_wf toks"
    "map sds_str toks = [''a b'', [CHR 0x22, LF], ''x01'']"
    using repr_splitargs_roundtrip [OF _ mem_all_sdsempty, of ?args] by (simp only:) force
  then show ?thesis by (intro exI [of _ s] exI [of _ toks]) simp
qed

text \<open>
  An instance, against the comment before \<^verbatim>\<open>sdssplitargs\<close>, which promises this escape.  \<^verbatim>\<open>sdscatrepr\<close> writes the byte 1 as a backslash and
  \<^verbatim>\<open>x01\<close>; \<^verbatim>\<open>sdssplitargs\<close> does not know this escape and returns the three letters.
\<close>

lemma splitargs_ignores_hex:
  "\<exists>s t. sdscatrepr mem_all \<lparr>sds_len = 0, sds_free = 0, sds_buf = [NUL]\<rparr> [CHR 0x01] 1 = Inr s \<and>
    sds_str s = [CHR 0x22, CHR 0x5C] @ ''x01'' @ [CHR 0x22] \<and> sdssplitargs mem_all (sds_str s @ [NUL]) = Inr (1, Some [t]) \<and> sds_str t = ''x01''"
proof -
  let ?s0 = "\<lparr>sds_len = 0, sds_free = 0, sds_buf = [NUL]\<rparr>" and ?q = "[CHR 0x22, CHR 0x5C] @ ''x01'' @ [CHR 0x22]"
  have q: "quoted [CHR 0x01] = ?q" by code_simp
  have s0: "sds_wf ?s0" "sds_str ?s0 = []" "sdslen ?s0 = 0" using sds_wfI [of ?s0 0 0] by simp_all
  then have "sds_room ?s0 (length (quoted [CHR 0x01]))" unfolding q by (simp add: sds_room_def)
  from catrepr_yields [OF s0(1) this, of mem_all] s0(2) obtain s where
    s: "sdscatrepr mem_all ?s0 [CHR 0x01] 1 = Inr s" "sds_str s = ?q"
    unfolding q by (cases "sdscatrepr mem_all ?s0 [CHR 0x01] 1") (auto simp: yields_def mem_all_def)
  have "case sdssplitargs mem_all (?q @ [NUL]) of Inr (n, Some [t]) \<Rightarrow> n = 1 \<and> sds_str t = ''x01'' | _ \<Rightarrow> False" by code_simp
  then obtain t where "sdssplitargs mem_all (?q @ [NUL]) = Inr (1, Some [t])" "sds_str t = ''x01''"
    by (simp split: sum.split_asm prod.split_asm option.split_asm list.split_asm)
  then show ?thesis using s by (intro exI [of _ s] exI [of _ t]) simp
qed

text \<open>
  Splitting at a separator.  \<^verbatim>\<open>sdssplitlen\<close> on a non-empty string returns well-formed strings that,
  joined with the separator, are the input; none of them contains the separator.
\<close>

lemma sdssplitlen_joins:
  assumes "0 < len" "nat len \<le> length s" "len \<le> 1073741820" "1 \<le> seplen" "nat seplen \<le> length sep" "\<forall>n. mem_ok m n"
  shows "\<exists>tokens. sdssplitlen m s len sep seplen = Inr (Some tokens) \<and> list_all sds_wf tokens \<and>
    join_with (take (nat seplen) sep) (map sds_str tokens) = take (nat len) s \<and>
    (\<forall>t \<in> set tokens. \<not> sublist (take (nat seplen) sep) (sds_str t))"
  using splitlen_correct [OF assms(6,1-5)] .

text \<open>
  Decimal notation.  For every value of the type \<^verbatim>\<open>long long\<close>, the least one included,
  \<^verbatim>\<open>sdsfromlonglong\<close> returns its decimal notation, without leaving its buffer, or reports
  exhausted memory.
\<close>

lemma sdsfromlonglong_decimal:
  assumes "-9223372036854775808 \<le> value" "value \<le> 9223372036854775807"
  shows "yields m (sdsfromlonglong m value) (\<lambda>s. sds_wf s \<and> sds_str s = dec_int value)"
  using assms by (rule fromlonglong_yields)

text \<open>
  C35: The line parser is well-behaved on any line.  Whatever the bytes of a terminated line are and
  whatever allocations fail, \<^verbatim>\<open>sdssplitargs\<close> returns without reading outside the line: either a vector of
  well-formed strings with their number, or NULL with the count 0 for a line without arguments and
  with the count -1 for an error.
\<close>

theorem sdssplitargs_wellformed:
  assumes "line_end line z" "2 * z \<le> 2147483647"
  shows "(\<exists>toks. sdssplitargs m line = Inr (int (length toks), Some toks) \<and> toks \<noteq> [] \<and> list_all sds_wf toks) \<or>
    sdssplitargs m line = Inr (0, None) \<or> sdssplitargs m line = Inr (-1, None)"
  using splitargs_safe [OF assms, of 0 "[]" m] by (auto simp: sdssplitargs_def)

theorem sdssplitargs_wellformed_witness:
  "(\<exists>toks. sdssplitargs mem_all ([CHR 0x22] @ ''a b'' @ [NUL]) = Inr (int (length toks), Some toks) \<and> toks \<noteq> [] \<and> list_all sds_wf toks) \<or>
    sdssplitargs mem_all ([CHR 0x22] @ ''a b'' @ [NUL]) = Inr (0, None) \<or> sdssplitargs mem_all ([CHR 0x22] @ ''a b'' @ [NUL]) = Inr (-1, None)"
proof -
  have "line_end ([CHR 0x22] @ ''a b'' @ [NUL]) 4" by (auto simp: line_end_def less_Suc_eq numeral_eq_Suc)
  from sdssplitargs_wellformed [OF this, of mem_all] show ?thesis by simp
qed

end
