(* ===== verification/Sds_Selftest.thy ===== *)
theory Sds_Selftest
  imports Sds_Text_Props
begin

text \<open>
  The self test at the end of \<^verbatim>\<open>sds.c\<close>, a \<^verbatim>\<open>main\<close> that runs the string functions one after the other and compares
  their results with literals.  The model runs the same calls on the modelled functions.
\<close>

section \<open>The test program\<close>

text \<open>The counters \<^verbatim>\<open>__test_num\<close> and \<^verbatim>\<open>__failed_tests\<close>.\<close>

type_synonym tests = "nat \<times> nat"

definition test_cond :: "bool \<Rightarrow> tests \<Rightarrow> tests" where
  "test_cond c t = (fst t + 1, if c then snd t else snd t + 1)"

text \<open>\<^verbatim>\<open>sdslen(x) == n && memcmp(x,lit,k) == 0\<close>; the literal has a terminator of its own.\<close>

definition text_is :: "sds \<Rightarrow> nat \<Rightarrow> char list \<Rightarrow> nat \<Rightarrow> bool res" where
  "text_is x n lit k =
     (if sdslen x = n
      then bind_res (peek (sds_buf x) 0 k) (\<lambda>a. bind_res (peek (lit @ [NUL]) 0 k) (\<lambda>b. Inr (memcmp a b = 0)))
      else Inr False)"

definition test_text :: "sds \<Rightarrow> nat \<Rightarrow> char list \<Rightarrow> nat \<Rightarrow> tests \<Rightarrow> tests res" where
  "test_text x n lit k t = bind_res (text_is x n lit k) (\<lambda>c. Inr (test_cond c t))"

text \<open>\<^verbatim>\<open>test_cond(..., sdscmp(x,y) > 0)\<close> and so on.\<close>

definition test_cmp :: "(int \<Rightarrow> bool) \<Rightarrow> sds \<Rightarrow> sds \<Rightarrow> tests \<Rightarrow> tests res" where
  "test_cmp P x y t = bind_res (sdscmp x y) (\<lambda>r. Inr (test_cond (P r) t))"

text \<open>\<open>y = sdsrange(sdsdup(x),a,b)\<close> and its test.\<close>

definition test_range :: "cmem \<Rightarrow> sds \<Rightarrow> int \<Rightarrow> int \<Rightarrow> nat \<Rightarrow> char list \<Rightarrow> nat \<Rightarrow> tests \<Rightarrow> tests res" where
  "test_range m x a b n lit k t =
     bind_res (sdsdup m x) (\<lambda>y. bind_res (sdsrange y a b) (\<lambda>y. test_text y n lit k t))"

definition sds_test_main :: "cmem \<Rightarrow> tests res" where
  "sds_test_main m =
     bind_res (sdsnew m (Some (''foo'' @ [NUL]))) (\<lambda>x.
     bind_res (test_text x 3 (''foo'' @ [NUL]) 4 (0, 0)) (\<lambda>t.
     bind_res (sdsnewlen m (Some (''foo'' @ [NUL])) 2) (\<lambda>x.
     bind_res (test_text x 2 (''fo'' @ [NUL]) 3 t) (\<lambda>t.
     bind_res (sdscat m x (''bar'' @ [NUL])) (\<lambda>x.
     bind_res (test_text x 5 (''fobar'' @ [NUL]) 6 t) (\<lambda>t.
     bind_res (sdscpy m x (''a'' @ [NUL])) (\<lambda>x.
     bind_res (test_text x 1 (''a'' @ [NUL]) 2 t) (\<lambda>t.
     bind_res (sdscpy m x (''xyzxxxxxxxxxxyyyyyyyyyykkkkkkkkkk'' @ [NUL])) (\<lambda>x.
     bind_res (test_text x 33 (''xyzxxxxxxxxxxyyyyyyyyyykkkkkkkkkk'' @ [NUL]) 33 t) (\<lambda>t.
     bind_res (sdsempty m) (\<lambda>x.
     bind_res (sdscatvprintf m x (dec_int 123)) (\<lambda>x.
     bind_res (test_text x 3 (''123'' @ [NUL]) 4 t) (\<lambda>t.
     bind_res (sdsnew m (Some (''xxciaoyyy'' @ [NUL]))) (\<lambda>x.
     bind_res (sdstrim x (''xy'' @ [NUL])) (\<lambda>x.
     bind_res (test_text x 4 (''ciao'' @ [NUL]) 5 t) (\<lambda>t.
     bind_res (test_range m x 1 1 1 (''i'' @ [NUL]) 2 t) (\<lambda>t.
     bind_res (test_range m x 1 (- 1) 3 (''iao'' @ [NUL]) 4 t) (\<lambda>t.
     bind_res (test_range m x (- 2) (- 1) 2 (''ao'' @ [NUL]) 3 t) (\<lambda>t.
     bind_res (test_range m x 2 1 0 [NUL] 1 t) (\<lambda>t.
     bind_res (test_range m x 1 100 3 (''iao'' @ [NUL]) 4 t) (\<lambda>t.
     bind_res (test_range m x 100 100 0 [NUL] 1 t) (\<lambda>t.
     bind_res (sdsnew m (Some (''foo'' @ [NUL]))) (\<lambda>x.
     bind_res (sdsnew m (Some (''foa'' @ [NUL]))) (\<lambda>y.
     bind_res (test_cmp (\<lambda>r. r > 0) x y t) (\<lambda>t.
     bind_res (sdsnew m (Some (''bar'' @ [NUL]))) (\<lambda>x.
     bind_res (sdsnew m (Some (''bar'' @ [NUL]))) (\<lambda>y.
     bind_res (test_cmp (\<lambda>r. r = 0) x y t) (\<lambda>t.
     bind_res (sdsnew m (Some (''aar'' @ [NUL]))) (\<lambda>x.
     bind_res (sdsnew m (Some (''bar'' @ [NUL]))) (\<lambda>y.
     test_cmp (\<lambda>r. r < 0) x y t))))))))))))))))))))))))))))))"

section \<open>It passes\<close>

text \<open>Every call is described by what it leaves in a well-formed string.\<close>

definition holds_text :: "char list \<Rightarrow> sds \<Rightarrow> bool" where
  "holds_text s x \<longleftrightarrow> sds_wf x \<and> sds_str x = s"

lemma new_yields: "length s \<le> 2147483647 \<Longrightarrow> NUL \<notin> set s \<Longrightarrow> yields m (sdsnew m (Some (s @ [NUL]))) (holds_text s)"
  using sdsnewlen_yields [of "length s" "Some (s @ [NUL])" m] yields_mono
  by (fastforce simp: sdsnew_def no_nul_def holds_text_def)

lemma newlen_yields: "n \<le> 2147483647 \<Longrightarrow> n \<le> length s \<Longrightarrow> yields m (sdsnewlen m (Some s) n) (holds_text (take n s))"
  by (rule yields_mono [OF sdsnewlen_yields]) (simp_all add: holds_text_def)

lemma empty_yields: "yields m (sdsempty m) (holds_text [])"
  by (rule yields_mono [OF sdsempty_yields]) (simp add: holds_text_def)

lemma holds_room: "holds_text s x \<Longrightarrow> 2 * (length s + n) \<le> 2147483647 \<Longrightarrow> sds_room x n"
  using sds_wfD(5) [of x] by (auto simp: holds_text_def sds_room_def)

lemma cat_yields:
  assumes "holds_text s x" "NUL \<notin> set t" "2 * (length s + length t) \<le> 2147483647"
  shows "yields m (sdscat m x (t @ [NUL])) (holds_text (s @ t))"
  using assms holds_room [OF assms(1), of "length t"] yields_mono [OF sdscatlen_yields [of x "length t" "t @ [NUL]" m], where Q = "holds_text (s @ t)"]
  by (simp add: sdscat_def no_nul_def holds_text_def)

lemma cpy_yields:
  assumes "holds_text s x" "NUL \<notin> set t" "2 * length t \<le> 2147483647"
  shows "yields m (sdscpy m x (t @ [NUL])) (holds_text t)"
  using assms yields_mono [OF sdscpylen_yields [of x "length t" "t @ [NUL]" m], where Q = "holds_text t"]
  by (simp add: sdscpy_def no_nul_def holds_text_def)

lemma dup_yields: "holds_text s x \<Longrightarrow> yields m (sdsdup m x) (holds_text s)"
  by (rule yields_mono [OF sdsdup_yields]) (simp_all add: holds_text_def)

lemma test_text_yields:
  assumes "holds_text s x" "n = length s" "lit = s @ [NUL]" "k \<le> n + 1"
  shows "yields m (test_text x n lit k t) (\<lambda>t'. t' = (fst t + 1, snd t))"
proof -
  have wf: "sds_wf x" "sds_str x = s" using assms(1) by (simp_all add: holds_text_def)
  note D = sds_wfD [OF wf(1)]
  have len: "sdslen x = length s" using D(5) wf(2) by simp
  have "take (length s + 1) (sds_buf x) = s @ [NUL]"
    using D(3,4) wf(2) len by (simp add: sds_str_def take_Suc_conv_app_nth)
  then have "take k (sds_buf x) = take k (s @ [NUL])" using assms(2,4) by (metis min.absorb1 take_take)
  then have "text_is x n lit k = Inr True"
    using assms(2-4) len D(3) by (cases "k = n + 1") (auto simp: text_is_def peek_def memcmp_eq)
  then show ?thesis by (simp add: test_text_def test_cond_def)
qed

lemma test_range_yields:
  assumes "holds_text s x" "range_ref s a b = r" "n = length r" "k \<le> n + 1"
    and "- 2147483648 \<le> a" "a \<le> 2147483647" "- 2147483648 \<le> b" "b \<le> 2147483647"
  shows "yields m (test_range m x a b n (r @ [NUL]) k t) (\<lambda>t'. t' = (fst t + 1, snd t))"
  unfolding test_range_def
proof (rule yields_bind [OF dup_yields [OF assms(1)]])
  fix y assume "holds_text s y"
  then obtain y' where "sdsrange y a b = Inr y'" "holds_text r y'"
    using sdsrange_correct [of y a b] assms(2,5-8) by (auto simp: holds_text_def)
  then show "yields m (bind_res (sdsrange y a b) (\<lambda>y. test_text y n (r @ [NUL]) k t)) (\<lambda>t'. t' = (fst t + 1, snd t))"
    using test_text_yields [OF _ assms(3) refl assms(4)] by simp
qed

lemma test_cmp_yields:
  assumes "holds_text s x" "holds_text u y" "\<And>r. r = 0 \<longleftrightarrow> s = u \<Longrightarrow> r < 0 \<longleftrightarrow> (s, u) \<in> lexord byte_less \<Longrightarrow> P r"
  shows "yields m (test_cmp P x y t) (\<lambda>t'. t' = (fst t + 1, snd t))"
  using sdscmp_correct [of x y] assms by (auto simp: test_cmp_def test_cond_def holds_text_def)

lemma trim_yields: "holds_text s x \<Longrightarrow> trim_ref (in_cset cs) s = r \<Longrightarrow> yields m (sdstrim x cs) (holds_text r)"
  using sdstrim_correct [of x cs] by (auto simp: holds_text_def)

lemma printf_yields:
  assumes "holds_text s x" "out = r" "NUL \<notin> set r" "2 * (length s + length r) \<le> 2147483647"
  shows "yields m (sdscatvprintf m x out) (holds_text (s @ r))"
  using assms holds_room [OF assms(1), of "length out"] yields_mono [OF sdscatvprintf_yields [of x out m], where Q = "holds_text (s @ out)"]
  by (simp add: no_nul_def holds_text_def)

lemma printed: "dec_int 123 = ''123''"
  by code_simp

lemma trimmed: "trim_ref (in_cset (''xy'' @ [NUL])) ''xxciaoyyy'' = ''ciao''"
  by code_simp

lemmas call_steps = yields_bind [OF new_yields] yields_bind [OF newlen_yields] yields_bind [OF empty_yields] yields_bind [OF cat_yields]
  yields_bind [OF cpy_yields] yields_bind [OF printf_yields [OF _ printed]] yields_bind [OF trim_yields [OF _ trimmed]]

lemmas test_steps = yields_bind [OF test_text_yields] yields_bind [OF test_range_yields]
  yields_bind [OF test_range_yields [where r = "[]", unfolded append_Nil]] yields_bind [OF test_cmp_yields] yields_mono [OF test_cmp_yields]

text \<open>
  The self test of the string library passes.  All sixteen tests of its \<^verbatim>\<open>main\<close> hold on the modelled functions, whatever
  the bytes of fresh memory are; the program ends early only when the allocator refuses a request.
\<close>

lemma sds_self_test_passes:
  "yields m (sds_test_main m) (\<lambda>(tests, failed). tests = 16 \<and> failed = 0)"
  unfolding sds_test_main_def
  by ((rule call_steps test_steps | assumption | simp add: range_ref_def range_pos_def; fail)+)

end
