(* ===== verification/Net.thy ===== *)
theory Net
  imports Context
begin

text \<open>
  Connecting a context (\<^verbatim>\<open>src/src/deps/hiredis/net.c\<close>).  The operating system is a parameter: a function
  that gives the result of a system call from the calls made so far and their results.  The calls are
  recorded in a log, from which the open descriptors can be read off.  \<^verbatim>\<open>errno\<close> is part of the state.
\<close>

section \<open>System calls\<close>

abbreviation (input) AF_LOCAL :: int where "AF_LOCAL \<equiv> 1"
abbreviation (input) AF_INET :: int where "AF_INET \<equiv> 2"
abbreviation (input) AF_INET6 :: int where "AF_INET6 \<equiv> 10"
abbreviation (input) O_NONBLOCK :: nat where "O_NONBLOCK \<equiv> 11"
abbreviation (input) ETIMEDOUT :: int where "ETIMEDOUT \<equiv> 110"
abbreviation (input) EHOSTUNREACH :: int where "EHOSTUNREACH \<equiv> 113"
abbreviation (input) EINPROGRESS :: int where "EINPROGRESS \<equiv> 115"

record timeval =
  tv_sec :: int
  tv_usec :: int

text \<open>An address with the family, type and protocol of its socket as a number, or the path of a local socket.\<close>

datatype address = Inet int "char list" | Local "char list"

datatype sockopt = SoReuseAddr | SoKeepAlive | TcpKeepIdle | TcpKeepIntvl | TcpKeepCnt | TcpNoDelay

datatype syscall =
    SysSocket int
  | SysSetOpt int sockopt int
  | SysSetTimeout int bool timeval
  | SysGetFl int
  | SysSetFl int int
  | SysPoll int int
  | SysSoError int
  | SysConnect int address
  | SysClose int

datatype sysres = Done int | Failed int

type_synonym calls = "(syscall \<times> sysres) list"

record net =
  n_log :: calls
  n_errno :: int

record net_env =
  ne_os :: "calls \<Rightarrow> syscall \<Rightarrow> sysres"
  ne_strerror :: "int \<Rightarrow> string"
  ne_getaddrinfo :: "string \<Rightarrow> string \<Rightarrow> int \<Rightarrow> int + address list"
  ne_gai_strerror :: "int \<Rightarrow> string"

definition sys :: "net_env \<Rightarrow> syscall \<Rightarrow> net \<Rightarrow> sysres \<times> net" where
  "sys e s n =
     (let r = ne_os e (n_log n) s
      in (r, n\<lparr>n_log := n_log n @ [(s, r)], n_errno := (case r of Failed errno \<Rightarrow> errno | Done _ \<Rightarrow> n_errno n)\<rparr>))"

definition sys_close :: "net_env \<Rightarrow> int \<Rightarrow> net \<Rightarrow> net" where
  "sys_close e fd n = snd (sys e (SysClose fd) n)"

type_synonym 'a netres = "('a \<times> redisContext \<times> net) res"

section \<open>Options of a socket\<close>

definition redisSetErrorFromErrno :: "net_env \<Rightarrow> int \<Rightarrow> string option \<Rightarrow> net \<Rightarrow> redisContext \<Rightarrow> redisContext res" where
  "redisSetErrorFromErrno e ty prefix n c =
     (let buf = take 127 ((case prefix of None \<Rightarrow> [] | Some p \<Rightarrow> p @ '': '') @ ne_strerror e (n_errno n))
      in redisSetError [] ty (Some buf) c)"

text \<open>The common error exit: record the error, close the descriptor.\<close>

definition fail_close :: "net_env \<Rightarrow> string option \<Rightarrow> int \<Rightarrow> redisContext \<Rightarrow> net \<Rightarrow> int netres" where
  "fail_close e prefix fd c n =
     bind_res (redisSetErrorFromErrno e REDIS_ERR_IO prefix n c) (\<lambda>c. Inr (REDIS_ERR, c, sys_close e fd n))"

definition redisSetReuseAddr :: "net_env \<Rightarrow> redisContext \<Rightarrow> int \<Rightarrow> net \<Rightarrow> int netres" where
  "redisSetReuseAddr e c fd n =
     (case sys e (SysSetOpt fd SoReuseAddr 1) n of
        (Failed _, n) \<Rightarrow> fail_close e None fd c n
      | (Done _, n) \<Rightarrow> Inr (REDIS_OK, c, n))"

definition redisCreateSocket :: "net_env \<Rightarrow> redisContext \<Rightarrow> int \<Rightarrow> net \<Rightarrow> int netres" where
  "redisCreateSocket e c ty n =
     (case sys e (SysSocket ty) n of
        (Failed _, n) \<Rightarrow> bind_res (redisSetErrorFromErrno e REDIS_ERR_IO None n c) (\<lambda>c. Inr (REDIS_ERR, c, n))
      | (Done s, n) \<Rightarrow>
          if ty = AF_INET
          then bind_res (redisSetReuseAddr e c s n) (\<lambda>(rc, c, n). Inr (if rc = REDIS_ERR then REDIS_ERR else s, c, n))
          else Inr (s, c, n))"

definition redisSetBlocking :: "net_env \<Rightarrow> redisContext \<Rightarrow> int \<Rightarrow> bool \<Rightarrow> net \<Rightarrow> int netres" where
  "redisSetBlocking e c fd blocking n =
     (case sys e (SysGetFl fd) n of
        (Failed _, n) \<Rightarrow> fail_close e (Some ''fcntl(F_GETFL)'') fd c n
      | (Done flags, n) \<Rightarrow>
          let flags = (if blocking then unset_bit O_NONBLOCK flags else set_bit O_NONBLOCK flags) in
          (case sys e (SysSetFl fd flags) n of
             (Failed _, n) \<Rightarrow> fail_close e (Some ''fcntl(F_SETFL)'') fd c n
           | (Done _, n) \<Rightarrow> Inr (REDIS_OK, c, n)))"

definition redisSetTcpNoDelay :: "net_env \<Rightarrow> redisContext \<Rightarrow> int \<Rightarrow> net \<Rightarrow> int netres" where
  "redisSetTcpNoDelay e c fd n =
     (case sys e (SysSetOpt fd TcpNoDelay 1) n of
        (Failed _, n) \<Rightarrow> fail_close e (Some ''setsockopt(TCP_NODELAY)'') fd c n
      | (Done _, n) \<Rightarrow> Inr (REDIS_OK, c, n))"

text \<open>One option of \<^verbatim>\<open>redisKeepAlive\<close>; an error leaves the descriptor open.\<close>

definition keep_option :: "net_env \<Rightarrow> sockopt \<Rightarrow> int \<Rightarrow> redisContext \<Rightarrow> net \<Rightarrow> int netres" where
  "keep_option e opt val c n =
     (case sys e (SysSetOpt (rc_fd c) opt val) n of
        (Failed errno, n) \<Rightarrow> bind_res (redisSetError [] REDIS_ERR_OTHER (Some (ne_strerror e errno)) c) (\<lambda>c. Inr (REDIS_ERR, c, n))
      | (Done _, n) \<Rightarrow> Inr (REDIS_OK, c, n))"

fun keep_options :: "net_env \<Rightarrow> (sockopt \<times> int) list \<Rightarrow> redisContext \<Rightarrow> net \<Rightarrow> int netres" where
  "keep_options e [] c n = Inr (REDIS_OK, c, n)"
| "keep_options e ((opt, val) # opts) c n =
     bind_res (keep_option e opt val c n) (\<lambda>(rc, c, n). if rc = REDIS_ERR then Inr (REDIS_ERR, c, n) else keep_options e opts c n)"

definition redisKeepAlive :: "net_env \<Rightarrow> redisContext \<Rightarrow> int \<Rightarrow> net \<Rightarrow> int netres" where
  "redisKeepAlive e c interval n =
     (let third = (if 0 \<le> interval then interval div 3 else - ((- interval) div 3))
      in keep_options e [(SoKeepAlive, 1), (TcpKeepIdle, interval), (TcpKeepIntvl, if third = 0 then 1 else third), (TcpKeepCnt, 3)] c n)"

definition redisContextSetTimeout :: "net_env \<Rightarrow> redisContext \<Rightarrow> timeval \<Rightarrow> net \<Rightarrow> int netres" where
  "redisContextSetTimeout e c tv n =
     (case sys e (SysSetTimeout (rc_fd c) True tv) n of
        (Failed _, n) \<Rightarrow> bind_res (redisSetErrorFromErrno e REDIS_ERR_IO (Some ''setsockopt(SO_RCVTIMEO)'') n c) (\<lambda>c. Inr (REDIS_ERR, c, n))
      | (Done _, n) \<Rightarrow>
          (case sys e (SysSetTimeout (rc_fd c) False tv) n of
             (Failed _, n) \<Rightarrow> bind_res (redisSetErrorFromErrno e REDIS_ERR_IO (Some ''setsockopt(SO_SNDTIMEO)'') n c) (\<lambda>c. Inr (REDIS_ERR, c, n))
           | (Done _, n) \<Rightarrow> Inr (REDIS_OK, c, n)))"

section \<open>Waiting for a connection\<close>

definition redisCheckSocketError :: "net_env \<Rightarrow> redisContext \<Rightarrow> int \<Rightarrow> net \<Rightarrow> int netres" where
  "redisCheckSocketError e c fd n =
     (case sys e (SysSoError fd) n of
        (Failed _, n) \<Rightarrow> fail_close e (Some ''getsockopt(SO_ERROR)'') fd c n
      | (Done err, n) \<Rightarrow> if err \<noteq> 0 then fail_close e None fd c (n\<lparr>n_errno := err\<rparr>) else Inr (REDIS_OK, c, n))"

text \<open>The time-out of \<^verbatim>\<open>poll\<close> in milliseconds, on \<^verbatim>\<open>long\<close>; \<open>None\<close> when the value is refused.\<close>

definition wait_msec :: "timeval option \<Rightarrow> int option" where
  "wait_msec timeout =
     (case timeout of
        None \<Rightarrow> Some (-1)
      | Some tv \<Rightarrow>
          if tv_usec tv > 1000000 \<or> tv_sec tv > (9223372036854775807 - 999) div 1000 then None
          else
            let us = i64 (tv_usec tv + 999);
                msec = i64 (i64 (tv_sec tv * 1000) + (if 0 \<le> us then us div 1000 else - ((- us) div 1000)))
            in Some (if msec < 0 \<or> msec > INT_MAX then INT_MAX else msec))"

definition redisContextWaitReady :: "net_env \<Rightarrow> redisContext \<Rightarrow> int \<Rightarrow> timeval option \<Rightarrow> net \<Rightarrow> int netres" where
  "redisContextWaitReady e c fd timeout n =
     (case wait_msec timeout of
        None \<Rightarrow> fail_close e None fd c n
      | Some msec \<Rightarrow>
          if n_errno n = EINPROGRESS
          then (case sys e (SysPoll fd msec) n of
                  (Failed _, n) \<Rightarrow> fail_close e (Some ''poll(2)'') fd c n
                | (Done res, n) \<Rightarrow>
                    if res = 0 then fail_close e None fd c (n\<lparr>n_errno := ETIMEDOUT\<rparr>)
                    else bind_res (redisCheckSocketError e c fd n) (\<lambda>(rc, c, n). Inr (if rc \<noteq> REDIS_OK then REDIS_ERR else REDIS_OK, c, n)))
          else fail_close e None fd c n)"

section \<open>Connecting\<close>

text \<open>The part of a turn after a connection that is established or in progress.\<close>

definition finish_connect :: "net_env \<Rightarrow> bool \<Rightarrow> bool \<Rightarrow> redisContext \<Rightarrow> int \<Rightarrow> net \<Rightarrow> int netres" where
  "finish_connect e tcp blocking c s n =
     bind_res (if blocking then redisSetBlocking e c s True n else Inr (REDIS_OK, c, n)) (\<lambda>(rc, c, n).
       if rc \<noteq> REDIS_OK then Inr (REDIS_ERR, c, n)
       else bind_res (if tcp then redisSetTcpNoDelay e c s n else Inr (REDIS_OK, c, n)) (\<lambda>(rc, c, n).
         if rc \<noteq> REDIS_OK then Inr (REDIS_ERR, c, n)
         else Inr (REDIS_OK, c\<lparr>rc_fd := s, rc_flags := set_bit REDIS_CONNECTED (rc_flags c)\<rparr>, n)))"

text \<open>\<^verbatim>\<open>connect\<close> and the wait for it; \<open>None\<close> says that the host can not be reached.\<close>

definition start_connect :: "net_env \<Rightarrow> bool \<Rightarrow> bool \<Rightarrow> timeval option \<Rightarrow> address \<Rightarrow> redisContext \<Rightarrow> int \<Rightarrow> net \<Rightarrow> int option netres" where
  "start_connect e tcp blocking timeout a c s n =
     (case sys e (SysConnect s a) n of
        (Done _, n) \<Rightarrow> Inr (Some REDIS_OK, c, n)
      | (Failed errno, n) \<Rightarrow>
          if tcp \<and> errno = EHOSTUNREACH then Inr (None, c, sys_close e s n)
          else if errno = EINPROGRESS \<and> \<not> blocking then Inr (Some REDIS_OK, c, n)
          else bind_res (redisContextWaitReady e c s timeout n) (\<lambda>(rc, c, n). Inr (Some rc, c, n)))"

definition family :: "address \<Rightarrow> int" where
  "family a = (case a of Inet f _ \<Rightarrow> f | Local _ \<Rightarrow> AF_LOCAL)"

text \<open>The loop over the addresses of a host.\<close>

fun try_addresses :: "net_env \<Rightarrow> bool \<Rightarrow> timeval option \<Rightarrow> address list \<Rightarrow> redisContext \<Rightarrow> net \<Rightarrow> int netres" where
  "try_addresses e blocking timeout [] c n =
     bind_res (redisSetError [] REDIS_ERR_OTHER (Some (take 127 (''Can'' @ [CHR 0x27] @ ''t create socket: '' @ ne_strerror e (n_errno n)))) c)
       (\<lambda>c. Inr (REDIS_ERR, c, n))"
| "try_addresses e blocking timeout (a # as) c n =
     (case sys e (SysSocket (family a)) n of
        (Failed _, n) \<Rightarrow> try_addresses e blocking timeout as c n
      | (Done s, n) \<Rightarrow>
          bind_res (redisSetBlocking e c s False n) (\<lambda>(rc, c, n).
            if rc \<noteq> REDIS_OK then Inr (REDIS_ERR, c, n)
            else bind_res (start_connect e True blocking timeout a c s n) (\<lambda>(rc, c, n).
              case rc of
                None \<Rightarrow> try_addresses e blocking timeout as c n
              | Some rc \<Rightarrow> if rc \<noteq> REDIS_OK then Inr (REDIS_ERR, c, n) else finish_connect e True blocking c s n)))"

definition redisContextConnectTcp :: "net_env \<Rightarrow> redisContext \<Rightarrow> string \<Rightarrow> int \<Rightarrow> timeval option \<Rightarrow> net \<Rightarrow> int netres" where
  "redisContextConnectTcp e c addr port timeout n =
     (let blocking = has_flag REDIS_BLOCK c; p = take 5 (dec_int port) in
      case ne_getaddrinfo e addr p AF_INET of
        Inr servinfo \<Rightarrow> try_addresses e blocking timeout servinfo c n
      | Inl _ \<Rightarrow>
          (case ne_getaddrinfo e addr p AF_INET6 of
             Inr servinfo \<Rightarrow> try_addresses e blocking timeout servinfo c n
           | Inl rv \<Rightarrow> bind_res (redisSetError [] REDIS_ERR_OTHER (Some (ne_gai_strerror e rv)) c) (\<lambda>c. Inr (REDIS_ERR, c, n))))"

text \<open>\<^verbatim>\<open>sun_path\<close> has 108 bytes, of which at most 107 are copied.\<close>

definition redisContextConnectUnix :: "net_env \<Rightarrow> redisContext \<Rightarrow> string \<Rightarrow> timeval option \<Rightarrow> net \<Rightarrow> int netres" where
  "redisContextConnectUnix e c path timeout n =
     (let blocking = has_flag REDIS_BLOCK c in
      bind_res (redisCreateSocket e c AF_LOCAL n) (\<lambda>(s, c, n).
        if s < 0 then Inr (REDIS_ERR, c, n)
        else bind_res (redisSetBlocking e c s False n) (\<lambda>(rc, c, n).
          if rc \<noteq> REDIS_OK then Inr (REDIS_ERR, c, n)
          else bind_res (start_connect e False blocking timeout (Local (take 107 (c_str path))) c s n) (\<lambda>(rc, c, n).
            case rc of
              None \<Rightarrow> Inr (REDIS_ERR, c, n)
            | Some rc \<Rightarrow> if rc \<noteq> REDIS_OK then Inr (REDIS_ERR, c, n) else finish_connect e False blocking c s n))))"

section \<open>The functions that the contexts call\<close>

text \<open>The effect on the context, the other results being ignored by the callers.\<close>

definition connect_effect :: "int netres \<Rightarrow> redisContext \<Rightarrow> redisContext" where
  "connect_effect r c = (case r of Inr (_, c', _) \<Rightarrow> c' | Inl _ \<Rightarrow> c)"

definition connect_tcp :: "net_env \<Rightarrow> net \<Rightarrow> string \<Rightarrow> int \<Rightarrow> timeval option \<Rightarrow> redisContext \<Rightarrow> redisContext" where
  "connect_tcp e n ip port timeout c = connect_effect (redisContextConnectTcp e c ip port timeout n) c"

definition connect_unix :: "net_env \<Rightarrow> net \<Rightarrow> string \<Rightarrow> timeval option \<Rightarrow> redisContext \<Rightarrow> redisContext" where
  "connect_unix e n path timeout c = connect_effect (redisContextConnectUnix e c path timeout n) c"

text \<open>The result of \<^verbatim>\<open>redisCheckSocketError\<close> on the descriptor of a context, with \<^verbatim>\<open>errno\<close> after it.\<close>

definition socket_status :: "net_env \<Rightarrow> net \<Rightarrow> redisContext \<Rightarrow> int \<times> int \<times> redisContext" where
  "socket_status e n c =
     (case redisCheckSocketError e c (rc_fd c) n of Inr (rc, c', n') \<Rightarrow> (rc, n_errno n', c') | Inl _ \<Rightarrow> (REDIS_ERR, n_errno n, c))"

end
