(* ===== verification/Net_Props.thy ===== *)
theory Net_Props
  imports Net
begin

text \<open>
  What connecting does with descriptors: a failed attempt leaves none open, a successful one leaves
  exactly the one of the context.
\<close>

section \<open>Open descriptors\<close>

fun after_call :: "syscall \<times> sysres \<Rightarrow> int set \<Rightarrow> int set" where
  "after_call (SysSocket f, Done fd) S = insert fd S"
| "after_call (SysClose fd, r) S = S - {fd}"
| "after_call _ S = S"

definition open_fds :: "calls \<Rightarrow> int set" where
  "open_fds log = fold after_call log {}"

abbreviation open_in :: "net \<Rightarrow> int set" where
  "open_in n \<equiv> open_fds (n_log n)"

text \<open>The contract of \<^verbatim>\<open>socket\<close>: a new descriptor, not negative.\<close>

definition fresh_fds :: "net_env \<Rightarrow> bool" where
  "fresh_fds e \<longleftrightarrow> (\<forall>log f fd. ne_os e log (SysSocket f) = Done fd \<longrightarrow> 0 \<le> fd \<and> fd \<notin> open_fds log)"

lemma open_snoc [simp]: "open_fds (log @ [x]) = after_call x (open_fds log)"
  by (simp add: open_fds_def)

lemma sys_open: "sys e s n = (r, n') \<Longrightarrow> open_in n' = after_call (s, r) (open_in n)"
  by (auto simp: sys_def Let_def)

lemma sys_failed: "sys e s n = (Failed errno, n') \<Longrightarrow> n_errno n' = errno"
  by (auto simp: sys_def Let_def)

lemma close_open [simp]: "open_in (sys_close e fd n) = open_in n - {fd}"
  by (simp add: sys_close_def sys_def Let_def)

section \<open>Functions on one descriptor\<close>

text \<open>Success changes nothing; failure records an error and closes the descriptor.\<close>

definition guards :: "redisContext \<Rightarrow> int \<Rightarrow> net \<Rightarrow> int netres \<Rightarrow> bool" where
  "guards c fd n r \<longleftrightarrow> (\<exists>n'. r = Inr (REDIS_OK, c, n') \<and> open_in n' = open_in n) \<or>
     (\<exists>c' n'. r = Inr (REDIS_ERR, c', n') \<and> rc_err c' \<noteq> 0 \<and> open_in n' = open_in n - {fd} \<and> rc_fd c' = rc_fd c \<and> rc_flags c' = rc_flags c)"

lemma guards_fail: "open_in n' = open_in n \<Longrightarrow> guards c fd n (fail_close e prefix fd c n')"
  by (auto simp: guards_def fail_close_def redisSetErrorFromErrno_def redisSetError_def Let_def)

lemma guards_ok: "open_in n' = open_in n \<Longrightarrow> guards c fd n (Inr (REDIS_OK, c, n'))"
  by (simp add: guards_def)

lemmas guards_intros = guards_fail guards_ok

lemma guards_cong: "open_in n' = open_in n \<Longrightarrow> guards c fd n' r = guards c fd n r"
  by (simp add: guards_def)

text \<open>A system call that neither opens nor closes a descriptor.\<close>

fun neutral :: "syscall \<Rightarrow> bool" where
  "neutral (SysSocket f) \<longleftrightarrow> False"
| "neutral (SysClose fd) \<longleftrightarrow> False"
| "neutral _ \<longleftrightarrow> True"

lemma neutral_open: "neutral s \<Longrightarrow> open_in (snd (sys e s n)) = open_in n"
  by (cases s) (simp_all add: sys_def Let_def)

lemma guards_sys:
  assumes "neutral s" "\<And>errno n'. open_in n' = open_in n \<Longrightarrow> guards c fd n (f errno n')"
    and "\<And>x n'. open_in n' = open_in n \<Longrightarrow> guards c fd n (g x n')"
  shows "guards c fd n (case sys e s n of (Failed errno, n') \<Rightarrow> f errno n' | (Done x, n') \<Rightarrow> g x n')"
proof (cases "sys e s n")
  case (Pair r n')
  then have "open_in n' = open_in n" using neutral_open [OF assms(1), of e n] by simp
  then show ?thesis using Pair assms(2,3) by (cases r) simp_all
qed

lemma SetBlocking_guards: "guards c fd n (redisSetBlocking e c fd blocking n)"
proof -
  have "guards c fd n (case sys e (SysSetFl fd fl) n1 of (Failed _, n2) \<Rightarrow> fail_close e (Some ''fcntl(F_SETFL)'') fd c n2
      | (Done _, n2) \<Rightarrow> Inr (REDIS_OK, c, n2))" if "open_in n1 = open_in n" for n1 fl
    unfolding guards_cong [OF that, symmetric] by (intro guards_sys guards_intros) simp_all
  then show ?thesis unfolding redisSetBlocking_def Let_def by (intro guards_sys guards_intros) simp_all
qed

lemma SetTcpNoDelay_guards: "guards c fd n (redisSetTcpNoDelay e c fd n)"
  unfolding redisSetTcpNoDelay_def by (intro guards_sys guards_intros) simp_all

lemma CheckSocketError_guards: "guards c fd n (redisCheckSocketError e c fd n)"
  unfolding redisCheckSocketError_def by (intro guards_sys) (simp_all add: guards_intros)

lemma WaitReady_guards: "guards c fd n (redisContextWaitReady e c fd timeout n)"
proof (cases "sys e (SysPoll fd (the (wait_msec timeout))) n")
  case (Pair r n1)
  then have o1: "open_in n1 = open_in n" using sys_open by fastforce
  have "guards c fd n (redisCheckSocketError e c fd n1)" using CheckSocketError_guards [of c fd n1 e] guards_cong [OF o1] by simp
  then have "guards c fd n (bind_res (redisCheckSocketError e c fd n1) (\<lambda>(rc, c, n). Inr (if rc \<noteq> REDIS_OK then REDIS_ERR else REDIS_OK, c, n)))"
    by (auto simp: guards_def)
  then show ?thesis using Pair o1
    by (auto simp: redisContextWaitReady_def split: option.split sysres.split intro!: guards_intros)
qed

section \<open>A whole connection\<close>

text \<open>
  The end of an attempt that began with the open descriptors \<open>S\<close>: connected on a new descriptor, or failed with
  an error and no descriptor left over.
\<close>

definition settled :: "redisContext \<Rightarrow> int set \<Rightarrow> int netres \<Rightarrow> bool" where
  "settled c S r \<longleftrightarrow>
     (\<exists>c' n'. r = Inr (REDIS_OK, c', n') \<and> has_flag REDIS_CONNECTED c' \<and> 0 \<le> rc_fd c' \<and> rc_fd c' \<notin> S \<and> open_in n' = insert (rc_fd c') S \<and>
        rc_err c' = rc_err c \<and> c' = c\<lparr>rc_fd := rc_fd c', rc_flags := set_bit REDIS_CONNECTED (rc_flags c)\<rparr>) \<or>
     (\<exists>c' n'. r = Inr (REDIS_ERR, c', n') \<and> rc_err c' \<noteq> 0 \<and> open_in n' = S)"

lemma settled_error: "rc_err c' \<noteq> 0 \<Longrightarrow> open_in n' = S \<Longrightarrow> settled c S (Inr (REDIS_ERR, c', n'))"
  by (simp add: settled_def)

lemma guards_bind:
  assumes "guards c fd n r" "fd \<notin> S" "open_in n = insert fd S"
    and "\<And>n'. open_in n' = insert fd S \<Longrightarrow> settled c S (f (REDIS_OK, c, n'))"
    and "\<And>c' n'. f (REDIS_ERR, c', n') = Inr (REDIS_ERR, c', n')"
  shows "settled c S (bind_res r f)"
  using assms(1) unfolding guards_def
proof (elim disjE exE conjE)
  fix n' assume "r = Inr (REDIS_OK, c, n')" "open_in n' = open_in n"
  then show ?thesis using assms(3,4) by simp
next
  fix c' n' assume "r = Inr (REDIS_ERR, c', n')" "rc_err c' \<noteq> 0" "open_in n' = open_in n - {fd}"
  then show ?thesis using assms(2,3,5) by (auto simp: settled_def)
qed

lemma finish_settles:
  assumes "0 \<le> s" "s \<notin> S" "open_in n = insert s S"
  shows "settled c S (finish_connect e tcp blocking c s n)"
  unfolding finish_connect_def
proof (rule guards_bind [OF _ assms(2,3)])
  show "guards c s n (if blocking then redisSetBlocking e c s True n else Inr (REDIS_OK, c, n))"
    using SetBlocking_guards guards_ok by simp
  fix n1 assume n1: "open_in n1 = insert s S"
  have "settled c S (Inr (REDIS_OK, c\<lparr>rc_fd := s, rc_flags := set_bit REDIS_CONNECTED (rc_flags c)\<rparr>, n2))" if "open_in n2 = insert s S" for n2
    using that assms(1,2) by (simp add: settled_def has_flag_def bit_set_bit_iff)
  moreover have "guards c s n1 (if tcp then redisSetTcpNoDelay e c s n1 else Inr (REDIS_OK, c, n1))"
    using SetTcpNoDelay_guards guards_ok by simp
  ultimately have "settled c S (bind_res (if tcp then redisSetTcpNoDelay e c s n1 else Inr (REDIS_OK, c, n1)) (\<lambda>(rc, c, n).
         if rc \<noteq> REDIS_OK then Inr (REDIS_ERR, c, n)
         else Inr (REDIS_OK, c\<lparr>rc_fd := s, rc_flags := set_bit REDIS_CONNECTED (rc_flags c)\<rparr>, n)))"
    by (intro guards_bind [OF _ assms(2) n1]) simp_all
  then show "settled c S (case (REDIS_OK, c, n1) of (rc, c, n) \<Rightarrow>
       if rc \<noteq> REDIS_OK then Inr (REDIS_ERR, c, n)
       else bind_res (if tcp then redisSetTcpNoDelay e c s n else Inr (REDIS_OK, c, n)) (\<lambda>(rc, c, n).
         if rc \<noteq> REDIS_OK then Inr (REDIS_ERR, c, n)
         else Inr (REDIS_OK, c\<lparr>rc_fd := s, rc_flags := set_bit REDIS_CONNECTED (rc_flags c)\<rparr>, n)))" by simp
qed simp

lemma start_connect_cases:
  assumes "s \<notin> S" "open_in n = insert s S"
  shows "(\<exists>n'. start_connect e tcp blocking timeout a c s n = Inr (Some REDIS_OK, c, n') \<and> open_in n' = insert s S) \<or>
    (\<exists>c' n'. start_connect e tcp blocking timeout a c s n = Inr (Some REDIS_ERR, c', n') \<and> rc_err c' \<noteq> 0 \<and> open_in n' = S) \<or>
    (\<exists>n'. tcp \<and> start_connect e tcp blocking timeout a c s n = Inr (None, c, n') \<and> open_in n' = S)"
proof (cases "sys e (SysConnect s a) n")
  case (Pair r n1)
  then have o1: "open_in n1 = insert s S" using neutral_open [of "SysConnect s a" e n] assms(2) by simp
  show ?thesis
  proof (cases r)
    case (Done x)
    then show ?thesis using Pair o1 by (simp add: start_connect_def)
  next
    case (Failed errno)
    have "guards c s n1 (redisContextWaitReady e c s timeout n1)" by (rule WaitReady_guards)
    then show ?thesis using Pair o1 Failed assms(1) by (auto simp: start_connect_def guards_def)
  qed
qed

lemma connect_settles:
  assumes "0 \<le> s" "s \<notin> S" "open_in n = insert s S" "\<And>n'. tcp \<Longrightarrow> open_in n' = S \<Longrightarrow> settled c S (again c n')"
  shows "settled c S (bind_res (redisSetBlocking e c s False n) (\<lambda>(rc, c, n).
    if rc \<noteq> REDIS_OK then Inr (REDIS_ERR, c, n)
    else bind_res (start_connect e tcp blocking timeout a c s n) (\<lambda>(rc, c, n).
      case rc of
        None \<Rightarrow> again c n
      | Some rc \<Rightarrow> if rc \<noteq> REDIS_OK then Inr (REDIS_ERR, c, n) else finish_connect e tcp blocking c s n)))"
proof (rule guards_bind [OF SetBlocking_guards assms(2,3)])
  fix n1 assume n1: "open_in n1 = insert s S"
  from start_connect_cases [OF assms(2) n1, of e tcp blocking timeout a c] finish_settles [OF assms(1,2), of _ c e tcp blocking] assms(4)
  show "settled c S (case (REDIS_OK, c, n1) of (rc, c, n) \<Rightarrow> if rc \<noteq> REDIS_OK then Inr (REDIS_ERR, c, n)
    else bind_res (start_connect e tcp blocking timeout a c s n) (\<lambda>(rc, c, n).
      case rc of
        None \<Rightarrow> again c n
      | Some rc \<Rightarrow> if rc \<noteq> REDIS_OK then Inr (REDIS_ERR, c, n) else finish_connect e tcp blocking c s n))"
    by (auto intro: settled_error)
qed simp

lemma socket_open:
  assumes "fresh_fds e" "sys e (SysSocket f) n = (r, n')"
  shows "(\<exists>errno. r = Failed errno \<and> open_in n' = open_in n) \<or>
    (\<exists>s. r = Done s \<and> 0 \<le> s \<and> s \<notin> open_in n \<and> open_in n' = insert s (open_in n))"
  using assms sys_open [OF assms(2)] by (cases r) (auto simp: fresh_fds_def sys_def Let_def)

lemma try_addresses_settles:
  assumes "fresh_fds e"
  shows "settled c (open_in n) (try_addresses e blocking timeout as c n)"
proof (induction as arbitrary: n)
  case Nil
  then show ?case by (simp add: settled_def redisSetError_def)
next
  case (Cons a as)
  obtain r n1 where r: "sys e (SysSocket (family a)) n = (r, n1)" by fastforce
  from socket_open [OF assms r] show ?case
  proof (elim disjE exE conjE)
    fix errno assume "r = Failed errno" "open_in n1 = open_in n"
    then show ?case using Cons.IH [of n1] r by simp
  next
    fix s assume s: "r = Done s" "0 \<le> s" "s \<notin> open_in n" "open_in n1 = insert s (open_in n)"
    have "settled c (open_in n) (try_addresses e blocking timeout as c n')" if "open_in n' = open_in n" for n'
      using Cons.IH [of n'] that by simp
    from connect_settles [OF s(2,3,4), of True c "try_addresses e blocking timeout as", OF this] show ?case using r s(1) by simp
  qed
qed

lemma connect_tcp_settles:
  assumes "fresh_fds e"
  shows "settled c (open_in n) (redisContextConnectTcp e c addr port timeout n)"
  using try_addresses_settles [OF assms, of c n]
  by (auto simp: redisContextConnectTcp_def Let_def settled_def redisSetError_def split: sum.split)

lemma connect_unix_settles:
  assumes "fresh_fds e"
  shows "settled c (open_in n) (redisContextConnectUnix e c path timeout n)"
proof -
  obtain r n1 where r: "sys e (SysSocket AF_LOCAL) n = (r, n1)" by fastforce
  from socket_open [OF assms r] show ?thesis
  proof (elim disjE exE conjE)
    fix errno assume "r = Failed errno" "open_in n1 = open_in n"
    then show ?thesis using r
      by (simp add: redisContextConnectUnix_def redisCreateSocket_def redisSetErrorFromErrno_def redisSetError_def settled_def Let_def)
  next
    fix s assume s: "r = Done s" "0 \<le> s" "s \<notin> open_in n" "open_in n1 = insert s (open_in n)"
    from connect_settles [OF s(2,3,4), of False c "\<lambda>c n. Inr (REDIS_ERR, c, n)" e "has_flag REDIS_BLOCK c" timeout "Local (take 107 (c_str path))"]
    show ?thesis using r s(1,2) unfolding redisContextConnectUnix_def redisCreateSocket_def Let_def by simp
  qed
qed

text \<open>
  What \<^verbatim>\<open>redisConnect\<close> returns with these functions: NULL when there is no memory for the context, else
  a blocking context that is connected without an error or has an error recorded.
\<close>

lemma redisConnect_result:
  assumes "fresh_fds e" "redisConnect m (connect_tcp e n) ip port = Some c"
  shows "rc_err c \<noteq> 0 \<or> (\<exists>c0 fd. redisContextInit m = Some c0 \<and> 0 \<le> fd \<and> fd \<notin> open_in n \<and>
    c = c0\<lparr>rc_fd := fd, rc_flags := set_bit REDIS_CONNECTED (set_bit REDIS_BLOCK (rc_flags c0))\<rparr>)"
proof -
  from assms(2) obtain c0 where c0: "redisContextInit m = Some c0"
    "c = connect_tcp e n ip port None (c0\<lparr>rc_flags := set_bit REDIS_BLOCK (rc_flags c0)\<rparr>)"
    by (auto simp: redisConnect_def connect_blocking_def)
  from connect_tcp_settles [OF assms(1), of "c0\<lparr>rc_flags := set_bit REDIS_BLOCK (rc_flags c0)\<rparr>" n ip port None]
  show ?thesis unfolding settled_def
  proof (elim disjE exE conjE)
    fix c' n'
    assume a: "redisContextConnectTcp e (c0\<lparr>rc_flags := set_bit REDIS_BLOCK (rc_flags c0)\<rparr>) ip port None n = Inr (REDIS_OK, c', n')"
      "0 \<le> rc_fd c'" "rc_fd c' \<notin> open_in n"
      "c' = c0\<lparr>rc_flags := set_bit REDIS_BLOCK (rc_flags c0)\<rparr>\<lparr>rc_fd := rc_fd c',
        rc_flags := set_bit REDIS_CONNECTED (rc_flags (c0\<lparr>rc_flags := set_bit REDIS_BLOCK (rc_flags c0)\<rparr>))\<rparr>"
    have "c = c'" using a(1) c0(2) by (simp add: connect_tcp_def connect_effect_def)
    then show ?thesis using a(2-4) c0(1) by (intro disjI2 exI [of _ c0] exI [of _ "rc_fd c'"]) simp
  next
    fix c' n'
    assume "redisContextConnectTcp e (c0\<lparr>rc_flags := set_bit REDIS_BLOCK (rc_flags c0)\<rparr>) ip port None n = Inr (REDIS_ERR, c', n')" "rc_err c' \<noteq> 0"
    then show ?thesis using c0(2) by (simp add: connect_tcp_def connect_effect_def)
  qed
qed

section \<open>Properties\<close>

text \<open>
  C24: Connecting neither loses nor leaks a descriptor.  Whatever the system calls return, as long as
  \<^verbatim>\<open>socket\<close> gives new descriptors, \<^verbatim>\<open>redisContextConnectTcp\<close> and \<^verbatim>\<open>redisContextConnectUnix\<close> end in one of two
  ways.  On success the context is connected on a descriptor that was not open before, this is
  the only descriptor that is open in addition, and no error is recorded.  On failure an error is
  recorded, and every descriptor that was opened on the way, for whichever address, is closed again.
\<close>

theorem connect_keeps_descriptors:
  assumes "fresh_fds e" "r = redisContextConnectTcp e c addr port timeout n \<or> r = redisContextConnectUnix e c path timeout n"
  shows "(\<exists>c' n'. r = Inr (REDIS_OK, c', n') \<and> has_flag REDIS_CONNECTED c' \<and> 0 \<le> rc_fd c' \<and> rc_fd c' \<notin> open_in n \<and>
      open_in n' = insert (rc_fd c') (open_in n) \<and> rc_err c' = rc_err c) \<or>
    (\<exists>c' n'. r = Inr (REDIS_ERR, c', n') \<and> rc_err c' \<noteq> 0 \<and> open_in n' = open_in n)"
  using connect_tcp_settles [OF assms(1), of c n] connect_unix_settles [OF assms(1), of c n] assms(2)
  unfolding settled_def by blast

text \<open>A system that counts descriptors up, refuses the first address and accepts the second.\<close>

definition sample_os :: "calls \<Rightarrow> syscall \<Rightarrow> sysres" where
  "sample_os log s =
     (case s of
        SysSocket f \<Rightarrow> Done (int (length log) + 3)
      | SysConnect fd a \<Rightarrow> if a = Inet AF_INET ''a'' then Failed EHOSTUNREACH else Done 0
      | _ \<Rightarrow> Done 0)"

definition sample_net :: net_env where
  "sample_net = \<lparr>ne_os = sample_os, ne_strerror = (\<lambda>_. ''error''),
     ne_getaddrinfo = (\<lambda>_ _ _. Inr [Inet AF_INET ''a'', Inet AF_INET ''b'']), ne_gai_strerror = (\<lambda>_. [])\<rparr>"

text \<open>A system that hands out one descriptor only.\<close>

definition one_socket :: net_env where
  "one_socket = sample_net\<lparr>ne_os := (\<lambda>log s. case s of SysSocket f \<Rightarrow> (if log = [] then Done 3 else Failed 24) | _ \<Rightarrow> sample_os log s)\<rparr>"

lemma one_socket_fresh: "fresh_fds one_socket"
  by (auto simp: fresh_fds_def one_socket_def open_fds_def split: if_splits)

definition plain_context :: redisContext where
  "plain_context = \<lparr>rc_err = 0, rc_errstr = [], rc_fd = 0, rc_flags = 1, rc_obuf = None, rc_reader = None\<rparr>"

theorem connect_keeps_descriptors_witness:
  "(\<exists>c' n'. redisContextConnectTcp one_socket plain_context ''host'' 6379 None \<lparr>n_log = [], n_errno = 0\<rparr> = Inr (REDIS_OK, c', n') \<and>
      has_flag REDIS_CONNECTED c' \<and> 0 \<le> rc_fd c' \<and> rc_fd c' \<notin> {} \<and> open_in n' = {rc_fd c'} \<and> rc_err c' = 0) \<or>
    (\<exists>c' n'. redisContextConnectTcp one_socket plain_context ''host'' 6379 None \<lparr>n_log = [], n_errno = 0\<rparr> = Inr (REDIS_ERR, c', n') \<and>
      rc_err c' \<noteq> 0 \<and> open_in n' = {})"
  using connect_keeps_descriptors [OF one_socket_fresh, of "redisContextConnectTcp one_socket plain_context ''host'' 6379 None \<lparr>n_log = [], n_errno = 0\<rparr>"
      plain_context "''host''" 6379 None "\<lparr>n_log = [], n_errno = 0\<rparr>" "[]"]
  by (simp add: open_fds_def plain_context_def)

text \<open>
  A descriptor is closed twice.  When \<^verbatim>\<open>getsockopt\<close> reports an error for the descriptor of a context,
  as it does after an asynchronous connection was refused, \<^verbatim>\<open>redisCheckSocketError\<close> closes the
  descriptor but leaves it in the context, and \<^verbatim>\<open>redisFree\<close> closes the same number again.
\<close>

lemma failed_connect_closes_twice:
  assumes "ne_os e (n_log n) (SysSoError (rc_fd c)) = Done err" "err \<noteq> 0" "0 < rc_fd c"
  shows "\<exists>c' n'. redisCheckSocketError e c (rc_fd c) n = Inr (REDIS_ERR, c', n') \<and> rc_fd c \<notin> open_in n' \<and>
    SysClose (rc_fd c) \<in> fst ` set (n_log n') \<and> fst (redisFree c') = Some (rc_fd c)"
  using assms
  by (simp add: redisCheckSocketError_def sys_def fail_close_def redisSetErrorFromErrno_def redisSetError_def sys_close_def redisFree_def Let_def
      open_fds_def)

text \<open>
  The time-out of a connection attempt.  For a non-negative time within the accepted range the time-out
  given to \<^verbatim>\<open>poll\<close> is the time in milliseconds, rounded up, and at most the largest \<^verbatim>\<open>int\<close>.
\<close>

lemma wait_msec_rounds_up:
  assumes "0 \<le> tv_sec tv" "tv_sec tv \<le> 9223372036854774" "0 \<le> tv_usec tv" "tv_usec tv \<le> 1000000"
  shows "\<exists>ms. wait_msec (Some tv) = Some ms \<and> ms = min INT_MAX (tv_sec tv * 1000 + (tv_usec tv + 999) div 1000) \<and>
    (ms < INT_MAX \<longrightarrow> tv_sec tv * 1000000 + tv_usec tv \<le> ms * 1000 \<and> ms * 1000 < tv_sec tv * 1000000 + tv_usec tv + 1000)"
proof -
  let ?us = "tv_usec tv + 999" and ?s = "tv_sec tv * 1000"
  have us: "?us div 1000 \<le> 1000" "0 \<le> ?us div 1000" using assms(3,4) by linarith+
  have i: "i64 ?us = ?us" "i64 ?s = ?s" "i64 (?s + ?us div 1000) = ?s + ?us div 1000"
    using assms us by (simp_all add: i64_def)
  have "i64 INT_MAX = INT_MAX" by (simp add: i64_def INT_MAX_def)
  then have "wait_msec (Some tv) = Some (min INT_MAX (?s + ?us div 1000))"
    using assms us i by (simp add: wait_msec_def Let_def min_def)
  moreover obtain q r where q: "q = ?us div 1000" "r = ?us mod 1000" by blast
  moreover have "q * 1000 + r = ?us" "0 \<le> r" "r < 1000" unfolding q by simp_all
  then have "tv_sec tv * 1000000 + tv_usec tv \<le> (?s + q) * 1000 \<and> (?s + q) * 1000 < tv_sec tv * 1000000 + tv_usec tv + 1000" by (intro conjI; simp add: distrib_right)
  ultimately show ?thesis by (intro exI [of _ "min INT_MAX (?s + q)"]) (simp add: min_def)
qed

end
