(* ===== verification/Startup.thy ===== *)
theory Startup
  imports Proxy_State Net_Props Context_Props "HOL-Library.Word"
begin

text \<open>
  How a proxy comes up: the constructor of class \<^verbatim>\<open>Proxy\<close> (\<^verbatim>\<open>src/src/proxy.cc\<close>) as a whole, with its
  connection to Redis, and the functions of the same file that seed the random numbers and print long GUIDs.  The arguments that
  the binding to node.js reads are arguments here.
\<close>

unbundle bit_operations_syntax

section \<open>Seeds and long GUIDs\<close>

text \<open>\<^verbatim>\<open>mix\<close>: nine lines of the same kind on three numbers of 64 bits.\<close>

definition mix_right :: "nat \<Rightarrow> 64 word \<Rightarrow> 64 word \<Rightarrow> 64 word \<Rightarrow> 64 word" where
  "mix_right n a b c = (a - b - c) XOR drop_bit n c"

definition mix_left :: "nat \<Rightarrow> 64 word \<Rightarrow> 64 word \<Rightarrow> 64 word \<Rightarrow> 64 word" where
  "mix_left n b c a = (b - c - a) XOR push_bit n a"

fun mix_lines :: "nat \<Rightarrow> nat \<Rightarrow> nat \<Rightarrow> 64 word \<times> 64 word \<times> 64 word \<Rightarrow> 64 word \<times> 64 word \<times> 64 word" where
  "mix_lines i j k (a, b, c) =
     (let a = mix_right i a b c; b = mix_left j b c a; c = mix_right k c a b in (a, b, c))"

definition mix_state :: "64 word \<Rightarrow> 64 word \<Rightarrow> 64 word \<Rightarrow> 64 word \<times> 64 word \<times> 64 word" where
  "mix_state a b c = mix_lines 3 10 15 (mix_lines 12 16 5 (mix_lines 13 8 13 (a, b, c)))"

definition mix :: "64 word \<Rightarrow> 64 word \<Rightarrow> 64 word \<Rightarrow> 64 word" where
  "mix a b c = snd (snd (mix_state a b c))"

text \<open>\<^verbatim>\<open>GenerateLongGuid\<close> with the values that \<^verbatim>\<open>rand()\<close> returns, and the terminator.\<close>

definition GenerateLongGuid :: "(nat \<Rightarrow> nat) \<Rightarrow> char list" where
  "GenerateLongGuid rnd =
     (let digits = (\<lambda>from len. map (\<lambda>i. guid_char (rnd i)) [from..<from + len]) in
      ''{'' @ digits 0 8 @ ''-'' @ digits 8 4 @ ''-'' @ digits 12 4 @ ''-'' @ digits 16 4 @ ''-'' @ digits 20 12 @ ''}'' @ [NUL])"

section \<open>The constructor\<close>

text \<open>A context with an error is dropped; its memory is not released.\<close>

definition Proxy_redisCtx :: "cmem \<Rightarrow> net_env \<Rightarrow> net \<Rightarrow> string \<Rightarrow> nat \<Rightarrow> redisContext option" where
  "Proxy_redisCtx m ne n redisHost redisPort =
     (case redisConnect m (connect_tcp ne n) redisHost (i32 (int redisPort)) of
        None \<Rightarrow> None
      | Some c \<Rightarrow> if rc_err c \<noteq> 0 then None else Some c)"

definition Proxy_start ::
    "cmem \<Rightarrow> net_env \<Rightarrow> net \<Rightarrow> (nat \<Rightarrow> nat) \<Rightarrow> char \<Rightarrow> int \<Rightarrow> string \<Rightarrow> string \<Rightarrow> nat \<Rightarrow> int \<Rightarrow>
       (int \<Rightarrow> int \<Rightarrow> int \<times> int) \<Rightarrow> (int \<Rightarrow> int \<Rightarrow> int \<times> int) \<Rightarrow> (Proxy \<times> redisContext option) res" where
  "Proxy_start m ne n rnd tail now esbhost redishost redisPort errno rbind pbind =
     bind_res (c_strlen (guid_array rnd tail)) (\<lambda>_.
     bind_res (strcpy_into 128 esbhost) (\<lambda>_.
     bind_res (strcpy_into 256 redishost) (\<lambda>redisHost.
     bind_res (Proxy_new rnd tail now esbhost errno rbind pbind) (\<lambda>p.
       Inr (p, Proxy_redisCtx m ne n redisHost redisPort)))))"

section \<open>Lemmas\<close>

text \<open>No seed is lost: the three numbers can be recovered from the state that \<^verbatim>\<open>mix\<close> ends in.\<close>

lemma xor_same: "x XOR k = y XOR k \<longleftrightarrow> x = (y :: 64 word)"
proof
  assume "x XOR k = y XOR k"
  then have "(x XOR k) XOR k = (y XOR k) XOR k" by simp
  then show "x = y" by (simp only: xor.assoc xor_self_eq xor.right_neutral)
qed simp

lemma mix_right_inj: "mix_right n a b c = mix_right n a' b c \<longleftrightarrow> a = a'"
  by (simp add: mix_right_def xor_same)

lemma mix_left_inj: "mix_left n b c a = mix_left n b' c a \<longleftrightarrow> b = b'"
  by (simp add: mix_left_def xor_same)

lemma mix_lines_inj: "inj (mix_lines i j k)"
  by (rule injI) (auto simp: Let_def mix_right_inj mix_left_inj)

lemma mix_state_inj: "mix_state a b c = mix_state a' b' c' \<longleftrightarrow> a = a' \<and> b = b' \<and> c = c'"
  by (simp add: mix_state_def inj_eq [OF mix_lines_inj] del: mix_lines.simps)

lemma GenerateLongGuid_string:
  "\<exists>g. GenerateLongGuid rnd = g @ [NUL] \<and> length g = 38 \<and> NUL \<notin> set g \<and> list_all (\<lambda>c. hex_digit c \<or> c \<in> set ''{-}'') g"
proof -
  let ?g = "butlast (GenerateLongGuid rnd)"
  have "GenerateLongGuid rnd = ?g @ [NUL]" "length ?g = 38" by (simp_all add: GenerateLongGuid_def Let_def butlast_append)
  moreover have "list_all (\<lambda>c. hex_digit c \<or> c \<in> set ''{-}'') ?g"
    by (simp add: GenerateLongGuid_def Let_def butlast_append list_all_iff hex_digit_guid_char)
  moreover have "\<not> hex_digit NUL" by (simp add: hex_digit_def)
  ultimately show ?thesis by (intro exI [of _ ?g]) (auto simp: list_all_iff)
qed

text \<open>The context of a new connection is idle.\<close>

lemma redisConnect_idle:
  assumes "fresh_fds e" "redisConnect m (connect_tcp e n) ip port = Some c" "rc_err c = 0" "\<forall>n. mem_ok m n"
  shows "\<exists>s r. idle_context c s r \<and> sds_str s = [] \<and> rd_len r = 0 \<and> rd_heap r = []"
proof -
  from redisConnect_result [OF assms(1,2)] assms(3) obtain c0 fd where
    c: "redisContextInit m = Some c0" "c = c0\<lparr>rc_fd := fd, rc_flags := set_bit REDIS_CONNECTED (set_bit REDIS_BLOCK (rc_flags c0))\<rparr>" by blast
  obtain s where s: "sdsempty m = Inr s" "sds_wf s" "sds_str s = []"
    using sdsempty_yields [of m] assms(4) by (cases "sdsempty m") (auto simp: yields_def)
  obtain r where r: "redisReaderCreate m = Some r" using s(1) assms(4) by (simp add: redisReaderCreate_def)
  have "sdslen s = 0" using sds_wfD(5) [OF s(2)] s(3) by simp
  then have "reader_wf r" using r s(1,2) assms(4) by (auto simp: redisReaderCreate_def reader_wf_def buffer_ok_def stack_ok_def)
  moreover have "rd_err r = 0" "rd_ridx r = -1" "unread r = []" "rd_len r = 0" "rd_heap r = []"
    using r s(1,3) assms(4) by (auto simp: redisReaderCreate_def unread_def)
  ultimately have "idle_context c s r"
    using c s r assms(4) by (auto simp: idle_context_def out_ok_def redisContextInit_def has_flag_def bit_set_bit_iff)
  then show ?thesis using s(3) \<open>rd_len r = 0\<close> \<open>rd_heap r = []\<close> by blast
qed

end
