(* ===== verification/Async.thy ===== *)
theory Async
  imports Net Dict Sds_Text
begin

text \<open>
  The asynchronous interface of the client library (\<^verbatim>\<open>src/src/deps/hiredis/async.c\<close>).  An event loop
  calls \<^verbatim>\<open>redisAsyncHandleRead\<close> and \<^verbatim>\<open>redisAsyncHandleWrite\<close>; commands register callbacks, which get
  the replies in order.  Callbacks are code of the client: which functions of the interface a callback
  calls is a parameter, a function of everything that was called back so far.  The calls out of the
  library are recorded in a log.  A context that was freed keeps its record with \<open>ac_freed\<close> set, so a
  later use shows as an error.  A list of callbacks is the list of its cells from head to tail.
\<close>

section \<open>Data\<close>

abbreviation (input) REDIS_DISCONNECTING :: nat where "REDIS_DISCONNECTING \<equiv> 2"
abbreviation (input) REDIS_FREEING :: nat where "REDIS_FREEING \<equiv> 3"
abbreviation (input) REDIS_IN_CALLBACK :: nat where "REDIS_IN_CALLBACK \<equiv> 4"
abbreviation (input) REDIS_SUBSCRIBED :: nat where "REDIS_SUBSCRIBED \<equiv> 5"
abbreviation (input) REDIS_MONITORING :: nat where "REDIS_MONITORING \<equiv> 6"

text \<open>A callback: the function, by a number, or NULL, and its private data.\<close>

record redisCallback =
  cb_fn :: "nat option"
  cb_privdata :: nat

datatype ev_hook = AddRead | DelRead | AddWrite | DelWrite | Cleanup

datatype event =
    RanReply nat nat "redisReply option"
  | RanConnect nat int
  | RanDisconnect nat int
  | RanHook ev_hook

text \<open>The calls that the code of the client makes.\<close>

datatype api_call =
    DoCommand "nat option" nat "char list" "c_arg list"
  | DoCommandArgv "nat option" nat int "char list list" "nat list option"
  | DoDisconnect
  | DoFree
  | DoSetConnect nat
  | DoSetDisconnect nat

text \<open>
  \<open>ac_ev\<close> are the hooks that are set.  \<open>ac_errstr\<close> tells whether the pointer to the error text of the
  context is set.  \<open>ac_released\<close> tells that the tables of subscriptions were released.
\<close>

record redisAsyncContext =
  ac_c :: redisContext
  ac_err :: int
  ac_errstr :: bool
  ac_ev :: "ev_hook list"
  ac_onConnect :: "nat option"
  ac_onDisconnect :: "nat option"
  ac_replies :: "redisCallback list"
  ac_invalid :: "redisCallback list"
  ac_channels :: "(string, redisCallback) dict"
  ac_patterns :: "(string, redisCallback) dict"
  ac_released :: bool
  ac_freed :: bool
  ac_log :: "event list"

record async_env =
  ae_mem :: cmem
  ae_strerror :: "int \<Rightarrow> string"
  ae_printf :: "string \<Rightarrow> c_arg list \<Rightarrow> string"
  ae_user :: "event list \<Rightarrow> api_call list"

definition set_flag :: "nat \<Rightarrow> redisAsyncContext \<Rightarrow> redisAsyncContext" where
  "set_flag n ac = ac\<lparr>ac_c := (ac_c ac)\<lparr>rc_flags := set_bit n (rc_flags (ac_c ac))\<rparr>\<rparr>"

definition clear_flag :: "nat \<Rightarrow> redisAsyncContext \<Rightarrow> redisAsyncContext" where
  "clear_flag n ac = ac\<lparr>ac_c := (ac_c ac)\<lparr>rc_flags := unset_bit n (rc_flags (ac_c ac))\<rparr>\<rparr>"

abbreviation flag :: "nat \<Rightarrow> redisAsyncContext \<Rightarrow> bool" where
  "flag n ac \<equiv> has_flag n (ac_c ac)"

definition log_event :: "event \<Rightarrow> redisAsyncContext \<Rightarrow> redisAsyncContext" where
  "log_event e ac = ac\<lparr>ac_log := ac_log ac @ [e]\<rparr>"

definition run_hook :: "ev_hook \<Rightarrow> redisAsyncContext \<Rightarrow> redisAsyncContext" where
  "run_hook h ac = (if h \<in> set (ac_ev ac) then log_event (RanHook h) ac else ac)"

section \<open>The tables of subscriptions\<close>

definition callbackHash :: "string \<Rightarrow> nat" where
  "callbackHash key = dictGenHashFunction key"

definition callbackKeyCompare :: "string \<Rightarrow> string \<Rightarrow> bool" where
  "callbackKeyCompare key1 key2 =
     (if length key1 \<noteq> length key2 then False else take (length key1) key1 = take (length key1) key2)"

definition callbackValDup :: "redisCallback \<Rightarrow> redisCallback" where
  "callbackValDup src = src"

definition callbackDict :: "(string, redisCallback) dictType" where
  "callbackDict = \<lparr>hashFunction = callbackHash, keyDup = None, valDup = Some callbackValDup,
     keyCompare = Some callbackKeyCompare, keyDestructor = True, valDestructor = True\<rparr>"

text \<open>\<^verbatim>\<open>dictReplace\<close> with these functions; \<^verbatim>\<open>callbackValDup\<close> uses the result of \<^verbatim>\<open>malloc\<close> unchecked.\<close>

definition replace_callback ::
    "cmem \<Rightarrow> string \<Rightarrow> redisCallback \<Rightarrow> (string, redisCallback) dict \<Rightarrow> (string, redisCallback) dict res" where
  "replace_callback m sname cb ht =
     check_res (mem_ok m 24) NullDeref (bind_res (dictReplace m callbackDict sname cb ht) (\<lambda>(_, ht'). Inr ht'))"

section \<open>Creation\<close>

definition redisAsyncInitialize :: "cmem \<Rightarrow> redisContext \<Rightarrow> redisAsyncContext option res" where
  "redisAsyncInitialize m c =
     (if \<not> mem_ok m 296 then Inr None
      else
        bind_res (dictCreate m) (\<lambda>channels.
        bind_res (dictCreate m) (\<lambda>patterns.
          Inr (Some \<lparr>ac_c = c\<lparr>rc_flags := unset_bit REDIS_CONNECTED (rc_flags c)\<rparr>, ac_err = 0, ac_errstr = False,
            ac_ev = [], ac_onConnect = None, ac_onDisconnect = None, ac_replies = [], ac_invalid = [],
            ac_channels = channels, ac_patterns = patterns, ac_released = False, ac_freed = False, ac_log = []\<rparr>))))"

definition redisAsyncCopyError :: "redisAsyncContext \<Rightarrow> redisAsyncContext" where
  "redisAsyncCopyError ac = ac\<lparr>ac_err := rc_err (ac_c ac), ac_errstr := True\<rparr>"

definition async_connect :: "cmem \<Rightarrow> redisContext option \<Rightarrow> redisAsyncContext option res" where
  "async_connect m co =
     (case co of
        None \<Rightarrow> Inr None
      | Some c \<Rightarrow> bind_res (redisAsyncInitialize m c) (\<lambda>aco. Inr (map_option redisAsyncCopyError aco)))"

definition redisAsyncConnect ::
    "cmem \<Rightarrow> (string \<Rightarrow> int \<Rightarrow> 't option \<Rightarrow> redisContext \<Rightarrow> redisContext) \<Rightarrow> string \<Rightarrow> int \<Rightarrow> redisAsyncContext option res" where
  "redisAsyncConnect m tcp ip port = async_connect m (redisConnectNonBlock m tcp ip port)"

definition redisAsyncConnectUnix ::
    "cmem \<Rightarrow> (string \<Rightarrow> 't option \<Rightarrow> redisContext \<Rightarrow> redisContext) \<Rightarrow> string \<Rightarrow> redisAsyncContext option res" where
  "redisAsyncConnectUnix m unix path = async_connect m (redisConnectUnixNonBlock m unix path)"

definition redisAsyncSetConnectCallback :: "nat \<Rightarrow> redisAsyncContext \<Rightarrow> int \<times> redisAsyncContext" where
  "redisAsyncSetConnectCallback fn ac =
     (if ac_onConnect ac = None then (REDIS_OK, run_hook AddWrite (ac\<lparr>ac_onConnect := Some fn\<rparr>)) else (REDIS_ERR, ac))"

definition redisAsyncSetDisconnectCallback :: "nat \<Rightarrow> redisAsyncContext \<Rightarrow> int \<times> redisAsyncContext" where
  "redisAsyncSetDisconnectCallback fn ac =
     (if ac_onDisconnect ac = None then (REDIS_OK, ac\<lparr>ac_onDisconnect := Some fn\<rparr>) else (REDIS_ERR, ac))"

section \<open>Lists of callbacks\<close>

definition redisPushCallback :: "cmem \<Rightarrow> redisCallback \<Rightarrow> redisCallback list \<Rightarrow> int \<times> redisCallback list" where
  "redisPushCallback m source cbs = (if mem_ok m 24 then (REDIS_OK, cbs @ [source]) else (REDIS_ERR_OOM, cbs))"

definition redisShiftCallback :: "redisCallback list \<Rightarrow> (redisCallback \<times> redisCallback list) option" where
  "redisShiftCallback cbs = (case cbs of [] \<Rightarrow> None | cb # rest \<Rightarrow> Some (cb, rest))"

section \<open>Commands\<close>

text \<open>\<^verbatim>\<open>strchr\<close>, \<^verbatim>\<open>strtol\<close> and \<^verbatim>\<open>strncasecmp\<close> as the code uses them.\<close>

fun strchr_from :: "char list \<Rightarrow> char \<Rightarrow> nat \<Rightarrow> nat option res" where
  "strchr_from [] c i = Inl OutOfBounds"
| "strchr_from (x # xs) c i = (if x = c then Inr (Some i) else if x = NUL then Inr None else strchr_from xs c (Suc i))"

definition strchr :: "char list \<Rightarrow> nat \<Rightarrow> char \<Rightarrow> nat option res" where
  "strchr blk off c = strchr_from (drop off blk) c off"

fun strtol_digits :: "int \<Rightarrow> char list \<Rightarrow> int" where
  "strtol_digits v [] = v"
| "strtol_digits v (c # cs) = (if is_digit c then strtol_digits (v * 10 + (int (of_char c) - 48)) cs else v)"

definition strtol :: "char list \<Rightarrow> nat \<Rightarrow> int res" where
  "strtol blk off =
     check_res (NUL \<in> set (drop off blk)) OutOfBounds
       (let s = dropWhile isspace (drop off blk);
            neg = (hd s = CHR ''-'');
            ds = (if hd s = CHR ''-'' \<or> hd s = CHR ''+'' then tl s else s);
            v = (if neg then - strtol_digits 0 ds else strtol_digits 0 ds)
        in Inr (max (-9223372036854775808) (min 9223372036854775807 v)))"

text \<open>\<open>lit\<close> is in lower case; the comparison stops at the first difference.\<close>

fun ci_prefix :: "char list \<Rightarrow> char list \<Rightarrow> bool res" where
  "ci_prefix xs [] = Inr True"
| "ci_prefix [] (l # ls) = Inl OutOfBounds"
| "ci_prefix (x # xs) (l # ls) = (if tolower x = l then ci_prefix xs ls else Inr False)"

definition strncaseeq :: "char list \<Rightarrow> nat \<Rightarrow> char list \<Rightarrow> bool res" where
  "strncaseeq blk off lit = ci_prefix (drop off blk) lit"

text \<open>\<^verbatim>\<open>nextArgument\<close>: offset and length of the argument, and the offset after it.\<close>

definition argument_at :: "char list \<Rightarrow> nat \<Rightarrow> (nat \<times> nat \<times> nat) res" where
  "argument_at cmd p =
     bind_res (strtol cmd (p + 1)) (\<lambda>l.
     bind_res (strchr cmd p CR) (\<lambda>q.
       case q of
         None \<Rightarrow> Inl AssertFailed
       | Some q \<Rightarrow> let len = u64 (i32 l) in Inr (q + 2, len, q + 2 + len + 2)))"

definition nextArgument :: "char list \<Rightarrow> nat \<Rightarrow> (nat \<times> nat \<times> nat) option res" where
  "nextArgument cmd start =
     bind_res (byte_at cmd start) (\<lambda>c.
     bind_res (if c \<noteq> CHR ''$'' then strchr cmd start (CHR ''$'') else Inr (Some start)) (\<lambda>p.
       case p of
         None \<Rightarrow> Inr None
       | Some p \<Rightarrow> bind_res (argument_at cmd p) (\<lambda>x. Inr (Some x))))"

lemma strchr_from_ge: "strchr_from xs c i = Inr (Some q) \<Longrightarrow> i \<le> q"
proof (induction xs arbitrary: i)
  case (Cons x xs)
  show ?case using Cons.IH [of "Suc i"] Cons.prems by (auto split: if_splits)
qed simp

lemma nextArgument_ge:
  assumes "nextArgument cmd p = Inr (Some (astr, alen, nxt))"
  shows "p < length cmd \<and> p < nxt"
  using assms unfolding nextArgument_def argument_at_def strchr_def
  by (fastforce simp: bind_res_Inr byte_at_def Let_def split: option.splits if_splits dest!: strchr_from_ge)

text \<open>The loop that enters every channel or pattern of a \<^verbatim>\<open>SUBSCRIBE\<close> into its table.\<close>

definition add_subscription :: "cmem \<Rightarrow> redisCallback \<Rightarrow> bool \<Rightarrow> string \<Rightarrow> redisAsyncContext \<Rightarrow> redisAsyncContext res" where
  "add_subscription m cb pvariant sname ac =
     (if pvariant then bind_res (replace_callback m sname cb (ac_patterns ac)) (\<lambda>ht. Inr (ac\<lparr>ac_patterns := ht\<rparr>))
      else bind_res (replace_callback m sname cb (ac_channels ac)) (\<lambda>ht. Inr (ac\<lparr>ac_channels := ht\<rparr>)))"

function subscribe_loop ::
    "cmem \<Rightarrow> redisCallback \<Rightarrow> bool \<Rightarrow> char list \<Rightarrow> nat \<Rightarrow> redisAsyncContext \<Rightarrow> redisAsyncContext res" where
  "subscribe_loop m cb pvariant cmd p ac =
     (case nextArgument cmd p of
        Inl e \<Rightarrow> Inl e
      | Inr None \<Rightarrow> Inr ac
      | Inr (Some (astr, alen, nxt)) \<Rightarrow>
          (case sdsnewlen m (Some (drop astr cmd)) alen of
             Inl e \<Rightarrow> Inl (if e = OutOfMemory then NullDeref else e)
           | Inr sname \<Rightarrow>
               bind_res (add_subscription m cb pvariant (sds_str sname) ac) (subscribe_loop m cb pvariant cmd nxt)))"
  by pat_completeness auto
termination
  by (relation "measure (\<lambda>(m, cb, pv, cmd, p, ac). length cmd - p)") (auto dest!: nextArgument_ge)

declare subscribe_loop.simps [simp del]

text \<open>
  \<^verbatim>\<open>__redisAsyncCommand\<close> from the point where the command is known: \<open>cstr\<close> is the offset of its name after a
  leading p, \<open>p\<close> the offset of the next argument.
\<close>

definition register_command ::
    "cmem \<Rightarrow> redisCallback \<Rightarrow> char list \<Rightarrow> nat \<Rightarrow> nat \<Rightarrow> bool \<Rightarrow> bool \<Rightarrow> redisAsyncContext \<Rightarrow> (bool \<times> redisAsyncContext) res" where
  "register_command m cb cmd cstr p pvariant hasnext ac =
     bind_res (if hasnext then strncaseeq cmd cstr (''subscribe'' @ [CR, LF]) else Inr False) (\<lambda>sub.
       if sub
       then bind_res (subscribe_loop m cb pvariant cmd p (set_flag REDIS_SUBSCRIBED ac)) (\<lambda>ac. Inr (True, ac))
       else bind_res (strncaseeq cmd cstr (''unsubscribe'' @ [CR, LF])) (\<lambda>unsub.
         if unsub then Inr (flag REDIS_SUBSCRIBED ac, ac)
         else bind_res (strncaseeq cmd cstr (''monitor'' @ [CR, LF])) (\<lambda>mon.
           if mon
           then let ac1 = set_flag REDIS_MONITORING ac
                in Inr (True, ac1\<lparr>ac_replies := snd (redisPushCallback m cb (ac_replies ac1))\<rparr>)
           else if flag REDIS_SUBSCRIBED ac
           then Inr (True, ac\<lparr>ac_invalid := snd (redisPushCallback m cb (ac_invalid ac))\<rparr>)
           else Inr (True, ac\<lparr>ac_replies := snd (redisPushCallback m cb (ac_replies ac))\<rparr>))))"

definition redisAsyncCommandRaw ::
    "cmem \<Rightarrow> nat option \<Rightarrow> nat \<Rightarrow> char list \<Rightarrow> nat \<Rightarrow> redisAsyncContext \<Rightarrow> (int \<times> redisAsyncContext) res" where
  "redisAsyncCommandRaw m fn privdata cmd len ac =
     (if flag REDIS_DISCONNECTING ac \<or> flag REDIS_FREEING ac then Inr (REDIS_ERR, ac)
      else
        bind_res (nextArgument cmd 0) (\<lambda>arg.
          case arg of
            None \<Rightarrow> Inl AssertFailed
          | Some (cstr, clen, p) \<Rightarrow>
              bind_res (byte_at cmd p) (\<lambda>c.
              bind_res (byte_at cmd cstr) (\<lambda>d.
                let pvariant = (tolower d = CHR ''p'') in
                bind_res (register_command m \<lparr>cb_fn = fn, cb_privdata = privdata\<rparr> cmd
                    (if pvariant then cstr + 1 else cstr) p pvariant (c = CHR ''$'') ac) (\<lambda>(ok, ac1).
                  if \<not> ok then Inr (REDIS_ERR, ac1)
                  else bind_res (redisAppendFormatted m cmd len (ac_c ac1)) (\<lambda>(_, c').
                    Inr (REDIS_OK, run_hook AddWrite (ac1\<lparr>ac_c := c'\<rparr>))))))))"

text \<open>The formatted command; when formatting failed the variable \<^verbatim>\<open>cmd\<close> has no value.\<close>

definition command_of :: "int \<times> char list option \<Rightarrow> (char list \<times> nat) res" where
  "command_of fmt = (case snd fmt of None \<Rightarrow> Inl Uninitialised | Some cmd \<Rightarrow> Inr (cmd, u64 (fst fmt)))"

definition redisvAsyncCommand ::
    "async_env \<Rightarrow> nat option \<Rightarrow> nat \<Rightarrow> char list \<Rightarrow> c_arg list \<Rightarrow> redisAsyncContext \<Rightarrow> (int \<times> redisAsyncContext) res" where
  "redisvAsyncCommand e fn privdata format ap ac =
     bind_res (redisvFormatCommand (ae_mem e) (ae_printf e) True format ap) (\<lambda>fmt.
     bind_res (command_of fmt) (\<lambda>(cmd, len). redisAsyncCommandRaw (ae_mem e) fn privdata cmd len ac))"

definition redisAsyncCommand ::
    "async_env \<Rightarrow> nat option \<Rightarrow> nat \<Rightarrow> char list \<Rightarrow> c_arg list \<Rightarrow> redisAsyncContext \<Rightarrow> (int \<times> redisAsyncContext) res" where
  "redisAsyncCommand e fn privdata format ap ac = redisvAsyncCommand e fn privdata format ap ac"

definition redisAsyncCommandArgv ::
    "async_env \<Rightarrow> nat option \<Rightarrow> nat \<Rightarrow> int \<Rightarrow> char list list \<Rightarrow> nat list option \<Rightarrow> redisAsyncContext \<Rightarrow> (int \<times> redisAsyncContext) res" where
  "redisAsyncCommandArgv e fn privdata argc argv argvlen ac =
     bind_res (redisFormatCommandArgv (ae_mem e) argc argv argvlen) (\<lambda>fmt.
     bind_res (command_of fmt) (\<lambda>(cmd, len). redisAsyncCommandRaw (ae_mem e) fn privdata cmd len ac))"

section \<open>Running callbacks\<close>

text \<open>
  What a call does inside a reply callback: \<^verbatim>\<open>redisAsyncDisconnect\<close> and \<^verbatim>\<open>redisAsyncFree\<close> see
  \<^verbatim>\<open>REDIS_IN_CALLBACK\<close> and only set their flag.
\<close>

fun nested_call :: "async_env \<Rightarrow> api_call \<Rightarrow> redisAsyncContext \<Rightarrow> redisAsyncContext res" where
  "nested_call e (DoCommand fn d fmt args) ac = bind_res (redisAsyncCommand e fn d fmt args ac) (\<lambda>(_, ac). Inr ac)"
| "nested_call e (DoCommandArgv fn d n argv lens) ac = bind_res (redisAsyncCommandArgv e fn d n argv lens ac) (\<lambda>(_, ac). Inr ac)"
| "nested_call e DoDisconnect ac = Inr (set_flag REDIS_DISCONNECTING ac)"
| "nested_call e DoFree ac = Inr (set_flag REDIS_FREEING ac)"
| "nested_call e (DoSetConnect fn) ac = Inr (snd (redisAsyncSetConnectCallback fn ac))"
| "nested_call e (DoSetDisconnect fn) ac = Inr (snd (redisAsyncSetDisconnectCallback fn ac))"

definition redisRunCallback ::
    "async_env \<Rightarrow> redisCallback \<Rightarrow> redisReply option \<Rightarrow> redisAsyncContext \<Rightarrow> redisAsyncContext res" where
  "redisRunCallback e cb reply ac =
     (case cb_fn cb of
        None \<Rightarrow> Inr ac
      | Some fn \<Rightarrow>
          let ac1 = log_event (RanReply fn (cb_privdata cb) reply) (set_flag REDIS_IN_CALLBACK ac) in
          bind_res (fold_res (nested_call e) (ae_user e (ac_log ac1)) ac1) (\<lambda>ac2. Inr (clear_flag REDIS_IN_CALLBACK ac2)))"

section \<open>Disconnecting\<close>

text \<open>A computation may also run out of fuel, which is \<open>Inr None\<close>.\<close>

definition bind_fuel :: "'a option res \<Rightarrow> ('a \<Rightarrow> 'b option res) \<Rightarrow> 'b option res" where
  "bind_fuel x f = (case x of Inl e \<Rightarrow> Inl e | Inr None \<Rightarrow> Inr None | Inr (Some y) \<Rightarrow> f y)"

definition enough :: "'a res \<Rightarrow> 'a option res" where
  "enough x = (case x of Inl e \<Rightarrow> Inl e | Inr y \<Rightarrow> Inr (Some y))"

fun drain_replies :: "async_env \<Rightarrow> nat \<Rightarrow> redisAsyncContext \<Rightarrow> redisAsyncContext option res" where
  "drain_replies e 0 ac = Inr None"
| "drain_replies e (Suc n) ac =
     (case redisShiftCallback (ac_replies ac) of
        None \<Rightarrow> Inr (Some ac)
      | Some (cb, rest) \<Rightarrow> bind_res (redisRunCallback e cb None (ac\<lparr>ac_replies := rest\<rparr>)) (drain_replies e n))"

fun drain_invalid :: "async_env \<Rightarrow> nat \<Rightarrow> redisAsyncContext \<Rightarrow> redisAsyncContext option res" where
  "drain_invalid e 0 ac = Inr None"
| "drain_invalid e (Suc n) ac =
     (case redisShiftCallback (ac_invalid ac) of
        None \<Rightarrow> Inr (Some ac)
      | Some (cb, rest) \<Rightarrow> bind_res (redisRunCallback e cb None (ac\<lparr>ac_invalid := rest\<rparr>)) (drain_invalid e n))"

text \<open>The loop over a table of subscriptions; \<open>tbl\<close> selects it.\<close>

fun run_subscriptions ::
    "async_env \<Rightarrow> (redisAsyncContext \<Rightarrow> (string, redisCallback) dict) \<Rightarrow> nat \<Rightarrow> (string, redisCallback) dictIterator \<Rightarrow>
       redisAsyncContext \<Rightarrow> redisAsyncContext option res" where
  "run_subscriptions e tbl 0 it ac = Inr None"
| "run_subscriptions e tbl (Suc n) it ac =
     bind_res (dictNext (tbl ac) it) (\<lambda>(de, it').
       case de of
         None \<Rightarrow> Inr (Some ac)
       | Some (_, cb) \<Rightarrow> bind_res (redisRunCallback e cb None ac) (run_subscriptions e tbl n it'))"

definition run_table ::
    "async_env \<Rightarrow> (redisAsyncContext \<Rightarrow> (string, redisCallback) dict) \<Rightarrow> redisAsyncContext \<Rightarrow> redisAsyncContext option res" where
  "run_table e tbl ac =
     bind_res (dictGetIterator (ae_mem e)) (\<lambda>it. run_subscriptions e tbl (Suc (d_used (tbl ac))) it ac)"

text \<open>
  A call from the disconnect callback, which runs when the tables are released: a second clean-up would
  use them.  Commands are refused because of the flags, which are set whenever this runs.
\<close>

fun late_call :: "async_env \<Rightarrow> api_call \<Rightarrow> redisAsyncContext \<Rightarrow> redisAsyncContext res" where
  "late_call e (DoSetConnect fn) ac = Inr (snd (redisAsyncSetConnectCallback fn ac))"
| "late_call e (DoSetDisconnect fn) ac = Inr (snd (redisAsyncSetDisconnectCallback fn ac))"
| "late_call e DoFree ac = Inl UseAfterFree"
| "late_call e DoDisconnect ac =
     (if ac_replies ac = [] then Inl UseAfterFree else Inr (set_flag REDIS_DISCONNECTING ac))"
| "late_call e c ac =
     (if flag REDIS_DISCONNECTING ac \<or> flag REDIS_FREEING ac then nested_call e c ac else Inl UseAfterFree)"

definition run_disconnect_callback :: "async_env \<Rightarrow> redisAsyncContext \<Rightarrow> redisAsyncContext res" where
  "run_disconnect_callback e ac =
     (case ac_onDisconnect ac of
        None \<Rightarrow> Inr ac
      | Some fn \<Rightarrow>
          if \<not> flag REDIS_CONNECTED ac then Inr ac
          else
            let status = (if flag REDIS_FREEING ac then REDIS_OK else if ac_err ac = 0 then REDIS_OK else REDIS_ERR);
                ac1 = log_event (RanDisconnect fn status) ac
            in fold_res (late_call e) (ae_user e (ac_log ac1)) ac1)"

definition release_table ::
    "(string, redisCallback) dict \<Rightarrow> (string, redisCallback) dict res" where
  "release_table ht = bind_res (dictClear callbackDict ht) (\<lambda>(_, ht'). Inr ht')"

text \<open>\<^verbatim>\<open>__redisAsyncFree\<close>.\<close>

definition async_free :: "async_env \<Rightarrow> redisAsyncContext \<Rightarrow> redisAsyncContext option res" where
  "async_free e ac =
     (if ac_freed ac \<or> ac_released ac then Inl UseAfterFree
      else
        bind_fuel (drain_replies e (Suc (length (ac_replies ac))) ac) (\<lambda>ac.
        bind_fuel (drain_invalid e (Suc (length (ac_invalid ac))) ac) (\<lambda>ac.
        bind_fuel (run_table e ac_channels ac) (\<lambda>ac.
        bind_res (release_table (ac_channels ac)) (\<lambda>ch.
        bind_fuel (run_table e ac_patterns (ac\<lparr>ac_channels := ch\<rparr>)) (\<lambda>ac.
        bind_res (release_table (ac_patterns ac)) (\<lambda>pt.
        bind_res (run_disconnect_callback e (run_hook Cleanup (ac\<lparr>ac_patterns := pt, ac_released := True\<rparr>))) (\<lambda>ac.
          Inr (Some (ac\<lparr>ac_freed := True\<rparr>))))))))))"

text \<open>\<^verbatim>\<open>__redisAsyncDisconnect\<close>.\<close>

definition async_disconnect :: "async_env \<Rightarrow> redisAsyncContext \<Rightarrow> redisAsyncContext option res" where
  "async_disconnect e ac =
     (if ac_freed ac then Inl UseAfterFree
      else
        let ac1 = redisAsyncCopyError ac in
        if ac_err ac1 = 0
        then check_res (redisShiftCallback (ac_replies ac1) = None) AssertFailed (async_free e ac1)
        else async_free e (set_flag REDIS_DISCONNECTING ac1))"

definition redisAsyncFree :: "async_env \<Rightarrow> redisAsyncContext \<Rightarrow> redisAsyncContext option res" where
  "redisAsyncFree e ac =
     (let ac1 = set_flag REDIS_FREEING ac in
      if \<not> flag REDIS_IN_CALLBACK ac1 then async_free e ac1 else Inr (Some ac1))"

definition redisAsyncDisconnect :: "async_env \<Rightarrow> redisAsyncContext \<Rightarrow> redisAsyncContext option res" where
  "redisAsyncDisconnect e ac =
     (let ac1 = set_flag REDIS_DISCONNECTING ac in
      if \<not> flag REDIS_IN_CALLBACK ac1 \<and> ac_replies ac1 = [] then async_disconnect e ac1 else Inr (Some ac1))"

section \<open>Replies\<close>

text \<open>
  The value of a reply object; \<open>n\<close> bounds the nesting.  The parser builds at most nine levels.
\<close>

fun read_object :: "nat \<Rightarrow> heap \<Rightarrow> addr \<Rightarrow> redisReply option" where
  "read_object 0 h a = None"
| "read_object (Suc n) h a =
     (if a < length h
      then case h ! a of
          None \<Rightarrow> None
        | Some r \<Rightarrow>
            if ro_type r = REPLY_ARRAY
            then (case ro_element r of
                    None \<Rightarrow> if ro_elements r = 0 then Some (ReplyArray []) else None
                  | Some es \<Rightarrow> map_option ReplyArray
                      (those (map (\<lambda>x. case x of None \<Rightarrow> None | Some b \<Rightarrow> read_object n h b) es)))
            else if ro_type r = REPLY_INTEGER then Some (ReplyInteger (ro_integer r))
            else if ro_type r = REPLY_NIL then Some ReplyNil
            else (case ro_str r of
                    None \<Rightarrow> None
                  | Some str \<Rightarrow>
                      if ro_type r = REPLY_STRING then Some (ReplyString str)
                      else if ro_type r = REPLY_STATUS then Some (ReplyStatus str)
                      else if ro_type r = REPLY_ERROR then Some (ReplyError str)
                      else None)
      else None)"

definition reply_at :: "redisContext \<Rightarrow> addr \<Rightarrow> redisReply res" where
  "reply_at c a =
     (case rc_reader c of
        None \<Rightarrow> Inl NullDeref
      | Some r \<Rightarrow> (case read_object 9 (rd_heap r) a of None \<Rightarrow> Inl NullDeref | Some t \<Rightarrow> Inr t))"

definition free_reply :: "addr \<Rightarrow> redisAsyncContext \<Rightarrow> redisAsyncContext" where
  "free_reply a ac = ac\<lparr>ac_c := (ac_c ac)\<lparr>rc_reader :=
     map_option (\<lambda>r. r\<lparr>rd_heap := freeReplyObject a (rd_heap r)\<rparr>) (rc_reader (ac_c ac))\<rparr>\<rparr>"

definition elem_at :: "redisReply list \<Rightarrow> nat \<Rightarrow> redisReply res" where
  "elem_at ts i = (if i < length ts then Inr (ts ! i) else Inl OutOfBounds)"

text \<open>
  The end of the array branch of \<^verbatim>\<open>__redisGetSubscribeCallback\<close>, where the entry was found: an
  unsubscribe message removes it.
\<close>

definition drop_subscription ::
    "bool \<Rightarrow> string \<Rightarrow> string \<Rightarrow> redisReply list \<Rightarrow> redisAsyncContext \<Rightarrow> redisAsyncContext res" where
  "drop_subscription pvariant stype sname ts ac =
     (if map tolower (c_str (drop (if pvariant then 1 else 0) stype)) = ''unsubscribe''
      then
        bind_res (if pvariant
          then bind_res (dictDelete callbackDict sname (ac_patterns ac)) (\<lambda>(_, ht). Inr (ac\<lparr>ac_patterns := ht\<rparr>))
          else bind_res (dictDelete callbackDict sname (ac_channels ac)) (\<lambda>(_, ht). Inr (ac\<lparr>ac_channels := ht\<rparr>))) (\<lambda>ac.
        bind_res (elem_at ts 2) (\<lambda>t2.
          case t2 of
            ReplyInteger i \<Rightarrow> Inr (if i = 0 then clear_flag REDIS_SUBSCRIBED ac else ac)
          | _ \<Rightarrow> Inl AssertFailed))
      else Inr ac)"

text \<open>
  \<^verbatim>\<open>__redisGetSubscribeCallback\<close>; \<open>dst\<close> is the value of \<^verbatim>\<open>*dstcb\<close>, which is written only when a callback
  is found.
\<close>

definition redisGetSubscribeCallback ::
    "cmem \<Rightarrow> redisReply \<Rightarrow> redisCallback option \<Rightarrow> redisAsyncContext \<Rightarrow> (redisCallback option \<times> redisAsyncContext) res" where
  "redisGetSubscribeCallback m reply dst ac =
     (case reply of
        ReplyArray ts \<Rightarrow>
          check_res (length ts \<ge> 2) AssertFailed
            (bind_res (elem_at ts 0) (\<lambda>t0.
               case t0 of
                 ReplyString stype \<Rightarrow>
                   bind_res (elem_at ts 1) (\<lambda>t1.
                     case t1 of
                       ReplyString name \<Rightarrow>
                         (case sdsnewlen m (Some (name @ [NUL])) (length name) of
                            Inl e \<Rightarrow> Inl (if e = OutOfMemory then NullDeref else e)
                          | Inr sname \<Rightarrow>
                              let pvariant = (tolower (hd (stype @ [NUL])) = CHR ''p'') in
                              bind_res (dictFind callbackDict (sds_str sname)
                                  (if pvariant then ac_patterns ac else ac_channels ac)) (\<lambda>de.
                                case de of
                                  None \<Rightarrow> Inr (dst, ac)
                                | Some (_, cb) \<Rightarrow>
                                    bind_res (drop_subscription pvariant stype (sds_str sname) ts ac) (\<lambda>ac.
                                      Inr (Some cb, ac))))
                     | _ \<Rightarrow> Inl AssertFailed)
               | _ \<Rightarrow> Inl AssertFailed))
      | _ \<Rightarrow>
          (case redisShiftCallback (ac_invalid ac) of
             None \<Rightarrow> Inr (dst, ac)
           | Some (cb, rest) \<Rightarrow> Inr (Some cb, ac\<lparr>ac_invalid := rest\<rparr>)))"

text \<open>
  The part of \<^verbatim>\<open>redisProcessCallbacks\<close> that looks for the callback of a reply.  \<open>None\<close> as result says that
  the connection is closed because of a spontaneous error reply.
\<close>

definition find_callback ::
    "cmem \<Rightarrow> redisReply \<Rightarrow> redisCallback option \<Rightarrow> redisAsyncContext \<Rightarrow> (redisCallback option \<times> redisAsyncContext) option res" where
  "find_callback m reply cb ac =
     (case redisShiftCallback (ac_replies ac) of
        Some (cb', rest) \<Rightarrow> Inr (Some (Some cb', ac\<lparr>ac_replies := rest\<rparr>))
      | None \<Rightarrow>
          (case reply of
             ReplyError s \<Rightarrow> Inr None
           | _ \<Rightarrow>
               check_res (flag REDIS_SUBSCRIBED ac \<or> flag REDIS_MONITORING ac) AssertFailed
                 (if flag REDIS_SUBSCRIBED ac
                  then bind_res (redisGetSubscribeCallback m reply cb ac) (\<lambda>x. Inr (Some x))
                  else Inr (Some (cb, ac)))))"

definition spontaneous_error :: "redisReply \<Rightarrow> redisAsyncContext \<Rightarrow> redisAsyncContext" where
  "spontaneous_error reply ac = ac\<lparr>ac_c := (ac_c ac)\<lparr>rc_err := REDIS_ERR_OTHER,
     rc_errstr := take 127 (c_str (case reply_str reply of None \<Rightarrow> [] | Some s \<Rightarrow> s))\<rparr>\<rparr>"

text \<open>
  When \<^verbatim>\<open>redisGetReply\<close> gave no reply: \<open>True\<close> as first component says that the context is to be
  disconnected.
\<close>

definition no_reply :: "cmem \<Rightarrow> redisCallback option \<Rightarrow> redisAsyncContext \<Rightarrow> (bool \<times> redisAsyncContext) res" where
  "no_reply m cb ac =
     bind_res (if flag REDIS_DISCONNECTING ac
               then case rc_obuf (ac_c ac) of None \<Rightarrow> Inl NullDeref | Some s \<Rightarrow> Inr (sdslen s = 0) else Inr False) (\<lambda>d.
       if d then Inr (True, ac)
       else if flag REDIS_MONITORING ac
       then case cb of
           None \<Rightarrow> Inl Uninitialised
         | Some cb \<Rightarrow> Inr (False, ac\<lparr>ac_replies := snd (redisPushCallback m cb (ac_replies ac))\<rparr>)
       else Inr (False, ac))"

text \<open>
  The loop of \<^verbatim>\<open>redisProcessCallbacks\<close>.  \<open>cb\<close> is the local variable of the same name, \<open>None\<close> before its
  first assignment; it keeps its value from one turn to the next.  Each turn takes a reply out of the
  buffer of the reader, so its length is enough fuel.
\<close>

fun process_callbacks ::
    "async_env \<Rightarrow> nat \<Rightarrow> redisCallback option \<Rightarrow> redisAsyncContext \<Rightarrow> redisAsyncContext option res" where
  "process_callbacks e 0 cb ac = Inr None"
| "process_callbacks e (Suc n) cb ac =
     bind_fuel (redisGetReply (ae_mem e) (ae_strerror e) [] [] (ac_c ac)) (\<lambda>res.
       let ac = ac\<lparr>ac_c := cr_ctx res\<rparr> in
       if cr_rc res \<noteq> REDIS_OK then async_disconnect e ac
       else case cr_reply res of
           None \<Rightarrow>
             bind_res (no_reply (ae_mem e) cb ac) (\<lambda>(disc, ac).
               if disc then async_disconnect e ac else Inr (Some ac))
         | Some a \<Rightarrow>
             bind_res (reply_at (ac_c ac) a) (\<lambda>reply.
             bind_res (find_callback (ae_mem e) reply cb ac) (\<lambda>found.
               case found of
                 None \<Rightarrow> async_disconnect e (spontaneous_error reply ac)
               | Some (None, ac) \<Rightarrow> Inl Uninitialised
               | Some (Some cb, ac) \<Rightarrow>
                   if cb_fn cb \<noteq> None
                   then bind_res (redisRunCallback e cb (Some reply) ac) (\<lambda>ac.
                          let ac = free_reply a ac in
                          if flag REDIS_FREEING ac then async_free e ac else process_callbacks e n (Some cb) ac)
                   else process_callbacks e n (Some cb) (free_reply a ac))))"

definition redisProcessCallbacks :: "async_env \<Rightarrow> redisAsyncContext \<Rightarrow> redisAsyncContext option res" where
  "redisProcessCallbacks e ac =
     process_callbacks e (case rc_reader (ac_c ac) of None \<Rightarrow> 1 | Some r \<Rightarrow> rd_len r + 1) None ac"

section \<open>Events\<close>

text \<open>A call from client code that does not run inside a reply callback.\<close>

fun top_call :: "async_env \<Rightarrow> api_call \<Rightarrow> redisAsyncContext \<Rightarrow> redisAsyncContext option res" where
  "top_call e DoFree ac = (if ac_freed ac then Inl UseAfterFree else redisAsyncFree e ac)"
| "top_call e DoDisconnect ac = (if ac_freed ac then Inl UseAfterFree else redisAsyncDisconnect e ac)"
| "top_call e c ac = (if ac_freed ac then Inl UseAfterFree else enough (nested_call e c ac))"

fun top_calls :: "async_env \<Rightarrow> api_call list \<Rightarrow> redisAsyncContext \<Rightarrow> redisAsyncContext option res" where
  "top_calls e [] ac = Inr (Some ac)"
| "top_calls e (c # cs) ac = bind_fuel (top_call e c ac) (top_calls e cs)"

definition run_connect_callback :: "async_env \<Rightarrow> int \<Rightarrow> redisAsyncContext \<Rightarrow> redisAsyncContext option res" where
  "run_connect_callback e status ac =
     (case ac_onConnect ac of
        None \<Rightarrow> Inr (Some ac)
      | Some fn \<Rightarrow> let ac1 = log_event (RanConnect fn status) ac in top_calls e (ae_user e (ac_log ac1)) ac1)"

text \<open>
  \<^verbatim>\<open>__redisAsyncHandleConnect\<close>; \<open>sock\<close> is the result of \<^verbatim>\<open>redisCheckSocketError\<close>: its return code, the
  value of \<^verbatim>\<open>errno\<close> after it, and the context with the error it recorded.
\<close>

definition redisAsyncHandleConnect ::
    "async_env \<Rightarrow> (redisContext \<Rightarrow> int \<times> int \<times> redisContext) \<Rightarrow> redisAsyncContext \<Rightarrow> (int \<times> redisAsyncContext) option res" where
  "redisAsyncHandleConnect e sock ac =
     (case sock (ac_c ac) of (rc, errno, c) \<Rightarrow>
        let ac = ac\<lparr>ac_c := c\<rparr> in
        if rc = REDIS_ERR
        then
          if errno = EINPROGRESS then Inr (Some (REDIS_OK, ac))
          else bind_fuel (run_connect_callback e REDIS_ERR ac) (\<lambda>ac.
               bind_fuel (async_disconnect e ac) (\<lambda>ac. Inr (Some (REDIS_ERR, ac))))
        else bind_fuel (run_connect_callback e REDIS_OK (set_flag REDIS_CONNECTED ac)) (\<lambda>ac.
               Inr (Some (REDIS_OK, ac))))"

text \<open>The common start of the two handlers: \<open>True\<close> says to go on.  The flags of the context are read again.\<close>

definition ensure_connected ::
    "async_env \<Rightarrow> (redisContext \<Rightarrow> int \<times> int \<times> redisContext) \<Rightarrow> redisAsyncContext \<Rightarrow> (bool \<times> redisAsyncContext) option res" where
  "ensure_connected e sock ac =
     (if ac_freed ac then Inl UseAfterFree
      else if flag REDIS_CONNECTED ac then Inr (Some (True, ac))
      else bind_fuel (redisAsyncHandleConnect e sock ac) (\<lambda>(rc, ac).
        if rc \<noteq> REDIS_OK then Inr (Some (False, ac))
        else if ac_freed ac then Inl UseAfterFree
        else Inr (Some (flag REDIS_CONNECTED ac, ac))))"

definition redisAsyncHandleRead ::
    "async_env \<Rightarrow> (redisContext \<Rightarrow> int \<times> int \<times> redisContext) \<Rightarrow> sys_read \<Rightarrow> redisAsyncContext \<Rightarrow> redisAsyncContext option res" where
  "redisAsyncHandleRead e sock rd ac =
     bind_fuel (ensure_connected e sock ac) (\<lambda>(go, ac).
       if \<not> go then Inr (Some ac)
       else bind_res (redisBufferRead (ae_mem e) (ae_strerror e) rd (ac_c ac)) (\<lambda>(rc, c).
         let ac = ac\<lparr>ac_c := c\<rparr> in
         if rc = REDIS_ERR then async_disconnect e ac
         else redisProcessCallbacks e (run_hook AddRead ac)))"

definition redisAsyncHandleWrite ::
    "async_env \<Rightarrow> (redisContext \<Rightarrow> int \<times> int \<times> redisContext) \<Rightarrow> sys_write \<Rightarrow> redisAsyncContext \<Rightarrow>
       (char list \<times> redisAsyncContext) option res" where
  "redisAsyncHandleWrite e sock w ac =
     bind_fuel (ensure_connected e sock ac) (\<lambda>(go, ac).
       if \<not> go then Inr (Some ([], ac))
       else bind_res (redisBufferWrite (ae_mem e) (ae_strerror e) w (ac_c ac)) (\<lambda>(rc, wdone, sent, c).
         let ac = ac\<lparr>ac_c := c\<rparr> in
         if rc = REDIS_ERR then bind_fuel (async_disconnect e ac) (\<lambda>ac. Inr (Some (sent, ac)))
         else Inr (Some (sent, run_hook AddRead (if \<not> wdone then run_hook AddWrite ac else run_hook DelWrite ac)))))"

end
