(* ===== verification/Async_Free.thy ===== *)
theory Async_Free
  imports Async Dict_Map Reader_Safe
begin

text \<open>
  The end of an asynchronous context: whatever the client code does in its callbacks, every callback
  that is pending when the context is closed runs exactly once, with a NULL reply.
\<close>

section \<open>Flags and the log\<close>

lemma flag_simps [simp]:
  "flag n (set_flag k ac) \<longleftrightarrow> n = k \<or> flag n ac"
  "flag n (clear_flag k ac) \<longleftrightarrow> n \<noteq> k \<and> flag n ac"
  "flag n (log_event e ac) \<longleftrightarrow> flag n ac"
  "flag n (run_hook h ac) \<longleftrightarrow> flag n ac"
  by (auto simp: has_flag_def set_flag_def clear_flag_def bit_set_bit_iff bit_unset_bit_iff log_event_def run_hook_def)

lemma set_flag_fields [simp]:
  "ac_replies (set_flag k ac) = ac_replies ac" "ac_invalid (set_flag k ac) = ac_invalid ac"
  "ac_channels (set_flag k ac) = ac_channels ac" "ac_patterns (set_flag k ac) = ac_patterns ac"
  "ac_released (set_flag k ac) = ac_released ac" "ac_freed (set_flag k ac) = ac_freed ac"
  "ac_log (set_flag k ac) = ac_log ac" "ac_err (set_flag k ac) = ac_err ac"
  "ac_onDisconnect (set_flag k ac) = ac_onDisconnect ac" "ac_ev (set_flag k ac) = ac_ev ac" "rc_reader (ac_c (set_flag k ac)) = rc_reader (ac_c ac)"
  by (simp_all add: set_flag_def)

lemma clear_flag_fields [simp]:
  "ac_replies (clear_flag k ac) = ac_replies ac" "ac_invalid (clear_flag k ac) = ac_invalid ac"
  "ac_channels (clear_flag k ac) = ac_channels ac" "ac_patterns (clear_flag k ac) = ac_patterns ac"
  "ac_released (clear_flag k ac) = ac_released ac" "ac_freed (clear_flag k ac) = ac_freed ac"
  "ac_log (clear_flag k ac) = ac_log ac" "ac_err (clear_flag k ac) = ac_err ac"
  "ac_onDisconnect (clear_flag k ac) = ac_onDisconnect ac" "ac_ev (clear_flag k ac) = ac_ev ac" "rc_reader (ac_c (clear_flag k ac)) = rc_reader (ac_c ac)"
  by (simp_all add: clear_flag_def)

text \<open>The reply callbacks of a log.\<close>

fun runs :: "event list \<Rightarrow> (nat \<times> nat \<times> redisReply option) list" where
  "runs [] = []"
| "runs (RanReply f d r # es) = (f, d, r) # runs es"
| "runs (_ # es) = runs es"

lemma runs_append [simp]: "runs (es @ fs) = runs es @ runs fs"
  by (induction es rule: runs.induct) simp_all

text \<open>The disconnect callbacks of a log, with their status.\<close>

fun ends :: "event list \<Rightarrow> (nat \<times> int) list" where
  "ends [] = []"
| "ends (RanDisconnect f st # es) = (f, st) # ends es"
| "ends (_ # es) = ends es"

lemma ends_append [simp]: "ends (es @ fs) = ends es @ ends fs"
  by (induction es rule: ends.induct) simp_all

text \<open>The hooks of the event loop that a log shows.\<close>

fun hooks :: "event list \<Rightarrow> ev_hook list" where
  "hooks [] = []"
| "hooks (RanHook h # es) = h # hooks es"
| "hooks (e # es) = hooks es"

lemma hooks_append [simp]: "hooks (es @ fs) = hooks es @ hooks fs"
  by (induction es rule: hooks.induct) simp_all

definition only_writes :: "event list \<Rightarrow> event list \<Rightarrow> bool" where
  "only_writes l l' \<longleftrightarrow> (\<exists>hs. hooks l' = hooks l @ hs \<and> set hs \<subseteq> {AddWrite})"

lemma only_writes_refl [simp]: "only_writes l l"
  by (simp add: only_writes_def)

lemma only_writes_trans: "only_writes a b \<Longrightarrow> only_writes b c \<Longrightarrow> only_writes a c"
  by (auto simp: only_writes_def)

lemma only_writes_run [simp]: "only_writes (l @ [RanReply f d r]) l' = only_writes l l'"
  by (simp add: only_writes_def)

lemma only_writes_hook [simp]: "only_writes l (ac_log ac) \<Longrightarrow> only_writes l (ac_log (run_hook AddWrite ac))"
  by (auto simp: only_writes_def run_hook_def log_event_def)

text \<open>What a list of callbacks logs when all of them get \<open>reply\<close>; NULL functions are skipped.\<close>

fun calls_of :: "redisReply option \<Rightarrow> redisCallback list \<Rightarrow> (nat \<times> nat \<times> redisReply option) list" where
  "calls_of reply [] = []"
| "calls_of reply (cb # cbs) =
     (case cb_fn cb of None \<Rightarrow> calls_of reply cbs | Some f \<Rightarrow> (f, cb_privdata cb, reply) # calls_of reply cbs)"

lemma calls_of_append [simp]: "calls_of reply (xs @ ys) = calls_of reply xs @ calls_of reply ys"
  by (induction xs) (auto split: option.splits)

section \<open>Callbacks on a context that is being closed\<close>

definition closing :: "redisAsyncContext \<Rightarrow> bool" where
  "closing ac \<longleftrightarrow> flag REDIS_DISCONNECTING ac \<or> flag REDIS_FREEING ac"

text \<open>The client passes formats that can be formatted.\<close>

fun formats :: "async_env \<Rightarrow> api_call \<Rightarrow> bool" where
  "formats e (DoCommand fn d fmt args) \<longleftrightarrow>
     (case redisvFormatCommand (ae_mem e) (ae_printf e) True fmt args of Inr (_, Some _) \<Rightarrow> True | _ \<Rightarrow> False)"
| "formats e (DoCommandArgv fn d n argv lens) \<longleftrightarrow>
     (case redisFormatCommandArgv (ae_mem e) n argv lens of Inr (_, Some _) \<Rightarrow> True | _ \<Rightarrow> False)"
| "formats e _ \<longleftrightarrow> True"

text \<open>
  Client code that formats its commands properly, and that neither frees nor disconnects the context
  from its disconnect callback.
\<close>

definition polite :: "async_env \<Rightarrow> bool" where
  "polite e \<longleftrightarrow> (\<forall>log. list_all (formats e) (ae_user e log)) \<and>
     (\<forall>log fn st. DoFree \<notin> set (ae_user e (log @ [RanDisconnect fn st])) \<and>
        DoDisconnect \<notin> set (ae_user e (log @ [RanDisconnect fn st])))"

text \<open>
  The parts of a context that client code can not change while it is being closed; \<open>xs\<close> are the
  reply callbacks that ran in between.
\<close>

definition kept :: "(nat \<times> nat \<times> redisReply option) list \<Rightarrow> redisAsyncContext \<Rightarrow> redisAsyncContext \<Rightarrow> bool" where
  "kept xs ac ac' \<longleftrightarrow> ac_replies ac' = ac_replies ac \<and> ac_invalid ac' = ac_invalid ac \<and>
     ac_channels ac' = ac_channels ac \<and> ac_patterns ac' = ac_patterns ac \<and>
     ac_released ac' = ac_released ac \<and> ac_freed ac' = ac_freed ac \<and> ac_err ac' = ac_err ac \<and>
     (flag REDIS_CONNECTED ac' = flag REDIS_CONNECTED ac) \<and> (flag REDIS_IN_CALLBACK ac' = flag REDIS_IN_CALLBACK ac) \<and>
     (flag REDIS_FREEING ac \<longrightarrow> flag REDIS_FREEING ac') \<and> closing ac' \<and>
     (ac_onDisconnect ac \<noteq> None \<longrightarrow> ac_onDisconnect ac' = ac_onDisconnect ac) \<and>
     runs (ac_log ac') = runs (ac_log ac) @ xs \<and> ends (ac_log ac') = ends (ac_log ac) \<and>
     ac_ev ac' = ac_ev ac \<and> only_writes (ac_log ac) (ac_log ac')"

lemma kept_trans: "kept xs a b \<Longrightarrow> kept ys b c \<Longrightarrow> kept (xs @ ys) a c"
  by (auto simp: kept_def intro: only_writes_trans)

lemma closing_refuses: "closing ac \<Longrightarrow> redisAsyncCommandRaw m fn d cmd len ac = Inr (REDIS_ERR, ac)"
  by (auto simp: redisAsyncCommandRaw_def closing_def)

lemma run_hook_fields [simp]:
  "ac_replies (run_hook h ac) = ac_replies ac" "ac_invalid (run_hook h ac) = ac_invalid ac"
  "ac_channels (run_hook h ac) = ac_channels ac" "ac_patterns (run_hook h ac) = ac_patterns ac"
  "ac_released (run_hook h ac) = ac_released ac" "ac_freed (run_hook h ac) = ac_freed ac"
  "runs (ac_log (run_hook h ac)) = runs (ac_log ac)" "ends (ac_log (run_hook h ac)) = ends (ac_log ac)" "ac_err (run_hook h ac) = ac_err ac"
  "ac_onDisconnect (run_hook h ac) = ac_onDisconnect ac" "ac_c (run_hook h ac) = ac_c ac" "ac_ev (run_hook h ac) = ac_ev ac"
  by (simp_all add: run_hook_def log_event_def)

lemma nested_kept:
  assumes "closing ac" "formats e c"
  shows "\<exists>ac'. nested_call e c ac = Inr ac' \<and> kept [] ac ac'"
proof (cases c)
  case (DoCommand fn d fmt args)
  then show ?thesis using assms closing_refuses [OF assms(1)]
    by (auto simp: redisAsyncCommand_def redisvAsyncCommand_def command_of_def kept_def split: sum.splits option.splits)
next
  case (DoCommandArgv fn d n argv lens)
  then show ?thesis using assms closing_refuses [OF assms(1)]
    by (auto simp: redisAsyncCommandArgv_def command_of_def kept_def split: sum.splits option.splits)
next
  case (DoSetConnect fn)
  have "kept [] ac (snd (redisAsyncSetConnectCallback fn ac))"
    using assms(1) by (simp add: redisAsyncSetConnectCallback_def kept_def closing_def has_flag_def)
  then show ?thesis using DoSetConnect by simp
next
  case (DoSetDisconnect fn)
  have "kept [] ac (snd (redisAsyncSetDisconnectCallback fn ac))"
    using assms(1) by (simp add: redisAsyncSetDisconnectCallback_def kept_def closing_def has_flag_def)
  then show ?thesis using DoSetDisconnect by simp
qed (use assms(1) in \<open>auto simp: kept_def closing_def\<close>)

lemma nested_calls_kept:
  assumes "closing ac" "list_all (formats e) cs"
  shows "\<exists>ac'. fold_res (nested_call e) cs ac = Inr ac' \<and> kept [] ac ac'"
  using assms
proof (induction cs arbitrary: ac)
  case Nil
  then show ?case by (simp add: kept_def)
next
  case (Cons c cs)
  from nested_kept [OF Cons.prems(1), of e c] Cons.prems(2) obtain ac1 where
    ac1: "nested_call e c ac = Inr ac1" "kept [] ac ac1" by auto
  then have "closing ac1" by (simp add: kept_def)
  from Cons.IH [OF this] Cons.prems(2) obtain ac2 where "fold_res (nested_call e) cs ac1 = Inr ac2" "kept [] ac1 ac2" by auto
  then show ?case using ac1 kept_trans [of "[]" ac ac1 "[]" ac2] by auto
qed

lemma run_callback_kept:
  assumes "closing ac" "polite e" "\<not> flag REDIS_IN_CALLBACK ac"
  shows "\<exists>ac'. redisRunCallback e cb reply ac = Inr ac' \<and> kept (calls_of reply [cb]) ac ac'"
proof (cases "cb_fn cb")
  case None
  then show ?thesis using assms(1) by (simp add: redisRunCallback_def kept_def)
next
  case (Some f)
  define ac1 where "ac1 = log_event (RanReply f (cb_privdata cb) reply) (set_flag REDIS_IN_CALLBACK ac)"
  have "closing ac1" using assms(1) by (simp add: closing_def ac1_def)
  moreover have "list_all (formats e) (ae_user e (ac_log ac1))" using assms(2) by (simp add: polite_def)
  ultimately obtain ac2 where ac2: "fold_res (nested_call e) (ae_user e (ac_log ac1)) ac1 = Inr ac2" "kept [] ac1 ac2"
    using nested_calls_kept by blast
  have "kept (calls_of reply [cb]) ac (clear_flag REDIS_IN_CALLBACK ac2)"
    using ac2(2) Some assms(3) by (auto simp: kept_def closing_def ac1_def log_event_def)
  then show ?thesis using ac2(1) Some by (simp add: redisRunCallback_def ac1_def Let_def)
qed

section \<open>Closing\<close>

text \<open>
  The two lists of callbacks are emptied in the same way.  The interface is what the clean-up needs of
  a list: reading, replacing, and that no callback changes it.
\<close>

locale callback_queue =
  fixes get :: "redisAsyncContext \<Rightarrow> redisCallback list"
    and put :: "redisCallback list \<Rightarrow> redisAsyncContext \<Rightarrow> redisAsyncContext"
    and drain :: "async_env \<Rightarrow> nat \<Rightarrow> redisAsyncContext \<Rightarrow> redisAsyncContext option res"
  assumes drain_step: "drain e (Suc n) ac = (case redisShiftCallback (get ac) of
        None \<Rightarrow> Inr (Some ac)
      | Some (cb, rest) \<Rightarrow> bind_res (redisRunCallback e cb None (put rest ac)) (drain e n))"
    and get_put: "get (put xs ac) = xs"
    and put_same: "put (get ac) ac = ac"
    and put_flag: "flag k (put xs ac) = flag k ac"
    and kept_get: "kept rs ac ac' \<Longrightarrow> get ac' = get ac"
    and kept_put: "kept rs (put ys ac) ac' \<Longrightarrow> kept rs (put zs ac) (put zs ac')"
begin

lemma drain_kept:
  assumes "polite e"
  shows "closing ac \<Longrightarrow> \<not> flag REDIS_IN_CALLBACK ac \<Longrightarrow> length (get ac) < n \<Longrightarrow>
    \<exists>ac'. drain e n ac = Inr (Some ac') \<and> kept (calls_of None (get ac)) (put [] ac) ac'"
proof (induction n arbitrary: ac)
  case (Suc n)
  show ?case
  proof (cases "get ac")
    case Nil
    then have "put [] ac = ac" using put_same [of ac] by simp
    then show ?thesis using Suc.prems(1) Nil by (simp add: drain_step redisShiftCallback_def kept_def)
  next
    case (Cons cb rest)
    have "closing (put rest ac)" "\<not> flag REDIS_IN_CALLBACK (put rest ac)" using Suc.prems by (simp_all add: closing_def put_flag)
    from run_callback_kept [OF this(1) assms this(2)] obtain ac1 where
      ac1: "redisRunCallback e cb None (put rest ac) = Inr ac1" "kept (calls_of None [cb]) (put rest ac) ac1" by blast
    have r1: "closing ac1" "\<not> flag REDIS_IN_CALLBACK ac1" using ac1(2) Suc.prems(2) by (auto simp: kept_def put_flag)
    have g1: "get ac1 = rest" "length (get ac1) < n" using kept_get [OF ac1(2)] get_put Suc.prems(3) Cons by simp_all
    from Suc.IH [OF r1 g1(2)] obtain ac2 where ac2: "drain e n ac1 = Inr (Some ac2)"
      "kept (calls_of None rest) (put [] ac1) ac2" using g1(1) by auto
    from kept_trans [OF kept_put [OF ac1(2), of "[]"] ac2(2)] show ?thesis
      using ac1(1) ac2(1) Cons by (cases "cb_fn cb") (simp_all add: drain_step redisShiftCallback_def)
  qed
qed simp

end

interpretation reply_queue: callback_queue ac_replies "\<lambda>xs ac. ac\<lparr>ac_replies := xs\<rparr>" drain_replies
  by unfold_locales (auto simp: kept_def closing_def)

interpretation invalid_queue: callback_queue ac_invalid "\<lambda>xs ac. ac\<lparr>ac_invalid := xs\<rparr>" drain_invalid
  by unfold_locales (auto simp: kept_def closing_def)

text \<open>A table is iterated as a whole, because callbacks can not change it; \<open>tbl\<close> is one of the two.\<close>

lemma run_subscriptions_kept:
  assumes "polite e" "\<And>xs a b. kept xs a b \<Longrightarrow> tbl b = tbl a"
  shows "closing ac \<Longrightarrow> \<not> flag REDIS_IN_CALLBACK ac \<Longrightarrow> iterate n (tbl ac) it = Inr (Some xs) \<Longrightarrow>
    \<exists>ac'. run_subscriptions e tbl n it ac = Inr (Some ac') \<and> kept (calls_of None (map snd xs)) ac ac'"
proof (induction n arbitrary: ac it xs)
  case (Suc n)
  from Suc.prems(3) obtain de it' where d: "dictNext (tbl ac) it = Inr (de, it')" by (auto simp: bind_res_Inr)
  show ?case
  proof (cases de)
    case None
    then show ?thesis using Suc.prems d by (auto simp: kept_def)
  next
    case (Some kv)
    obtain k cb where kv: "kv = (k, cb)" by (cases kv)
    from Suc.prems(3) d Some obtain ys where ys: "iterate n (tbl ac) it' = Inr (Some ys)" "xs = kv # ys" by (auto simp: bind_res_Inr)
    from run_callback_kept [OF Suc.prems(1) assms(1) Suc.prems(2)] obtain ac1 where
      ac1: "redisRunCallback e cb None ac = Inr ac1" "kept (calls_of None [cb]) ac ac1" by blast
    have r1: "closing ac1" "\<not> flag REDIS_IN_CALLBACK ac1" using ac1(2) Suc.prems(2) by (auto simp: kept_def)
    have "iterate n (tbl ac1) it' = Inr (Some ys)" using ys(1) assms(2) [OF ac1(2)] by simp
    from Suc.IH [OF r1 this] obtain ac2 where ac2: "run_subscriptions e tbl n it' ac1 = Inr (Some ac2)"
      "kept (calls_of None (map snd ys)) ac1 ac2" by blast
    from kept_trans [OF ac1(2) ac2(2)] show ?thesis
      using ac1(1) ac2(1) d Some kv ys(2) by (cases "cb_fn cb") simp_all
  qed
qed simp

lemma callbackDict_ok: "dt_ok callbackDict" "keyDestructor callbackDict" "valDestructor callbackDict"
  by (auto simp: dt_ok_def callbackDict_def dictCompareHashKeys_def dictSetHashKey_def dictSetHashVal_def
      callbackKeyCompare_def callbackValDup_def)

definition async_wf :: "redisAsyncContext \<Rightarrow> bool" where
  "async_wf ac \<longleftrightarrow> dict_wf callbackDict (ac_channels ac) \<and> dict_wf callbackDict (ac_patterns ac) \<and>
     \<not> ac_released ac \<and> \<not> ac_freed ac"

lemma run_table_kept:
  assumes "polite e" "\<And>xs a b. kept xs a b \<Longrightarrow> tbl b = tbl a" "\<forall>n. mem_ok (ae_mem e) n"
    and "closing ac" "\<not> flag REDIS_IN_CALLBACK ac" "dict_wf callbackDict (tbl ac)"
  shows "\<exists>ac'. run_table e tbl ac = Inr (Some ac') \<and> kept (calls_of None (map snd (entries (tbl ac)))) ac ac'"
proof -
  obtain it :: "(string, redisCallback) dictIterator" where it: "dictGetIterator (ae_mem e) = Inr it" using assms(3) by (auto simp: dictGetIterator_def check_res_def)
  have "iterate (Suc (d_used (tbl ac))) (tbl ac) it = Inr (Some (entries (tbl ac)))"
    by (rule iterate_entries(1) [OF assms(6) it]) simp
  from run_subscriptions_kept [where tbl = tbl, OF assms(1,2,4,5) this] show ?thesis using it by (simp add: run_table_def)
qed

lemma late_kept:
  assumes "closing ac" "formats e c" "c \<noteq> DoFree" "c \<noteq> DoDisconnect"
  shows "\<exists>ac'. late_call e c ac = Inr ac' \<and> kept [] ac ac'"
proof -
  have "late_call e c ac = nested_call e c ac" using assms(1,3,4) by (cases c) (auto simp: closing_def)
  then show ?thesis using nested_kept [OF assms(1,2)] by simp
qed

lemma late_calls_kept:
  assumes "closing ac" "list_all (formats e) cs" "DoFree \<notin> set cs" "DoDisconnect \<notin> set cs"
  shows "\<exists>ac'. fold_res (late_call e) cs ac = Inr ac' \<and> kept [] ac ac'"
  using assms
proof (induction cs arbitrary: ac)
  case Nil
  then show ?case by (simp add: kept_def)
next
  case (Cons c cs)
  from late_kept [OF Cons.prems(1), of e c] Cons.prems(2-4) obtain ac1 where
    ac1: "late_call e c ac = Inr ac1" "kept [] ac ac1" by auto
  then have "closing ac1" by (simp add: kept_def)
  from Cons.IH [OF this] Cons.prems(2-4) obtain ac2 where "fold_res (late_call e) cs ac1 = Inr ac2" "kept [] ac1 ac2" by auto
  then show ?case using ac1 kept_trans [of "[]" ac ac1 "[]" ac2] by auto
qed

text \<open>
  Client code that does not set a connect callback from its disconnect callback; the hook for writing
  would run after the clean-up of the event loop.
\<close>

definition no_late_hook :: "async_env \<Rightarrow> bool" where
  "no_late_hook e \<longleftrightarrow> (\<forall>log fn st g. DoSetConnect g \<notin> set (ae_user e (log @ [RanDisconnect fn st])))"

lemma late_call_log:
  assumes "closing ac" "late_call e c ac = Inr ac'" "\<forall>g. c \<noteq> DoSetConnect g"
  shows "ac_log ac' = ac_log ac"
proof (cases c)
  case (DoCommand fn d fmt args)
  then show ?thesis using assms closing_refuses [OF assms(1)]
    by (auto simp: redisAsyncCommand_def redisvAsyncCommand_def bind_res_Inr split: if_splits prod.splits)
next
  case (DoCommandArgv fn d n argv lens)
  then show ?thesis using assms closing_refuses [OF assms(1)]
    by (auto simp: redisAsyncCommandArgv_def bind_res_Inr split: if_splits prod.splits)
next
  case (DoSetDisconnect fn)
  then show ?thesis using assms(2) by (auto simp: redisAsyncSetDisconnectCallback_def)
qed (use assms(2,3) in \<open>auto split: if_splits\<close>)

lemma late_calls_log:
  assumes "closing ac" "list_all (formats e) cs" "DoFree \<notin> set cs" "DoDisconnect \<notin> set cs" "\<forall>g. DoSetConnect g \<notin> set cs"
    and "fold_res (late_call e) cs ac = Inr ac'"
  shows "ac_log ac' = ac_log ac"
  using assms
proof (induction cs arbitrary: ac)
  case (Cons c cs)
  from late_kept [OF Cons.prems(1), of e c] Cons.prems(2-4) obtain ac1 where
    ac1: "late_call e c ac = Inr ac1" "kept [] ac ac1" by auto
  then have "ac_log ac1 = ac_log ac" using late_call_log [OF Cons.prems(1)] Cons.prems(5) by auto
  then show ?case using Cons.IH [of ac1] Cons.prems(2-6) ac1 by (simp add: kept_def)
qed simp

text \<open>What the disconnect callback of a context gets.\<close>

lemma disconnect_callback:
  assumes "closing ac" "polite e"
  shows "\<exists>ac'. run_disconnect_callback e ac = Inr ac' \<and> runs (ac_log ac') = runs (ac_log ac) \<and>
    (no_late_hook e \<longrightarrow> hooks (ac_log ac') = hooks (ac_log ac)) \<and>
    (\<forall>fn. ac_onDisconnect ac = Some fn \<longrightarrow> flag REDIS_CONNECTED ac \<longrightarrow>
      ends (ac_log ac') = ends (ac_log ac) @ [(fn, if flag REDIS_FREEING ac \<or> ac_err ac = 0 then REDIS_OK else REDIS_ERR)])"
proof (cases "ac_onDisconnect ac = None \<or> \<not> flag REDIS_CONNECTED ac")
  case True
  then show ?thesis by (auto simp: run_disconnect_callback_def split: option.splits)
next
  case False
  then obtain fn where fn: "ac_onDisconnect ac = Some fn" "flag REDIS_CONNECTED ac" by auto
  define st where "st = (if flag REDIS_FREEING ac then REDIS_OK else if ac_err ac = 0 then REDIS_OK else REDIS_ERR)"
  define ac1 where "ac1 = log_event (RanDisconnect fn st) ac"
  have log: "ac_log ac1 = ac_log ac @ [RanDisconnect fn st]" by (simp add: ac1_def log_event_def)
  have c1: "closing ac1" "list_all (formats e) (ae_user e (ac_log ac1))" "DoFree \<notin> set (ae_user e (ac_log ac1))"
    "DoDisconnect \<notin> set (ae_user e (ac_log ac1))" using assms by (simp_all add: closing_def ac1_def polite_def log [unfolded ac1_def])
  then obtain ac2 where "fold_res (late_call e) (ae_user e (ac_log ac1)) ac1 = Inr ac2" "kept [] ac1 ac2"
    using late_calls_kept by blast
  moreover from this(1) have "run_disconnect_callback e ac = Inr ac2"
    using fn by (simp add: run_disconnect_callback_def Let_def ac1_def st_def)
  moreover have "hooks (ac_log ac2) = hooks (ac_log ac)" if "no_late_hook e"
    using late_calls_log [OF c1(1,2,3,4) _ calculation(1)] that by (simp add: no_late_hook_def log)
  moreover have "st = (if flag REDIS_FREEING ac \<or> ac_err ac = 0 then REDIS_OK else REDIS_ERR)" by (simp add: st_def)
  ultimately show ?thesis using fn by (intro exI [of _ ac2]) (simp add: kept_def log)
qed

text \<open>The pending callbacks of a context, in the order in which they are called when it is closed.\<close>

definition pending :: "redisAsyncContext \<Rightarrow> redisCallback list" where
  "pending ac = ac_replies ac @ ac_invalid ac @ map snd (entries (ac_channels ac)) @ map snd (entries (ac_patterns ac))"

text \<open>
  What the clean-up leaves of a context: as \<open>kept\<close>, without the lists and tables, which it empties.
\<close>

definition ended :: "(nat \<times> nat \<times> redisReply option) list \<Rightarrow> redisAsyncContext \<Rightarrow> redisAsyncContext \<Rightarrow> bool" where
  "ended xs ac ac' \<longleftrightarrow> ac_err ac' = ac_err ac \<and> (flag REDIS_CONNECTED ac' = flag REDIS_CONNECTED ac) \<and>
     (flag REDIS_FREEING ac \<longrightarrow> flag REDIS_FREEING ac') \<and> closing ac' \<and>
     (ac_onDisconnect ac \<noteq> None \<longrightarrow> ac_onDisconnect ac' = ac_onDisconnect ac) \<and>
     runs (ac_log ac') = runs (ac_log ac) @ xs \<and> ends (ac_log ac') = ends (ac_log ac) \<and>
     ac_ev ac' = ac_ev ac \<and> only_writes (ac_log ac) (ac_log ac')"

lemma kept_ended: "kept xs ac ac' \<Longrightarrow> ended xs ac ac'"
  by (simp add: kept_def ended_def)

lemma ended_update [simp]:
  "ended xs (ac\<lparr>ac_replies := q\<rparr>) ac' = ended xs ac ac'" "ended xs (ac\<lparr>ac_invalid := q\<rparr>) ac' = ended xs ac ac'"
  "ended xs (ac\<lparr>ac_channels := ht\<rparr>) ac' = ended xs ac ac'"
  by (simp_all add: ended_def)

lemma ended_trans: "ended xs a b \<Longrightarrow> ended ys b c \<Longrightarrow> ended (xs @ ys) a c"
  using only_writes_trans [of "ac_log a" "ac_log b" "ac_log c"] by (simp add: ended_def)

lemma async_free_steps:
  assumes "closing ac" "polite e" "\<not> flag REDIS_IN_CALLBACK ac" "async_wf ac" "\<forall>n. mem_ok (ae_mem e) n"
  shows "\<exists>a4 pt. async_free e ac =
      bind_res (run_disconnect_callback e (run_hook Cleanup (a4\<lparr>ac_patterns := pt, ac_released := True\<rparr>)))
        (\<lambda>ac. Inr (Some (ac\<lparr>ac_freed := True\<rparr>))) \<and> ended (calls_of None (pending ac)) ac a4"
proof -
  from reply_queue.drain_kept [OF assms(2,1,3), of "Suc (length (ac_replies ac))"] obtain a1 where
    a1: "drain_replies e (Suc (length (ac_replies ac))) ac = Inr (Some a1)"
      "kept (calls_of None (ac_replies ac)) (ac\<lparr>ac_replies := []\<rparr>) a1" by auto
  have c1: "closing a1" "\<not> flag REDIS_IN_CALLBACK a1" using a1(2) assms(3) by (auto simp: kept_def)
  from invalid_queue.drain_kept [OF assms(2) c1, of "Suc (length (ac_invalid a1))"] obtain a2 where
    a2: "drain_invalid e (Suc (length (ac_invalid a1))) a1 = Inr (Some a2)"
      "kept (calls_of None (ac_invalid a1)) (a1\<lparr>ac_invalid := []\<rparr>) a2" by auto
  have c2: "closing a2" "\<not> flag REDIS_IN_CALLBACK a2" "dict_wf callbackDict (ac_channels a2)" "dict_wf callbackDict (ac_patterns a2)"
    using a1(2) a2(2) c1 assms(4) by (auto simp: kept_def async_wf_def)
  from run_table_kept [OF assms(2) _ assms(5) c2(1,2), of ac_channels] c2(3) obtain a3 where
    a3: "run_table e ac_channels a2 = Inr (Some a3)" "kept (calls_of None (map snd (entries (ac_channels a2)))) a2 a3"
    by (auto simp: kept_def)
  have "dict_wf callbackDict (ac_channels a3)" using a3(2) c2(3) by (simp add: kept_def)
  from clear_ok [OF this callbackDict_ok(2,3)] obtain ch where ch: "release_table (ac_channels a3) = Inr ch"
    by (auto simp: release_table_def)
  let ?a3 = "a3\<lparr>ac_channels := ch\<rparr>"
  have c3: "closing ?a3" "\<not> flag REDIS_IN_CALLBACK ?a3" "dict_wf callbackDict (ac_patterns ?a3)"
    using a3(2) c2 by (auto simp: kept_def closing_def)
  from run_table_kept [OF assms(2) _ assms(5) c3(1,2), of ac_patterns] c3(3) obtain a4 where
    a4: "run_table e ac_patterns ?a3 = Inr (Some a4)" "kept (calls_of None (map snd (entries (ac_patterns ?a3)))) ?a3 a4"
    by (auto simp: kept_def)
  have "dict_wf callbackDict (ac_patterns a4)" using a4(2) c3(3) by (simp add: kept_def)
  from clear_ok [OF this callbackDict_ok(2,3)] obtain pt where pt: "release_table (ac_patterns a4) = Inr pt"
    by (auto simp: release_table_def)
  have tables: "ac_invalid a1 = ac_invalid ac" "ac_channels a2 = ac_channels ac" "ac_patterns a3 = ac_patterns ac"
    using a1(2) a2(2) a3(2) by (simp_all add: kept_def)
  have "ended (calls_of None (pending ac)) ac a4"
    using ended_trans [OF ended_trans [OF ended_trans [OF kept_ended [OF a1(2)]]], of _ a2 _ a3 _ a4]
      kept_ended [OF a2(2)] kept_ended [OF a3(2)] kept_ended [OF a4(2)] by (simp add: pending_def tables)
  moreover have "async_free e ac = bind_res (run_disconnect_callback e (run_hook Cleanup (a4\<lparr>ac_patterns := pt, ac_released := True\<rparr>)))
        (\<lambda>ac. Inr (Some (ac\<lparr>ac_freed := True\<rparr>)))"
    using assms(4) a1(1) a2(1) a3(1) ch a4(1) pt by (simp add: async_free_def async_wf_def bind_fuel_def)
  ultimately show ?thesis by blast
qed

lemma async_free_ok:
  assumes "closing ac" "polite e" "\<not> flag REDIS_IN_CALLBACK ac" "async_wf ac" "\<forall>n. mem_ok (ae_mem e) n"
  shows "\<exists>ac'. async_free e ac = Inr (Some ac') \<and> ac_freed ac' \<and>
    runs (ac_log ac') = runs (ac_log ac) @ calls_of None (pending ac) \<and>
    (\<forall>fn. ac_onDisconnect ac = Some fn \<longrightarrow> flag REDIS_CONNECTED ac \<longrightarrow>
      (\<exists>st. ends (ac_log ac') = ends (ac_log ac) @ [(fn, st)] \<and> (flag REDIS_FREEING ac \<or> ac_err ac = 0 \<longrightarrow> st = REDIS_OK))) \<and>
    (no_late_hook e \<longrightarrow> Cleanup \<in> set (ac_ev ac) \<longrightarrow>
      (\<exists>hs. hooks (ac_log ac') = hooks (ac_log ac) @ hs @ [Cleanup] \<and> set hs \<subseteq> {AddWrite}))"
proof -
  from async_free_steps [OF assms] obtain a4 pt where
    a4: "async_free e ac = bind_res (run_disconnect_callback e (run_hook Cleanup (a4\<lparr>ac_patterns := pt, ac_released := True\<rparr>)))
        (\<lambda>ac. Inr (Some (ac\<lparr>ac_freed := True\<rparr>)))" "ended (calls_of None (pending ac)) ac a4" by blast
  let ?a4 = "run_hook Cleanup (a4\<lparr>ac_patterns := pt, ac_released := True\<rparr>)"
  have "closing ?a4" using a4(2) by (simp add: ended_def closing_def)
  from disconnect_callback [OF this assms(2)] obtain a5 where a5: "run_disconnect_callback e ?a4 = Inr a5"
    "runs (ac_log a5) = runs (ac_log ?a4)" "no_late_hook e \<longrightarrow> hooks (ac_log a5) = hooks (ac_log ?a4)"
    "\<forall>fn. ac_onDisconnect ?a4 = Some fn \<longrightarrow> flag REDIS_CONNECTED ?a4 \<longrightarrow>
      ends (ac_log a5) = ends (ac_log ?a4) @ [(fn, if flag REDIS_FREEING ?a4 \<or> ac_err ?a4 = 0 then REDIS_OK else REDIS_ERR)]" by blast
  have "\<exists>st. ends (ac_log a5) = ends (ac_log ac) @ [(fn, st)] \<and> (flag REDIS_FREEING ac \<or> ac_err ac = 0 \<longrightarrow> st = REDIS_OK)"
    if "ac_onDisconnect ac = Some fn" "flag REDIS_CONNECTED ac" for fn
    using that a4(2) a5(4) by (auto simp: ended_def)
  moreover have "\<exists>hs. hooks (ac_log a5) = hooks (ac_log ac) @ hs @ [Cleanup] \<and> set hs \<subseteq> {AddWrite}"
    if "no_late_hook e" "Cleanup \<in> set (ac_ev ac)"
    using that a4(2) a5(3) by (auto simp: ended_def only_writes_def run_hook_def log_event_def)
  ultimately show ?thesis using a4 a5(1,2) by (simp add: ended_def)
qed

end
