(* ===== verification/Async_Replies.thy ===== *)
theory Async_Replies
  imports Async_Free Context_Props
begin

text \<open>
  Replies reach the callbacks of their commands in order, however the stream of replies is cut into
  read events.
\<close>

section \<open>Reply objects as values\<close>

lemma those_list_all2: "list_all2 (\<lambda>x t. f x = Some t) xs ts \<Longrightarrow> those (map f xs) = Some ts"
  by (induction xs ts rule: list_all2_induct) simp_all

lemma read_rep:
  assumes "rep lo h a t" "nesting t \<le> n"
  shows "read_object (Suc n) h a = Some t"
  using assms
proof (induction arbitrary: n rule: rep.induct)
  case (leaf a t)
  then show ?case by (cases t) (auto simp: cell_of_def)
next
  case (array a ts es)
  have "ts \<noteq> []" by fact
  then obtain u where "u \<in> set ts" by (cases ts) auto
  then obtain k where n: "n = Suc k" using nesting_elem [of u ts] array.prems by (cases n) auto
  have "nesting u \<le> k" if "u \<in> set ts" for u using nesting_elem [OF that] array.prems n by simp
  then have "list_all2 (\<lambda>x t. (case x of None \<Rightarrow> None | Some b \<Rightarrow> read_object (Suc k) h b) = Some t) es ts"
    using array.IH by (fastforce simp: list_all2_conv_all_nth)
  from those_list_all2 [OF this] show ?case using array.hyps n by (simp add: cell_of_def)
qed

section \<open>A reader in a stream of replies\<close>

definition good :: "redisReply \<Rightarrow> bool" where
  "good t \<longleftrightarrow> encodable t \<and> nesting t \<le> 8"

text \<open>
  The bytes \<open>todo\<close> are still to come, and together with what the reader has they are the replies \<open>ts\<close>.  When
  none is left, the reader is ready for a further reply.
\<close>

definition waiting :: "cmem \<Rightarrow> redisReader \<Rightarrow> char list \<Rightarrow> redisReply list \<Rightarrow> bool" where
  "waiting m r todo ts \<longleftrightarrow> list_all good ts \<and>
     (case ts of
        [] \<Rightarrow> todo = [] \<and> (\<exists>q a. expects m r (encode ReplyNil) [] q \<and> rd_reply q = Some a)
      | t # ts' \<Rightarrow> \<exists>q a lo. expects m r todo (concat (map encode ts')) q \<and> rd_reply q = Some a \<and> rep lo (rd_heap q) a t)"

lemma waiting_idle:
  assumes "ready r" "rd_ridx r = -1" "unread r @ todo = concat (map encode ts)" "list_all good ts"
    and "\<forall>n. mem_ok m n" "length (unread r @ todo) \<le> 2147483647"
  shows "waiting m r todo ts"
proof -
  have wf: "reader_wf r" "rd_err r = 0" using assms(1,2) by (auto simp: ready_def reader_wf_def stack_ok_def a_ok_def)
  show ?thesis
  proof (cases ts)
    case Nil
    have "length (encode ReplyNil) \<le> 2147483647" by simp
    then show ?thesis using expects_idle [OF wf assms(2), of "encode ReplyNil" ReplyNil "[]" m] assms(3,5) Nil
      by (fastforce simp: waiting_def simp del: encode.simps)
  next
    case (Cons t ts')
    then have "good t" "unread r @ todo = encode t @ concat (map encode ts')" using assms(3,4) by simp_all
    then show ?thesis
      using expects_idle [OF wf assms(2), of todo t "concat (map encode ts')" m] assms(4,5,6) Cons
      by (fastforce simp: waiting_def good_def)
  qed
qed

lemma a_items_shorter:
  "a_ok q \<Longrightarrow> 0 \<le> rd_ridx q \<Longrightarrow> a_items m n (cs, q) = Go (cs', q') \<Longrightarrow> length cs' < length cs"
proof (induction n arbitrary: cs q)
  case (Suc n)
  then obtain p where p: "a_item m (cs, q) = Go p" by (auto split: step.splits)
  obtain cs1 q1 where p1: "p = (cs1, q1)" by (cases p)
  note g = a_item_Go [OF Suc.prems(1,2) p [unfolded p1]]
  show ?case
  proof (cases "0 \<le> rd_ridx q1")
    case True
    then show ?thesis using Suc.IH [of q1 cs1] g Suc.prems p p1 by simp
  next
    case False
    have "a_items m n (cs1, q1) = Go (cs', q')" using Suc.prems p p1 by simp
    then show ?thesis using False g by (cases n) simp_all
  qed
qed simp

lemma expects_shorter:
  assumes "ready r" "expects m r todo rest q"
  shows "length rest < length (unread r @ todo)"
proof -
  have "a_ok (core (start_reply r))" "0 \<le> rd_ridx (core (start_reply r))" using assms(1) a_ok_start [of r] by (simp_all add: ready_def)
  then show ?thesis using assms(2) a_items_shorter unfolding expects_def by blast
qed

text \<open>One call of the parser: it goes on waiting, or the first reply is complete and the reader is idle again.\<close>

lemma waiting_step:
  assumes "in_ok c r" "waiting m r todo ts"
  shows "(\<exists>r'. redisGetReplyFromReader m c = Inr (Some (REDIS_OK, None, c\<lparr>rc_reader := Some r'\<rparr>)) \<and>
      in_ok (c\<lparr>rc_reader := Some r'\<rparr>) r' \<and> waiting m r' todo ts \<and> rd_len r' \<le> rd_len r \<and> (todo = [] \<longrightarrow> ts = [])) \<or>
    (\<exists>t ts' a r' lo. ts = t # ts' \<and> redisGetReplyFromReader m c = Inr (Some (REDIS_OK, Some a, c\<lparr>rc_reader := Some r'\<rparr>)) \<and>
      in_ok (c\<lparr>rc_reader := Some r'\<rparr>) r' \<and> rep lo (rd_heap r') a t \<and> rd_ridx r' = -1 \<and>
      unread r' @ todo = concat (map encode ts') \<and> length (unread r') < length (unread r) \<and> rd_len r' \<le> rd_len r)"
proof (cases ts)
  case Nil
  then obtain q a where q: "todo = []" "expects m r (encode ReplyNil) [] q" "rd_reply q = Some a"
    using assms(2) by (auto simp: waiting_def simp del: encode.simps)
  from reply_from_reader [OF assms(1) q(2,3)] show ?thesis
    using Nil q(1,3) by (auto simp: waiting_def)
next
  case (Cons t ts')
  then obtain q a lo where q: "expects m r todo (concat (map encode ts')) q" "rd_reply q = Some a" "rep lo (rd_heap q) a t"
    and g: "list_all good ts" using assms(2) by (auto simp: waiting_def)
  have "ready r" using assms(1) by (simp add: in_ok_def)
  note short = expects_shorter [OF this q(1)]
  from reply_from_reader [OF assms(1) q(1,2)] show ?thesis
  proof (elim disjE exE conjE, goal_cases)
    case (1 r')
    then have "waiting m r' todo ts" using g q(2,3) Cons unfolding waiting_def by auto
    then show ?thesis using 1 by blast
  next
    case (2 r')
    then have "length (unread r') < length (unread r)" using short by simp
    then show ?thesis using 2 q(3) Cons by (intro disjI2 exI [of _ t] exI [of _ ts'] exI [of _ a] exI [of _ r'] exI [of _ lo]) simp
  qed
qed

section \<open>One round of callbacks\<close>

text \<open>The calls for replies that are answered in order.\<close>

fun answers :: "redisCallback list \<Rightarrow> redisReply list \<Rightarrow> (nat \<times> nat \<times> redisReply option) list" where
  "answers (cb # cbs) (t # ts) = calls_of (Some t) [cb] @ answers cbs ts"
| "answers _ _ = []"

lemma answers_append:
  "length cbs = length ts \<Longrightarrow> answers (cbs @ cbs') (ts @ ts') = answers cbs ts @ answers cbs' ts'"
  by (induction cbs ts rule: list_induct2) (simp_all split: option.splits)

lemma answers_split:
  "k \<le> length ts \<Longrightarrow> length ts \<le> length cbs \<Longrightarrow>
    answers (take k cbs) (take k ts) @ answers (drop k cbs) (drop k ts) = answers cbs ts"
  using answers_append [of "take k cbs" "take k ts" "drop k cbs" "drop k ts"] by simp

text \<open>The client makes no calls from its callbacks.\<close>

definition silent :: "async_env \<Rightarrow> bool" where
  "silent e \<longleftrightarrow> (\<forall>log. ae_user e log = [])"

text \<open>
  A non-blocking context outside of callbacks that is not being freed; a quiet one is neither being disconnected nor
  monitoring.
\<close>

definition lively :: "redisAsyncContext \<Rightarrow> bool" where
  "lively ac \<longleftrightarrow> \<not> flag REDIS_BLOCK ac \<and> \<not> flag REDIS_FREEING ac \<and> \<not> flag REDIS_IN_CALLBACK ac \<and> \<not> ac_freed ac"

definition quiet :: "redisAsyncContext \<Rightarrow> bool" where
  "quiet ac \<longleftrightarrow> \<not> flag REDIS_BLOCK ac \<and> \<not> flag REDIS_DISCONNECTING ac \<and> \<not> flag REDIS_FREEING ac \<and>
     \<not> flag REDIS_IN_CALLBACK ac \<and> \<not> flag REDIS_MONITORING ac \<and> \<not> ac_freed ac"

lemma quiet_lively: "quiet ac \<longleftrightarrow> lively ac \<and> \<not> flag REDIS_DISCONNECTING ac \<and> \<not> flag REDIS_MONITORING ac"
  by (auto simp: quiet_def lively_def)

lemma unset_set_bit: "\<not> bit x n \<Longrightarrow> unset_bit n (set_bit n x) = (x :: int)"
  by (rule bit_eqI) (auto simp: bit_unset_bit_iff bit_set_bit_iff)

lemma silent_callback:
  assumes "silent e" "lively ac"
  shows "\<exists>es. redisRunCallback e cb reply ac = Inr (ac\<lparr>ac_log := ac_log ac @ es\<rparr>) \<and> runs es = calls_of reply [cb] \<and> ends es = []"
proof (cases "cb_fn cb")
  case None
  then show ?thesis by (intro exI [of _ "[]"]) (simp add: redisRunCallback_def)
next
  case (Some fn)
  have "\<not> bit (rc_flags (ac_c ac)) 4" using assms(2) by (simp add: lively_def has_flag_def)
  then show ?thesis using assms(1) Some
    by (intro exI [of _ "[RanReply fn (cb_privdata cb) reply]"])
      (simp add: redisRunCallback_def silent_def set_flag_def clear_flag_def log_event_def unset_set_bit)
qed

lemma free_reply_freed [simp]: "ac_freed (free_reply a ac) = ac_freed ac"
  by (simp add: free_reply_def)

text \<open>Freeing a reply leaves an idle reader in the stream.\<close>

lemma waiting_freed:
  assumes "in_ok c r" "rd_ridx r = -1" "unread r @ todo = concat (map encode ts)" "list_all good ts"
    and "\<forall>n. mem_ok m n" "rd_len r + length todo \<le> 2147483647"
  shows "in_ok (c\<lparr>rc_reader := Some (r\<lparr>rd_heap := h\<rparr>)\<rparr>) (r\<lparr>rd_heap := h\<rparr>) \<and> waiting m (r\<lparr>rd_heap := h\<rparr>) todo ts"
proof -
  let ?r = "r\<lparr>rd_heap := h\<rparr>"
  have u: "unread ?r = unread r" by (simp add: unread_def cong: option.case_cong)
  have rd: "ready ?r" using assms(1) by (auto simp: in_ok_def ready_def buffer_ok_def a_ok_def)
  obtain s where "rd_buf r = Some s" "sds_wf s" "rd_len r = sdslen s" using assms(1) by (auto simp: in_ok_def ready_def buffer_ok_def)
  then have "length (unread r) \<le> rd_len r" by (simp add: unread_def sds_wfD(5))
  then have "length (unread ?r @ todo) \<le> 2147483647" using assms(6) u by simp
  then have "waiting m ?r todo ts" using assms(2,3,4,5) rd u by (intro waiting_idle) simp_all
  then show ?thesis using rd assms(1) by (simp add: in_ok_def)
qed

lemma get_reply_async:
  assumes "redisGetReplyFromReader m c = Inr (Some (REDIS_OK, aux, c'))" "\<not> has_flag REDIS_BLOCK c'"
  shows "redisGetReply m strerror ws rds c = Inr (Some \<lparr>cr_rc = REDIS_OK, cr_reply = aux, cr_sent = [], cr_writes = ws,
    cr_reads = rds, cr_ctx = c'\<rparr>)"
  using assms by (simp add: redisGetReply_def Let_def)

text \<open>One turn of the loop, for a reply whose callback is found.\<close>

lemma process_turn:
  assumes "redisGetReplyFromReader (ae_mem e) (ac_c ac) = Inr (Some (REDIS_OK, Some a, (ac_c ac)\<lparr>rc_reader := Some r\<rparr>))"
    and "rep lo (rd_heap r) a t" "nesting t \<le> 8" "\<not> flag REDIS_BLOCK ac" "silent e" "lively ac1"
    and "find_callback (ae_mem e) t cb0 (ac\<lparr>ac_c := (ac_c ac)\<lparr>rc_reader := Some r\<rparr>\<rparr>) = Inr (Some (Some cb, ac1))"
  shows "\<exists>es. process_callbacks e (Suc n) cb0 ac = process_callbacks e n (Some cb) (free_reply a (ac1\<lparr>ac_log := ac_log ac1 @ es\<rparr>)) \<and>
    runs es = calls_of (Some t) [cb] \<and> ends es = []"
proof -
  let ?c = "(ac_c ac)\<lparr>rc_reader := Some r\<rparr>"
  have nb: "\<not> has_flag REDIS_BLOCK ?c" using assms(4) by (simp add: has_flag_def)
  note g = get_reply_async [OF assms(1) nb, of "ae_strerror e" "[]" "[]"]
  have "read_object (Suc 8) (rd_heap r) a = Some t" by (rule read_rep [OF assms(2,3)])
  then have ra: "reply_at ?c a = Inr t" by (simp add: reply_at_def eval_nat_numeral del: read_object.simps)
  from silent_callback [OF assms(5,6)] obtain es where es:
    "redisRunCallback e cb (Some t) ac1 = Inr (ac1\<lparr>ac_log := ac_log ac1 @ es\<rparr>)" "runs es = calls_of (Some t) [cb]" "ends es = []" by blast
  have nf: "\<not> flag REDIS_FREEING (free_reply a (ac1\<lparr>ac_log := ac_log ac1 @ es\<rparr>))"
    using assms(6) by (simp add: free_reply_def lively_def has_flag_def)
  show ?thesis
  proof (cases "cb_fn cb")
    case None
    then show ?thesis using g ra assms(7) by (intro exI [of _ "[]"]) (simp add: bind_fuel_def)
  next
    case (Some fn)
    then show ?thesis using g ra assms(7) es nf by (intro exI [of _ es]) (simp add: bind_fuel_def Let_def)
  qed
qed

lemma process_reply:
  assumes "redisGetReplyFromReader (ae_mem e) (ac_c ac) = Inr (Some (REDIS_OK, Some a, (ac_c ac)\<lparr>rc_reader := Some r\<rparr>))"
    and "rep lo (rd_heap r) a t" "nesting t \<le> 8" "ac_replies ac = cb # cbs" "silent e" "lively ac"
  shows "\<exists>es h. process_callbacks e (Suc n) cb0 ac = process_callbacks e n (Some cb) (ac\<lparr>ac_c := (ac_c ac)\<lparr>rc_reader := Some (r\<lparr>rd_heap := h\<rparr>)\<rparr>,
      ac_replies := cbs, ac_log := ac_log ac @ es\<rparr>) \<and> runs es = calls_of (Some t) [cb] \<and> ends es = []"
proof -
  let ?c = "(ac_c ac)\<lparr>rc_reader := Some r\<rparr>" and ?h = "freeReplyObject a (rd_heap r)"
  let ?ac = "ac\<lparr>ac_c := ?c, ac_replies := cbs\<rparr>"
  have "find_callback (ae_mem e) t cb0 (ac\<lparr>ac_c := ?c\<rparr>) = Inr (Some (Some cb, ?ac))"
    using assms(4) by (simp add: find_callback_def redisShiftCallback_def)
  moreover have "lively ?ac" "\<not> flag REDIS_BLOCK ac" using assms(6) by (simp_all add: lively_def has_flag_def)
  ultimately obtain es where es: "process_callbacks e (Suc n) cb0 ac = process_callbacks e n (Some cb) (free_reply a (?ac\<lparr>ac_log := ac_log ac @ es\<rparr>))"
      "runs es = calls_of (Some t) [cb]" "ends es = []"
    using process_turn [OF assms(1,2,3) _ assms(5), of ?ac cb0 cb n] by auto
  have "free_reply a (?ac\<lparr>ac_log := l\<rparr>) = ac\<lparr>ac_c := (ac_c ac)\<lparr>rc_reader := Some (r\<lparr>rd_heap := ?h\<rparr>)\<rparr>, ac_replies := cbs, ac_log := l\<rparr>"
    for l by (cases ac) (simp add: free_reply_def)
  then show ?thesis using es by (intro exI [of _ es] exI [of _ ?h]) simp
qed

text \<open>
  The loop gives the complete replies to their callbacks and comes to a turn that finds no reply.  All
  replies are complete when no byte is missing.
\<close>

lemma process_until:
  assumes "silent e" "\<forall>n. mem_ok (ae_mem e) n"
  shows "in_ok (ac_c ac) r \<Longrightarrow> waiting (ae_mem e) r todo ts \<Longrightarrow> lively ac \<Longrightarrow> length ts \<le> length (ac_replies ac) \<Longrightarrow>
    rd_len r + length todo \<le> 2147483647 \<Longrightarrow> length (unread r) < n \<Longrightarrow>
    \<exists>k j cb' r' ac'. process_callbacks e n cb ac = process_callbacks e (Suc j) cb' ac' \<and> k \<le> length ts \<and> (todo = [] \<longrightarrow> k = length ts) \<and>
      redisGetReplyFromReader (ae_mem e) (ac_c ac') = Inr (Some (REDIS_OK, None, (ac_c ac')\<lparr>rc_reader := Some r'\<rparr>)) \<and>
      in_ok ((ac_c ac')\<lparr>rc_reader := Some r'\<rparr>) r' \<and> waiting (ae_mem e) r' todo (drop k ts) \<and> rd_len r' \<le> rd_len r \<and>
      (\<exists>rd l. ac' = ac\<lparr>ac_c := (ac_c ac)\<lparr>rc_reader := rd\<rparr>, ac_replies := drop k (ac_replies ac), ac_log := l\<rparr> \<and>
        runs l = runs (ac_log ac) @ answers (take k (ac_replies ac)) (take k ts) \<and> ends l = ends (ac_log ac))"
proof (induction n arbitrary: ac r ts cb)
  case (Suc n)
  from waiting_step [OF Suc.prems(1,2)] show ?case
  proof (elim disjE exE conjE)
    fix r'
    assume r': "redisGetReplyFromReader (ae_mem e) (ac_c ac) = Inr (Some (REDIS_OK, None, (ac_c ac)\<lparr>rc_reader := Some r'\<rparr>))"
      "in_ok ((ac_c ac)\<lparr>rc_reader := Some r'\<rparr>) r'" "waiting (ae_mem e) r' todo ts" "rd_len r' \<le> rd_len r" "todo = [] \<longrightarrow> ts = []"
    then show ?case
      by (intro exI [of _ 0] exI [of _ n] exI [of _ cb] exI [of _ r'] exI [of _ ac] conjI exI [of _ "rc_reader (ac_c ac)"] exI [of _ "ac_log ac"]) simp_all
  next
    fix t ts' a r' lo
    assume r': "ts = t # ts'" "redisGetReplyFromReader (ae_mem e) (ac_c ac) = Inr (Some (REDIS_OK, Some a, (ac_c ac)\<lparr>rc_reader := Some r'\<rparr>))"
      "in_ok ((ac_c ac)\<lparr>rc_reader := Some r'\<rparr>) r'" "rep lo (rd_heap r') a t" "rd_ridx r' = -1"
      "unread r' @ todo = concat (map encode ts')" "length (unread r') < length (unread r)" "rd_len r' \<le> rd_len r"
    have g: "nesting t \<le> 8" "list_all good ts'" using Suc.prems(2) r'(1) by (auto simp: waiting_def good_def)
    obtain cb1 cbs where cbs: "ac_replies ac = cb1 # cbs" "length ts' \<le> length cbs"
      using Suc.prems(4) r'(1) by (cases "ac_replies ac") simp_all
    from process_reply [OF r'(2,4) g(1) cbs(1) assms(1) Suc.prems(3), of n cb] obtain es h where
      p: "process_callbacks e (Suc n) cb ac = process_callbacks e n (Some cb1) (ac\<lparr>ac_c := (ac_c ac)\<lparr>rc_reader := Some (r'\<lparr>rd_heap := h\<rparr>)\<rparr>,
        ac_replies := cbs, ac_log := ac_log ac @ es\<rparr>)" "runs es = calls_of (Some t) [cb1]" "ends es = []" by blast
    let ?r = "r'\<lparr>rd_heap := h\<rparr>"
    let ?ac = "ac\<lparr>ac_c := (ac_c ac)\<lparr>rc_reader := Some ?r\<rparr>, ac_replies := cbs, ac_log := ac_log ac @ es\<rparr>"
    have b: "rd_len r' + length todo \<le> 2147483647" using r'(8) Suc.prems(5) by simp
    from waiting_freed [OF r'(3,5,6) g(2) assms(2) b, of h] have w: "in_ok (ac_c ?ac) ?r" "waiting (ae_mem e) ?r todo ts'" by simp_all
    have "lively ?ac" "unread ?r = unread r'" using Suc.prems(3) by (simp_all add: lively_def has_flag_def unread_def cong: option.case_cong)
    then obtain k j cb2 r2 ac2 rd l where k: "process_callbacks e n (Some cb1) ?ac = process_callbacks e (Suc j) cb2 ac2" "k \<le> length ts'" "todo = [] \<longrightarrow> k = length ts'"
      "redisGetReplyFromReader (ae_mem e) (ac_c ac2) = Inr (Some (REDIS_OK, None, (ac_c ac2)\<lparr>rc_reader := Some r2\<rparr>))"
      "in_ok ((ac_c ac2)\<lparr>rc_reader := Some r2\<rparr>) r2" "waiting (ae_mem e) r2 todo (drop k ts')" "rd_len r2 \<le> rd_len r'"
      "ac2 = ac\<lparr>ac_c := (ac_c ac)\<lparr>rc_reader := rd\<rparr>, ac_replies := drop k cbs, ac_log := l\<rparr>"
      "runs l = runs (ac_log ac) @ calls_of (Some t) [cb1] @ answers (take k cbs) (take k ts')" "ends l = ends (ac_log ac)"
      using Suc.IH [OF w, of "Some cb1"] b cbs(2) r'(7) Suc.prems(6) p(2,3) by (auto simp del: process_callbacks.simps)
    show ?case
      by (rule exI [of _ "Suc k"], rule exI [of _ j], rule exI [of _ cb2], rule exI [of _ r2], rule exI [of _ ac2])
        (use k p(1) r'(1,8) cbs(1) in \<open>auto simp del: process_callbacks.simps\<close>)
  qed
qed simp

lemma process_ok:
  assumes "silent e" "\<forall>n. mem_ok (ae_mem e) n" "in_ok (ac_c ac) r" "waiting (ae_mem e) r todo ts" "quiet ac" "length ts \<le> length (ac_replies ac)"
    and "rd_len r + length todo \<le> 2147483647" "length (unread r) < n"
  shows "\<exists>k r' ac'. process_callbacks e n cb ac = Inr (Some ac') \<and> k \<le> length ts \<and> (todo = [] \<longrightarrow> k = length ts) \<and>
      in_ok (ac_c ac') r' \<and> waiting (ae_mem e) r' todo (drop k ts) \<and> rd_len r' \<le> rd_len r \<and>
      rc_flags (ac_c ac') = rc_flags (ac_c ac) \<and> ac_replies ac' = drop k (ac_replies ac) \<and>
      ac_channels ac' = ac_channels ac \<and> ac_patterns ac' = ac_patterns ac \<and>
      runs (ac_log ac') = runs (ac_log ac) @ answers (take k (ac_replies ac)) (take k ts) \<and> ac_freed ac' = ac_freed ac"
proof -
  have "lively ac" using assms(5) by (simp add: quiet_lively)
  from process_until [OF assms(1-4) this assms(6-8), of cb] obtain k j cb' r' ac' rd l where
    k: "process_callbacks e n cb ac = process_callbacks e (Suc j) cb' ac'" "k \<le> length ts" "todo = [] \<longrightarrow> k = length ts"
      "redisGetReplyFromReader (ae_mem e) (ac_c ac') = Inr (Some (REDIS_OK, None, (ac_c ac')\<lparr>rc_reader := Some r'\<rparr>))"
      "in_ok ((ac_c ac')\<lparr>rc_reader := Some r'\<rparr>) r'" "waiting (ae_mem e) r' todo (drop k ts)" "rd_len r' \<le> rd_len r"
      "ac' = ac\<lparr>ac_c := (ac_c ac)\<lparr>rc_reader := rd\<rparr>, ac_replies := drop k (ac_replies ac), ac_log := l\<rparr>"
      "runs l = runs (ac_log ac) @ answers (take k (ac_replies ac)) (take k ts)" by blast
  let ?ac = "ac'\<lparr>ac_c := (ac_c ac')\<lparr>rc_reader := Some r'\<rparr>\<rparr>"
  have q: "\<not> has_flag REDIS_BLOCK (ac_c ?ac)" "\<not> flag REDIS_DISCONNECTING ?ac" "\<not> flag REDIS_MONITORING ?ac"
    using assms(5) k(8) by (simp_all add: quiet_def has_flag_def)
  from get_reply_async [OF k(4), of "ae_strerror e" "[]" "[]"] q
  have "process_callbacks e (Suc j) cb' ac' = Inr (Some ?ac)" by (simp add: bind_fuel_def no_reply_def)
  then show ?thesis using k by (intro exI [of _ k] exI [of _ r'] exI [of _ ?ac]) simp
qed

section \<open>Read events\<close>

text \<open>An event loop that reports the socket readable once for every call of \<^verbatim>\<open>read\<close> in \<open>rds\<close>.\<close>

fun read_events ::
    "async_env \<Rightarrow> (redisContext \<Rightarrow> int \<times> int \<times> redisContext) \<Rightarrow> sys_read list \<Rightarrow> redisAsyncContext \<Rightarrow> redisAsyncContext option res" where
  "read_events e sock [] ac = Inr (Some ac)"
| "read_events e sock (rd # rds) ac = bind_fuel (redisAsyncHandleRead e sock rd ac) (read_events e sock rds)"

text \<open>A call of \<^verbatim>\<open>read\<close> that delivers bytes or asks to try again.\<close>

fun delivers :: "sys_read \<Rightarrow> bool" where
  "delivers (Received bs) \<longleftrightarrow> bs \<noteq> []"
| "delivers (ReadError errno) \<longleftrightarrow> errno = EAGAIN \<or> errno = EINTR"

lemma waiting_feed:
  assumes "waiting m r (b @ todo) ts" "b \<noteq> []" "unread r' = unread r @ b" "core r' = core r"
  shows "waiting m r' todo ts"
  using assms(1,2) expects_feed [OF _ assms(3,4), of m todo] by (cases ts) (auto simp: waiting_def)

lemma buffer_read_async:
  assumes "in_ok c r" "\<not> has_flag REDIS_BLOCK c" "delivers rd" "\<forall>n. mem_ok m n"
    and "2 * (rd_len r + length (read_bytes (rd # rds))) \<le> 2147483647" "waiting m r (read_bytes (rd # rds)) ts"
  shows "\<exists>r'. redisBufferRead m strerror rd c = Inr (REDIS_OK, c\<lparr>rc_reader := Some r'\<rparr>) \<and> in_ok (c\<lparr>rc_reader := Some r'\<rparr>) r' \<and>
    waiting m r' (read_bytes rds) ts \<and> rd_len r' + length (read_bytes rds) = rd_len r + length (read_bytes (rd # rds))"
proof (cases rd)
  case (ReadError errno)
  then have "redisBufferRead m strerror rd c = Inr (REDIS_OK, c\<lparr>rc_reader := Some r\<rparr>)"
    using assms(1,2,3) by (auto simp: redisBufferRead_def try_again_def in_ok_def)
  then show ?thesis using ReadError assms by (intro exI [of _ r]) (simp add: in_ok_def)
next
  case (Received bs)
  have "2 * (rd_len r + length bs) \<le> 2147483647" using assms(5) Received by simp
  with feed_ready [of r m bs] assms(1,3,4) Received obtain r' where
    r': "redisReaderFeed m (Some bs) (length bs) r = Inr (REDIS_OK, r')" "ready r'" "unread r' = unread r @ bs"
      "core r' = core r" "rd_len r' = rd_len r + length bs" by (auto simp: in_ok_def)
  moreover have "waiting m r' (read_bytes rds) ts"
    using assms(3,6) Received by (intro waiting_feed [OF _ _ r'(3,4)]) simp_all
  ultimately show ?thesis using assms(1,3) Received by (intro exI [of _ r']) (simp add: redisBufferRead_def in_ok_def)
qed

lemma handle_read_ok:
  assumes "silent e" "\<forall>n. mem_ok (ae_mem e) n" "in_ok (ac_c ac) r" "waiting (ae_mem e) r (read_bytes (rd # rds)) ts"
    and "quiet ac" "flag REDIS_CONNECTED ac" "delivers rd" "length ts \<le> length (ac_replies ac)"
    and "2 * (rd_len r + length (read_bytes (rd # rds))) \<le> 2147483647"
  shows "\<exists>k r' ac'. redisAsyncHandleRead e sock rd ac = Inr (Some ac') \<and> k \<le> length ts \<and> (read_bytes rds = [] \<longrightarrow> k = length ts) \<and>
    in_ok (ac_c ac') r' \<and> waiting (ae_mem e) r' (read_bytes rds) (drop k ts) \<and>
    rd_len r' + length (read_bytes rds) \<le> rd_len r + length (read_bytes (rd # rds)) \<and>
    rc_flags (ac_c ac') = rc_flags (ac_c ac) \<and> ac_replies ac' = drop k (ac_replies ac) \<and>
    runs (ac_log ac') = runs (ac_log ac) @ answers (take k (ac_replies ac)) (take k ts) \<and> ac_freed ac' = ac_freed ac"
proof -
  have "\<not> has_flag REDIS_BLOCK (ac_c ac)" using assms(5) by (simp add: quiet_def)
  from buffer_read_async [OF assms(3) this assms(7,2,9,4), of "ae_strerror e"] obtain r1 where
    r1: "redisBufferRead (ae_mem e) (ae_strerror e) rd (ac_c ac) = Inr (REDIS_OK, (ac_c ac)\<lparr>rc_reader := Some r1\<rparr>)"
      "in_ok ((ac_c ac)\<lparr>rc_reader := Some r1\<rparr>) r1" "waiting (ae_mem e) r1 (read_bytes rds) ts"
      "rd_len r1 + length (read_bytes rds) = rd_len r + length (read_bytes (rd # rds))" by blast
  let ?ac = "run_hook AddRead (ac\<lparr>ac_c := (ac_c ac)\<lparr>rc_reader := Some r1\<rparr>\<rparr>)"
  have h: "redisAsyncHandleRead e sock rd ac = process_callbacks e (rd_len r1 + 1) None ?ac"
    using r1(1) assms(5,6) by (simp add: quiet_def redisAsyncHandleRead_def ensure_connected_def bind_fuel_def redisProcessCallbacks_def)
  have q: "quiet ?ac" using assms(5) by (simp add: quiet_def has_flag_def)
  obtain s where "rd_buf r1 = Some s" "sds_wf s" "rd_len r1 = sdslen s" using r1(2) by (auto simp: in_ok_def ready_def buffer_ok_def)
  then have "length (unread r1) < rd_len r1 + 1" by (simp add: unread_def sds_wfD(5))
  moreover have "rd_len r1 + length (read_bytes rds) \<le> 2147483647" using r1(4) assms(9) by simp
  ultimately obtain k r' ac' where "process_callbacks e (rd_len r1 + 1) None ?ac = Inr (Some ac')" "k \<le> length ts"
    "read_bytes rds = [] \<longrightarrow> k = length ts" "in_ok (ac_c ac') r'" "waiting (ae_mem e) r' (read_bytes rds) (drop k ts)"
    "rd_len r' \<le> rd_len r1" "rc_flags (ac_c ac') = rc_flags (ac_c ac)" "ac_replies ac' = drop k (ac_replies ac)"
    "runs (ac_log ac') = runs (ac_log ac) @ answers (take k (ac_replies ac)) (take k ts)" "ac_freed ac' = ac_freed ac"
    using process_ok [OF assms(1,2) _ r1(3) q, of "rd_len r1 + 1" None] r1(2) assms(8) by auto
  then show ?thesis using h r1(4) by (intro exI [of _ k] exI [of _ r'] exI [of _ ac']) simp
qed

lemma read_events_ok:
  assumes "silent e" "\<forall>n. mem_ok (ae_mem e) n"
  shows "in_ok (ac_c ac) r \<Longrightarrow> waiting (ae_mem e) r (read_bytes rds) ts \<Longrightarrow> quiet ac \<Longrightarrow> flag REDIS_CONNECTED ac \<Longrightarrow>
    list_all delivers rds \<Longrightarrow> length ts \<le> length (ac_replies ac) \<Longrightarrow> 2 * (rd_len r + length (read_bytes rds)) \<le> 2147483647 \<Longrightarrow>
    \<exists>k ac'. read_events e sock rds ac = Inr (Some ac') \<and> k \<le> length ts \<and> (rds \<noteq> [] \<longrightarrow> k = length ts) \<and>
      rc_err (ac_c ac') = 0 \<and> rc_flags (ac_c ac') = rc_flags (ac_c ac) \<and> ac_replies ac' = drop k (ac_replies ac) \<and>
      runs (ac_log ac') = runs (ac_log ac) @ answers (take k (ac_replies ac)) (take k ts)"
proof (induction rds arbitrary: ac r ts)
  case Nil
  then show ?case by (intro exI [of _ 0] exI [of _ ac]) (simp add: in_ok_def)
next
  case (Cons rd rds)
  then have d: "delivers rd" "list_all delivers rds" by simp_all
  from handle_read_ok [OF assms Cons.prems(1-4) d(1) Cons.prems(6,7), of sock] obtain k r1 ac1 where
    k: "redisAsyncHandleRead e sock rd ac = Inr (Some ac1)" "k \<le> length ts" "read_bytes rds = [] \<longrightarrow> k = length ts"
      "in_ok (ac_c ac1) r1" "waiting (ae_mem e) r1 (read_bytes rds) (drop k ts)"
      "rd_len r1 + length (read_bytes rds) \<le> rd_len r + length (read_bytes (rd # rds))"
      "rc_flags (ac_c ac1) = rc_flags (ac_c ac)" "ac_replies ac1 = drop k (ac_replies ac)"
      "runs (ac_log ac1) = runs (ac_log ac) @ answers (take k (ac_replies ac)) (take k ts)" "ac_freed ac1 = ac_freed ac" by blast
  have "quiet ac1" "flag REDIS_CONNECTED ac1" using Cons.prems(3,4) k(7,10) by (simp_all add: quiet_def has_flag_def)
  moreover have "2 * (rd_len r1 + length (read_bytes rds)) \<le> 2147483647" using k(6) Cons.prems(7) by simp
  moreover have "length (drop k ts) \<le> length (ac_replies ac1)" using Cons.prems(6) k(8) by simp
  ultimately obtain j ac2 where j: "read_events e sock rds ac1 = Inr (Some ac2)" "j \<le> length (drop k ts)"
      "rds \<noteq> [] \<longrightarrow> j = length (drop k ts)" "rc_err (ac_c ac2) = 0" "rc_flags (ac_c ac2) = rc_flags (ac_c ac1)"
      "ac_replies ac2 = drop j (ac_replies ac1)"
      "runs (ac_log ac2) = runs (ac_log ac1) @ answers (take j (ac_replies ac1)) (take j (drop k ts))"
    using Cons.IH [OF k(4,5) _ _ d(2)] by blast
  have "answers (take k (ac_replies ac)) (take k ts) @ answers (take j (drop k (ac_replies ac))) (take j (drop k ts)) =
      answers (take (k + j) (ac_replies ac)) (take (k + j) ts)"
    using answers_append [of "take k (ac_replies ac)" "take k ts"] k(2) Cons.prems(6) by (simp add: take_add)
  moreover have "rds = [] \<Longrightarrow> k = length ts \<and> j = 0" using k(3) j(2) by simp
  ultimately show ?case using k j by (intro exI [of _ "k + j"] exI [of _ ac2]) (auto simp: bind_fuel_def add.commute)
qed

end
