(* ===== verification/Async_Props.thy ===== *)
theory Async_Props
  imports Async_Replies
begin

text \<open>
  What the asynchronous interface promises to its client, and where it breaks the promise.
\<close>

section \<open>Order of replies\<close>

text \<open>
  C11: Replies reach the callbacks of their commands in order.  On a connected context whose reader is
  between two replies, let the calls of \<^verbatim>\<open>read\<close> deliver the encodings of some replies, at most as many
  as commands are waiting, cut into pieces in any way and with any number of calls that ask to try
  again.  Then, after one read event for each call, the first callbacks in the queue have been called
  with these replies, each once and in order, the other callbacks still wait, and the context is free
  of errors.  The callbacks make no calls into the library.
\<close>

theorem async_replies_in_order:
  assumes "silent e" "quiet ac" "flag REDIS_CONNECTED ac" "in_ok (ac_c ac) r" "rd_ridx r = -1" "unread r = []"
    and "list_all delivers rds" "read_bytes rds = concat (map encode ts)" "list_all good ts" "length ts \<le> length (ac_replies ac)"
    and "2 * (rd_len r + length (read_bytes rds)) \<le> 2147483647" "\<forall>n. mem_ok (ae_mem e) n"
  shows "\<exists>ac'. read_events e sock rds ac = Inr (Some ac') \<and> rc_err (ac_c ac') = 0 \<and>
    ac_replies ac' = drop (length ts) (ac_replies ac) \<and> runs (ac_log ac') = runs (ac_log ac) @ answers (ac_replies ac) ts"
proof -
  have "waiting (ae_mem e) r (read_bytes rds) ts"
    using assms(4-6,8,9,11,12) by (intro waiting_idle) (simp_all add: in_ok_def)
  from read_events_ok [OF assms(1,12,4) this assms(2,3,7,10,11), of sock] obtain k ac' where
    k: "read_events e sock rds ac = Inr (Some ac')" "k \<le> length ts" "rds \<noteq> [] \<longrightarrow> k = length ts" "rc_err (ac_c ac') = 0"
      "ac_replies ac' = drop k (ac_replies ac)"
      "runs (ac_log ac') = runs (ac_log ac) @ answers (take k (ac_replies ac)) (take k ts)" by blast
  have "encode t \<noteq> []" for t by (cases t) simp_all
  then have "rds = [] \<Longrightarrow> ts = []" using assms(8) by (cases ts) auto
  then have "k = length ts" using k(2,3) by auto
  then show ?thesis using k answers_split [of k ts "ac_replies ac"] assms(10) by (intro exI [of _ ac']) (cases "rds = []", simp_all)
qed

definition empty_table :: "(string, redisCallback) dict" where
  "empty_table = \<lparr>d_table = None, d_size = 0, d_sizemask = 0, d_used = 0, d_freedKeys = [], d_freedVals = []\<rparr>"

lemma empty_table_wf: "dict_wf callbackDict empty_table \<and> dict_abs empty_table = Map.empty \<and> entries empty_table = []"
  using empty_dict_wf [of mem_all empty_table callbackDict] by (simp add: dictCreate_def empty_table_def mem_all_def entries_def)

text \<open>A connected context with two commands waiting.\<close>

definition async_context :: redisAsyncContext where
  "async_context = \<lparr>ac_c = fresh_context\<lparr>rc_flags := 2\<rparr>, ac_err = 0, ac_errstr = False, ac_ev = [AddRead, AddWrite],
     ac_onConnect = None, ac_onDisconnect = Some 9, ac_replies = [\<lparr>cb_fn = Some 1, cb_privdata = 10\<rparr>, \<lparr>cb_fn = Some 2, cb_privdata = 20\<rparr>],
     ac_invalid = [], ac_channels = empty_table, ac_patterns = empty_table, ac_released = False, ac_freed = False, ac_log = []\<rparr>"

definition async_client :: "(event list \<Rightarrow> api_call list) \<Rightarrow> async_env" where
  "async_client u = \<lparr>ae_mem = mem_all, ae_strerror = (\<lambda>_. []), ae_printf = (\<lambda>_ _. []), ae_user = u\<rparr>"

lemma async_context_flags: "flag n async_context \<longleftrightarrow> n = 1"
  by (simp add: async_context_def has_flag_def bit_2_iff)

lemma async_context_fields [simp]:
  "ac_replies async_context = [\<lparr>cb_fn = Some 1, cb_privdata = 10\<rparr>, \<lparr>cb_fn = Some 2, cb_privdata = 20\<rparr>]"
  "ac_log async_context = []" "ac_invalid async_context = []" "ac_onDisconnect async_context = Some 9"
  "ac_channels async_context = empty_table" "ac_patterns async_context = empty_table" "\<not> ac_freed async_context"
  by (simp_all add: async_context_def)

lemma async_client_fields [simp]: "mem_ok (ae_mem (async_client u)) n" "ae_user (async_client u) = u"
  by (simp_all add: async_client_def mem_all_def)

lemma async_context_reader: "in_ok (ac_c async_context) (reader_with [])"
  using reader_with_wf [of "[]"]
  by (auto simp: in_ok_def async_context_def fresh_context_def ready_def reader_wf_def stack_ok_def a_ok_def reader_with_def)

theorem async_replies_in_order_witness:
  "\<exists>ac'. read_events (async_client (\<lambda>_. [])) (\<lambda>c. (0, 0, c)) [Received ''+O'', ReadError EAGAIN, Received (''K'' @ [CR, LF] @ '':7''), Received [CR, LF]]
      async_context = Inr (Some ac') \<and> rc_err (ac_c ac') = 0 \<and> ac_replies ac' = [] \<and>
    runs (ac_log ac') = [(1, 10, Some (ReplyStatus ''OK'')), (2, 20, Some (ReplyInteger 7))]"
proof -
  have "silent (async_client (\<lambda>_. []))" "quiet async_context" by (simp_all add: silent_def quiet_def async_context_flags)
  moreover have "rd_ridx (reader_with []) = -1" "unread (reader_with []) = []" "rd_len (reader_with []) = 0"
    using unread_reader_with [of "[]"] by (simp_all add: reader_with_def)
  moreover have "dec_int 7 = ''7''" by code_simp
  ultimately show ?thesis
    using async_replies_in_order [of "async_client (\<lambda>_. [])" async_context "reader_with []"
        "[Received ''+O'', ReadError EAGAIN, Received (''K'' @ [CR, LF] @ '':7''), Received [CR, LF]]"
        "[ReplyStatus ''OK'', ReplyInteger 7]" "\<lambda>c. (0, 0, c)"]
      async_context_reader
    by (simp add: async_context_flags good_def one_line_def)
qed

section \<open>The end of a context\<close>

text \<open>
  C12: Freeing a context answers every pending callback.  Outside of callbacks, whatever commands the
  client tries to send from its callbacks, \<^verbatim>\<open>redisAsyncFree\<close> calls every callback that is waiting for a
  reply, then those queued while subscribed, then those of all channels and of all patterns, each
  exactly once and with a NULL reply.  The disconnect callback of a connected context runs once, with
  the status for success, and the context is gone.
\<close>

theorem async_free_notifies_all:
  assumes "polite e" "\<not> flag REDIS_IN_CALLBACK ac" "async_wf ac" "\<forall>n. mem_ok (ae_mem e) n"
  shows "\<exists>ac'. redisAsyncFree e ac = Inr (Some ac') \<and> ac_freed ac' \<and>
    runs (ac_log ac') = runs (ac_log ac) @ calls_of None (pending ac) \<and>
    (\<forall>fn. ac_onDisconnect ac = Some fn \<longrightarrow> flag REDIS_CONNECTED ac \<longrightarrow> ends (ac_log ac') = ends (ac_log ac) @ [(fn, REDIS_OK)])"
proof -
  let ?ac = "set_flag REDIS_FREEING ac"
  have p: "pending ?ac = pending ac" by (simp add: pending_def)
  have "closing ?ac" "\<not> flag REDIS_IN_CALLBACK ?ac" "async_wf ?ac" using assms(2,3) by (simp_all add: closing_def async_wf_def)
  from async_free_ok [OF this(1) assms(1) this(2,3) assms(4)] obtain ac' where
    ac': "async_free e ?ac = Inr (Some ac')" "ac_freed ac'" "runs (ac_log ac') = runs (ac_log ac) @ calls_of None (pending ac)"
      "\<And>fn. ac_onDisconnect ac = Some fn \<Longrightarrow> flag REDIS_CONNECTED ac \<Longrightarrow> ends (ac_log ac') = ends (ac_log ac) @ [(fn, REDIS_OK)]"
    using p by auto
  then show ?thesis using assms(2) by (intro exI [of _ ac']) (simp add: redisAsyncFree_def)
qed

lemma async_context_wf: "async_wf async_context" "pending async_context = ac_replies async_context"
  using empty_table_wf by (simp_all add: async_wf_def pending_def) (simp_all add: async_context_def)

text \<open>A client that sends a command again when it was not answered.\<close>

definition resend :: "event list \<Rightarrow> api_call list" where
  "resend log = (case last log of RanReply f d None \<Rightarrow> [DoCommandArgv (Some f) d 1 [''PING''] (Some [4])] | _ \<Rightarrow> [])"

lemma resend_polite: "polite (async_client resend)"
proof -
  have len: "length (command [''PING'']) = 14" by (simp add: dec_nat_eval)
  have "redisFormatCommandArgv mem_all 1 [''PING''] (Some [4]) = Inr (14, Some (command [''PING''] @ [NUL]))"
    using FormatCommandArgv_correct [of "[''PING'']" "[4]" "[''PING'']" mem_all] len
    by (simp add: mem_all_def del: encode.simps)
  then have "formats (async_client resend) (DoCommandArgv fn d 1 [''PING''] (Some [4]))" for fn d
    by (simp add: async_client_def)
  then show ?thesis
    by (auto simp: polite_def resend_def split: event.splits option.splits simp del: formats.simps(2))
qed

theorem async_free_notifies_all_witness:
  "\<exists>ac'. redisAsyncFree (async_client resend) async_context = Inr (Some ac') \<and> ac_freed ac' \<and>
    runs (ac_log ac') = [(1, 10, None), (2, 20, None)] \<and> ends (ac_log ac') = [(9, REDIS_OK)]"
  using async_free_notifies_all [OF resend_polite _ async_context_wf(1)] async_context_wf(2) by (auto simp: async_context_flags)

lemma lost_connection:
  assumes "polite e" "flag REDIS_CONNECTED ac" "\<not> flag REDIS_IN_CALLBACK ac" "async_wf ac" "rc_err (ac_c ac) = 0"
    and "rd = Received [] \<or> (\<exists>errno. rd = ReadError errno \<and> \<not> try_again errno (ac_c ac))" "\<forall>n. mem_ok (ae_mem e) n"
  shows "\<exists>ac'. redisAsyncHandleRead e sock rd ac = Inr (Some ac') \<and> ac_freed ac' \<and>
    runs (ac_log ac') = runs (ac_log ac) @ calls_of None (pending ac) \<and>
    (\<forall>fn. ac_onDisconnect ac = Some fn \<longrightarrow> (\<exists>st. ends (ac_log ac') = ends (ac_log ac) @ [(fn, st)]))"
proof -
  obtain err msg where c: "redisBufferRead (ae_mem e) (ae_strerror e) rd (ac_c ac) =
      Inr (REDIS_ERR, (ac_c ac)\<lparr>rc_err := err, rc_errstr := msg\<rparr>)" "err \<noteq> 0"
    using assms(5,6) by (auto simp: redisBufferRead_def redisSetError_def)
  let ?ac = "ac\<lparr>ac_c := (ac_c ac)\<lparr>rc_err := err, rc_errstr := msg\<rparr>\<rparr>"
  let ?dc = "set_flag REDIS_DISCONNECTING (redisAsyncCopyError ?ac)"
  have h: "redisAsyncHandleRead e sock rd ac = async_free e ?dc"
    using c assms(2,4) by (simp add: redisAsyncHandleRead_def ensure_connected_def bind_fuel_def async_disconnect_def
        async_wf_def redisAsyncCopyError_def Let_def)
  have fl: "flag n (redisAsyncCopyError ?ac) = flag n ac" for n by (simp add: redisAsyncCopyError_def has_flag_def)
  have d: "closing ?dc" "\<not> flag REDIS_IN_CALLBACK ?dc" "async_wf ?dc" "pending ?dc = pending ac" "flag REDIS_CONNECTED ?dc"
    "ac_log ?dc = ac_log ac" "ac_onDisconnect ?dc = ac_onDisconnect ac"
    using assms(2,3,4) by (simp_all add: closing_def async_wf_def pending_def fl) (simp_all add: redisAsyncCopyError_def)
  from async_free_ok [OF d(1) assms(1) d(2,3) assms(7)] show ?thesis using h d(4-7) by auto
qed

text \<open>
  C16: A lost connection answers every pending callback.  When \<^verbatim>\<open>read\<close> reports the end of the stream or
  fails for good, the read handler of a connected context calls every pending callback exactly once,
  with a NULL reply, then the disconnect callback, and releases the context.
\<close>

theorem async_lost_connection:
  assumes "polite e" "flag REDIS_CONNECTED ac" "\<not> flag REDIS_IN_CALLBACK ac" "async_wf ac" "rc_err (ac_c ac) = 0"
    and "rd = Received [] \<or> (\<exists>errno. rd = ReadError errno \<and> \<not> try_again errno (ac_c ac))" "\<forall>n. mem_ok (ae_mem e) n"
  shows "\<exists>ac'. redisAsyncHandleRead e sock rd ac = Inr (Some ac') \<and> ac_freed ac' \<and>
    runs (ac_log ac') = runs (ac_log ac) @ calls_of None (pending ac) \<and>
    (\<forall>fn. ac_onDisconnect ac = Some fn \<longrightarrow> (\<exists>st. ends (ac_log ac') = ends (ac_log ac) @ [(fn, st)]))"
  using lost_connection [OF assms] .

theorem async_lost_connection_witness:
  "\<exists>ac'. redisAsyncHandleRead (async_client resend) (\<lambda>c. (0, 0, c)) (Received []) async_context = Inr (Some ac') \<and> ac_freed ac' \<and>
    runs (ac_log ac') = [(1, 10, None), (2, 20, None)] \<and> (\<exists>st. ends (ac_log ac') = [(9, st)])"
  using async_lost_connection [OF resend_polite _ _ async_context_wf(1), of "Received []" "\<lambda>c. (0, 0, c)"] async_context_wf(2)
    async_context_reader by (simp add: async_context_flags in_ok_def)

text \<open>
  C39: A context that is freed in its connect callback is used again.  When the first read or write event
  of a context shows the connection established and the connect callback calls \<^verbatim>\<open>redisAsyncFree\<close>, the
  context is released at once, because \<^verbatim>\<open>REDIS_IN_CALLBACK\<close> is set for reply callbacks only; the handler
  then reads the flags of the released context.
\<close>

theorem async_free_in_connect_callback:
  assumes "polite e" "\<not> flag REDIS_CONNECTED ac" "\<not> flag REDIS_IN_CALLBACK ac" "async_wf ac" "ac_onConnect ac = Some fn"
    and "sock (ac_c ac) = (REDIS_OK, errno, ac_c ac)" "ae_user e (ac_log ac @ [RanConnect fn REDIS_OK]) = [DoFree]" "\<forall>n. mem_ok (ae_mem e) n"
  shows "redisAsyncHandleRead e sock rd ac = Inl UseAfterFree \<and> redisAsyncHandleWrite e sock w ac = Inl UseAfterFree"
proof -
  let ?ac = "log_event (RanConnect fn REDIS_OK) (set_flag REDIS_CONNECTED ac)"
  let ?fc = "set_flag REDIS_FREEING ?ac"
  have "closing ?fc" "\<not> flag REDIS_IN_CALLBACK ?fc" "async_wf ?fc"
    using assms(3,4) by (simp_all add: closing_def async_wf_def) (simp_all add: log_event_def)
  from async_free_ok [OF this(1) assms(1) this(2,3) assms(8)] obtain ac' where
    ac': "async_free e ?fc = Inr (Some ac')" "ac_freed ac'" by blast
  have "\<not> ac_freed ?ac" "ac_log ?ac = ac_log ac @ [RanConnect fn REDIS_OK]" "ac_onConnect (set_flag REDIS_CONNECTED ac) = Some fn"
    using assms(4,5) by (simp_all add: async_wf_def log_event_def set_flag_def)
  then have "run_connect_callback e REDIS_OK (set_flag REDIS_CONNECTED ac) = Inr (Some ac')"
    using assms(3,7) ac'(1) by (simp add: run_connect_callback_def bind_fuel_def redisAsyncFree_def)
  then have "ensure_connected e sock ac = Inl UseAfterFree"
    using assms(2,4,6) ac'(2) by (simp add: async_wf_def ensure_connected_def redisAsyncHandleConnect_def bind_fuel_def)
  then show ?thesis by (simp add: redisAsyncHandleRead_def redisAsyncHandleWrite_def bind_fuel_def)
qed

definition connecting_context :: redisAsyncContext where
  "connecting_context = async_context\<lparr>ac_c := fresh_context\<lparr>rc_flags := 0\<rparr>, ac_onConnect := Some 5\<rparr>"

definition free_on_connect :: "event list \<Rightarrow> api_call list" where
  "free_on_connect log = (case last log of RanConnect f st \<Rightarrow> [DoFree] | _ \<Rightarrow> [])"

theorem async_free_in_connect_callback_witness:
  "redisAsyncHandleRead (async_client free_on_connect) (\<lambda>c. (REDIS_OK, 0, c)) (ReadError EAGAIN) connecting_context = Inl UseAfterFree \<and>
    redisAsyncHandleWrite (async_client free_on_connect) (\<lambda>c. (REDIS_OK, 0, c)) (Wrote 0) connecting_context = Inl UseAfterFree"
proof -
  have "polite (async_client free_on_connect)" by (simp add: polite_def free_on_connect_def split: event.splits)
  moreover have "async_wf connecting_context" "\<not> flag n connecting_context" for n
    using async_context_wf(1) by (simp_all add: async_wf_def connecting_context_def has_flag_def)
  moreover have "ac_onConnect connecting_context = Some 5" by (simp add: connecting_context_def)
  ultimately show ?thesis
    using async_free_in_connect_callback [of "async_client free_on_connect" connecting_context 5 "\<lambda>c. (REDIS_OK, 0, c)" 0 "ReadError EAGAIN" "Wrote 0"]
    by (simp add: free_on_connect_def)
qed

text \<open>
  A monitoring context can queue a callback that was never assigned.  When the first read event
  after \<^verbatim>\<open>MONITOR\<close> brings only a part of a reply, \<^verbatim>\<open>redisProcessCallbacks\<close> puts its local variable \<^verbatim>\<open>cb\<close>
  into the queue, which no statement has written before.
\<close>

lemma async_monitor_uninitialised:
  assumes "flag REDIS_CONNECTED ac" "flag REDIS_MONITORING ac" "\<not> flag REDIS_DISCONNECTING ac" "\<not> flag REDIS_BLOCK ac"
    and "in_ok (ac_c ac) r" "rd_ridx r = -1" "unread r = []" "good t" "encode t = bs @ bs'" "bs \<noteq> []" "bs' \<noteq> []"
    and "2 * (rd_len r + length (encode t)) \<le> 2147483647" "\<forall>n. mem_ok (ae_mem e) n" "\<not> ac_freed ac"
  shows "redisAsyncHandleRead e sock (Received bs) ac = Inl Uninitialised"
proof -
  have "waiting (ae_mem e) r (read_bytes [Received bs, Received bs']) [t]"
    using assms(5-9,12,13) by (intro waiting_idle) (simp_all add: in_ok_def)
  from buffer_read_async [OF assms(5,4) _ assms(13) _ this, of "ae_strerror e"] assms(9,10,12) obtain r1 where
    r1: "redisBufferRead (ae_mem e) (ae_strerror e) (Received bs) (ac_c ac) = Inr (REDIS_OK, (ac_c ac)\<lparr>rc_reader := Some r1\<rparr>)"
      "in_ok ((ac_c ac)\<lparr>rc_reader := Some r1\<rparr>) r1" "waiting (ae_mem e) r1 bs' [t]" by auto
  from waiting_step [OF r1(2,3)] assms(11) obtain r2 where r2:
    "redisGetReplyFromReader (ae_mem e) ((ac_c ac)\<lparr>rc_reader := Some r1\<rparr>) = Inr (Some (REDIS_OK, None, (ac_c ac)\<lparr>rc_reader := Some r2\<rparr>))"
    by auto
  have "\<not> has_flag REDIS_BLOCK ((ac_c ac)\<lparr>rc_reader := Some r2\<rparr>)" using assms(4) by (simp add: has_flag_def)
  note g = get_reply_async [OF r2 this, of "ae_strerror e" "[]" "[]"]
  have "no_reply (ae_mem e) None (run_hook AddRead (ac\<lparr>ac_c := (ac_c ac)\<lparr>rc_reader := Some r1\<rparr>\<rparr>)\<lparr>ac_c := (ac_c ac)\<lparr>rc_reader := Some r2\<rparr>\<rparr>) =
      Inl Uninitialised" using assms(2,3) by (simp add: no_reply_def has_flag_def)
  then show ?thesis using r1(1) g assms(1,14)
    by (simp add: redisAsyncHandleRead_def ensure_connected_def bind_fuel_def redisProcessCallbacks_def)
qed

end
