(* ===== verification/Async_Disconnect.thy ===== *)
theory Async_Disconnect
  imports Async_Props
begin

text \<open>
  Disconnecting while replies are pending.  The documentation promises that the connection is closed when
  all pending callbacks have been called.  This holds when the replies arrive in one read event; when
  a read event leaves replies open, the library runs into an assertion.
\<close>

section \<open>The read event after a disconnect\<close>

lemma silent_polite: "silent e \<Longrightarrow> polite e"
  by (simp add: silent_def polite_def)

text \<open>
  A context that is being disconnected, with nothing left to send, in the turn that finds no reply: what happens depends
  on whether a callback waits.
\<close>

lemma disconnect_turn:
  assumes "redisGetReplyFromReader (ae_mem e) (ac_c ac) = Inr (Some (REDIS_OK, None, (ac_c ac)\<lparr>rc_reader := Some r\<rparr>))"
    and "\<not> flag REDIS_BLOCK ac" "flag REDIS_DISCONNECTING ac" "rc_obuf (ac_c ac) = Some out" "sdslen out = 0" "rc_err (ac_c ac) = 0" "\<not> ac_freed ac"
  shows "process_callbacks e (Suc j) cb ac =
    (if ac_replies ac = [] then async_free e (redisAsyncCopyError (ac\<lparr>ac_c := (ac_c ac)\<lparr>rc_reader := Some r\<rparr>\<rparr>)) else Inl AssertFailed)"
proof -
  let ?ac = "ac\<lparr>ac_c := (ac_c ac)\<lparr>rc_reader := Some r\<rparr>\<rparr>"
  have "\<not> has_flag REDIS_BLOCK (ac_c ?ac)" "flag REDIS_DISCONNECTING ?ac" using assms(2,3) by (simp_all add: has_flag_def)
  then have "process_callbacks e (Suc j) cb ac = async_disconnect e ?ac"
    using get_reply_async [OF assms(1), of "ae_strerror e" "[]" "[]"] assms(4,5) by (simp add: bind_fuel_def no_reply_def)
  then show ?thesis using assms(6,7) by (cases "ac_replies ac") (simp_all add: async_disconnect_def redisAsyncCopyError_def redisShiftCallback_def Let_def)
qed

text \<open>The event: the bytes \<open>bs\<close> of the replies arrive, the bytes \<open>todo\<close> do not.\<close>

lemma disconnecting_read:
  assumes "silent e" "lively ac" "flag REDIS_DISCONNECTING ac" "flag REDIS_CONNECTED ac"
    and "in_ok (ac_c ac) r" "rd_ridx r = -1" "unread r = []" "rc_obuf (ac_c ac) = Some out" "sdslen out = 0"
    and "bs @ todo = concat (map encode ts)" "bs \<noteq> []" "list_all good ts" "length ts = length (ac_replies ac)"
    and "2 * (rd_len r + length (bs @ todo)) \<le> 2147483647" "\<forall>n. mem_ok (ae_mem e) n"
  shows "\<exists>k rd l. k \<le> length ts \<and> (todo = [] \<longleftrightarrow> k = length ts) \<and> runs l = runs (ac_log ac) @ answers (take k (ac_replies ac)) (take k ts) \<and>
    ends l = ends (ac_log ac) \<and> redisAsyncHandleRead e sock (Received bs) ac =
      (if todo = [] then async_free e (redisAsyncCopyError (ac\<lparr>ac_c := (ac_c ac)\<lparr>rc_reader := rd\<rparr>, ac_replies := [], ac_log := l\<rparr>))
       else Inl AssertFailed)"
proof -
  have nb: "\<not> has_flag REDIS_BLOCK (ac_c ac)" using assms(2) by (simp add: lively_def)
  have "waiting (ae_mem e) r (read_bytes [Received bs, Received todo]) ts"
    using assms(5-7,10,12,14,15) by (intro waiting_idle) (simp_all add: in_ok_def)
  from buffer_read_async [OF assms(5) nb _ assms(15) _ this, of "ae_strerror e"] assms(11,14) obtain r1 where
    r1: "redisBufferRead (ae_mem e) (ae_strerror e) (Received bs) (ac_c ac) = Inr (REDIS_OK, (ac_c ac)\<lparr>rc_reader := Some r1\<rparr>)"
      "in_ok ((ac_c ac)\<lparr>rc_reader := Some r1\<rparr>) r1" "waiting (ae_mem e) r1 todo ts" "rd_len r1 = rd_len r + length bs" by auto
  let ?ac = "run_hook AddRead (ac\<lparr>ac_c := (ac_c ac)\<lparr>rc_reader := Some r1\<rparr>\<rparr>)"
  have h: "redisAsyncHandleRead e sock (Received bs) ac = process_callbacks e (rd_len r1 + 1) None ?ac"
    using r1(1) assms(2,4) by (simp add: lively_def redisAsyncHandleRead_def ensure_connected_def bind_fuel_def redisProcessCallbacks_def del: process_callbacks.simps)
  have q: "lively ?ac" using assms(2) by (simp add: lively_def has_flag_def)
  have c: "in_ok (ac_c ?ac) r1" "length ts \<le> length (ac_replies ?ac)" using r1(2) assms(13) by simp_all
  obtain s where "rd_buf r1 = Some s" "sds_wf s" "rd_len r1 = sdslen s" using r1(2) by (auto simp: in_ok_def ready_def buffer_ok_def)
  then have len: "length (unread r1) < rd_len r1 + 1" "rd_len r1 + length todo \<le> 2147483647" using r1(4) assms(14) by (simp_all add: unread_def sds_wfD(5))
  from process_until [OF assms(1,15) c(1) r1(3) q c(2) len(2,1), of None] obtain k j cb' r' ac' rd l where
    k: "process_callbacks e (rd_len r1 + 1) None ?ac = process_callbacks e (Suc j) cb' ac'" "k \<le> length ts" "todo = [] \<longrightarrow> k = length ts"
      "redisGetReplyFromReader (ae_mem e) (ac_c ac') = Inr (Some (REDIS_OK, None, (ac_c ac')\<lparr>rc_reader := Some r'\<rparr>))"
      "waiting (ae_mem e) r' todo (drop k ts)"
      "ac' = ?ac\<lparr>ac_c := (ac_c ?ac)\<lparr>rc_reader := rd\<rparr>, ac_replies := drop k (ac_replies ?ac), ac_log := l\<rparr>"
      "runs l = runs (ac_log ac) @ answers (take k (ac_replies ac)) (take k ts)" "ends l = ends (ac_log ac)" by (auto simp del: process_callbacks.simps)
  have all: "k = length ts \<longrightarrow> todo = []" using k(5) by (auto simp: waiting_def)
  have eq: "ac' = ac\<lparr>ac_c := (ac_c ac)\<lparr>rc_reader := rd\<rparr>, ac_replies := drop k (ac_replies ac), ac_log := l\<rparr>"
    unfolding k(6) by (simp add: run_hook_def log_event_def)
  have f: "\<not> flag REDIS_BLOCK ac'" "flag REDIS_DISCONNECTING ac'" "rc_obuf (ac_c ac') = Some out" "rc_err (ac_c ac') = 0" "\<not> ac_freed ac'"
    unfolding eq using assms(2,3,5,8) by (simp_all add: lively_def has_flag_def in_ok_def)
  have done_all: "k = length ts \<longleftrightarrow> todo = []" using k(3) all by iprover
  have "ac_replies ac' = [] \<longleftrightarrow> length (ac_replies ac) \<le> k" unfolding eq by simp
  then have none: "ac_replies ac' = [] \<longleftrightarrow> todo = []" using k(2) done_all assms(13) by linarith
  have last: "todo = [] \<Longrightarrow> ac'\<lparr>ac_c := (ac_c ac')\<lparr>rc_reader := Some r'\<rparr>\<rparr> = ac\<lparr>ac_c := (ac_c ac)\<lparr>rc_reader := Some r'\<rparr>, ac_replies := [], ac_log := l\<rparr>"
    unfolding eq by (simp add: done_all [symmetric] assms(13))
  have "process_callbacks e (Suc j) cb' ac' =
      (if todo = [] then async_free e (redisAsyncCopyError (ac\<lparr>ac_c := (ac_c ac)\<lparr>rc_reader := Some r'\<rparr>, ac_replies := [], ac_log := l\<rparr>)) else Inl AssertFailed)"
    by (simp only: disconnect_turn [OF k(4) f(1-3) assms(9) f(4,5)] none last cong: if_cong)
  with h k(1) have "redisAsyncHandleRead e sock (Received bs) ac =
      (if todo = [] then async_free e (redisAsyncCopyError (ac\<lparr>ac_c := (ac_c ac)\<lparr>rc_reader := Some r'\<rparr>, ac_replies := [], ac_log := l\<rparr>)) else Inl AssertFailed)"
    by (simp only:)
  then show ?thesis using k(2,7,8) done_all by (intro exI [of _ k] exI [of _ "Some r'"] exI [of _ l] conjI) simp_all
qed

section \<open>Properties\<close>

text \<open>A client that disconnects while replies are pending only leaves a mark, and can send no more commands.\<close>

lemma disconnect_marks:
  assumes "lively ac" "ac_replies ac \<noteq> []"
  shows "redisAsyncDisconnect e ac = Inr (Some (set_flag REDIS_DISCONNECTING ac)) \<and> lively (set_flag REDIS_DISCONNECTING ac) \<and>
    flag REDIS_DISCONNECTING (set_flag REDIS_DISCONNECTING ac) \<and>
    redisAsyncCommandRaw m fn d cmd len (set_flag REDIS_DISCONNECTING ac) = Inr (REDIS_ERR, set_flag REDIS_DISCONNECTING ac)"
  using assms by (simp add: redisAsyncDisconnect_def lively_def redisAsyncCommandRaw_def Let_def)

lemma waiting_context:
  "silent (async_client (\<lambda>_. []))" "lively async_context" "flag REDIS_CONNECTED async_context" "async_wf async_context" "ac_replies async_context \<noteq> []"
  "in_ok (ac_c async_context) (reader_with [])" "rd_ridx (reader_with []) = -1" "unread (reader_with []) = []"
  using async_context_wf(1) async_context_reader unread_reader_with [of "[]"]
  by (simp_all add: silent_def lively_def async_context_flags) (simp_all add: reader_with_def)

lemma waiting_context_fields:
  "rc_obuf (ac_c async_context) = Some \<lparr>sds_len = 0, sds_free = 0, sds_buf = [NUL]\<rparr>" "rd_len (reader_with []) = 0"
  "pending (async_context\<lparr>ac_replies := []\<rparr>) = []"
  using async_context_wf(2) empty_table_wf
  by (simp_all add: async_context_def fresh_context_def reader_with_def pending_def)

text \<open>
  C13: A clean disconnect waits for the replies.  Let a client disconnect while callbacks wait for replies and all
  output was sent.  The context is kept, but takes no new commands.  When the replies to all commands arrive in one
  read event, each callback is called with its reply, in order; then the callbacks of subscriptions are told with a NULL reply,
  the disconnect callback runs with the status for success, and the context is released.
\<close>

theorem async_disconnect_waits:
  assumes "silent e" "lively ac" "flag REDIS_CONNECTED ac" "async_wf ac" "ac_replies ac \<noteq> []"
    and "in_ok (ac_c ac) r" "rd_ridx r = -1" "unread r = []" "rc_obuf (ac_c ac) = Some out" "sdslen out = 0"
    and "list_all good ts" "length ts = length (ac_replies ac)"
    and "2 * (rd_len r + length (concat (map encode ts))) \<le> 2147483647" "\<forall>n. mem_ok (ae_mem e) n"
  shows "\<exists>ac1 ac2. redisAsyncDisconnect e ac = Inr (Some ac1) \<and> ac_log ac1 = ac_log ac \<and> \<not> ac_freed ac1 \<and>
    redisAsyncCommandRaw m fn d cmd len ac1 = Inr (REDIS_ERR, ac1) \<and>
    redisAsyncHandleRead e sock (Received (concat (map encode ts))) ac1 = Inr (Some ac2) \<and> ac_freed ac2 \<and>
    runs (ac_log ac2) = runs (ac_log ac) @ answers (ac_replies ac) ts @ calls_of None (pending (ac\<lparr>ac_replies := []\<rparr>)) \<and>
    (\<forall>fn. ac_onDisconnect ac = Some fn \<longrightarrow> ends (ac_log ac2) = ends (ac_log ac) @ [(fn, REDIS_OK)])"
proof -
  let ?ac = "set_flag REDIS_DISCONNECTING ac"
  note mark = disconnect_marks [OF assms(2,5), of e m fn d cmd len]
  have fields: "ac_replies ?ac = ac_replies ac" "ac_log ?ac = ac_log ac" by (simp_all add: set_flag_def)
  have "in_ok (ac_c ?ac) r" "flag REDIS_CONNECTED ?ac" "rc_obuf (ac_c ?ac) = Some out" "length ts = length (ac_replies ?ac)"
    using assms(3,6,9,12) by (simp_all add: in_ok_def set_flag_def has_flag_def bit_set_bit_iff)
  moreover have "concat (map encode ts) \<noteq> []"
  proof -
    have "encode t \<noteq> []" for t by (cases t) simp_all
    then show ?thesis using assms(5,12) by (cases ts) auto
  qed
  ultimately obtain rd l where h: "runs l = runs (ac_log ac) @ answers (ac_replies ac) ts" "ends l = ends (ac_log ac)"
    "redisAsyncHandleRead e sock (Received (concat (map encode ts))) ?ac =
      async_free e (redisAsyncCopyError (?ac\<lparr>ac_c := (ac_c ?ac)\<lparr>rc_reader := rd\<rparr>, ac_replies := [], ac_log := l\<rparr>))"
    using disconnecting_read [OF assms(1) mark [THEN conjunct2, THEN conjunct1] _ _ _ assms(7,8) _ assms(10), of "concat (map encode ts)" "[]" ts sock]
      mark assms(11,13,14) fields by (auto simp: assms(12))
  let ?ac1 = "redisAsyncCopyError (?ac\<lparr>ac_c := (ac_c ?ac)\<lparr>rc_reader := rd\<rparr>, ac_replies := [], ac_log := l\<rparr>)"
  have fl: "flag n ?ac1 = flag n ?ac" for n by (simp add: redisAsyncCopyError_def has_flag_def)
  have ac1: "closing ?ac1" "\<not> flag REDIS_IN_CALLBACK ?ac1" "async_wf ?ac1" "flag REDIS_CONNECTED ?ac1"
    using mark assms(3,4) unfolding closing_def async_wf_def fl by (auto simp: lively_def redisAsyncCopyError_def set_flag_def has_flag_def bit_set_bit_iff)
  have ac1': "pending ?ac1 = pending (ac\<lparr>ac_replies := []\<rparr>)" "ac_log ?ac1 = l" "ac_onDisconnect ?ac1 = ac_onDisconnect ac" "ac_err ?ac1 = 0"
    using assms(6) by (simp_all add: pending_def redisAsyncCopyError_def set_flag_def in_ok_def)
  from async_free_ok [OF ac1(1) silent_polite [OF assms(1)] ac1(2,3) assms(14)] obtain ac2 where
    "async_free e ?ac1 = Inr (Some ac2)" "ac_freed ac2" "runs (ac_log ac2) = runs l @ calls_of None (pending (ac\<lparr>ac_replies := []\<rparr>))"
    "\<And>fn. ac_onDisconnect ac = Some fn \<Longrightarrow> ends (ac_log ac2) = ends l @ [(fn, REDIS_OK)]"
    using ac1(4) ac1' by auto
  then show ?thesis using h mark fields by (intro exI [of _ ?ac] exI [of _ ac2]) (simp add: lively_def)
qed

theorem async_disconnect_waits_witness:
  "\<exists>ac1 ac2. redisAsyncDisconnect (async_client (\<lambda>_. [])) async_context = Inr (Some ac1) \<and>
    redisAsyncHandleRead (async_client (\<lambda>_. [])) (\<lambda>c. (0, 0, c)) (Received (''+OK'' @ [CR, LF] @ '':7'' @ [CR, LF])) ac1 = Inr (Some ac2) \<and>
    runs (ac_log ac2) = [(1, 10, Some (ReplyStatus ''OK'')), (2, 20, Some (ReplyInteger 7))] \<and> ends (ac_log ac2) = [(9, REDIS_OK)]"
proof -
  have "dec_int 7 = ''7''" by code_simp
  then show ?thesis
    using async_disconnect_waits [OF waiting_context, of "\<lparr>sds_len = 0, sds_free = 0, sds_buf = [NUL]\<rparr>" "[ReplyStatus ''OK'', ReplyInteger 7]"
        mem_all None 0 "[]" 0 "\<lambda>c. (0, 0, c)"]
    by (fastforce simp: good_def one_line_def sdslen_def u64_def waiting_context_fields)
qed

text \<open>
  C38: A disconnect does not survive replies that arrive in pieces.  In the same situation, let a read event bring a part of
  the replies only.  Then \<^verbatim>\<open>redisProcessCallbacks\<close> closes the connection as soon as it finds no further complete reply, although
  callbacks wait, and \<^verbatim>\<open>__redisAsyncDisconnect\<close> fails its assertion that none does.
\<close>

theorem async_disconnect_asserts:
  assumes "silent e" "lively ac" "flag REDIS_CONNECTED ac" "ac_replies ac \<noteq> []"
    and "in_ok (ac_c ac) r" "rd_ridx r = -1" "unread r = []" "rc_obuf (ac_c ac) = Some out" "sdslen out = 0"
    and "bs @ todo = concat (map encode ts)" "bs \<noteq> []" "todo \<noteq> []" "list_all good ts" "length ts = length (ac_replies ac)"
    and "2 * (rd_len r + length (bs @ todo)) \<le> 2147483647" "\<forall>n. mem_ok (ae_mem e) n"
  shows "\<exists>ac1. redisAsyncDisconnect e ac = Inr (Some ac1) \<and> redisAsyncHandleRead e sock (Received bs) ac1 = Inl AssertFailed"
proof -
  let ?ac = "set_flag REDIS_DISCONNECTING ac"
  note mark = disconnect_marks [OF assms(2,4)]
  have "in_ok (ac_c ?ac) r" "flag REDIS_CONNECTED ?ac" "rc_obuf (ac_c ?ac) = Some out" "length ts = length (ac_replies ?ac)"
    using assms(3,5,8,14) by (simp_all add: in_ok_def set_flag_def has_flag_def bit_set_bit_iff)
  from disconnecting_read [OF assms(1) _ _ this(2,1) assms(6,7) this(3) assms(9,10,11,13) this(4) assms(15,16), of sock] mark assms(12)
  show ?thesis by auto
qed

theorem async_disconnect_asserts_witness:
  "\<exists>ac1. redisAsyncDisconnect (async_client (\<lambda>_. [])) async_context = Inr (Some ac1) \<and>
    redisAsyncHandleRead (async_client (\<lambda>_. [])) (\<lambda>c. (0, 0, c)) (Received (''+OK'' @ [CR, LF])) ac1 = Inl AssertFailed"
proof -
  have "dec_int 7 = ''7''" by code_simp
  then show ?thesis
    using async_disconnect_asserts [OF waiting_context(1-3,5-8), of "\<lparr>sds_len = 0, sds_free = 0, sds_buf = [NUL]\<rparr>" "''+OK'' @ [CR, LF]" "'':7'' @ [CR, LF]"
        "[ReplyStatus ''OK'', ReplyInteger 7]" "\<lambda>c. (0, 0, c)"]
    by (simp add: good_def one_line_def sdslen_def u64_def waiting_context_fields)
qed

end
