(* ===== verification/Adapters.thy ===== *)
theory Adapters
  imports Async
begin

text \<open>
  The glue between a context of the asynchronous interface and four event loops
  (\<^verbatim>\<open>src/src/deps/hiredis/adapters\<close>: \<^verbatim>\<open>ae.h\<close>, \<^verbatim>\<open>libev.h\<close>, \<^verbatim>\<open>libevent.h\<close>, \<^verbatim>\<open>libuv.h\<close>).  An adapter sets the hooks of
  the context, which start and stop watching its descriptor, and passes events on to the handlers.
  The event libraries are not part of the repository: their state is of any type, and a function that
  says what a call does to this state is an argument.  The state of an adapter is the pointer
  \<^verbatim>\<open>ac->ev.data\<close> with the object it points to, and the state of the library.  The back pointer \<^verbatim>\<open>context\<close> of
  the objects is the context that the handlers take.
\<close>

section \<open>Shared\<close>

datatype direction = Readable | Writable

datatype 'e pointer = NullPtr | FreedPtr | Live 'e

definition deref :: "'e pointer \<Rightarrow> 'e res" where
  "deref p = (case p of NullPtr \<Rightarrow> Inl NullDeref | FreedPtr \<Rightarrow> Inl UseAfterFree | Live e \<Rightarrow> Inr e)"

text \<open>The hooks that an adapter sets.\<close>

definition all_hooks :: "ev_hook list" where
  "all_hooks = [AddRead, DelRead, AddWrite, DelWrite, Cleanup]"

section \<open>The event loop of Redis (ae.h)\<close>

record redisAeEvents =
  re_fd :: int
  re_reading :: bool
  re_writing :: bool

datatype ae_call = aeCreateFileEvent int direction | aeDeleteFileEvent int direction

definition redisAeReadEvent ::
    "async_env \<Rightarrow> (redisContext \<Rightarrow> int \<times> int \<times> redisContext) \<Rightarrow> sys_read \<Rightarrow> redisAeEvents pointer \<Rightarrow> redisAsyncContext \<Rightarrow>
       redisAsyncContext option res" where
  "redisAeReadEvent env sock rd privdata ac = bind_res (deref privdata) (\<lambda>_. redisAsyncHandleRead env sock rd ac)"

definition redisAeWriteEvent ::
    "async_env \<Rightarrow> (redisContext \<Rightarrow> int \<times> int \<times> redisContext) \<Rightarrow> sys_write \<Rightarrow> redisAeEvents pointer \<Rightarrow> redisAsyncContext \<Rightarrow>
       (char list \<times> redisAsyncContext) option res" where
  "redisAeWriteEvent env sock w privdata ac = bind_res (deref privdata) (\<lambda>_. redisAsyncHandleWrite env sock w ac)"

definition redisAeAddRead :: "(ae_call \<Rightarrow> 'l \<Rightarrow> 'l) \<Rightarrow> redisAeEvents pointer \<times> 'l \<Rightarrow> (redisAeEvents pointer \<times> 'l) res" where
  "redisAeAddRead run = (\<lambda>(privdata, loop).
     bind_res (deref privdata) (\<lambda>e.
       if \<not> re_reading e
       then Inr (Live (e\<lparr>re_reading := True\<rparr>), run (aeCreateFileEvent (re_fd e) Readable) loop)
       else Inr (privdata, loop)))"

definition redisAeDelRead :: "(ae_call \<Rightarrow> 'l \<Rightarrow> 'l) \<Rightarrow> redisAeEvents pointer \<times> 'l \<Rightarrow> (redisAeEvents pointer \<times> 'l) res" where
  "redisAeDelRead run = (\<lambda>(privdata, loop).
     bind_res (deref privdata) (\<lambda>e.
       if re_reading e
       then Inr (Live (e\<lparr>re_reading := False\<rparr>), run (aeDeleteFileEvent (re_fd e) Readable) loop)
       else Inr (privdata, loop)))"

definition redisAeAddWrite :: "(ae_call \<Rightarrow> 'l \<Rightarrow> 'l) \<Rightarrow> redisAeEvents pointer \<times> 'l \<Rightarrow> (redisAeEvents pointer \<times> 'l) res" where
  "redisAeAddWrite run = (\<lambda>(privdata, loop).
     bind_res (deref privdata) (\<lambda>e.
       if \<not> re_writing e
       then Inr (Live (e\<lparr>re_writing := True\<rparr>), run (aeCreateFileEvent (re_fd e) Writable) loop)
       else Inr (privdata, loop)))"

definition redisAeDelWrite :: "(ae_call \<Rightarrow> 'l \<Rightarrow> 'l) \<Rightarrow> redisAeEvents pointer \<times> 'l \<Rightarrow> (redisAeEvents pointer \<times> 'l) res" where
  "redisAeDelWrite run = (\<lambda>(privdata, loop).
     bind_res (deref privdata) (\<lambda>e.
       if re_writing e
       then Inr (Live (e\<lparr>re_writing := False\<rparr>), run (aeDeleteFileEvent (re_fd e) Writable) loop)
       else Inr (privdata, loop)))"

definition redisAeCleanup :: "(ae_call \<Rightarrow> 'l \<Rightarrow> 'l) \<Rightarrow> redisAeEvents pointer \<times> 'l \<Rightarrow> (redisAeEvents pointer \<times> 'l) res" where
  "redisAeCleanup run s =
     bind_res (redisAeDelRead run s) (\<lambda>s. bind_res (redisAeDelWrite run s) (\<lambda>(_, loop). Inr (FreedPtr, loop)))"

fun redisAeHook :: "(ae_call \<Rightarrow> 'l \<Rightarrow> 'l) \<Rightarrow> ev_hook \<Rightarrow> redisAeEvents pointer \<times> 'l \<Rightarrow> (redisAeEvents pointer \<times> 'l) res" where
  "redisAeHook run AddRead s = redisAeAddRead run s"
| "redisAeHook run DelRead s = redisAeDelRead run s"
| "redisAeHook run AddWrite s = redisAeAddWrite run s"
| "redisAeHook run DelWrite s = redisAeDelWrite run s"
| "redisAeHook run Cleanup s = redisAeCleanup run s"

text \<open>The result of \<^verbatim>\<open>malloc\<close> is used unchecked; \<^verbatim>\<open>sizeof(redisAeEvents)\<close> is 32.\<close>

definition redisAeAttach ::
    "cmem \<Rightarrow> redisAsyncContext \<Rightarrow> redisAeEvents pointer \<times> 'l \<Rightarrow> (int \<times> redisAsyncContext \<times> redisAeEvents pointer \<times> 'l) res" where
  "redisAeAttach m ac = (\<lambda>(data, loop).
     if data \<noteq> NullPtr then Inr (REDIS_ERR, ac, data, loop)
     else check_res (mem_ok m 32) NullDeref
       (Inr (REDIS_OK, ac\<lparr>ac_ev := all_hooks\<rparr>, Live \<lparr>re_fd = rc_fd (ac_c ac), re_reading = False, re_writing = False\<rparr>, loop)))"

section \<open>libev\<close>

record redisLibevEvents =
  le_reading :: bool
  le_writing :: bool

datatype ev_call = ev_io_init direction int | ev_io_start direction | ev_io_stop direction

definition redisLibevReadEvent ::
    "async_env \<Rightarrow> (redisContext \<Rightarrow> int \<times> int \<times> redisContext) \<Rightarrow> sys_read \<Rightarrow> redisLibevEvents pointer \<Rightarrow> redisAsyncContext \<Rightarrow>
       redisAsyncContext option res" where
  "redisLibevReadEvent env sock rd data ac = bind_res (deref data) (\<lambda>_. redisAsyncHandleRead env sock rd ac)"

definition redisLibevWriteEvent ::
    "async_env \<Rightarrow> (redisContext \<Rightarrow> int \<times> int \<times> redisContext) \<Rightarrow> sys_write \<Rightarrow> redisLibevEvents pointer \<Rightarrow> redisAsyncContext \<Rightarrow>
       (char list \<times> redisAsyncContext) option res" where
  "redisLibevWriteEvent env sock w data ac = bind_res (deref data) (\<lambda>_. redisAsyncHandleWrite env sock w ac)"

definition redisLibevAddRead :: "(ev_call \<Rightarrow> 'l \<Rightarrow> 'l) \<Rightarrow> redisLibevEvents pointer \<times> 'l \<Rightarrow> (redisLibevEvents pointer \<times> 'l) res" where
  "redisLibevAddRead run = (\<lambda>(privdata, loop).
     bind_res (deref privdata) (\<lambda>e.
       if \<not> le_reading e then Inr (Live (e\<lparr>le_reading := True\<rparr>), run (ev_io_start Readable) loop)
       else Inr (privdata, loop)))"

definition redisLibevDelRead :: "(ev_call \<Rightarrow> 'l \<Rightarrow> 'l) \<Rightarrow> redisLibevEvents pointer \<times> 'l \<Rightarrow> (redisLibevEvents pointer \<times> 'l) res" where
  "redisLibevDelRead run = (\<lambda>(privdata, loop).
     bind_res (deref privdata) (\<lambda>e.
       if le_reading e then Inr (Live (e\<lparr>le_reading := False\<rparr>), run (ev_io_stop Readable) loop)
       else Inr (privdata, loop)))"

definition redisLibevAddWrite :: "(ev_call \<Rightarrow> 'l \<Rightarrow> 'l) \<Rightarrow> redisLibevEvents pointer \<times> 'l \<Rightarrow> (redisLibevEvents pointer \<times> 'l) res" where
  "redisLibevAddWrite run = (\<lambda>(privdata, loop).
     bind_res (deref privdata) (\<lambda>e.
       if \<not> le_writing e then Inr (Live (e\<lparr>le_writing := True\<rparr>), run (ev_io_start Writable) loop)
       else Inr (privdata, loop)))"

definition redisLibevDelWrite :: "(ev_call \<Rightarrow> 'l \<Rightarrow> 'l) \<Rightarrow> redisLibevEvents pointer \<times> 'l \<Rightarrow> (redisLibevEvents pointer \<times> 'l) res" where
  "redisLibevDelWrite run = (\<lambda>(privdata, loop).
     bind_res (deref privdata) (\<lambda>e.
       if le_writing e then Inr (Live (e\<lparr>le_writing := False\<rparr>), run (ev_io_stop Writable) loop)
       else Inr (privdata, loop)))"

definition redisLibevCleanup :: "(ev_call \<Rightarrow> 'l \<Rightarrow> 'l) \<Rightarrow> redisLibevEvents pointer \<times> 'l \<Rightarrow> (redisLibevEvents pointer \<times> 'l) res" where
  "redisLibevCleanup run s =
     bind_res (redisLibevDelRead run s) (\<lambda>s. bind_res (redisLibevDelWrite run s) (\<lambda>(_, loop). Inr (FreedPtr, loop)))"

fun redisLibevHook :: "(ev_call \<Rightarrow> 'l \<Rightarrow> 'l) \<Rightarrow> ev_hook \<Rightarrow> redisLibevEvents pointer \<times> 'l \<Rightarrow> (redisLibevEvents pointer \<times> 'l) res" where
  "redisLibevHook run AddRead s = redisLibevAddRead run s"
| "redisLibevHook run DelRead s = redisLibevDelRead run s"
| "redisLibevHook run AddWrite s = redisLibevAddWrite run s"
| "redisLibevHook run DelWrite s = redisLibevDelWrite run s"
| "redisLibevHook run Cleanup s = redisLibevCleanup run s"

text \<open>The object holds two watchers of the library, so its size \<open>n\<close> depends on the library.\<close>

definition redisLibevAttach ::
    "cmem \<Rightarrow> nat \<Rightarrow> (ev_call \<Rightarrow> 'l \<Rightarrow> 'l) \<Rightarrow> redisAsyncContext \<Rightarrow> redisLibevEvents pointer \<times> 'l \<Rightarrow>
       (int \<times> redisAsyncContext \<times> redisLibevEvents pointer \<times> 'l) res" where
  "redisLibevAttach m n run ac = (\<lambda>(data, loop).
     if data \<noteq> NullPtr then Inr (REDIS_ERR, ac, data, loop)
     else check_res (mem_ok m n) NullDeref
       (Inr (REDIS_OK, ac\<lparr>ac_ev := all_hooks\<rparr>, Live \<lparr>le_reading = False, le_writing = False\<rparr>,
          run (ev_io_init Writable (rc_fd (ac_c ac))) (run (ev_io_init Readable (rc_fd (ac_c ac))) loop))))"

section \<open>libevent\<close>

text \<open>
  The object holds the back pointer and two events of the library, \<^verbatim>\<open>rev\<close> and \<^verbatim>\<open>wev\<close>, which belong to the library's state.
  A call names the event by its place in the object; \<^verbatim>\<open>event_set\<close> tells the descriptor and the flags.
\<close>

type_synonym redisLibeventEvents = unit

datatype libevent_event = Rev | Wev

datatype ev_flag = EV_READ | EV_WRITE | EV_PERSIST

datatype event_call =
  event_set libevent_event int "ev_flag list" | event_base_set libevent_event | event_add libevent_event | event_del libevent_event

definition redisLibeventReadEvent ::
    "async_env \<Rightarrow> (redisContext \<Rightarrow> int \<times> int \<times> redisContext) \<Rightarrow> sys_read \<Rightarrow> redisLibeventEvents pointer \<Rightarrow> redisAsyncContext \<Rightarrow>
       redisAsyncContext option res" where
  "redisLibeventReadEvent env sock rd arg ac = bind_res (deref arg) (\<lambda>_. redisAsyncHandleRead env sock rd ac)"

definition redisLibeventWriteEvent ::
    "async_env \<Rightarrow> (redisContext \<Rightarrow> int \<times> int \<times> redisContext) \<Rightarrow> sys_write \<Rightarrow> redisLibeventEvents pointer \<Rightarrow> redisAsyncContext \<Rightarrow>
       (char list \<times> redisAsyncContext) option res" where
  "redisLibeventWriteEvent env sock w arg ac = bind_res (deref arg) (\<lambda>_. redisAsyncHandleWrite env sock w ac)"

definition redisLibeventAddRead :: "(event_call \<Rightarrow> 'l \<Rightarrow> 'l) \<Rightarrow> redisLibeventEvents pointer \<times> 'l \<Rightarrow> (redisLibeventEvents pointer \<times> 'l) res" where
  "redisLibeventAddRead run = (\<lambda>(privdata, base). bind_res (deref privdata) (\<lambda>_. Inr (privdata, run (event_add Rev) base)))"

definition redisLibeventDelRead :: "(event_call \<Rightarrow> 'l \<Rightarrow> 'l) \<Rightarrow> redisLibeventEvents pointer \<times> 'l \<Rightarrow> (redisLibeventEvents pointer \<times> 'l) res" where
  "redisLibeventDelRead run = (\<lambda>(privdata, base). bind_res (deref privdata) (\<lambda>_. Inr (privdata, run (event_del Rev) base)))"

definition redisLibeventAddWrite :: "(event_call \<Rightarrow> 'l \<Rightarrow> 'l) \<Rightarrow> redisLibeventEvents pointer \<times> 'l \<Rightarrow> (redisLibeventEvents pointer \<times> 'l) res" where
  "redisLibeventAddWrite run = (\<lambda>(privdata, base). bind_res (deref privdata) (\<lambda>_. Inr (privdata, run (event_add Wev) base)))"

definition redisLibeventDelWrite :: "(event_call \<Rightarrow> 'l \<Rightarrow> 'l) \<Rightarrow> redisLibeventEvents pointer \<times> 'l \<Rightarrow> (redisLibeventEvents pointer \<times> 'l) res" where
  "redisLibeventDelWrite run = (\<lambda>(privdata, base). bind_res (deref privdata) (\<lambda>_. Inr (privdata, run (event_del Wev) base)))"

definition redisLibeventCleanup :: "(event_call \<Rightarrow> 'l \<Rightarrow> 'l) \<Rightarrow> redisLibeventEvents pointer \<times> 'l \<Rightarrow> (redisLibeventEvents pointer \<times> 'l) res" where
  "redisLibeventCleanup run = (\<lambda>(privdata, base).
     bind_res (deref privdata) (\<lambda>_. Inr (FreedPtr, run (event_del Wev) (run (event_del Rev) base))))"

fun redisLibeventHook :: "(event_call \<Rightarrow> 'l \<Rightarrow> 'l) \<Rightarrow> ev_hook \<Rightarrow> redisLibeventEvents pointer \<times> 'l \<Rightarrow> (redisLibeventEvents pointer \<times> 'l) res" where
  "redisLibeventHook run AddRead s = redisLibeventAddRead run s"
| "redisLibeventHook run DelRead s = redisLibeventDelRead run s"
| "redisLibeventHook run AddWrite s = redisLibeventAddWrite run s"
| "redisLibeventHook run DelWrite s = redisLibeventDelWrite run s"
| "redisLibeventHook run Cleanup s = redisLibeventCleanup run s"

definition redisLibeventAttach ::
    "cmem \<Rightarrow> nat \<Rightarrow> (event_call \<Rightarrow> 'l \<Rightarrow> 'l) \<Rightarrow> redisAsyncContext \<Rightarrow> redisLibeventEvents pointer \<times> 'l \<Rightarrow>
       (int \<times> redisAsyncContext \<times> redisLibeventEvents pointer \<times> 'l) res" where
  "redisLibeventAttach m n run ac = (\<lambda>(data, base).
     if data \<noteq> NullPtr then Inr (REDIS_ERR, ac, data, base)
     else check_res (mem_ok m n) NullDeref
       (Inr (REDIS_OK, ac\<lparr>ac_ev := all_hooks\<rparr>, Live (),
          fold run [event_set Rev (rc_fd (ac_c ac)) [EV_READ], event_set Wev (rc_fd (ac_c ac)) [EV_WRITE],
            event_base_set Rev, event_base_set Wev] base)))"

section \<open>libuv\<close>

abbreviation (input) UV_READABLE :: nat where "UV_READABLE \<equiv> 0"
abbreviation (input) UV_WRITABLE :: nat where "UV_WRITABLE \<equiv> 1"

text \<open>The mask of events has one bit for each direction, given above by its number.\<close>

record redisLibuvEvents =
  lu_events :: int

datatype uv_call = uv_poll_init int | uv_poll_start int | uv_poll_stop | uv_close

text \<open>
  \<^verbatim>\<open>redisLibuvPoll\<close>; the result has the bytes that were sent.  The handler for writing is called after
  that for reading whatever the latter did to the context.
\<close>

definition redisLibuvPoll ::
    "async_env \<Rightarrow> (redisContext \<Rightarrow> int \<times> int \<times> redisContext) \<Rightarrow> sys_read \<Rightarrow> sys_write \<Rightarrow> redisLibuvEvents pointer \<Rightarrow> int \<Rightarrow> int \<Rightarrow>
       redisAsyncContext \<Rightarrow> (char list \<times> redisAsyncContext) option res" where
  "redisLibuvPoll env sock rd w p status events ac =
     (if status \<noteq> 0 then Inr (Some ([], ac))
      else
        bind_fuel (if bit events UV_READABLE then bind_res (deref p) (\<lambda>_. redisAsyncHandleRead env sock rd ac) else Inr (Some ac)) (\<lambda>ac.
          if bit events UV_WRITABLE then bind_res (deref p) (\<lambda>_. redisAsyncHandleWrite env sock w ac) else Inr (Some ([], ac))))"

definition uv_update :: "(uv_call \<Rightarrow> 'l \<Rightarrow> 'l) \<Rightarrow> int \<Rightarrow> 'l \<Rightarrow> 'l" where
  "uv_update run events l = (if events \<noteq> 0 then run (uv_poll_start events) l else run uv_poll_stop l)"

definition redisLibuvAddRead :: "(uv_call \<Rightarrow> 'l \<Rightarrow> 'l) \<Rightarrow> redisLibuvEvents pointer \<times> 'l \<Rightarrow> (redisLibuvEvents pointer \<times> 'l) res" where
  "redisLibuvAddRead run = (\<lambda>(privdata, l).
     bind_res (deref privdata) (\<lambda>p.
       let events = set_bit UV_READABLE (lu_events p) in Inr (Live (p\<lparr>lu_events := events\<rparr>), run (uv_poll_start events) l)))"

definition redisLibuvDelRead :: "(uv_call \<Rightarrow> 'l \<Rightarrow> 'l) \<Rightarrow> redisLibuvEvents pointer \<times> 'l \<Rightarrow> (redisLibuvEvents pointer \<times> 'l) res" where
  "redisLibuvDelRead run = (\<lambda>(privdata, l).
     bind_res (deref privdata) (\<lambda>p.
       let events = unset_bit UV_READABLE (lu_events p) in Inr (Live (p\<lparr>lu_events := events\<rparr>), uv_update run events l)))"

definition redisLibuvAddWrite :: "(uv_call \<Rightarrow> 'l \<Rightarrow> 'l) \<Rightarrow> redisLibuvEvents pointer \<times> 'l \<Rightarrow> (redisLibuvEvents pointer \<times> 'l) res" where
  "redisLibuvAddWrite run = (\<lambda>(privdata, l).
     bind_res (deref privdata) (\<lambda>p.
       let events = set_bit UV_WRITABLE (lu_events p) in Inr (Live (p\<lparr>lu_events := events\<rparr>), run (uv_poll_start events) l)))"

definition redisLibuvDelWrite :: "(uv_call \<Rightarrow> 'l \<Rightarrow> 'l) \<Rightarrow> redisLibuvEvents pointer \<times> 'l \<Rightarrow> (redisLibuvEvents pointer \<times> 'l) res" where
  "redisLibuvDelWrite run = (\<lambda>(privdata, l).
     bind_res (deref privdata) (\<lambda>p.
       let events = unset_bit UV_WRITABLE (lu_events p) in Inr (Live (p\<lparr>lu_events := events\<rparr>), uv_update run events l)))"

text \<open>The object is released later, when the loop calls \<^verbatim>\<open>on_close\<close>.\<close>

definition on_close :: "redisLibuvEvents pointer \<times> 'l \<Rightarrow> (redisLibuvEvents pointer \<times> 'l) res" where
  "on_close = (\<lambda>(p, l). bind_res (deref p) (\<lambda>_. Inr (FreedPtr, l)))"

definition redisLibuvCleanup :: "(uv_call \<Rightarrow> 'l \<Rightarrow> 'l) \<Rightarrow> redisLibuvEvents pointer \<times> 'l \<Rightarrow> (redisLibuvEvents pointer \<times> 'l) res" where
  "redisLibuvCleanup run = (\<lambda>(privdata, l). bind_res (deref privdata) (\<lambda>_. Inr (privdata, run uv_close l)))"

fun redisLibuvHook :: "(uv_call \<Rightarrow> 'l \<Rightarrow> 'l) \<Rightarrow> ev_hook \<Rightarrow> redisLibuvEvents pointer \<times> 'l \<Rightarrow> (redisLibuvEvents pointer \<times> 'l) res" where
  "redisLibuvHook run AddRead s = redisLibuvAddRead run s"
| "redisLibuvHook run DelRead s = redisLibuvDelRead run s"
| "redisLibuvHook run AddWrite s = redisLibuvAddWrite run s"
| "redisLibuvHook run DelWrite s = redisLibuvDelWrite run s"
| "redisLibuvHook run Cleanup s = redisLibuvCleanup run s"

text \<open>
  \<open>n\<close> is the size of the object; \<open>init\<close> is the result of \<^verbatim>\<open>uv_poll_init\<close>.  The hooks are set before the
  failures are known.
\<close>

definition redisLibuvAttach ::
    "cmem \<Rightarrow> nat \<Rightarrow> (uv_call \<Rightarrow> 'l \<Rightarrow> 'l) \<Rightarrow> int \<Rightarrow> redisAsyncContext \<Rightarrow> redisLibuvEvents pointer \<times> 'l \<Rightarrow>
       int \<times> redisAsyncContext \<times> redisLibuvEvents pointer \<times> 'l" where
  "redisLibuvAttach m n run init ac = (\<lambda>(data, l).
     if data \<noteq> NullPtr then (REDIS_ERR, ac, data, l)
     else
       let ac1 = ac\<lparr>ac_ev := all_hooks\<rparr> in
       if \<not> mem_ok m n then (REDIS_ERR, ac1, NullPtr, l)
       else
         let l1 = run (uv_poll_init (rc_fd (ac_c ac))) l in
         if init \<noteq> 0 then (REDIS_ERR, ac1, NullPtr, l1) else (REDIS_OK, ac1, Live \<lparr>lu_events = 0\<rparr>, l1))"

end
