(* ===== verification/Async_Subscribe.thy ===== *)
theory Async_Subscribe
  imports Async_Props
begin

text \<open>
  Subscriptions: the parser of formatted commands finds their arguments, \<^verbatim>\<open>SUBSCRIBE\<close> and
  \<^verbatim>\<open>PSUBSCRIBE\<close> enter every name into their table, and messages are routed through these tables.
\<close>

section \<open>Finding the arguments of a command\<close>

lemma strchr_from_hit: "c \<notin> set xs \<Longrightarrow> NUL \<notin> set xs \<Longrightarrow> strchr_from (xs @ c # ys) c i = Inr (Some (i + length xs))"
  by (induction xs arbitrary: i) auto

lemma strtol_digits_append:
  "\<forall>c \<in> set xs. is_digit c \<Longrightarrow> strtol_digits v (xs @ ys) = strtol_digits (foldl (\<lambda>v c. v * 10 + (int (of_char c) - 48)) v xs) ys"
  by (induction xs arbitrary: v) simp_all

lemma foldl_digits: "foldl (\<lambda>v c. v * 10 + (int (of_char c) - 48)) 0 (dec_nat n) = int n"
proof (induction n rule: dec_nat.induct)
  case (1 n)
  have d: "int (of_char (digit k)) = 48 + int k" if "k < 10" for k using of_char_digit [OF that] by linarith
  show ?case
  proof (cases "n < 10")
    case True
    then show ?thesis using d by (simp add: dec_nat_eval(1))
  next
    case False
    have "int (n div 10) * 10 + int (n mod 10) = int n" by (metis div_mult_mod_eq of_nat_add of_nat_mult of_nat_numeral)
    then show ?thesis using False 1 d [of "n mod 10"] by (simp add: dec_nat_eval(2))
  qed
qed

lemma strtol_dec:
  assumes "drop off blk = dec_nat n @ CR # rest" "NUL \<in> set rest" "n \<le> 2147483647"
  shows "strtol blk off = Inr (int n)"
proof -
  obtain d ds where d: "dec_nat n = d # ds" by (cases "dec_nat n") simp_all
  then have "is_digit d" using dec_nat_digits [of n] by simp
  then have "\<not> isspace d" "d \<noteq> CHR ''-''" "d \<noteq> CHR ''+''" by (auto simp: isspace_def is_digit_def)
  moreover have "strtol_digits 0 (dec_nat n @ CR # rest) = int n"
    using strtol_digits_append [OF dec_nat_digits, of 0 n "CR # rest"] foldl_digits [of n] by (simp add: is_digit_def)
  ultimately show ?thesis using assms d by (simp add: strtol_def check_res_def)
qed

lemma argument_at_bulk:
  assumes "length a \<le> 2147483647" "NUL \<in> set suf"
  shows "argument_at (pre @ bulk a @ suf) (length pre) =
    Inr (length pre + length (dec_nat (length a)) + 3, length a, length (pre @ bulk a))"
proof -
  let ?blk = "pre @ bulk a @ suf"
  have no: "CR \<notin> set (dec_nat k)" "NUL \<notin> set (dec_nat k)" for k
    using dec_nat_digits [of k] is_digit_not_special [of CR] is_digit_not_special [of NUL] by blast+
  have "strtol ?blk (length pre + 1) = Inr (int (length a))"
    by (rule strtol_dec [of _ _ _ "LF # a @ [CR, LF] @ suf"]) (use assms in simp_all)
  moreover have "strchr ?blk (length pre) CR = Inr (Some (length pre + Suc (length (dec_nat (length a)))))"
    using strchr_from_hit [of CR "CHR ''$'' # dec_nat (length a)" "LF # a @ [CR, LF] @ suf" "length pre"] no by (simp add: strchr_def)
  moreover have "u64 (i32 (int (length a))) = length a" using assms(1) by (simp add: i32_id u64_id)
  ultimately show ?thesis by (simp add: argument_at_def Let_def)
qed

lemma nextArgument_bulk:
  assumes "length a \<le> 2147483647" "NUL \<in> set suf"
  shows "nextArgument (pre @ bulk a @ suf) (length pre) =
    Inr (Some (length pre + length (dec_nat (length a)) + 3, length a, length (pre @ bulk a)))"
  using argument_at_bulk [OF assms, of pre] by (simp add: nextArgument_def byte_at_def nth_append)

lemma nextArgument_header:
  assumes "length a \<le> 2147483647" "NUL \<in> set suf" "hdr = CHR ''*'' # dec_nat n @ [CR, LF]"
  shows "nextArgument (hdr @ bulk a @ suf) 0 =
    Inr (Some (length hdr + length (dec_nat (length a)) + 3, length a, length (hdr @ bulk a)))"
proof -
  have "CHR ''$'' \<notin> set (dec_nat n)" "NUL \<notin> set (dec_nat n)"
    using dec_nat_digits [of n] is_digit_not_special [of NUL] by (auto simp: is_digit_def)
  then have "strchr (hdr @ bulk a @ suf) 0 (CHR ''$'') = Inr (Some (length hdr))"
    using strchr_from_hit [of "CHR ''$''" hdr "tl (bulk a @ suf)" 0] assms(3) by (simp add: strchr_def)
  then show ?thesis using argument_at_bulk [OF assms(1,2), of hdr] assms(3)
    by (simp add: nextArgument_def byte_at_def del: encode.simps)
qed

lemma nextArgument_end: "nextArgument (cmd @ [NUL]) (length cmd) = Inr None"
  by (simp add: nextArgument_def byte_at_def strchr_def)


section \<open>The loop over the names\<close>

text \<open>
  The two tables of subscriptions are filled by the same loop.  The interface is that the variant \<open>pv\<close>
  selects the table, and how the table is replaced.
\<close>

locale subscription_table =
  fixes pv :: bool
    and get :: "redisAsyncContext \<Rightarrow> (string, redisCallback) dict"
    and put :: "(string, redisCallback) dict \<Rightarrow> redisAsyncContext \<Rightarrow> redisAsyncContext"
  assumes add_table: "add_subscription m cb pv sname ac = bind_res (replace_callback m sname cb (get ac)) (\<lambda>ht. Inr (put ht ac))"
    and get_put: "get (put ht ac) = ht"
    and put_put: "put ht (put ht' ac) = put ht ac"
    and put_same: "put (get ac) ac = ac"
begin

lemma add_ok:
  assumes "\<forall>n. mem_ok m n" "dict_wf callbackDict (get ac)" "d_used (get ac) < 1073741824"
  shows "\<exists>ht. add_subscription m cb pv sname ac = Inr (put ht ac) \<and> dict_wf callbackDict ht \<and>
    d_used ht \<le> Suc (d_used (get ac)) \<and> dict_abs ht = (dict_abs (get ac))(sname \<mapsto> cb)"
  using dictReplace_correct [OF _ callbackDict_ok(1) assms(2,3), of m sname cb] assms(1)
  by (auto simp: add_table replace_callback_def check_res_def)

lemma subscribe_ok:
  assumes "\<forall>n. mem_ok m n"
  shows "dict_wf callbackDict (get ac) \<Longrightarrow> d_used (get ac) + length names \<le> 1073741824 \<Longrightarrow>
    list_all (\<lambda>a. length a \<le> 2147483647) names \<Longrightarrow>
    \<exists>ht. subscribe_loop m cb pv (pre @ concat (map bulk names) @ [NUL]) (length pre) ac = Inr (put ht ac) \<and>
      dict_wf callbackDict ht \<and> dict_abs ht = dict_abs (get ac) ++ (\<lambda>n. if n \<in> set names then Some cb else None)"
proof (induction names arbitrary: ac pre)
  case Nil
  then show ?case using nextArgument_end [of pre]
    by (intro exI [of _ "get ac"]) (simp add: subscribe_loop.simps [of m cb pv _ "length pre"] put_same)
next
  case (Cons a names)
  let ?suf = "concat (map bulk names) @ [NUL]"
  have a: "length a \<le> 2147483647" using Cons.prems(3) by simp
  let ?blk = "pre @ bulk a @ ?suf" and ?off = "length pre + length (dec_nat (length a)) + 3"
  have "drop ?off ?blk = a @ [CR, LF] @ ?suf" by (simp add: numeral_3_eq_3)
  then have init: "take (length a) (drop ?off ?blk) = a" "length a \<le> length (drop ?off ?blk)" by (simp_all only: ) simp_all
  from sdsnewlen_yields [OF a, of "Some (drop ?off ?blk)" m] init assms obtain s where
    s: "sdsnewlen m (Some (drop ?off ?blk)) (length a) = Inr s" "sds_str s = a"
    by (cases "sdsnewlen m (Some (drop ?off ?blk)) (length a)") (auto simp: yields_def simp del: encode.simps)
  from add_ok [OF assms Cons.prems(1), of cb a] Cons.prems(2) obtain ht where
    ht: "add_subscription m cb pv a ac = Inr (put ht ac)" "dict_wf callbackDict ht" "d_used ht \<le> Suc (d_used (get ac))"
      "dict_abs ht = (dict_abs (get ac))(a \<mapsto> cb)" by auto
  have step: "subscribe_loop m cb pv ?blk (length pre) ac = subscribe_loop m cb pv ?blk (length (pre @ bulk a)) (put ht ac)"
    using nextArgument_bulk [OF a, of ?suf pre] s ht(1)
    by (subst subscribe_loop.simps) (simp del: encode.simps)
  have "dict_wf callbackDict (get (put ht ac))" "d_used (get (put ht ac)) + length names \<le> 1073741824"
    "list_all (\<lambda>a. length a \<le> 2147483647) names" using ht(2,3) Cons.prems(2,3) by (simp_all add: get_put)
  from Cons.IH [OF this, of "pre @ bulk a"] obtain ht2 where
    "subscribe_loop m cb pv ?blk (length (pre @ bulk a)) (put ht ac) = Inr (put ht2 ac)" "dict_wf callbackDict ht2"
    "dict_abs ht2 = dict_abs ht ++ (\<lambda>n. if n \<in> set names then Some cb else None)"
    by (auto simp: get_put put_put simp del: encode.simps)
  moreover from this(3) have "dict_abs ht2 = dict_abs (get ac) ++ (\<lambda>n. if n \<in> set (a # names) then Some cb else None)"
    by (auto simp: ht(4) map_add_def)
  ultimately show ?case using step by (intro exI [of _ ht2]) (simp del: encode.simps)
qed

end

interpretation channels: subscription_table False ac_channels "\<lambda>ht ac. ac\<lparr>ac_channels := ht\<rparr>"
  by unfold_locales (simp_all add: add_subscription_def)

interpretation patterns: subscription_table True ac_patterns "\<lambda>ht ac. ac\<lparr>ac_patterns := ht\<rparr>"
  by unfold_locales (simp_all add: add_subscription_def)

section \<open>Registering a command\<close>

lemma tolower_CR: "tolower x = CR \<longleftrightarrow> x = CR"
proof (cases "65 \<le> (of_char x :: nat) \<and> (of_char x :: nat) \<le> 90")
  case True
  then have "(of_char (tolower x) :: nat) = of_char x + 32" by (simp add: tolower_def of_char_of)
  then show ?thesis using True by auto
qed (auto simp: tolower_def)

lemma ci_prefix_name:
  "CR \<notin> set name \<Longrightarrow> CR \<notin> set lit \<Longrightarrow> ci_prefix (name @ CR # LF # rest) (lit @ [CR, LF]) = Inr (map tolower name = lit)"
proof (induction name arbitrary: lit)
  case Nil
  then show ?case by (cases lit) (auto simp: tolower_CR tolower_def)
next
  case (Cons x name)
  then show ?case by (cases lit) (auto simp: tolower_CR)
qed

text \<open>The block of a formatted command, and the offsets in it that the code computes.\<close>

definition cmd_block :: "string \<Rightarrow> string list \<Rightarrow> char list" where
  "cmd_block cname names = command (cname # names) @ [NUL]"

definition cmd_head :: "string \<Rightarrow> string list \<Rightarrow> char list" where
  "cmd_head cname names = CHR ''*'' # dec_nat (Suc (length names)) @ [CR, LF] @ bulk cname"

definition name_at :: "string \<Rightarrow> string list \<Rightarrow> nat" where
  "name_at cname names = length (dec_nat (Suc (length names))) + length (dec_nat (length cname)) + 6"

lemma cmd_block_head: "cmd_block cname names = cmd_head cname names @ concat (map bulk names) @ [NUL]"
  by (simp add: cmd_block_def cmd_head_def comp_def)

lemma drop_name: "drop (name_at cname names) (cmd_block cname names) = cname @ CR # LF # concat (map bulk names) @ [NUL]"
  by (simp add: cmd_block_def name_at_def comp_def numeral_eq_Suc)

lemma cmd_block_start:
  assumes "length cname \<le> 2147483647" "cname \<noteq> []"
  shows "nextArgument (cmd_block cname names) 0 = Inr (Some (name_at cname names, length cname, length (cmd_head cname names)))"
    "byte_at (cmd_block cname names) (name_at cname names) = Inr (hd cname)"
    "byte_at (cmd_block cname names) (length (cmd_head cname names)) = Inr (if names = [] then NUL else CHR ''$'')"
proof -
  let ?hdr = "CHR ''*'' # dec_nat (Suc (length names)) @ [CR, LF]"
  have b: "cmd_block cname names = ?hdr @ bulk cname @ (concat (map bulk names) @ [NUL])" "cmd_head cname names = ?hdr @ bulk cname"
    by (simp_all add: cmd_block_def cmd_head_def comp_def)
  show "nextArgument (cmd_block cname names) 0 = Inr (Some (name_at cname names, length cname, length (cmd_head cname names)))"
    using nextArgument_header [OF assms(1) _ refl, of "concat (map bulk names) @ [NUL]" "Suc (length names)"]
    unfolding b by (simp add: name_at_def del: encode.simps)
  have at: "byte_at blk i = Inr x" if "drop i blk = x # xs" for blk i and x :: char and xs
  proof -
    have "i < length blk" using that by (metis drop_all not_le_imp_less list.distinct(1))
    then show ?thesis using that by (simp add: byte_at_def Cons_nth_drop_Suc [symmetric])
  qed
  show "byte_at (cmd_block cname names) (name_at cname names) = Inr (hd cname)"
    using drop_name [of cname names] assms(2) by (cases cname) (auto intro: at)
  have "drop (length (cmd_head cname names)) (cmd_block cname names) = concat (map bulk names) @ [NUL]" by (simp add: cmd_block_head)
  then show "byte_at (cmd_block cname names) (length (cmd_head cname names)) = Inr (if names = [] then NUL else CHR ''$'')"
    by (cases names) (auto intro: at)
qed

text \<open>The name of a command without the p of the pattern variants.\<close>

definition variant :: "string \<Rightarrow> bool" where
  "variant cname \<longleftrightarrow> tolower (hd cname) = CHR ''p''"

definition base_name :: "string \<Rightarrow> string" where
  "base_name cname = map tolower (if variant cname then tl cname else cname)"

lemma name_is:
  assumes "cname \<noteq> []" "CR \<notin> set cname" "CR \<notin> set lit"
  shows "strncaseeq (cmd_block cname names) (if variant cname then name_at cname names + 1 else name_at cname names) (lit @ [CR, LF]) =
    Inr (base_name cname = lit)"
proof -
  obtain x xs where x: "cname = x # xs" using assms(1) by (cases cname) auto
  have "drop (name_at cname names + 1) (cmd_block cname names) = tl cname @ CR # LF # concat (map bulk names) @ [NUL]"
    using drop_name [of cname names] x by (metis Suc_eq_plus1 append_Cons drop_Suc drop_tl list.sel(3))
  then show ?thesis using drop_name [of cname names] assms(2) x
      ci_prefix_name [OF _ assms(3), of cname] ci_prefix_name [OF _ assms(3), of xs]
    by (simp add: strncaseeq_def base_name_def)
qed

lemma append_ok:
  assumes "out_ok c s" "2 * (length (sds_str s) + length cmd) \<le> 2147483647" "\<forall>n. mem_ok m n"
  shows "\<exists>s'. redisAppendFormatted m (cmd @ [NUL]) (length cmd) c = Inr (REDIS_OK, c\<lparr>rc_obuf := Some s'\<rparr>) \<and>
    out_ok (c\<lparr>rc_obuf := Some s'\<rparr>) s' \<and> sds_str s' = sds_str s @ cmd"
proof -
  note c = out_ok_simps [OF assms(1)]
  have "sds_room s (length cmd)" using assms(2) c(3) by (simp add: sds_room_def)
  from sdscatlen_yields [OF c(4) this, of "cmd @ [NUL]" m] assms(3) obtain s' where
    "sdscatlen m s (cmd @ [NUL]) (length cmd) = Inr s'" "sds_wf s'" "sds_str s' = sds_str s @ cmd"
    by (cases "sdscatlen m s (cmd @ [NUL]) (length cmd)") (auto simp: yields_def)
  then show ?thesis using c by (intro exI [of _ s']) (simp add: redisAppendFormatted_def out_ok_def)
qed

lemma command_argv:
  assumes "cname \<noteq> []" "\<not> closing ac" "\<forall>n. mem_ok (ae_mem e) n" "out_ok (ac_c ac1) s"
    and "2 * (length (sds_str s) + length (command (cname # names))) \<le> 2147483647"
    and "register_command (ae_mem e) \<lparr>cb_fn = fn, cb_privdata = d\<rparr> (cmd_block cname names)
        (if variant cname then name_at cname names + 1 else name_at cname names) (length (cmd_head cname names)) (variant cname) (names \<noteq> []) ac =
      Inr (True, ac1)"
  shows "\<exists>s'. redisAsyncCommandArgv e fn d (int (Suc (length names))) (cname # names) (Some (map length (cname # names))) ac =
      Inr (REDIS_OK, run_hook AddWrite (ac1\<lparr>ac_c := (ac_c ac1)\<lparr>rc_obuf := Some s'\<rparr>\<rparr>)) \<and>
    sds_wf s' \<and> sds_str s' = sds_str s @ command (cname # names)"
proof -
  let ?cmd = "command (cname # names)" and ?blk = "cmd_block cname names"
  have fits: "length ?cmd \<le> 1073741823" using assms(5) by (simp del: encode.simps)
  have "length cname \<le> length ?cmd" by simp
  then have cl: "length cname \<le> 2147483647" using fits by linarith
  have "list_all2 (\<lambda>blk len. len \<le> length blk) xs (map length xs)" "map2 (\<lambda>blk len. take len blk) xs (map length xs) = xs" for xs :: "string list"
    by (induction xs) simp_all
  from FormatCommandArgv_correct [OF this(1) this(2) [symmetric], of "cname # names" "ae_mem e"] fits assms(3)
  have f: "redisFormatCommandArgv (ae_mem e) (int (Suc (length names))) (cname # names) (Some (map length (cname # names))) =
      Inr (int (length ?cmd), Some ?blk)" by (simp add: cmd_block_def del: encode.simps)
  have u: "u64 (int (length ?cmd)) = length ?cmd" using fits by (simp add: u64_id del: encode.simps)
  from append_ok [OF assms(4,5,3)] obtain s' where
    s': "redisAppendFormatted (ae_mem e) ?blk (length ?cmd) (ac_c ac1) = Inr (REDIS_OK, (ac_c ac1)\<lparr>rc_obuf := Some s'\<rparr>)"
      "sds_wf s'" "sds_str s' = sds_str s @ ?cmd" by (auto simp: cmd_block_def out_ok_def simp del: encode.simps)
  have b: "(if names = [] then NUL else CHR ''$'') = CHR ''$'' \<longleftrightarrow> names \<noteq> []" by simp
  have v: "tolower (hd cname) = CHR ''p'' \<longleftrightarrow> variant cname" by (simp add: variant_def)
  have "redisAsyncCommandRaw (ae_mem e) fn d ?blk (length ?cmd) ac = Inr (REDIS_OK, run_hook AddWrite (ac1\<lparr>ac_c := (ac_c ac1)\<lparr>rc_obuf := Some s'\<rparr>\<rparr>))"
    using assms(2,6) cmd_block_start [OF cl assms(1), of names] s'(1)
    by (simp add: redisAsyncCommandRaw_def closing_def b v Let_def del: encode.simps)
  then show ?thesis using f u s'(2,3) by (intro exI [of _ s']) (simp add: redisAsyncCommandArgv_def command_of_def del: encode.simps)
qed

lemma no_CR_literals: "CR \<notin> set ''subscribe''" "CR \<notin> set ''unsubscribe''" "CR \<notin> set ''monitor''"
  by simp_all

section \<open>Commands and their callbacks\<close>

text \<open>
  A command waits for its reply.  On a context that is not being closed, a command that is none of
  \<^verbatim>\<open>SUBSCRIBE\<close>, \<^verbatim>\<open>UNSUBSCRIBE\<close>, \<^verbatim>\<open>MONITOR\<close> and their pattern variants is appended to the output buffer
  in the wire format, and its callback is put at the end of the queue for replies, or, when the
  context has subscriptions, at the end of the queue for replies in between.  Nothing else changes.
\<close>

lemma async_command_queued:
  assumes "cname \<noteq> []" "CR \<notin> set cname" "base_name cname \<notin> {''subscribe'', ''unsubscribe'', ''monitor''}"
    and "\<not> closing ac" "out_ok (ac_c ac) s" "2 * (length (sds_str s) + length (command (cname # names))) \<le> 2147483647"
    and "cb = \<lparr>cb_fn = fn, cb_privdata = d\<rparr>" "\<forall>n. mem_ok (ae_mem e) n"
  shows "\<exists>s' ac'. redisAsyncCommandArgv e fn d (int (Suc (length names))) (cname # names) (Some (map length (cname # names))) ac =
      Inr (REDIS_OK, run_hook AddWrite ac') \<and> sds_str s' = sds_str s @ command (cname # names) \<and>
    (if flag REDIS_SUBSCRIBED ac then ac' = ac\<lparr>ac_invalid := ac_invalid ac @ [cb], ac_c := (ac_c ac)\<lparr>rc_obuf := Some s'\<rparr>\<rparr>
     else ac' = ac\<lparr>ac_replies := ac_replies ac @ [cb], ac_c := (ac_c ac)\<lparr>rc_obuf := Some s'\<rparr>\<rparr>)"
proof -
  let ?ac = "if flag REDIS_SUBSCRIBED ac then ac\<lparr>ac_invalid := ac_invalid ac @ [cb]\<rparr> else ac\<lparr>ac_replies := ac_replies ac @ [cb]\<rparr>"
  define off where "off = (if variant cname then name_at cname names + 1 else name_at cname names)"
  have "register_command (ae_mem e) \<lparr>cb_fn = fn, cb_privdata = d\<rparr> (cmd_block cname names) off (length (cmd_head cname names))
      (variant cname) (names \<noteq> []) ac = Inr (True, ?ac)"
    using assms(3,7,8) no_CR_literals [THEN name_is [OF assms(1,2)], of names] unfolding off_def [symmetric]
    by (cases "names = []") (simp_all add: register_command_def redisPushCallback_def del: append.simps)
  moreover have c: "ac_c ?ac = ac_c ac" by simp
  ultimately obtain s' where "redisAsyncCommandArgv e fn d (int (Suc (length names))) (cname # names) (Some (map length (cname # names))) ac =
      Inr (REDIS_OK, run_hook AddWrite (?ac\<lparr>ac_c := (ac_c ac)\<lparr>rc_obuf := Some s'\<rparr>\<rparr>))" "sds_str s' = sds_str s @ command (cname # names)"
    using command_argv [OF assms(1,4,8) _ assms(6), of ?ac fn d] assms(5) unfolding off_def c by blast
  then show ?thesis by (intro exI [of _ s'] exI [of _ "?ac\<lparr>ac_c := (ac_c ac)\<lparr>rc_obuf := Some s'\<rparr>\<rparr>"]) simp
qed

lemma async_context_out: "out_ok (ac_c async_context) \<lparr>sds_len = 0, sds_free = 0, sds_buf = [NUL]\<rparr>"
  using fresh_idle by (simp add: idle_context_def out_ok_def async_context_def)

lemma empty_sds: "sds_str \<lparr>sds_len = 0, sds_free = 0, sds_buf = [NUL]\<rparr> = []"
  by (simp add: sds_str_def sdslen_def u64_def)

text \<open>
  C14: A subscription is registered for every name.  On a context that is not being closed,
  \<^verbatim>\<open>SUBSCRIBE\<close> and \<^verbatim>\<open>PSUBSCRIBE\<close>, in any case of letters and with any names, arbitrary bytes
  included, enter the callback under each name into the table of channels or of patterns, and leave
  the other table and the queues alone; the command is appended to the output buffer.
\<close>

theorem async_subscribe_registers:
  assumes "map tolower cname = (if pv then ''psubscribe'' else ''subscribe'')" "names \<noteq> []" "async_wf ac" "\<not> closing ac"
    and "out_ok (ac_c ac) s" "2 * (length (sds_str s) + length (command (cname # names))) \<le> 2147483647"
    and "tbl = (if pv then ac_patterns else ac_channels)" "other = (if pv then ac_channels else ac_patterns)"
    and "d_used (tbl ac) + length names \<le> 1073741824" "\<forall>n. mem_ok (ae_mem e) n"
  shows "\<exists>s' ac'. redisAsyncCommandArgv e fn d (int (Suc (length names))) (cname # names) (Some (map length (cname # names))) ac =
      Inr (REDIS_OK, ac') \<and> rc_obuf (ac_c ac') = Some s' \<and> sds_str s' = sds_str s @ command (cname # names) \<and>
    flag REDIS_SUBSCRIBED ac' \<and> async_wf ac' \<and> other ac' = other ac \<and> ac_replies ac' = ac_replies ac \<and> ac_invalid ac' = ac_invalid ac \<and>
    dict_abs (tbl ac') = dict_abs (tbl ac) ++ (\<lambda>n. if n \<in> set names then Some \<lparr>cb_fn = fn, cb_privdata = d\<rparr> else None)"
proof -
  let ?cb = "\<lparr>cb_fn = fn, cb_privdata = d\<rparr>" and ?ac = "set_flag REDIS_SUBSCRIBED ac"
  have "tolower CR \<in> set (map tolower cname)" if "CR \<in> set cname" using that by simp
  then have "CR \<notin> set cname" using assms(1) tolower_CR [of CR] by (auto split: if_splits)
  moreover from assms(1) obtain x xs where x: "cname = x # xs" by (cases cname) (auto split: if_splits)
  moreover have v: "variant cname = pv" "base_name cname = ''subscribe''"
    using assms(1) x by (auto simp: variant_def base_name_def split: if_splits)
  ultimately have sub: "strncaseeq (cmd_block cname names) (if pv then name_at cname names + 1 else name_at cname names) (''subscribe'' @ [CR, LF]) = Inr True"
    using name_is [OF _ _ no_CR_literals(1), of cname names] by simp
  have "a \<in> set names \<Longrightarrow> length a \<le> length (concat (map bulk names))" for a by (induction names) auto
  then have "list_all (\<lambda>a. length a \<le> length (command (cname # names))) names" by (fastforce simp: list_all_iff comp_def)
  then have small: "list_all (\<lambda>a. length a \<le> 2147483647) names" using assms(6) by (auto simp: list_all_iff simp del: encode.simps)
  have "\<exists>ht ac1. subscribe_loop (ae_mem e) ?cb pv (cmd_block cname names) (length (cmd_head cname names)) ?ac = Inr ac1 \<and>
      ac1 = (if pv then ?ac\<lparr>ac_patterns := ht\<rparr> else ?ac\<lparr>ac_channels := ht\<rparr>) \<and> dict_wf callbackDict ht \<and>
      dict_abs ht = dict_abs (tbl ac) ++ (\<lambda>n. if n \<in> set names then Some ?cb else None)"
    using channels.subscribe_ok [OF assms(10) _ _ small, of ?ac ?cb "cmd_head cname names"]
      patterns.subscribe_ok [OF assms(10) _ _ small, of ?ac ?cb "cmd_head cname names"] assms(3,7,9)
    by (cases pv) (auto simp: cmd_block_head async_wf_def)
  then obtain ht ac1 where ac1: "subscribe_loop (ae_mem e) ?cb pv (cmd_block cname names) (length (cmd_head cname names)) ?ac = Inr ac1"
      "ac1 = (if pv then ?ac\<lparr>ac_patterns := ht\<rparr> else ?ac\<lparr>ac_channels := ht\<rparr>)" "dict_wf callbackDict ht"
      "dict_abs ht = dict_abs (tbl ac) ++ (\<lambda>n. if n \<in> set names then Some ?cb else None)" by blast
  have reg: "register_command (ae_mem e) ?cb (cmd_block cname names)
        (if variant cname then name_at cname names + 1 else name_at cname names) (length (cmd_head cname names)) (variant cname) (names \<noteq> []) ac =
      Inr (True, ac1)"
    using sub assms(2) ac1(1) v(1) by (simp add: register_command_def del: append.simps)
  have "out_ok (ac_c ac1) s" using assms(5) ac1(2) by (simp add: out_ok_def set_flag_def)
  from command_argv [OF _ assms(4,10) this assms(6) reg] x obtain s' where
    "redisAsyncCommandArgv e fn d (int (Suc (length names))) (cname # names) (Some (map length (cname # names))) ac =
      Inr (REDIS_OK, run_hook AddWrite (ac1\<lparr>ac_c := (ac_c ac1)\<lparr>rc_obuf := Some s'\<rparr>\<rparr>))" "sds_str s' = sds_str s @ command (cname # names)"
    by blast
  moreover have "flag REDIS_SUBSCRIBED ac1" using ac1(2) by simp
  ultimately show ?thesis using ac1(2-4) assms(3,7,8)
    by (intro exI [of _ s'] exI [of _ "run_hook AddWrite (ac1\<lparr>ac_c := (ac_c ac1)\<lparr>rc_obuf := Some s'\<rparr>\<rparr>)"])
      (cases pv; simp add: async_wf_def has_flag_def)
qed

theorem async_subscribe_registers_witness:
  "\<exists>s' ac'. redisAsyncCommandArgv (async_client (\<lambda>_. [])) (Some 3) 30 3 [''Subscribe'', ''news'', ''a$b''] (Some (map length [''Subscribe'', ''news'', ''a$b''])) async_context =
      Inr (REDIS_OK, ac') \<and> rc_obuf (ac_c ac') = Some s' \<and> sds_str s' = command [''Subscribe'', ''news'', ''a$b''] \<and>
    flag REDIS_SUBSCRIBED ac' \<and> dict_abs (ac_patterns ac') = Map.empty \<and> dict_abs (ac_channels ac') ''a$b'' = Some \<lparr>cb_fn = Some 3, cb_privdata = 30\<rparr>"
proof -
  have "map tolower ''Subscribe'' = ''subscribe''" by code_simp
  moreover have "length (command [''Subscribe'', ''news'', ''a$b'']) = 38" by (simp add: dec_nat_eval)
  moreover have "d_used empty_table = 0" by (simp add: empty_table_def)
  ultimately show ?thesis
    using async_subscribe_registers [OF _ _ async_context_wf(1) _ async_context_out, of "''Subscribe''" False "[''news'', ''a$b'']"
        ac_channels ac_patterns "async_client (\<lambda>_. [])" "Some 3" 30] empty_table_wf
    by (auto simp: closing_def async_context_flags empty_sds simp del: encode.simps)
qed

section \<open>Routing of messages\<close>

text \<open>What a message about a known name does to the tables and the flag.\<close>

definition after_message :: "string \<Rightarrow> string \<Rightarrow> int \<Rightarrow> redisAsyncContext \<Rightarrow> redisAsyncContext \<Rightarrow> bool" where
  "after_message kind name k ac ac' \<longleftrightarrow>
     (let tbl = (if variant kind then ac_patterns else ac_channels); other = (if variant kind then ac_channels else ac_patterns)
      in other ac' = other ac \<and>
        (if base_name kind = ''unsubscribe''
         then dict_abs (tbl ac') = (dict_abs (tbl ac))(name := None) \<and> (flag REDIS_SUBSCRIBED ac' \<longleftrightarrow> k \<noteq> 0)
         else tbl ac' = tbl ac \<and> flag REDIS_SUBSCRIBED ac'))"

lemma c_str_no_nul: "NUL \<notin> set s \<Longrightarrow> c_str s = s"
  by (auto simp: c_str_def takeWhile_eq_all_conv)

lemma subscribe_callback:
  assumes "kind \<noteq> []" "NUL \<notin> set kind" "length name \<le> 2147483647" "async_wf ac" "flag REDIS_SUBSCRIBED ac" "\<forall>n. mem_ok m n"
    and "dict_abs ((if variant kind then ac_patterns else ac_channels) ac) name = Some cb"
    and "base_name kind = ''unsubscribe'' \<longrightarrow> payload = ReplyInteger k" "quiet ac"
  shows "\<exists>ac1. redisGetSubscribeCallback m (ReplyArray [ReplyString kind, ReplyString name, payload]) dst ac = Inr (Some cb, ac1) \<and>
    after_message kind name k ac ac1 \<and> quiet ac1 \<and> ac_c ac1 = (ac_c ac)\<lparr>rc_flags := rc_flags (ac_c ac1)\<rparr> \<and>
    ac_replies ac1 = ac_replies ac \<and> ac_log ac1 = ac_log ac"
proof -
  let ?tbl = "if variant kind then ac_patterns ac else ac_channels ac"
  have wf: "dict_wf callbackDict ?tbl" using assms(4) by (simp add: async_wf_def)
  from sdsnewlen_yields [OF assms(3), of "Some (name @ [NUL])" m] assms(6) obtain s where
    s: "sdsnewlen m (Some (name @ [NUL])) (length name) = Inr s" "sds_str s = name"
    by (cases "sdsnewlen m (Some (name @ [NUL])) (length name)") (auto simp: yields_def)
  have f: "dictFind callbackDict name ?tbl = Inr (Some (name, cb))"
    using dictFind_correct [OF wf callbackDict_ok(1), of name] assms(7) by (simp split: if_splits)
  have "drop (if variant kind then 1 else 0) kind = (if variant kind then tl kind else kind)" by (simp add: drop_Suc)
  moreover have "NUL \<notin> set (if variant kind then tl kind else kind)" using assms(1,2) by (auto dest: list.set_sel(2))
  ultimately have b: "map tolower (c_str (drop (if variant kind then 1 else 0) kind)) = base_name kind"
    unfolding base_name_def by (metis c_str_no_nul)
  from dictDelete_correct [OF callbackDict_ok(1) wf, of name] obtain r ht where
    del: "dictDelete callbackDict name ?tbl = Inr (r, ht)" "dict_abs ht = (dict_abs ?tbl)(name := None)" by blast
  have v: "tolower (hd (kind @ [NUL])) = CHR ''p'' \<longleftrightarrow> variant kind" using assms(1) by (simp add: variant_def)
  have "\<exists>ac1. drop_subscription (variant kind) kind name [ReplyString kind, ReplyString name, payload] ac = Inr ac1 \<and>
      after_message kind name k ac ac1 \<and> quiet ac1 \<and> ac_c ac1 = (ac_c ac)\<lparr>rc_flags := rc_flags (ac_c ac1)\<rparr> \<and>
      ac_replies ac1 = ac_replies ac \<and> ac_log ac1 = ac_log ac"
  proof (cases "base_name kind = ''unsubscribe''")
    case False
    then show ?thesis using b assms(5,9) by (simp add: drop_subscription_def after_message_def Let_def)
  next
    case True
    let ?ac = "if variant kind then ac\<lparr>ac_patterns := ht\<rparr> else ac\<lparr>ac_channels := ht\<rparr>"
    have d: "drop_subscription (variant kind) kind name [ReplyString kind, ReplyString name, payload] ac =
        Inr (if k = 0 then clear_flag REDIS_SUBSCRIBED ?ac else ?ac)"
      using True b del(1) assms(8) by (simp add: drop_subscription_def elem_at_def split: if_splits)
    have "quiet (clear_flag REDIS_SUBSCRIBED ?ac)" "quiet ?ac" using assms(9) by (simp_all add: quiet_def)
    moreover have "after_message kind name k ac (if k = 0 then clear_flag REDIS_SUBSCRIBED ?ac else ?ac)"
      using True del(2) assms(5) by (simp add: after_message_def Let_def)
    ultimately show ?thesis using d by (auto simp: clear_flag_def)
  qed
  then show ?thesis using s f v by (auto simp: redisGetSubscribeCallback_def elem_at_def Let_def)
qed

text \<open>
  C15: A message reaches the callback of its subscription.  On a connected context with subscriptions and
  no other command waiting, a read event that brings a message about a name in the table (an array
  of the kind, the name and a payload) calls the callback registered for the name, once, with the
  message.  The kind selects the table: it starts with p for patterns.  The confirmation of an unsubscribe
  request removes the name, and ends the subscribed state when its count is zero; any other kind leaves
  the subscriptions as they are.
\<close>

theorem async_message_delivered:
  assumes "silent e" "quiet ac" "flag REDIS_CONNECTED ac" "flag REDIS_SUBSCRIBED ac" "async_wf ac" "ac_replies ac = []"
    and "in_ok (ac_c ac) r" "rd_ridx r = -1" "unread r = []"
    and "t = ReplyArray [ReplyString kind, ReplyString name, payload]" "good t" "kind \<noteq> []" "NUL \<notin> set kind"
    and "dict_abs ((if variant kind then ac_patterns else ac_channels) ac) name = Some cb"
    and "base_name kind = ''unsubscribe'' \<longrightarrow> payload = ReplyInteger k"
    and "2 * (rd_len r + length (encode t)) \<le> 2147483647" "\<forall>n. mem_ok (ae_mem e) n"
  shows "\<exists>ac'. redisAsyncHandleRead e sock (Received (encode t)) ac = Inr (Some ac') \<and>
    runs (ac_log ac') = runs (ac_log ac) @ calls_of (Some t) [cb] \<and> after_message kind name k ac ac'"
proof -
  let ?m = "ae_mem e"
  have ne: "encode t \<noteq> []" by (cases t) simp_all
  have nb: "\<not> has_flag REDIS_BLOCK (ac_c ac)" using assms(2) by (simp add: quiet_def)
  have "waiting ?m r (read_bytes [Received (encode t)]) [t]"
    using assms(7-9,11,16,17) by (intro waiting_idle) (simp_all add: in_ok_def)
  from buffer_read_async [OF assms(7) nb _ assms(17) _ this, of "ae_strerror e"] ne assms(16) obtain r1 where
    r1: "redisBufferRead ?m (ae_strerror e) (Received (encode t)) (ac_c ac) = Inr (REDIS_OK, (ac_c ac)\<lparr>rc_reader := Some r1\<rparr>)"
      "in_ok ((ac_c ac)\<lparr>rc_reader := Some r1\<rparr>) r1" "waiting ?m r1 [] [t]" "rd_len r1 = rd_len r + length (encode t)" by auto
  from waiting_step [OF r1(2,3)] obtain a r2 lo where
    r2: "redisGetReplyFromReader ?m ((ac_c ac)\<lparr>rc_reader := Some r1\<rparr>) = Inr (Some (REDIS_OK, Some a, (ac_c ac)\<lparr>rc_reader := Some r2\<rparr>))"
      "in_ok ((ac_c ac)\<lparr>rc_reader := Some r2\<rparr>) r2" "rep lo (rd_heap r2) a t" "rd_ridx r2 = -1" "unread r2 = []"
      "rd_len r2 \<le> rd_len r1" by auto
  let ?ac1 = "run_hook AddRead (ac\<lparr>ac_c := (ac_c ac)\<lparr>rc_reader := Some r1\<rparr>\<rparr>)"
  let ?ac2 = "?ac1\<lparr>ac_c := (ac_c ac)\<lparr>rc_reader := Some r2\<rparr>\<rparr>"
  have q2: "quiet ?ac2" "async_wf ?ac2" "flag REDIS_SUBSCRIBED ?ac2" "ac_replies ?ac2 = []" "\<not> flag REDIS_BLOCK ?ac1"
    "dict_abs ((if variant kind then ac_patterns else ac_channels) ?ac2) name = Some cb"
    using assms(2,4,5,6,14) by (auto simp: quiet_def has_flag_def async_wf_def)
  have "length name \<le> length (encode t)" using assms(10) by simp
  then have ln: "length name \<le> 2147483647" using assms(16) by (simp del: encode.simps)
  from subscribe_callback [OF assms(12,13) ln q2(2,3) assms(17) q2(6) assms(15) q2(1), of None] obtain ac3 where
    ac3: "redisGetSubscribeCallback ?m t None ?ac2 = Inr (Some cb, ac3)" "after_message kind name k ?ac2 ac3" "quiet ac3"
      "ac_c ac3 = (ac_c ?ac2)\<lparr>rc_flags := rc_flags (ac_c ac3)\<rparr>" "ac_replies ac3 = []" "ac_log ac3 = ac_log ?ac2"
    using q2(4) assms(10) by auto
  have "find_callback ?m t None ?ac2 = Inr (Some (Some cb, ac3))"
    using ac3(1) q2(3,4) assms(10) by (simp add: find_callback_def redisShiftCallback_def)
  from process_turn [OF _ r2(3) _ q2(5) assms(1) ac3(3) [THEN quiet_lively [THEN iffD1], THEN conjunct1], of None cb "rd_len r1"] this r2(1) assms(11) obtain es where
    es: "process_callbacks e (Suc (rd_len r1)) None ?ac1 = process_callbacks e (rd_len r1) (Some cb) (free_reply a (ac3\<lparr>ac_log := ac_log ac3 @ es\<rparr>))"
      "runs es = calls_of (Some t) [cb]" by (auto simp: good_def)
  let ?h = "freeReplyObject a (rd_heap r2)"
  let ?ac4 = "free_reply a (ac3\<lparr>ac_log := ac_log ac3 @ es\<rparr>)" and ?r = "r2\<lparr>rd_heap := ?h\<rparr>"
  obtain f where f: "ac_c ac3 = (ac_c ?ac2)\<lparr>rc_flags := f\<rparr>" using ac3(4) by blast
  then have c3: "in_ok (ac_c ac3) r2" using r2(2) by (simp add: in_ok_def)
  then have ac4: "ac_c ?ac4 = (ac_c ac3)\<lparr>rc_reader := Some ?r\<rparr>" by (simp add: free_reply_def in_ok_def)
  from waiting_freed [OF c3 r2(4), of "[]" "[]" ?m ?h] r2(5,6) r1(4) assms(16,17)
  have w: "in_ok (ac_c ?ac4) ?r" "waiting ?m ?r [] []" unfolding ac4 by simp_all
  have "quiet ?ac4" using ac3(3) ac4 by (simp add: quiet_def has_flag_def)
  moreover have "length (unread ?r) < rd_len r1" using r2(5) r1(4) ne by (simp add: unread_def cong: option.case_cong)
  moreover have "rd_len ?r + length [] \<le> 2147483647" using r2(6) r1(4) assms(16) by simp
  ultimately obtain ac5 where ac5: "process_callbacks e (rd_len r1) (Some cb) ?ac4 = Inr (Some ac5)" "rc_flags (ac_c ac5) = rc_flags (ac_c ?ac4)"
      "ac_channels ac5 = ac_channels ?ac4" "ac_patterns ac5 = ac_patterns ?ac4" "runs (ac_log ac5) = runs (ac_log ?ac4)"
    using process_ok [OF assms(1,17) w, of "rd_len r1" "Some cb"] by auto
  have "redisAsyncHandleRead e sock (Received (encode t)) ac = Inr (Some ac5)"
    using r1(1) assms(2,3) es(1) ac5(1)
    by (simp add: quiet_def redisAsyncHandleRead_def ensure_connected_def bind_fuel_def redisProcessCallbacks_def del: process_callbacks.simps)
  moreover have "runs (ac_log ac5) = runs (ac_log ac) @ calls_of (Some t) [cb]"
    using ac5(5) ac3(6) es(2) by (simp add: free_reply_def)
  moreover have "flag REDIS_SUBSCRIBED ac5 = flag REDIS_SUBSCRIBED ac3" "ac_channels ac5 = ac_channels ac3" "ac_patterns ac5 = ac_patterns ac3"
    using ac5(2-4) ac4 by (simp_all add: has_flag_def free_reply_def)
  with ac3(2) have "after_message kind name k ac ac5" by (simp add: after_message_def Let_def split: if_splits)
  ultimately show ?thesis by (intro exI [of _ ac5]) simp
qed

definition subscribed_context :: redisAsyncContext where
  "subscribed_context = set_flag REDIS_SUBSCRIBED (async_context\<lparr>ac_replies := [],
     ac_channels := \<lparr>d_table = Some [[], [], [(''news'', \<lparr>cb_fn = Some 3, cb_privdata = 30\<rparr>)], []], d_size = 4, d_sizemask = 3,
       d_used = 1, d_freedKeys = [], d_freedVals = []\<rparr>\<rparr>)"

theorem async_message_delivered_witness:
  "\<exists>ac'. redisAsyncHandleRead (async_client (\<lambda>_. [])) (\<lambda>c. (0, 0, c))
      (Received (encode (ReplyArray [ReplyString ''message'', ReplyString ''news'', ReplyString ''hello'']))) subscribed_context = Inr (Some ac') \<and>
    runs (ac_log ac') = [(3, 30, Some (ReplyArray [ReplyString ''message'', ReplyString ''news'', ReplyString ''hello'']))] \<and>
    after_message ''message'' ''news'' 0 subscribed_context ac'"
proof -
  let ?t = "ReplyArray [ReplyString ''message'', ReplyString ''news'', ReplyString ''hello'']"
  let ?tab = "[[], [], [(''news'', \<lparr>cb_fn = Some 3, cb_privdata = 30\<rparr>)], []] :: (string \<times> redisCallback) list list"
  have "callbackHash ''news'' mod 4 = 2" "callbackHash ''news'' < 4294967296"
    by (simp_all add: callbackHash_def dictGenHashFunction_def)
  then have "table_wf callbackDict 0 ?tab (ac_channels subscribed_context)"
    by (simp add: table_wf_def placed_def dictHashKey_def u32_def subscribed_context_def all_below_4 callbackDict_def)
  then have "dict_wf callbackDict (ac_channels subscribed_context)" unfolding dict_wf_def by blast
  then have "async_wf subscribed_context" using async_context_wf(1) by (simp add: async_wf_def) (simp add: subscribed_context_def)
  moreover have "quiet subscribed_context" "flag REDIS_CONNECTED subscribed_context" "flag REDIS_SUBSCRIBED subscribed_context"
    using async_context_flags by (simp_all add: quiet_def subscribed_context_def has_flag_def set_flag_def bit_set_bit_iff)
  moreover have "in_ok (ac_c subscribed_context) (reader_with [])" "ac_replies subscribed_context = []" "ac_log subscribed_context = []"
    using async_context_reader by (simp_all add: in_ok_def subscribed_context_def set_flag_def)
  moreover have "rd_ridx (reader_with []) = -1" "unread (reader_with []) = []" "rd_len (reader_with []) = 0"
    using unread_reader_with [of "[]"] by (simp_all add: reader_with_def)
  moreover have "dict_abs (ac_channels subscribed_context) ''news'' = Some \<lparr>cb_fn = Some 3, cb_privdata = 30\<rparr>"
    by (simp add: subscribed_context_def dict_abs_def entries_def)
  moreover have "\<not> variant ''message''" "base_name ''message'' \<noteq> ''unsubscribe''" by code_simp+
  moreover have "length (encode ?t) = 38" by (simp add: dec_nat_eval)
  ultimately show ?thesis
    using async_message_delivered [of "async_client (\<lambda>_. [])" subscribed_context "reader_with []" ?t "''message''" "''news''"
        "ReplyString ''hello''" "\<lparr>cb_fn = Some 3, cb_privdata = 30\<rparr>" 0 "\<lambda>c. (0, 0, c)"]
    by (simp add: silent_def good_def del: encode.simps)
qed

end
