(* ===== verification/Adapters_Props.thy ===== *)
theory Adapters_Props
  imports Adapters Async_Subscribe
begin

text \<open>
  The adapters of the event loops keep to one contract: a loop watches the descriptor of a context for
  what the hooks asked last, with libevent until the event fires.  With the asynchronous interface this gives what a loop watches after
  write events and after a context is released.
\<close>

section \<open>What a context asks for\<close>

text \<open>The directions in which a context asks to be watched, after a hook.\<close>

fun interest :: "ev_hook \<Rightarrow> (direction \<Rightarrow> bool) \<Rightarrow> direction \<Rightarrow> bool" where
  "interest AddRead i = i(Readable := True)"
| "interest DelRead i = i(Readable := False)"
| "interest AddWrite i = i(Writable := True)"
| "interest DelWrite i = i(Writable := False)"
| "interest Cleanup i = (\<lambda>_. False)"

text \<open>
  What happens at an attached context: it calls a hook, or its descriptor becomes ready and the loop fires the event of a direction.
  In a loop whose events do not persist, an event that fired is no longer watched.
\<close>

datatype loop_event = Hook ev_hook | Fired direction

fun wanted :: "bool \<Rightarrow> loop_event \<Rightarrow> (direction \<Rightarrow> bool) \<Rightarrow> direction \<Rightarrow> bool" where
  "wanted persist (Hook h) i = interest h i"
| "wanted persist (Fired d) i = (if persist then i else i(d := False))"

text \<open>The state of an adapter and of its library after such an event; \<open>fire\<close> is what firing does to the library.\<close>

fun loop_step :: "(ev_hook \<Rightarrow> 'd \<times> 'l \<Rightarrow> ('d \<times> 'l) res) \<Rightarrow> (direction \<Rightarrow> 'l \<Rightarrow> 'l) \<Rightarrow> loop_event \<Rightarrow> 'd \<times> 'l \<Rightarrow> ('d \<times> 'l) res" where
  "loop_step hook fire (Hook h) s = hook h s"
| "loop_step hook fire (Fired d) s = Inr (fst s, fire d (snd s))"

text \<open>
  An adapter in state \<open>s\<close>: every sequence of hooks before the clean-up and of firing events succeeds and leaves the loop
  watching exactly what is wanted, and the clean-up after it ends all watching.
\<close>

definition watches_as_asked :: "bool \<Rightarrow> (loop_event \<Rightarrow> 's \<Rightarrow> 's res) \<Rightarrow> ('s \<Rightarrow> direction \<Rightarrow> bool) \<Rightarrow> 's \<Rightarrow> bool" where
  "watches_as_asked persist step watched s \<longleftrightarrow>
     (\<forall>es. Hook Cleanup \<notin> set es \<longrightarrow>
        (\<exists>s'. fold_res step es s = Inr s' \<and> watched s' = fold (wanted persist) es (\<lambda>_. False)) \<and>
        (\<exists>s'. fold_res step (es @ [Hook Cleanup]) s = Inr s' \<and> watched s' = (\<lambda>_. False)))"

text \<open>
  The contract between the hooks and a loop.  \<open>lib\<close> stands for what is known of the library, \<open>fires\<close> for what is known of
  firing, \<open>follows\<close> relates the state of an adapter in use to what the loop watches.
\<close>

locale event_adapter =
  fixes hook :: "'run \<Rightarrow> ev_hook \<Rightarrow> 'd \<times> 'l \<Rightarrow> ('d \<times> 'l) res"
    and watched :: "'watch \<Rightarrow> 'd \<times> 'l \<Rightarrow> direction \<Rightarrow> bool"
    and lib :: "'run \<Rightarrow> 'watch \<Rightarrow> bool"
    and fires :: "(direction \<Rightarrow> 'l \<Rightarrow> 'l) \<Rightarrow> 'watch \<Rightarrow> bool"
    and persist :: bool
    and follows :: "'watch \<Rightarrow> 'd \<times> 'l \<Rightarrow> bool"
  assumes hook_follows: "lib run w \<Longrightarrow> follows w s \<Longrightarrow> h \<noteq> Cleanup \<Longrightarrow>
      \<exists>s'. hook run h s = Inr s' \<and> follows w s' \<and> watched w s' = interest h (watched w s)"
    and cleanup_stops: "lib run w \<Longrightarrow> follows w s \<Longrightarrow> \<exists>s'. hook run Cleanup s = Inr s' \<and> watched w s' = (\<lambda>_. False)"
    and fire_follows: "fires fire w \<Longrightarrow> follows w s \<Longrightarrow>
      follows w (fst s, fire d (snd s)) \<and> watched w (fst s, fire d (snd s)) = wanted persist (Fired d) (watched w s)"
begin

lemma hooks_follow:
  assumes "lib run w"
  shows "follows w s \<Longrightarrow> Cleanup \<notin> set hs \<Longrightarrow>
    \<exists>s'. fold_res (hook run) hs s = Inr s' \<and> follows w s' \<and> watched w s' = fold interest hs (watched w s)"
proof (induction hs arbitrary: s)
  case (Cons h hs)
  then obtain s1 where s1: "hook run h s = Inr s1" "follows w s1" "watched w s1 = interest h (watched w s)"
    using hook_follows [OF assms Cons.prems(1), of h] by auto
  then show ?case using Cons.IH [OF s1(2)] Cons.prems(2) by simp
qed simp

lemma event_follows:
  assumes "lib run w" "fires fire w" "follows w s" "e \<noteq> Hook Cleanup"
  shows "\<exists>s'. loop_step (hook run) fire e s = Inr s' \<and> follows w s' \<and> watched w s' = wanted persist e (watched w s)"
  using assms hook_follows [OF assms(1,3)] fire_follows [OF assms(2,3)] by (cases e) auto

lemma events_follow:
  assumes "lib run w" "fires fire w"
  shows "follows w s \<Longrightarrow> Hook Cleanup \<notin> set es \<Longrightarrow>
    \<exists>s'. fold_res (loop_step (hook run) fire) es s = Inr s' \<and> follows w s' \<and> watched w s' = fold (wanted persist) es (watched w s)"
proof (induction es arbitrary: s)
  case (Cons e es)
  then obtain s1 where s1: "loop_step (hook run) fire e s = Inr s1" "follows w s1" "watched w s1 = wanted persist e (watched w s)"
    using event_follows [OF assms Cons.prems(1), of e] by auto
  then show ?case using Cons.IH [OF s1(2)] Cons.prems(2) by simp
qed simp

lemma watches:
  assumes "lib run w" "fires fire w" "follows w s" "watched w s = (\<lambda>_. False)"
  shows "watches_as_asked persist (loop_step (hook run) fire) (watched w) s"
  unfolding watches_as_asked_def
proof (intro allI impI)
  fix es :: "loop_event list"
  assume "Hook Cleanup \<notin> set es"
  from events_follow [OF assms(1-3) this] obtain s1 where
    s1: "fold_res (loop_step (hook run) fire) es s = Inr s1" "follows w s1" "watched w s1 = fold (wanted persist) es (\<lambda>_. False)"
    using assms(4) by auto
  moreover from cleanup_stops [OF assms(1) s1(2)] obtain s2 where "hook run Cleanup s1 = Inr s2" "watched w s2 = (\<lambda>_. False)" by blast
  ultimately show "(\<exists>s'. fold_res (loop_step (hook run) fire) es s = Inr s' \<and> watched w s' = fold (wanted persist) es (\<lambda>_. False)) \<and>
      (\<exists>s'. fold_res (loop_step (hook run) fire) (es @ [Hook Cleanup]) s = Inr s' \<and> watched w s' = (\<lambda>_. False))"
    by (simp add: fold_res_append)
qed

end

section \<open>The four libraries\<close>

text \<open>
  What the documentation of a library promises; \<open>w\<close> tells what its state watches.  A call that starts
  to watch is taken to succeed.
\<close>

definition ae_contract :: "(ae_call \<Rightarrow> 'l \<Rightarrow> 'l) \<Rightarrow> ('l \<Rightarrow> int \<Rightarrow> direction \<Rightarrow> bool) \<Rightarrow> bool" where
  "ae_contract run w \<longleftrightarrow> (\<forall>fd d l. w (run (aeCreateFileEvent fd d) l) fd = (w l fd)(d := True) \<and>
     w (run (aeDeleteFileEvent fd d) l) fd = (w l fd)(d := False))"

definition ev_contract :: "(ev_call \<Rightarrow> 'l \<Rightarrow> 'l) \<Rightarrow> ('l \<Rightarrow> direction \<Rightarrow> bool) \<Rightarrow> bool" where
  "ev_contract run w \<longleftrightarrow> (\<forall>d fd l. w (run (ev_io_init d fd) l) = (w l)(d := False) \<and>
     w (run (ev_io_start d) l) = (w l)(d := True) \<and> w (run (ev_io_stop d) l) = (w l)(d := False))"

text \<open>
  libevent keeps for each event its descriptor, its flags, and whether it is pending.  An event that is not persistent
  stops being pending when it fires.
\<close>

record event_state =
  es_fd :: int
  es_flags :: "ev_flag list"
  es_pending :: bool

definition event_contract :: "(event_call \<Rightarrow> 'l \<Rightarrow> 'l) \<Rightarrow> ('l \<Rightarrow> libevent_event \<Rightarrow> event_state) \<Rightarrow> bool" where
  "event_contract run w \<longleftrightarrow> (\<forall>ev fd flags l.
     w (run (event_set ev fd flags) l) = (w l)(ev := \<lparr>es_fd = fd, es_flags = flags, es_pending = False\<rparr>) \<and>
     w (run (event_base_set ev) l) = w l \<and>
     w (run (event_add ev) l) = (w l)(ev := (w l ev)\<lparr>es_pending := True\<rparr>) \<and>
     w (run (event_del ev) l) = (w l)(ev := (w l ev)\<lparr>es_pending := False\<rparr>))"

fun event_of :: "direction \<Rightarrow> libevent_event" where
  "event_of Readable = Rev"
| "event_of Writable = Wev"

definition event_fires :: "(direction \<Rightarrow> 'l \<Rightarrow> 'l) \<Rightarrow> ('l \<Rightarrow> libevent_event \<Rightarrow> event_state) \<Rightarrow> bool" where
  "event_fires fire w \<longleftrightarrow> (\<forall>d l. w (fire d l) =
     (if EV_PERSIST \<in> set (es_flags (w l (event_of d))) then w l
      else (w l)(event_of d := (w l (event_of d))\<lparr>es_pending := False\<rparr>)))"

text \<open>A descriptor is watched in a direction when there is a pending event for it with the flag of the direction.\<close>

fun flag_of :: "direction \<Rightarrow> ev_flag" where
  "flag_of Readable = EV_READ"
| "flag_of Writable = EV_WRITE"

definition event_watches :: "int \<Rightarrow> (libevent_event \<Rightarrow> event_state) \<Rightarrow> direction \<Rightarrow> bool" where
  "event_watches fd es d \<longleftrightarrow> list_ex (\<lambda>ev. es_pending (es ev) \<and> es_fd (es ev) = fd \<and> flag_of d \<in> set (es_flags (es ev))) [Rev, Wev]"

text \<open>In the other libraries firing does not change what is watched.\<close>

definition persistent :: "(direction \<Rightarrow> 'l \<Rightarrow> 'l) \<Rightarrow> ('l \<Rightarrow> 'w) \<Rightarrow> bool" where
  "persistent fire w \<longleftrightarrow> (\<forall>d l. w (fire d l) = w l)"

fun uv_mask :: "int \<Rightarrow> direction \<Rightarrow> bool" where
  "uv_mask events Readable = bit events UV_READABLE"
| "uv_mask events Writable = bit events UV_WRITABLE"

definition uv_contract :: "(uv_call \<Rightarrow> 'l \<Rightarrow> 'l) \<Rightarrow> ('l \<Rightarrow> direction \<Rightarrow> bool) \<Rightarrow> bool" where
  "uv_contract run w \<longleftrightarrow> (\<forall>fd events l. w (run (uv_poll_init fd) l) = (\<lambda>_. False) \<and> w (run (uv_poll_start events) l) = uv_mask events \<and>
     w (run uv_poll_stop l) = (\<lambda>_. False) \<and> w (run uv_close l) = (\<lambda>_. False))"

lemma all_directions: "(\<forall>d. P d) \<longleftrightarrow> P Readable \<and> P Writable"
  by (metis direction.exhaust)

lemma direction_fun_eq: "f = g \<longleftrightarrow> f Readable = g Readable \<and> f Writable = g Writable"
  by (metis (full_types) direction.exhaust ext)

lemma two_directions: "f(Readable := a, Writable := a) = (\<lambda>_. a)" "f(Writable := a, Readable := a) = (\<lambda>_. a)"
  by (simp_all add: direction_fun_eq)

definition ae_follows :: "int \<Rightarrow> ('l \<Rightarrow> int \<Rightarrow> direction \<Rightarrow> bool) \<Rightarrow> redisAeEvents pointer \<times> 'l \<Rightarrow> bool" where
  "ae_follows fd w s \<longleftrightarrow> (\<exists>e. fst s = Live e \<and> re_fd e = fd \<and> w (snd s) fd Readable = re_reading e \<and> w (snd s) fd Writable = re_writing e)"

definition ev_follows :: "('l \<Rightarrow> direction \<Rightarrow> bool) \<Rightarrow> redisLibevEvents pointer \<times> 'l \<Rightarrow> bool" where
  "ev_follows w s \<longleftrightarrow> (\<exists>e. fst s = Live e \<and> w (snd s) Readable = le_reading e \<and> w (snd s) Writable = le_writing e)"

definition event_follows :: "int \<Rightarrow> ('l \<Rightarrow> libevent_event \<Rightarrow> event_state) \<Rightarrow> redisLibeventEvents pointer \<times> 'l \<Rightarrow> bool" where
  "event_follows fd w s \<longleftrightarrow> fst s = Live () \<and> (\<forall>d. es_fd (w (snd s) (event_of d)) = fd \<and> es_flags (w (snd s) (event_of d)) = [flag_of d])"

definition uv_follows :: "('l \<Rightarrow> direction \<Rightarrow> bool) \<Rightarrow> redisLibuvEvents pointer \<times> 'l \<Rightarrow> bool" where
  "uv_follows w s \<longleftrightarrow> (\<exists>p. fst s = Live p \<and> w (snd s) = uv_mask (lu_events p))"

lemmas hook_unfolds = deref_def direction_fun_eq redisAeAddRead_def redisAeDelRead_def redisAeAddWrite_def redisAeDelWrite_def
  redisAeCleanup_def redisLibevAddRead_def redisLibevDelRead_def redisLibevAddWrite_def redisLibevDelWrite_def redisLibevCleanup_def
  redisLibeventAddRead_def redisLibeventDelRead_def redisLibeventAddWrite_def redisLibeventDelWrite_def redisLibeventCleanup_def
  redisLibuvAddRead_def redisLibuvDelRead_def redisLibuvAddWrite_def redisLibuvDelWrite_def redisLibuvCleanup_def

interpretation ae_loop: event_adapter redisAeHook "\<lambda>(w, fd) s. w (snd s) fd" "\<lambda>run (w, fd). ae_contract run w"
  "\<lambda>fire (w, fd). persistent fire w" True "\<lambda>(w, fd). ae_follows fd w"
proof (unfold_locales, goal_cases)
  case (1 run w s h)
  then show ?case by (cases h) (auto simp: ae_contract_def ae_follows_def hook_unfolds split: prod.splits)
next
  case (2 run w s)
  then show ?case by (auto simp: ae_contract_def ae_follows_def hook_unfolds split: prod.splits)
next
  case (3 fire w s d)
  then show ?case by (auto simp: persistent_def ae_follows_def split: prod.splits)
qed

interpretation ev_loop: event_adapter redisLibevHook "\<lambda>w s. w (snd s)" ev_contract persistent True ev_follows
proof (unfold_locales, goal_cases)
  case (1 run w s h)
  then show ?case by (cases h) (auto simp: ev_contract_def ev_follows_def hook_unfolds split: prod.splits)
next
  case (2 run w s)
  then show ?case by (auto simp: ev_contract_def ev_follows_def hook_unfolds split: prod.splits)
next
  case (3 fire w s d)
  then show ?case by (auto simp: persistent_def ev_follows_def)
qed

lemma event_follows_watches:
  "event_follows fd w s \<Longrightarrow> event_watches fd (w (snd s)) d = es_pending (w (snd s) (event_of d))"
  by (cases d) (auto simp: event_follows_def event_watches_def dest: spec [of _ Readable] spec [of _ Writable])

lemma event_of_eq [simp]: "event_of d = Rev \<longleftrightarrow> d = Readable" "event_of d = Wev \<longleftrightarrow> d = Writable" "event_of d = event_of d' \<longleftrightarrow> d = d'"
  by (cases d; cases d'; simp)+

interpretation event_base: event_adapter redisLibeventHook "\<lambda>(w, fd) s. event_watches fd (w (snd s))" "\<lambda>run (w, fd). event_contract run w"
  "\<lambda>fire (w, fd). event_fires fire w" False "\<lambda>(w, fd). event_follows fd w"
proof (unfold_locales, goal_cases)
  case (1 run w s h)
  obtain w' fd where w: "w = (w', fd)" by fastforce
  have "\<exists>s'. redisLibeventHook run h s = Inr s' \<and> event_follows fd w' s' \<and>
      (\<forall>d. es_pending (w' (snd s') (event_of d)) = interest h (\<lambda>d. es_pending (w' (snd s) (event_of d))) d)"
    using 1 by (cases h) (auto simp: w event_contract_def event_follows_def all_directions hook_unfolds split: prod.splits)
  then obtain s' where s': "redisLibeventHook run h s = Inr s'" "event_follows fd w' s'"
    "\<forall>d. es_pending (w' (snd s') (event_of d)) = interest h (\<lambda>d. es_pending (w' (snd s) (event_of d))) d" by blast
  have "event_watches fd (w' (snd s)) = (\<lambda>d. es_pending (w' (snd s) (event_of d)))"
    using event_follows_watches [of fd w' s] 1(2) by (auto simp: w)
  then have "event_watches fd (w' (snd s')) = interest h (event_watches fd (w' (snd s)))"
    using event_follows_watches [OF s'(2)] s'(3) by auto
  with s'(1,2) show ?case by (simp add: w)
next
  case (2 run w s)
  then show ?case
    by (auto simp: event_contract_def event_follows_def event_watches_def hook_unfolds split: prod.splits)
next
  case (3 fire w s d)
  obtain w' fd where w: "w = (w', fd)" by fastforce
  let ?s = "(fst s, fire d (snd s))"
  have f: "event_follows fd w' s" "event_fires fire w'" using 3 by (simp_all add: w)
  have "w' (snd ?s) = (w' (snd s))(event_of d := (w' (snd s) (event_of d))\<lparr>es_pending := False\<rparr>)"
    using f by (cases d) (auto simp: event_fires_def event_follows_def all_directions)
  then have s: "event_follows fd w' ?s" "\<forall>d'. es_pending (w' (snd ?s) (event_of d')) = (if d' = d then False else es_pending (w' (snd s) (event_of d')))"
    using f(1) by (auto simp: event_follows_def)
  have "event_watches fd (w' (snd ?s)) = (event_watches fd (w' (snd s)))(d := False)"
    using event_follows_watches [OF s(1)] event_follows_watches [OF f(1)] s(2) by (auto simp: fun_eq_iff)
  with s(1) show ?case by (simp add: w)
qed

lemma uv_mask_bits:
  "uv_mask (set_bit UV_READABLE m) = (uv_mask m)(Readable := True)" "uv_mask (unset_bit UV_READABLE m) = (uv_mask m)(Readable := False)"
  "uv_mask (set_bit UV_WRITABLE m) = (uv_mask m)(Writable := True)" "uv_mask (unset_bit UV_WRITABLE m) = (uv_mask m)(Writable := False)"
  by (simp_all add: direction_fun_eq bit_set_bit_iff bit_unset_bit_iff)

lemma uv_update_watches: "uv_contract run w \<Longrightarrow> w (uv_update run m l) = uv_mask m"
  by (simp add: uv_contract_def uv_update_def) (simp add: direction_fun_eq)

interpretation uv_loop: event_adapter redisLibuvHook "\<lambda>w s. w (snd s)" uv_contract persistent True uv_follows
proof (unfold_locales, goal_cases)
  case (1 run w s h)
  then obtain p l where s: "s = (Live p, l)" "w l = uv_mask (lu_events p)" by (cases s) (auto simp: uv_follows_def)
  have start: "w (run (uv_poll_start m) l) = uv_mask m" for m using 1(1) by (simp add: uv_contract_def)
  show ?case using 1(3) s(2) unfolding s(1)
    by (cases h) (simp_all add: uv_follows_def deref_def Let_def redisLibuvAddRead_def redisLibuvDelRead_def redisLibuvAddWrite_def
        redisLibuvDelWrite_def start uv_update_watches [OF 1(1)] uv_mask_bits [simplified])
next
  case (2 run w s)
  then show ?case by (auto simp: uv_contract_def uv_follows_def deref_def redisLibuvCleanup_def split: prod.splits)
next
  case (3 fire w s d)
  then show ?case by (auto simp: persistent_def uv_follows_def)
qed

section \<open>Attached adapters\<close>

text \<open>
  C17: The adapters make their loops watch what the context asks for.  For each of the four libraries, if
  the library keeps its promises and the adapter could be attached (with ae, to a descriptor that was not watched): after
  any sequence of hooks and of events that fire, the loop watches the descriptor for reading exactly when the last hook on
  reading added it, the same for writing, and after the clean-up it watches nothing.  With libevent, where the adapter asks for
  events that do not persist, there is one more condition: the event of this direction has not fired since that hook.  No hook fails,
  however often it is repeated.
\<close>

theorem adapters_watch_as_asked:
  assumes "ae_contract run1 w1" "persistent fire1 w1" "redisAeAttach m ac (NullPtr, l1) = Inr (REDIS_OK, ac1, s1)" "w1 l1 (rc_fd (ac_c ac)) = (\<lambda>_. False)"
    and "ev_contract run2 w2" "persistent fire2 w2" "redisLibevAttach m n run2 ac (NullPtr, l2) = Inr (REDIS_OK, ac2, s2)"
    and "event_contract run3 w3" "event_fires fire3 w3" "redisLibeventAttach m n run3 ac (NullPtr, l3) = Inr (REDIS_OK, ac3, s3)"
    and "uv_contract run4 w4" "persistent fire4 w4" "redisLibuvAttach m n run4 rc ac (NullPtr, l4) = (REDIS_OK, ac4, s4)"
  shows "watches_as_asked True (loop_step (redisAeHook run1) fire1) (\<lambda>s. w1 (snd s) (rc_fd (ac_c ac))) s1 \<and>
    watches_as_asked True (loop_step (redisLibevHook run2) fire2) (\<lambda>s. w2 (snd s)) s2 \<and>
    watches_as_asked False (loop_step (redisLibeventHook run3) fire3) (\<lambda>s. event_watches (rc_fd (ac_c ac)) (w3 (snd s))) s3 \<and>
    watches_as_asked True (loop_step (redisLibuvHook run4) fire4) (\<lambda>s. w4 (snd s)) s4"
proof (intro conjI)
  let ?fd = "rc_fd (ac_c ac)"
  have "s1 = (Live \<lparr>re_fd = ?fd, re_reading = False, re_writing = False\<rparr>, l1)"
    using assms(3) by (simp add: redisAeAttach_def check_res_def split: if_splits)
  then show "watches_as_asked True (loop_step (redisAeHook run1) fire1) (\<lambda>s. w1 (snd s) ?fd) s1"
    using ae_loop.watches [of run1 "(w1, ?fd)" fire1 s1] assms(1,2,4) by (simp add: ae_follows_def)
  have "fst s2 = Live \<lparr>le_reading = False, le_writing = False\<rparr>" "w2 (snd s2) = (\<lambda>_. False)"
    using assms(5,7) by (auto simp: redisLibevAttach_def check_res_def ev_contract_def two_directions split: if_splits)
  then show "watches_as_asked True (loop_step (redisLibevHook run2) fire2) (\<lambda>s. w2 (snd s)) s2"
    using ev_loop.watches [OF assms(5,6), of s2] by (simp add: ev_follows_def)
  have "event_follows ?fd w3 s3" "event_watches ?fd (w3 (snd s3)) = (\<lambda>_. False)"
    using assms(8,10)
    by (auto simp: redisLibeventAttach_def check_res_def event_contract_def event_follows_def event_watches_def direction_fun_eq all_directions split: if_splits)
  then show "watches_as_asked False (loop_step (redisLibeventHook run3) fire3) (\<lambda>s. event_watches ?fd (w3 (snd s))) s3"
    using event_base.watches [of run3 "(w3, ?fd)" fire3 s3] assms(8,9) by simp
  have "fst s4 = Live \<lparr>lu_events = 0\<rparr>" "w4 (snd s4) = (\<lambda>_. False)"
    using assms(11,13) by (auto simp: redisLibuvAttach_def Let_def uv_contract_def split: if_splits)
  then show "watches_as_asked True (loop_step (redisLibuvHook run4) fire4) (\<lambda>s. w4 (snd s)) s4"
    using uv_loop.watches [OF assms(11,12), of s4] by (simp add: uv_follows_def direction_fun_eq)
qed

text \<open>Libraries that keep nothing but what they watch.\<close>

fun ae_sample :: "ae_call \<Rightarrow> (int \<Rightarrow> direction \<Rightarrow> bool) \<Rightarrow> int \<Rightarrow> direction \<Rightarrow> bool" where
  "ae_sample (aeCreateFileEvent fd d) l = l(fd := (l fd)(d := True))"
| "ae_sample (aeDeleteFileEvent fd d) l = l(fd := (l fd)(d := False))"

fun ev_sample :: "ev_call \<Rightarrow> (direction \<Rightarrow> bool) \<Rightarrow> direction \<Rightarrow> bool" where
  "ev_sample (ev_io_init d fd) l = l(d := False)"
| "ev_sample (ev_io_start d) l = l(d := True)"
| "ev_sample (ev_io_stop d) l = l(d := False)"

fun event_sample :: "event_call \<Rightarrow> (libevent_event \<Rightarrow> event_state) \<Rightarrow> libevent_event \<Rightarrow> event_state" where
  "event_sample (event_set ev fd flags) l = l(ev := \<lparr>es_fd = fd, es_flags = flags, es_pending = False\<rparr>)"
| "event_sample (event_base_set ev) l = l"
| "event_sample (event_add ev) l = l(ev := (l ev)\<lparr>es_pending := True\<rparr>)"
| "event_sample (event_del ev) l = l(ev := (l ev)\<lparr>es_pending := False\<rparr>)"

definition event_fire_sample :: "direction \<Rightarrow> (libevent_event \<Rightarrow> event_state) \<Rightarrow> libevent_event \<Rightarrow> event_state" where
  "event_fire_sample d l = (if EV_PERSIST \<in> set (es_flags (l (event_of d))) then l else l(event_of d := (l (event_of d))\<lparr>es_pending := False\<rparr>))"

fun uv_sample :: "uv_call \<Rightarrow> (direction \<Rightarrow> bool) \<Rightarrow> direction \<Rightarrow> bool" where
  "uv_sample (uv_poll_start events) l = uv_mask events"
| "uv_sample _ l = (\<lambda>_. False)"

lemma sample_contracts:
  "ae_contract ae_sample (\<lambda>l. l)" "ev_contract ev_sample (\<lambda>l. l)" "event_contract event_sample (\<lambda>l. l)" "uv_contract uv_sample (\<lambda>l. l)"
  by (simp_all add: ae_contract_def ev_contract_def event_contract_def uv_contract_def)

lemma sample_fires: "persistent (\<lambda>d l. l) w" "event_fires event_fire_sample (\<lambda>l. l)"
  by (simp_all add: persistent_def event_fires_def event_fire_sample_def)

theorem adapters_watch_as_asked_witness:
  "watches_as_asked True (loop_step (redisAeHook ae_sample) (\<lambda>_ l. l)) (\<lambda>s. snd s 7)
     (Live \<lparr>re_fd = 7, re_reading = False, re_writing = False\<rparr>, \<lambda>_ _. False) \<and>
   watches_as_asked True (loop_step (redisLibevHook ev_sample) (\<lambda>_ l. l)) snd (Live \<lparr>le_reading = False, le_writing = False\<rparr>, \<lambda>_. False) \<and>
   watches_as_asked False (loop_step (redisLibeventHook event_sample) event_fire_sample) (\<lambda>s. event_watches 7 (snd s))
     (Live (), (\<lambda>_. \<lparr>es_fd = 0, es_flags = [], es_pending = False\<rparr>)
        (Rev := \<lparr>es_fd = 7, es_flags = [EV_READ], es_pending = False\<rparr>, Wev := \<lparr>es_fd = 7, es_flags = [EV_WRITE], es_pending = False\<rparr>)) \<and>
   watches_as_asked True (loop_step (redisLibuvHook uv_sample) (\<lambda>_ l. l)) snd (Live \<lparr>lu_events = 0\<rparr>, \<lambda>_. False)"
proof -
  have fd: "rc_fd (ac_c async_context) = 7" by (simp add: async_context_def fresh_context_def)
  note c = sample_contracts
  have a1: "redisAeAttach mem_all async_context (NullPtr, \<lambda>_ _. False) = Inr (REDIS_OK, async_context\<lparr>ac_ev := all_hooks\<rparr>,
      Live \<lparr>re_fd = 7, re_reading = False, re_writing = False\<rparr>, \<lambda>_ _. False)"
    by (simp add: redisAeAttach_def mem_all_def fd)
  have a2: "redisLibevAttach mem_all 100 ev_sample async_context (NullPtr, \<lambda>_. False) = Inr (REDIS_OK, async_context\<lparr>ac_ev := all_hooks\<rparr>,
      Live \<lparr>le_reading = False, le_writing = False\<rparr>, \<lambda>_. False)"
    by (simp add: redisLibevAttach_def mem_all_def direction_fun_eq)
  have a3: "redisLibeventAttach mem_all 100 event_sample async_context (NullPtr, \<lambda>_. \<lparr>es_fd = 0, es_flags = [], es_pending = False\<rparr>) =
      Inr (REDIS_OK, async_context\<lparr>ac_ev := all_hooks\<rparr>, Live (), (\<lambda>_. \<lparr>es_fd = 0, es_flags = [], es_pending = False\<rparr>)
        (Rev := \<lparr>es_fd = 7, es_flags = [EV_READ], es_pending = False\<rparr>, Wev := \<lparr>es_fd = 7, es_flags = [EV_WRITE], es_pending = False\<rparr>))"
    by (simp add: redisLibeventAttach_def mem_all_def fd)
  have a4: "redisLibuvAttach mem_all 100 uv_sample 0 async_context (NullPtr, \<lambda>_. False) =
      (REDIS_OK, async_context\<lparr>ac_ev := all_hooks\<rparr>, Live \<lparr>lu_events = 0\<rparr>, \<lambda>_. False)"
    by (simp add: redisLibuvAttach_def mem_all_def)
  show ?thesis
    using adapters_watch_as_asked [OF c(1) sample_fires(1) a1 _ c(2) sample_fires(1) a2 c(3) sample_fires(2) a3 c(4) sample_fires(1) a4]
    by (simp add: fd)
qed

section \<open>Output and the loop\<close>

text \<open>What the hooks in the log of a context ask for.\<close>

definition asked :: "redisAsyncContext \<Rightarrow> direction \<Rightarrow> bool" where
  "asked ac = fold interest (hooks (ac_log ac)) (\<lambda>_. False)"

lemma asked_hook: "h \<in> set (ac_ev ac) \<Longrightarrow> asked (run_hook h ac) = interest h (asked ac)"
  by (simp add: asked_def run_hook_def log_event_def)

text \<open>The number of bytes that a call of \<^verbatim>\<open>write\<close> took.\<close>

fun taken :: "sys_write \<Rightarrow> nat" where
  "taken (Wrote n) = n"
| "taken (WriteError errno) = 0"

lemma buffer_write_async:
  assumes "out_ok c s" "taken w \<le> length (sds_str s)" "\<forall>errno. w = WriteError errno \<longrightarrow> try_again errno c" "\<forall>n. mem_ok m n"
  shows "\<exists>s'. redisBufferWrite m strerror w c = Inr (REDIS_OK, sds_str s' = [], take (taken w) (sds_str s), c\<lparr>rc_obuf := Some s'\<rparr>) \<and>
    out_ok (c\<lparr>rc_obuf := Some s'\<rparr>) s' \<and> sds_str s' = drop (taken w) (sds_str s)"
proof (cases "sds_str s = []")
  case True
  then show ?thesis using assms(1) out_ok_simps [OF assms(1)] by (intro exI [of _ s]) (simp add: redisBufferWrite_def out_ok_def)
next
  case False
  show ?thesis
  proof (cases w)
    case (Wrote n)
    from wrote_step [OF assms(1) False _ assms(4), of n strerror] assms(2) obtain s' where "redisBufferWrite m strerror (Wrote n) c =
        Inr (REDIS_OK, n = length (sds_str s), take n (sds_str s), c\<lparr>rc_obuf := Some s'\<rparr>)"
      "out_ok (c\<lparr>rc_obuf := Some s'\<rparr>) s'" "sds_str s' = drop n (sds_str s)" unfolding Wrote by auto
    then show ?thesis using assms(2) unfolding Wrote by (intro exI [of _ s']) auto
  next
    case (WriteError errno)
    then show ?thesis using error_step(1) [OF assms(1) False, of errno m strerror] assms(1,3) False out_ok_simps(7) [OF assms(1)]
      by (intro exI [of _ s]) simp
  qed
qed

lemma add_subscription_ev: "add_subscription m cb pv sname ac = Inr ac' \<Longrightarrow> ac_ev ac' = ac_ev ac"
  by (auto simp: add_subscription_def bind_res_Inr split: if_splits)

lemma subscribe_loop_ev: "subscribe_loop m cb pv cmd p ac = Inr ac' \<Longrightarrow> ac_ev ac' = ac_ev ac"
proof (induction m cb pv cmd p ac rule: subscribe_loop.induct)
  case (1 m cb pv cmd p ac)
  show ?case
  proof (cases "\<exists>astr alen nxt sname. nextArgument cmd p = Inr (Some (astr, alen, nxt)) \<and> sdsnewlen m (Some (drop astr cmd)) alen = Inr sname")
    case True
    then obtain astr alen nxt sname where
      n: "nextArgument cmd p = Inr (Some (astr, alen, nxt))" "sdsnewlen m (Some (drop astr cmd)) alen = Inr sname" by blast
    with 1(2) obtain ac1 where ac1: "add_subscription m cb pv (sds_str sname) ac = Inr ac1" "subscribe_loop m cb pv cmd nxt ac1 = Inr ac'"
      by (subst (asm) subscribe_loop.simps) (auto simp: bind_res_Inr)
    from 1(1) [OF n(1) refl refl refl n(2) ac1] show ?thesis using add_subscription_ev [OF ac1(1)] by simp
  next
    case False
    then show ?thesis using 1(2) by (subst (asm) subscribe_loop.simps) (auto split: sum.splits option.splits)
  qed
qed

lemma register_command_ev:
  assumes "register_command m cb cmd cstr p pv hn ac = Inr (ok, ac')"
  shows "ac_ev ac' = ac_ev ac"
proof -
  have "on_success (\<lambda>(_, ac'). ac_ev ac' = ac_ev ac)
      (bind_res (subscribe_loop m cb pv cmd p (set_flag REDIS_SUBSCRIBED ac)) (\<lambda>ac. Inr (True, ac)))"
    by (auto simp: on_success_def bind_res_Inr dest: subscribe_loop_ev)
  then have "on_success (\<lambda>(_, ac'). ac_ev ac' = ac_ev ac) (register_command m cb cmd cstr p pv hn ac)"
    unfolding register_command_def Let_def
    by (rule on_success_bind [OF on_success_if]) (intro on_success_bind on_success_if, simp_all add: on_success_def)
  then show ?thesis using assms by (simp add: on_success_def)
qed

lemma command_asks:
  assumes "redisAsyncCommandRaw m fn d cmd len ac = Inr (REDIS_OK, ac')" "AddWrite \<in> set (ac_ev ac)"
  shows "asked ac' Writable"
proof -
  let ?P = "\<lambda>(rc, ac'). rc = REDIS_OK \<longrightarrow> asked ac' Writable"
  have "on_success ?P (bind_res (register_command m cb cmd cstr p pv hn ac) (\<lambda>(ok, ac1).
      if \<not> ok then Inr (REDIS_ERR, ac1)
      else bind_res (redisAppendFormatted m cmd len (ac_c ac1)) (\<lambda>(_, c'). Inr (REDIS_OK, run_hook AddWrite (ac1\<lparr>ac_c := c'\<rparr>)))))"
    for cb cstr p pv hn
    using assms(2) by (auto simp: on_success_def bind_res_Inr asked_hook dest!: register_command_ev split: if_splits)
  then have "on_success ?P (redisAsyncCommandRaw m fn d cmd len ac)"
    unfolding redisAsyncCommandRaw_def Let_def
    by (intro on_success_if [OF _ on_success_bind [OF on_success_option [OF _ on_success_pair [OF on_success_pair [OF on_success_bind [OF on_success_bind]]]]]])
      (simp_all add: on_success_def)
  then show ?thesis using assms(1) by (simp add: on_success_def)
qed

text \<open>
  C18: The loop watches for writing while there is output.  On an attached context, a command that was
  accepted makes the loop watch the socket for writing.  A write event sends a prefix of the output
  buffer, of any length that the socket takes, keeps the rest, and leaves the loop watching for reading,
  and for writing exactly when there is a rest.
\<close>

theorem output_is_watched:
  assumes "set (ac_ev ac) = set all_hooks"
    and "flag REDIS_CONNECTED ac" "\<not> ac_freed ac" "out_ok (ac_c ac) s" "\<forall>n. mem_ok (ae_mem e) n"
    and "taken w \<le> length (sds_str s)" "\<forall>errno. w = WriteError errno \<longrightarrow> try_again errno (ac_c ac)"
  shows "(\<forall>m fn d cmd len ac'. redisAsyncCommandRaw m fn d cmd len ac = Inr (REDIS_OK, ac') \<longrightarrow> asked ac' Writable) \<and>
    (\<exists>ac' s'. redisAsyncHandleWrite e sock w ac = Inr (Some (take (taken w) (sds_str s), ac')) \<and>
      out_ok (ac_c ac') s' \<and> sds_str s' = drop (taken w) (sds_str s) \<and>
      asked ac' Readable \<and> (asked ac' Writable \<longleftrightarrow> sds_str s' \<noteq> []))"
proof (intro conjI allI impI)
  fix m fn d cmd len ac'
  assume "redisAsyncCommandRaw m fn d cmd len ac = Inr (REDIS_OK, ac')"
  then show "asked ac' Writable" using command_asks assms(1) by (auto simp: all_hooks_def)
next
  from buffer_write_async [OF assms(4,6,7,5), of "ae_strerror e"] obtain s' where
    s': "redisBufferWrite (ae_mem e) (ae_strerror e) w (ac_c ac) =
      Inr (REDIS_OK, sds_str s' = [], take (taken w) (sds_str s), (ac_c ac)\<lparr>rc_obuf := Some s'\<rparr>)"
      "out_ok ((ac_c ac)\<lparr>rc_obuf := Some s'\<rparr>) s'" "sds_str s' = drop (taken w) (sds_str s)" by blast
  let ?ac = "ac\<lparr>ac_c := (ac_c ac)\<lparr>rc_obuf := Some s'\<rparr>\<rparr>"
  let ?ac' = "run_hook AddRead (run_hook (if sds_str s' = [] then DelWrite else AddWrite) ?ac)"
  have "redisAsyncHandleWrite e sock w ac = Inr (Some (take (taken w) (sds_str s), ?ac'))"
    using s'(1) assms(2,3) by (simp add: redisAsyncHandleWrite_def ensure_connected_def bind_fuel_def)
  moreover have "asked ?ac' Readable" "asked ?ac' Writable \<longleftrightarrow> sds_str s' \<noteq> []"
    using assms(1) by (simp_all add: asked_hook all_hooks_def)
  ultimately show "\<exists>ac' s'. redisAsyncHandleWrite e sock w ac = Inr (Some (take (taken w) (sds_str s), ac')) \<and>
      out_ok (ac_c ac') s' \<and> sds_str s' = drop (taken w) (sds_str s) \<and> asked ac' Readable \<and> (asked ac' Writable \<longleftrightarrow> sds_str s' \<noteq> [])"
    using s'(2,3) by (intro exI [of _ ?ac'] exI [of _ s']) simp
qed

definition writing_context :: redisAsyncContext where
  "writing_context = async_context\<lparr>ac_ev := all_hooks,
     ac_c := (ac_c async_context)\<lparr>rc_obuf := Some \<lparr>sds_len = 4, sds_free = 0, sds_buf = ''PING'' @ [NUL]\<rparr>\<rparr>\<rparr>"

theorem output_is_watched_witness:
  "\<exists>ac' s'. redisAsyncHandleWrite (async_client resend) (\<lambda>c. (0, 0, c)) (Wrote 2) writing_context = Inr (Some (''PI'', ac')) \<and>
    out_ok (ac_c ac') s' \<and> sds_str s' = ''NG'' \<and> asked ac' Readable \<and> asked ac' Writable"
proof -
  let ?s = "\<lparr>sds_len = 4, sds_free = 0, sds_buf = ''PING'' @ [NUL]\<rparr>"
  have "sds_wf ?s" by (rule sds_wfI [of _ 4 0]) simp_all
  then have "out_ok (ac_c writing_context) ?s"
    using async_context_reader by (simp add: out_ok_def in_ok_def writing_context_def)
  moreover have "sds_str ?s = ''PING''" by (simp add: sds_str_def sdslen_def u64_def)
  moreover have "flag REDIS_CONNECTED writing_context" "set (ac_ev writing_context) = set all_hooks" "\<not> ac_freed writing_context"
    using async_context_flags [of 1] by (simp_all add: writing_context_def has_flag_def)
  ultimately show ?thesis
    using output_is_watched [of writing_context ?s "async_client resend" "Wrote 2" "\<lambda>c. (0, 0, c)"] by (force simp: numeral_2_eq_2)
qed

section \<open>The end of an attached context\<close>

text \<open>
  C19: Releasing a context stops its polling.  Let the adapter of libuv be attached to a context, and the
  context be used until \<^verbatim>\<open>redisAsyncFree\<close> is called outside of callbacks.  When the adapter has run all
  hooks that the context called, the loop no longer watches the descriptor, and the object of the
  adapter is still there for \<^verbatim>\<open>on_close\<close>, which releases it.  The client does not set a connect callback from
  its disconnect callback.
\<close>

theorem libuv_free_stops_polling:
  assumes "uv_contract run w" "redisLibuvAttach m n run rc ac0 (NullPtr, l) = (REDIS_OK, ac1, s1)"
    and "ac_ev ac = ac_ev ac1" "Cleanup \<notin> set (hooks (ac_log ac))" "polite e" "no_late_hook e"
    and "\<not> flag REDIS_IN_CALLBACK ac" "async_wf ac" "\<forall>n. mem_ok (ae_mem e) n"
  shows "\<exists>ac' p l' l''. redisAsyncFree e ac = Inr (Some ac') \<and> ac_freed ac' \<and>
    fold_res (redisLibuvHook run) (hooks (ac_log ac')) s1 = Inr (Live p, l') \<and> w l' = (\<lambda>_. False) \<and>
    on_close (Live p, l') = Inr (FreedPtr, l'')"
proof -
  let ?ac = "set_flag REDIS_FREEING ac"
  have attach: "ac_ev ac1 = all_hooks" "uv_follows w s1"
    using assms(1,2) by (auto simp: redisLibuvAttach_def Let_def uv_contract_def uv_follows_def direction_fun_eq split: if_splits)
  have "closing ?ac" "\<not> flag REDIS_IN_CALLBACK ?ac" "async_wf ?ac" using assms(7,8) by (simp_all add: closing_def async_wf_def)
  from async_free_ok [OF this(1) assms(5) this(2,3) assms(9)] assms(3,6) attach(1) obtain ac' hs where
    ac': "async_free e ?ac = Inr (Some ac')" "ac_freed ac'" "hooks (ac_log ac') = hooks (ac_log ac) @ hs @ [Cleanup]" "set hs \<subseteq> {AddWrite}"
    by (auto simp: all_hooks_def)
  have "Cleanup \<notin> set (hooks (ac_log ac) @ hs)" using assms(4) ac'(4) by auto
  from uv_loop.hooks_follow [OF assms(1) attach(2) this] obtain p l1 where
    p: "fold_res (redisLibuvHook run) (hooks (ac_log ac) @ hs) s1 = Inr (Live p, l1)" by (auto simp: uv_follows_def)
  have "fold_res (redisLibuvHook run) (hooks (ac_log ac')) s1 = Inr (Live p, run uv_close l1)"
    using p unfolding ac'(3) append_assoc [symmetric] fold_res_append by (simp add: redisLibuvCleanup_def deref_def)
  moreover have "w (run uv_close l1) = (\<lambda>_. False)" using assms(1) by (simp add: uv_contract_def)
  moreover have "redisAsyncFree e ac = Inr (Some ac')" using ac'(1) assms(7) by (simp add: redisAsyncFree_def)
  ultimately show ?thesis using ac'(2) by (auto simp: on_close_def deref_def)
qed

theorem libuv_free_stops_polling_witness:
  "\<exists>ac' p l' l''. redisAsyncFree (async_client resend) writing_context = Inr (Some ac') \<and> ac_freed ac' \<and>
    fold_res (redisLibuvHook uv_sample) (hooks (ac_log ac')) (Live \<lparr>lu_events = 0\<rparr>, \<lambda>_. False) = Inr (Live p, l') \<and> l' = (\<lambda>_. False) \<and>
    on_close (Live p, l') = Inr (FreedPtr, l'')"
proof -
  have "redisLibuvAttach mem_all 100 uv_sample 0 async_context (NullPtr, \<lambda>_. False) =
      (REDIS_OK, async_context\<lparr>ac_ev := all_hooks\<rparr>, Live \<lparr>lu_events = 0\<rparr>, \<lambda>_. False)"
    by (simp add: redisLibuvAttach_def mem_all_def)
  moreover have "no_late_hook (async_client resend)" by (auto simp: no_late_hook_def resend_def)
  moreover have "async_wf writing_context" "\<not> flag REDIS_IN_CALLBACK writing_context" "hooks (ac_log writing_context) = []"
    "ac_ev writing_context = all_hooks"
    using async_context_wf(1) async_context_flags [of 4] by (simp_all add: async_wf_def writing_context_def has_flag_def)
  ultimately show ?thesis
    using libuv_free_stops_polling [OF sample_contracts(4) _ _ _ resend_polite, of mem_all 100 0 async_context "\<lambda>_. False" _ _ writing_context]
    by simp
qed

text \<open>
  C40: A poll that reports both directions after the connection was lost uses a released context.  When libuv
  reports the socket readable and writable at once, and \<^verbatim>\<open>read\<close> shows that the connection ended, the
  handler for reading releases the context and \<^verbatim>\<open>redisLibuvPoll\<close> passes it to the handler for writing.
\<close>

theorem libuv_poll_uses_freed_context:
  assumes "polite e" "flag REDIS_CONNECTED ac" "\<not> flag REDIS_IN_CALLBACK ac" "async_wf ac" "rc_err (ac_c ac) = 0"
    and "rd = Received [] \<or> (\<exists>errno. rd = ReadError errno \<and> \<not> try_again errno (ac_c ac))" "\<forall>n. mem_ok (ae_mem e) n"
    and "bit events UV_READABLE" "bit events UV_WRITABLE"
  shows "redisLibuvPoll e sock rd w (Live p) 0 events ac = Inl UseAfterFree"
proof -
  from lost_connection [OF assms(1-7), of sock] obtain ac' where
    "redisAsyncHandleRead e sock rd ac = Inr (Some ac')" "ac_freed ac'" by blast
  then show ?thesis using assms(8,9)
    by (simp add: redisLibuvPoll_def deref_def bind_fuel_def redisAsyncHandleWrite_def ensure_connected_def)
qed

theorem libuv_poll_uses_freed_context_witness:
  "redisLibuvPoll (async_client resend) (\<lambda>c. (0, 0, c)) (Received []) (Wrote 0) (Live \<lparr>lu_events = 3\<rparr>) 0 3 async_context = Inl UseAfterFree"
  using libuv_poll_uses_freed_context [OF resend_polite _ _ async_context_wf(1), of "Received []" 3 "\<lambda>c. (0, 0, c)" "Wrote 0" "\<lparr>lu_events = 3\<rparr>"]
    async_context_reader by (simp add: async_context_flags in_ok_def)

text \<open>
  An adapter of libuv that could not be attached leaves its hooks in the context, without an object:
  whichever hook the context calls next uses a NULL pointer.
\<close>

lemma libuv_failed_attach:
  assumes "redisLibuvAttach m n run rc ac (NullPtr, l) = (REDIS_ERR, ac1, s1)"
  shows "ac_ev ac1 = all_hooks \<and> redisLibuvHook run h s1 = Inl NullDeref"
  using assms by (cases h) (auto simp: redisLibuvAttach_def Let_def hook_unfolds split: if_splits)

end
