(* ===== verification/Spec2Isabelle.thy ===== *)
theory Spec2Isabelle
  imports Dict_Map Bus_Props Context_Props Sds_Selftest Startup Async_Disconnect Adapters_Props
begin

text \<open>
  A verification of the enterprise service bus proxy and of the parts of the Redis client library it
  rests on.

  \<^bold>\<open>The program.\<close>  A proxy (\<^verbatim>\<open>src/src/proxy.cc\<close>) connects nodes.  A node says hello on the request
  socket of the proxy (\<^verbatim>\<open>responder.cc\<close>), the proxy subscribes to the publisher of the node
  (\<^verbatim>\<open>subscriber.cc\<close>) and publishes answers on its own (\<^verbatim>\<open>publisher.cc\<close>), with the GUID of the receiver
  as topic.  Messages are protocol buffers (\<^verbatim>\<open>command.pb.h\<close>, \<^verbatim>\<open>command.pb.cc\<close>).  Nodes register methods;
  a call is passed to a node that registered the method, or to another proxy that announced it; the
  response finds its way back through a table of pending calls.  Proxies find each other through a
  sorted set in Redis (\<^verbatim>\<open>PingRedis\<close>) and exchange their registries.  Redis is reached with the library
  under \<^verbatim>\<open>src/src/deps/hiredis\<close>: dynamic strings (\<^verbatim>\<open>sds.c\<close>), a hash table (\<^verbatim>\<open>dict.c\<close>), an incremental
  parser of the wire format, a formatter of commands and a context that writes and reads the socket
  (all three in \<^verbatim>\<open>hiredis.c\<close>), the set-up of sockets (\<^verbatim>\<open>net.c\<close>), an interface for event loops with
  callbacks and subscriptions (\<^verbatim>\<open>async.c\<close>), and its adapters for four event libraries (\<^verbatim>\<open>adapters\<close>).

  \<^bold>\<open>Theories and what they model.\<close>
  \<^item> \<open>ESB_Prelude\<close>: results with the ways the code can fail (\<^typ>\<open>c_error\<close>: access outside an object, NULL,
    failed assertion, exhausted memory, a C++ exception), the conversions to \<^verbatim>\<open>int\<close>, \<^verbatim>\<open>long long\<close> and
    \<^verbatim>\<open>size_t\<close> with wrap-around, blocks of bytes, C strings, the containers of the C++ library as
    association lists, and the rules that walk down a handler.
  \<^item> \<open>Command\<close>: the message with presence bits, getters and required fields.  \<open>Command_Wire\<close>: the generated code that
    clears, merges, writes, measures and parses messages, over a runtime that is a parameter.  \<open>Wire_Parser\<close>: the promises of the
    runtime, and what the loop of a generated parser does, once for both messages.  \<open>Wire_Runtime\<close>: a runtime that keeps the
    promises.  \<open>Wire_Props\<close>: messages survive the wire, computed sizes are the written ones, the parser ends on all bytes.
  \<^item> \<open>Transport\<close>: GUIDs, splitting, port search, publishing, subscriptions, polling and the hello request.
  \<^item> \<open>Proxy_State\<close>, \<open>Proxy\<close>, \<open>Proxy_Registry\<close>, \<open>Proxy_Loop\<close>: class \<^verbatim>\<open>Proxy\<close> as a record, one definition for
    each handler, the registries with their health checks and their exchange, and \<^verbatim>\<open>MainLoop\<close> as rounds
    over explicit input, with \<^verbatim>\<open>PingRedis\<close> and \<^verbatim>\<open>ConnectToAnotherProxy\<close>.
  \<^item> \<open>Proxy_Inv\<close>, \<open>Proxy_Props\<close>: the invariant of the proxy, the step relation whose steps the main loop makes,
    the properties of handlers, and what a cycle of quiet rounds with its timers does.
  \<^item> \<open>Bus_Props\<close>: two proxies that hear each other through the bytes of their frames.
  \<^item> \<open>Sds\<close>: the string header and its block of bytes, with every offset checked.  \<open>Dict\<close>, \<open>Dict_Map\<close>: the hash
    table, its refinement of finite maps and its iterators.  \<open>Reply\<close>: the value of a reply.
  \<^item> \<open>Reader\<close>: reply objects in a heap, the stack of nine tasks, and the functions of the parser.
    \<open>Reader_Safe\<close>: the invariant, safety and termination on arbitrary bytes, up to element counts that leave the range
    of \<^verbatim>\<open>int\<close>.  \<open>Reader_Parse\<close>: the wire format
    and that parsing inverts it.  \<open>Reader_Chunks\<close>, \<open>Reader_Stream\<close>: a parser on the unread bytes alone, that
    the reader refines it, and that the result does not depend on how the stream is cut into pieces.
  \<^item> \<open>Printf\<close>, \<open>Format\<close>, \<open>Format_Props\<close>: the integer conversions of printf, the formatter, and that it
    produces the wire format.
  \<^item> \<open>Context\<close>, \<open>Context_Props\<close>: the blocking context and whole exchanges over a socket that takes and delivers
    bytes in any portions.
  \<^item> \<open>Sds_Text\<close>, \<open>Sds_Text_Props\<close>: the string functions on text (case, comparison, splitting, decimal numbers,
    quoting, reading a line of arguments), that splitting can be undone by joining, and what quoted arguments are read back as.
    \<open>Sds_Selftest\<close>: the self test at the end of \<^verbatim>\<open>sds.c\<close> on the modelled functions.
  \<^item> \<open>Net\<close>, \<open>Net_Props\<close>: sockets and their options, waiting for a connection, connecting over the addresses of a
    name; which descriptors are open afterwards, and how the connect functions of the contexts use this.
  \<^item> \<open>Async\<close>: the asynchronous context, its queues and tables of callbacks, commands, the handlers of events.
    \<open>Async_Free\<close>: what the clean-up calls.  \<open>Async_Replies\<close>: turns of the loop over replies, on top of the parser for
    streams.  \<open>Async_Props\<close>, \<open>Async_Subscribe\<close>: order of replies, end of a context, subscriptions and messages.
    \<open>Async_Disconnect\<close>: a disconnect while replies are pending, and when the library fails an assertion then.
  \<^item> \<open>Adapters\<close>, \<open>Adapters_Props\<close>: the four adapters, that each makes its loop watch what the context asks for, and
    what this gives together with the handlers of the context.
  \<^item> \<open>Startup\<close>: the constructor of the proxy with its connection to Redis, seeds and long GUIDs.
  \<^item> This theory: what the proxy puts on the wire, and that a proxy that found Redis gets replies.

  \<^bold>\<open>How state and effects appear.\<close>  Handlers take and return the state and fail with a value of
  \<^typ>\<open>c_error\<close>.  The clock, \<^verbatim>\<open>rand\<close>, the allocator (which requests succeed, what fresh memory holds), and
  the results of ZeroMQ and of system calls are arguments, so a theorem holds for all of their
  behaviours that its hypotheses admit.  What the proxy publishes and sends to Redis is recorded in
  lists.  Reply objects live in a list of cells; a freed cell is empty, so a use after free is an error.
  System calls of \<^verbatim>\<open>net.c\<close> are answered by a function of the calls so far and recorded in a log, which tells the
  open descriptors.  Client callbacks of the asynchronous interface are a function from the log of
  events to the calls they make into the library; a released context stays as a record with a mark, so that a
  later use is an error.  The hooks that a context calls appear in its log; an adapter runs them on its
  own state and on the state of its event library, which is a parameter with its documented behaviour
  as hypothesis, one-shot events of libevent included.  Variables that the code reads before it wrote them are errors of
  their own, except for the byte behind the GUID of a proxy, which the constructor reads but never writes: its value is an
  argument (\<open>guid_array\<close>), and any value but NUL makes the constructor read past the array.  Blocks from the allocator have the size
  that was asked for and \<open>mem_slack\<close> more bytes, which no theorem on handlers of messages assumes to be there:
  the property on the safety of messages says when a copy runs over.  The lemmas on the exchange of registries assume it (\<open>room_for\<close>).

  \<^bold>\<open>Bounds and fuel.\<close>  The loop over items in \<^verbatim>\<open>redisReaderGetReply\<close> has the buffer length plus one as fuel:
  each item takes at least one byte, and \<open>reader_getreply_safe\<close> shows that the fuel is enough.
  \<^verbatim>\<open>freeReplyObject\<close> has the number of cells as bound on the nesting; elements are allocated after
  their array.  \<open>write_loop\<close> and \<open>read_loop\<close> recurse over the results of the system calls; \<open>None\<close> means that
  a call has not returned.  The loop of \<^verbatim>\<open>redisProcessCallbacks\<close> has the buffer length plus one as fuel, since each
  turn takes a reply out of the buffer; the clean-up has the length of a queue plus one, as no callback can add
  to a queue of a context that is being closed, and the size of a table plus one.  The parser of messages has twice
  the length of its input plus one: a tag takes at least one byte, and each tag is followed by one field.  The theorems on these
  functions show that they return.  A reply is read out of the heap to nine levels, the most that the
  parser builds.  All other recursion is structural or has a measure.  Statements about
  buffers carry the size limits that the \<^verbatim>\<open>int\<close> fields of the strings impose.

  \<^bold>\<open>Interfaces.\<close>  \<open>invariant_system\<close> (a step relation with an invariant) is interpreted by the proxy, \<open>byte_buffer\<close>
  by the dynamic strings, \<open>map_table\<close> (insertion, removal and lookup with a limit) by the hash table, \<open>health_check\<close>
  by the local and the remote registry, \<open>callback_queue\<close> by the two queues of a context, \<open>subscription_table\<close>
  by its channels and its patterns, \<open>event_adapter\<close> by the four adapters, and \<open>generated_parser\<close> by the parsers of
  the message and of its registry entries.

  \<^bold>\<open>Not modelled.\<close>  The binding to node.js and the creation of threads (V8 and pthread calls); logging and its clock; the
  protobuf runtime, which is not in the repository, and the descriptors and the reflection of the generated code; floating point
  conversions of printf (a parameter); functions that only release memory; the branch of
  \<^verbatim>\<open>redisKeepAlive\<close> for OS X; test and example programs, except the self test of \<^verbatim>\<open>sds.c\<close>; failures of the calls that make and send
  ZeroMQ messages, on which the code asserts.  The clock stands still within one loop of a health check.  A context that is used from several threads is outside
  the model, as are failures of the event libraries to start watching, which the adapters ignore.  The
  order of replies is shown for callbacks that make no calls into the library.
\<close>

section \<open>The registry of proxies over the wire\<close>

definition zrem :: "string list \<Rightarrow> bool" where
  "zrem z \<longleftrightarrow> (\<exists>key. z = [''ZREM'', ''ZSET:PROXIES'', key])"

definition only_zrem :: "Proxy \<Rightarrow> Proxy \<Rightarrow> bool" where
  "only_zrem p p' \<longleftrightarrow> (\<exists>zs. p_redisSent p' = p_redisSent p @ zs \<and> list_all zrem zs)"

lemma only_zrem_refl [simp]: "only_zrem p p"
  by (simp add: only_zrem_def)

lemma only_zrem_trans: "only_zrem p q \<Longrightarrow> only_zrem q r \<Longrightarrow> only_zrem p r"
  by (auto simp: only_zrem_def)

lemma ConnectToAnotherProxy_sends:
  "ConnectToAnotherProxy e req hello parse_any g cs p = Inr p' \<Longrightarrow> only_zrem p p'"
proof (erule on_successD)
  show "on_success (only_zrem p) (ConnectToAnotherProxy e req hello parse_any g cs p)"
    unfolding ConnectToAnotherProxy_def redis_send_def Let_def
    by (intro on_success_intros) (simp_all add: only_zrem_def zrem_def)
qed

lemma PingRedis_entry_sends: "PingRedis_entry e req hello parse_any t p = Inr p' \<Longrightarrow> only_zrem p p'"
  by (auto simp: PingRedis_entry_def Let_def check_res_def dest: ConnectToAnotherProxy_sends split: option.splits if_splits)

lemma PingRedis_entries_send: "fold_res (PingRedis_entry e req hello parse_any) ts p = Inr p' \<Longrightarrow> only_zrem p p'"
proof (induction ts arbitrary: p)
  case (Cons t ts)
  then show ?case by (auto simp: bind_res_Inr intro: only_zrem_trans dest: PingRedis_entry_sends)
qed simp

lemma PingRedis_sends:
  assumes "PingRedis e req hello parse_any added found p = Inr p'" "e_now e - p_lastRedisPing p \<ge> 2"
  shows "only_zrem (redis_send [''ZREVRANGE'', ''ZSET:PROXIES'', ''0'', ''-1'']
      (redis_send [''ZADD'', ''ZSET:PROXIES'', dec_int (i32 (e_now e)),
         p_guid p @ ''#tcp://'' @ p_host p @ '':'' @ dec_int (p_responderPort p)] p)) p'"
    (is "only_zrem ?p2 p'")
proof -
  have time: "only_zrem q (q'\<lparr>p_lastRedisPing := n\<rparr>) = only_zrem q q'" for q q' n by (simp add: only_zrem_def)
  have "only_zrem q q'" if "(case reply of ReplyArray es \<Rightarrow> fold_res (PingRedis_entry e req hello parse_any) es q | _ \<Rightarrow> Inr q) = Inr q'" for reply q q'
    using that by (auto dest: PingRedis_entries_send split: redisReply.splits)
  then show ?thesis using assms by (auto simp: PingRedis_def Let_def bind_res_Inr time split: option.splits)
qed

text \<open>A command of the proxy is the formatted form of what is recorded as sent.\<close>

lemma formats_as:
  assumes "list_all piece_ok ps" "words ps [] False = z" "length (command z) \<le> 1073741823" "\<forall>n. mem_ok m n"
    and "concat (map piece_fmt ps) = fmt" "concat (map piece_args ps) = args"
  shows "redisFormatCommand m other True (fmt @ [NUL]) args = Inr (int (length (command z)), Some (command z @ [NUL]))"
  using vFormatCommand_correct [OF assms(1) assms(2) [symmetric] assms(3), of m other] assms(4-6)
  unfolding redisFormatCommand_def by blast

text \<open>
  C9: What \<^verbatim>\<open>PingRedis\<close> puts on the wire.  A ping that is due sends, in this order, the registration
  of this proxy, the query for all proxies, and after these only removals of entries; and the format
  strings of the code with their arguments (the time, the GUID, the host and the port) make
  \<^verbatim>\<open>redisFormatCommand\<close> produce the encodings of exactly these commands.
\<close>

theorem ping_redis_on_the_wire:
  assumes "PingRedis e req hello parse_any added found p = Inr p'" "e_now e - p_lastRedisPing p \<ge> 2"
    and "no_nul (p_guid p)" "no_nul (p_host p)" "-2147483648 \<le> p_responderPort p" "p_responderPort p \<le> 2147483647"
    and "length (command [''ZADD'', ''ZSET:PROXIES'', dec_int (i32 (e_now e)),
           p_guid p @ ''#tcp://'' @ p_host p @ '':'' @ dec_int (p_responderPort p)]) \<le> 1073741823" "\<forall>n. mem_ok m n"
  shows "\<exists>z1 z2 zs. p_redisSent p' = p_redisSent p @ [z1, z2] @ zs \<and> list_all zrem zs \<and>
    redisFormatCommand m other True (''ZADD ZSET:PROXIES %i %s#tcp://%s:%i'' @ [NUL])
      [ArgNum (e_now e), ArgPtr (Some (p_guid p @ [NUL])), ArgPtr (Some (p_host p @ [NUL])), ArgNum (p_responderPort p)] =
      Inr (int (length (command z1)), Some (command z1 @ [NUL])) \<and>
    redisFormatCommand m other True (''ZREVRANGE ZSET:PROXIES 0 -1'' @ [NUL]) [] =
      Inr (int (length (command z2)), Some (command z2 @ [NUL])) \<and>
    (\<forall>key. no_nul key \<longrightarrow> length (command [''ZREM'', ''ZSET:PROXIES'', key]) \<le> 1073741823 \<longrightarrow>
      redisFormatCommand m other True (''ZREM ZSET:PROXIES %s'' @ [NUL]) [ArgPtr (Some (key @ [NUL]))] =
        Inr (int (length (command [''ZREM'', ''ZSET:PROXIES'', key])), Some (command [''ZREM'', ''ZSET:PROXIES'', key] @ [NUL])))"
proof -
  define z1 where "z1 = [''ZADD'', ''ZSET:PROXIES'', dec_int (i32 (e_now e)),
    p_guid p @ ''#tcp://'' @ p_host p @ '':'' @ dec_int (p_responderPort p)]"
  let ?z2 = "[''ZREVRANGE'', ''ZSET:PROXIES'', ''0'', ''-1'']"
  let ?p2 = "redis_send ?z2 (redis_send z1 p)"
  have "only_zrem ?p2 p'" using PingRedis_sends [OF assms(1,2)] by (simp only: z1_def)
  then obtain zs where zs: "p_redisSent p' = p_redisSent p @ [z1, ?z2] @ zs" "list_all zrem zs"
    by (auto simp: only_zrem_def redis_send_def)
  have port: "i32 (p_responderPort p) = p_responderPort p" using assms(5,6) by (simp add: i32_id)
  have len: "length (command z1) \<le> 1073741823" using assms(7) by (simp add: z1_def)
  have "redisFormatCommand m other True (''ZADD ZSET:PROXIES %i %s#tcp://%s:%i'' @ [NUL])
      [ArgNum (e_now e), ArgPtr (Some (p_guid p @ [NUL])), ArgPtr (Some (p_host p @ [NUL])), ArgNum (p_responderPort p)] =
      Inr (int (length (command z1)), Some (command z1 @ [NUL]))"
    by (rule formats_as [where ps = "map Lit ''ZADD'' @ [Blank] @ map Lit ''ZSET:PROXIES'' @ [Blank, Num (e_now e), Blank, Str (p_guid p)] @
          map Lit ''#tcp://'' @ [Str (p_host p)] @ [Lit (CHR '':''), Num (p_responderPort p)]"])
      (use assms(3,4,8) port len in \<open>simp_all add: z1_def\<close>)
  moreover have "redisFormatCommand m other True (''ZREVRANGE ZSET:PROXIES 0 -1'' @ [NUL]) [] =
      Inr (int (length (command ?z2)), Some (command ?z2 @ [NUL]))"
    by (rule formats_as [where ps = "map Lit ''ZREVRANGE'' @ [Blank] @ map Lit ''ZSET:PROXIES'' @ [Blank, Lit (CHR ''0''), Blank] @ map Lit ''-1''"])
      (use assms(8) in \<open>simp_all add: encode.simps(2) dec_nat_eval\<close>)
  moreover have "redisFormatCommand m other True (''ZREM ZSET:PROXIES %s'' @ [NUL]) [ArgPtr (Some (key @ [NUL]))] =
        Inr (int (length (command [''ZREM'', ''ZSET:PROXIES'', key])), Some (command [''ZREM'', ''ZSET:PROXIES'', key] @ [NUL]))"
    if "no_nul key" "length (command [''ZREM'', ''ZSET:PROXIES'', key]) \<le> 1073741823" for key
    by (rule formats_as [where ps = "map Lit ''ZREM'' @ [Blank] @ map Lit ''ZSET:PROXIES'' @ [Blank, Str key]"])
      (use assms(8) that in simp_all)
  ultimately show ?thesis using zs by blast
qed

theorem ping_redis_on_the_wire_witness:
  "\<exists>p'. PingRedis sample_env (\<lambda>_. 0) (\<lambda>_. RecvAgain) (\<lambda>_. sample_call) (Some ReplyNil) (Some ReplyNil) sample_proxy = Inr p' \<and>
    (\<exists>z1 z2 zs. p_redisSent p' = p_redisSent sample_proxy @ [z1, z2] @ zs \<and> list_all zrem zs \<and>
    redisFormatCommand mem_all (\<lambda>_ _. []) True (''ZADD ZSET:PROXIES %i %s#tcp://%s:%i'' @ [NUL])
      [ArgNum 1000, ArgPtr (Some (''0000000000000000'' @ [NUL])), ArgPtr (Some (''localhost'' @ [NUL])), ArgNum 7770] =
      Inr (int (length (command z1)), Some (command z1 @ [NUL])))"
proof -
  let ?z = "[''ZADD'', ''ZSET:PROXIES'', dec_int (i32 (e_now sample_env)),
    p_guid sample_proxy @ ''#tcp://'' @ p_host sample_proxy @ '':'' @ dec_int (p_responderPort sample_proxy)]"
  define p' where "p' = redis_send [''ZREVRANGE'', ''ZSET:PROXIES'', ''0'', ''-1''] (redis_send ?z sample_proxy)
    \<lparr>p_lastRedisPing := i32 (e_now sample_env)\<rparr>"
  have ping: "PingRedis sample_env (\<lambda>_. 0) (\<lambda>_. RecvAgain) (\<lambda>_. sample_call) (Some ReplyNil) (Some ReplyNil) sample_proxy = Inr p'"
    by (simp add: PingRedis_def p'_def Let_def) (simp add: sample_env_def sample_proxy_def)
  have "length (command ?z) \<le> 1073741823"
    by (simp add: encode.simps(2) dec_nat_eval sample_env_def sample_proxy_def i32_def dec_int_def)
  then have "\<exists>z1 z2 zs. p_redisSent p' = p_redisSent sample_proxy @ [z1, z2] @ zs \<and> list_all zrem zs \<and>
    redisFormatCommand mem_all (\<lambda>_ _. []) True (''ZADD ZSET:PROXIES %i %s#tcp://%s:%i'' @ [NUL])
      [ArgNum (e_now sample_env), ArgPtr (Some (p_guid sample_proxy @ [NUL])), ArgPtr (Some (p_host sample_proxy @ [NUL])),
       ArgNum (p_responderPort sample_proxy)] = Inr (int (length (command z1)), Some (command z1 @ [NUL]))"
    using ping_redis_on_the_wire [OF ping, of mem_all "\<lambda>_ _. []"]
    by (auto simp: sample_env_def sample_proxy_def no_nul_def mem_all_def)
  then show ?thesis using ping by (simp add: sample_env_def sample_proxy_def)
qed

section \<open>From the start to the first reply\<close>

text \<open>
  C10: A proxy that finds Redis at its start can talk to it.  The constructor ends only when the byte behind the GUID,
  which it never writes, happens to be a NUL; when it then ends with a
  connection, the proxy satisfies its invariant, and the first command on the connection, with any
  format and arguments, sends exactly the encoding of the command and returns the reply that arrives,
  however the socket cuts the two streams.  The name lookup, the system calls that connect and the ports
  that were free are arbitrary.
\<close>

theorem proxy_start_first_reply:
  assumes "Proxy_start m ne n rnd tail now esbhost redishost redisPort errno rbind pbind = Inr (p, Some c)" "fresh_fds ne" "\<forall>n. mem_ok m n"
    and "list_all piece_ok ps" "args = words ps [] False" "drains (length (command args)) ws" "2 * length (command args) \<le> 2147483647"
    and "encodable t" "nesting t \<le> 8" "list_all usable rds" "read_bytes rds = encode t" "2 * length (encode t) \<le> 2147483647"
  shows "tail = NUL \<and> proxy_inv p \<and> (\<exists>res a r'. redisCommand m strerror other ws rds (concat (map piece_fmt ps) @ [NUL]) (concat (map piece_args ps)) c =
      Inr (Some res) \<and> cr_reply res = Some a \<and> cr_sent res = command args \<and>
    rc_reader (cr_ctx res) = Some r' \<and> rep 0 (rd_heap r') a t \<and> rc_err (cr_ctx res) = 0)"
proof -
  from assms(1) have p: "Proxy_new rnd tail now esbhost errno rbind pbind = Inr p"
    and c: "\<exists>rh. redisConnect m (connect_tcp ne n) rh (i32 (int redisPort)) = Some c" "rc_err c = 0"
    by (auto simp: Proxy_start_def Proxy_redisCtx_def bind_res_Inr split: option.splits if_splits)
  from c(1) redisConnect_idle [OF assms(2) _ c(2) assms(3)] obtain s r where
    r: "idle_context c s r" "sds_str s = []" "rd_len r = 0" "rd_heap r = []" by blast
  have "arrives r t [] rds" using assms(8-12) r(3) by (simp add: arrives_def)
  from command_exchange [OF r(1) assms(4,5) this _ _ assms(3), of ws strerror other] r(2,4) assms(6,7)
  show ?thesis using Proxy_new_inv [OF p] Proxy_new_unterminated [of tail] p by fastforce
qed

definition reachable_net :: net_env where
  "reachable_net = one_socket\<lparr>ne_getaddrinfo := (\<lambda>_ _ _. Inr [Inet AF_INET ''b''])\<rparr>"

lemma reachable_fresh: "fresh_fds reachable_net"
  using one_socket_fresh by (simp add: reachable_net_def fresh_fds_def)

lemma reachable_connects:
  "rc_err (connect_tcp reachable_net \<lparr>n_log = [], n_errno = 0\<rparr> host port timeout c) = rc_err c"
  by (simp add: connect_tcp_def connect_effect_def redisContextConnectTcp_def reachable_net_def one_socket_def sample_net_def
      sample_os_def sys_def Let_def redisSetBlocking_def start_connect_def finish_connect_def redisSetTcpNoDelay_def)

lemma reachable_start:
  "\<exists>p c. Proxy_start mem_all reachable_net \<lparr>n_log = [], n_errno = 0\<rparr> (\<lambda>_. 0) NUL 900 ''localhost'' ''redis'' 6379 0 (\<lambda>_ _. (0, 0)) (\<lambda>_ _. (0, 0)) =
    Inr (p, Some c)"
proof -
  obtain p where "Proxy_new (\<lambda>_. 0) NUL 900 ''localhost'' 0 (\<lambda>_ _. (0, 0)) (\<lambda>_ _. (0, 0)) = Inr p"
    by (simp add: Proxy_new_def guid_array_read Responder_new_def Publisher_new_def strcpy_into_def c_str_def bind_loop.simps ADDR_IN_USE_ERROR_def)
  moreover obtain c0 where "redisContextInit mem_all = Some c0" "rc_err c0 = 0" by (simp add: redisContextInit_def mem_all_def)
  ultimately show ?thesis
    by (simp add: Proxy_start_def guid_array_read Proxy_redisCtx_def strcpy_into_def c_str_def redisConnect_def connect_blocking_def reachable_connects)
qed

theorem proxy_start_first_reply_witness:
  "\<exists>p c res a r'. Proxy_start mem_all reachable_net \<lparr>n_log = [], n_errno = 0\<rparr> (\<lambda>_. 0) NUL 900 ''localhost'' ''redis'' 6379 0 (\<lambda>_ _. (0, 0)) (\<lambda>_ _. (0, 0)) =
      Inr (p, Some c) \<and> proxy_inv p \<and>
    redisCommand mem_all (\<lambda>_. []) (\<lambda>_ _. []) [Wrote 9, WriteError EINTR, Wrote 11] [Received ''+P'', Received (''ONG'' @ [CR, LF])]
      (''GET %s'' @ [NUL]) [ArgPtr (Some (''k'' @ [NUL]))] c = Inr (Some res) \<and>
    cr_reply res = Some a \<and> cr_sent res = command [''GET'', ''k''] \<and> rc_reader (cr_ctx res) = Some r' \<and>
    rep 0 (rd_heap r') a (ReplyStatus ''PONG'')"
proof -
  from reachable_start obtain p c where start: "Proxy_start mem_all reachable_net \<lparr>n_log = [], n_errno = 0\<rparr> (\<lambda>_. 0) NUL 900 ''localhost'' ''redis'' 6379 0
      (\<lambda>_ _. (0, 0)) (\<lambda>_ _. (0, 0)) = Inr (p, Some c)" by blast
  have "length (command [''GET'', ''k'']) = 20" by (simp add: encode.simps(2) dec_nat_eval)
  moreover have "drains 20 [Wrote 9, WriteError EINTR, Wrote 11]" by code_simp
  ultimately show ?thesis
    using proxy_start_first_reply [OF start reachable_fresh, of "map Lit ''GET'' @ [Blank, Str ''k'']" "[''GET'', ''k'']"
        "[Wrote 9, WriteError EINTR, Wrote 11]" "ReplyStatus ''PONG''" "[Received ''+P'', Received (''ONG'' @ [CR, LF])]" "\<lambda>_. []" "\<lambda>_ _. []"] start
    by (simp add: mem_all_def no_nul_def one_line_def) blast
qed

end
